(* ===== verification/Prelude.thy ===== *)
theory Prelude
  imports Main "HOL-Library.Word"
begin

text \<open>
  Shared vocabulary of the development: the machine integers of the C++ code, its characters
  and character classes (C locale), decimal numerals, C's truncating division, sorted
  association lists as the model of \<^verbatim>\<open>std::map\<close>, and the automation collections.

  \<^item> \<^verbatim>\<open>char\<close> is a signed byte on the platforms the code targets, so arithmetic on a
    character goes through \<open>schar\<close>.
  \<^item> A C string is a list of characters without its terminator; \<open>cstr\<close> cuts a buffer at its
    first NUL.
  \<^item> Signed overflow is undefined in C++; where the code can reach it the model wraps, as the
    compilers the project supports do.
\<close>

unbundle bit_operations_syntax

named_theorems char_defs \<open>definitions of the character classes\<close>
named_theorems c_arith \<open>evaluation of C integer operations\<close>

type_synonym u8 = "8 word"
type_synonym u16 = "16 word"
type_synonym u32 = "32 word"
type_synonym u64 = "64 word"
type_synonym i32 = "32 word"
type_synonym i64 = "64 word"

abbreviation NUL :: char where "NUL \<equiv> CHR 0x00"
abbreviation SOH :: char where "SOH \<equiv> CHR 0x01"

subsection \<open>Characters\<close>

definition uchar :: "char \<Rightarrow> nat" where
  "uchar c = of_char c"

definition schar :: "char \<Rightarrow> int" where
  "schar c = (if uchar c < 128 then int (uchar c) else int (uchar c) - 256)"

definition isdigit :: "char \<Rightarrow> bool" where
  [char_defs]: "isdigit c \<longleftrightarrow> 48 \<le> uchar c \<and> uchar c \<le> 57"

definition isspace :: "char \<Rightarrow> bool" where
  [char_defs]: "isspace c \<longleftrightarrow> uchar c = 32 \<or> (9 \<le> uchar c \<and> uchar c \<le> 13)"

definition isupper :: "char \<Rightarrow> bool" where
  [char_defs]: "isupper c \<longleftrightarrow> 65 \<le> uchar c \<and> uchar c \<le> 90"

definition islower :: "char \<Rightarrow> bool" where
  [char_defs]: "islower c \<longleftrightarrow> 97 \<le> uchar c \<and> uchar c \<le> 122"

definition toupper :: "char \<Rightarrow> char" where
  "toupper c = (if islower c then char_of (uchar c - 32) else c)"

definition tolower :: "char \<Rightarrow> char" where
  "tolower c = (if isupper c then char_of (uchar c + 32) else c)"

definition cstr :: "string \<Rightarrow> string" where
  "cstr s = takeWhile (\<lambda>c. c \<noteq> NUL) s"

lemma uchar_less: "uchar c < 256"
  by (simp add: uchar_def)

lemma uchar_inj: "uchar c = uchar d \<Longrightarrow> c = d"
  by (metis uchar_def char_of_char)

lemma uchar_char_of: "n < 256 \<Longrightarrow> uchar (char_of n) = n"
  by (simp add: uchar_def)

lemma schar_mod: "schar c mod 256 = int (uchar c)"
  using uchar_less [of c] by (simp add: schar_def)

lemma cstr_idem: "NUL \<notin> set s \<Longrightarrow> cstr s = s"
  by (auto simp: cstr_def takeWhile_eq_all_conv)

lemma cstr_no_NUL: "NUL \<notin> set (cstr s)"
  by (auto simp: cstr_def dest: set_takeWhileD)

lemma cstr_append_NUL: "NUL \<notin> set s \<Longrightarrow> cstr (s @ NUL # t) = s"
  unfolding cstr_def by (subst takeWhile_append2) auto

subsection \<open>Decimal digits\<close>

definition digit_char :: "nat \<Rightarrow> char" where
  "digit_char d = char_of (48 + d)"

definition digit_val :: "char \<Rightarrow> nat" where
  "digit_val c = uchar c - 48"

text \<open>The value of a string of digits, and the decimal numeral of a number.\<close>

definition dec_value :: "string \<Rightarrow> nat" where
  "dec_value s = foldl (\<lambda>n c. 10 * n + digit_val c) 0 s"

fun dec_numeral :: "nat \<Rightarrow> string" where
  "dec_numeral n = (if n < 10 then [digit_char n] else dec_numeral (n div 10) @ [digit_char (n mod 10)])"

declare dec_numeral.simps [simp del]

lemma uchar_digit_char: "d < 10 \<Longrightarrow> uchar (digit_char d) = 48 + d"
  by (simp add: digit_char_def uchar_char_of)

lemma digit_val_digit_char [simp]: "d < 10 \<Longrightarrow> digit_val (digit_char d) = d"
  by (simp add: digit_val_def uchar_digit_char)

lemma isdigit_digit_char [simp]: "d < 10 \<Longrightarrow> isdigit (digit_char d)"
  by (simp add: isdigit_def uchar_digit_char)

lemma schar_digit: "isdigit c \<Longrightarrow> schar c = 48 + int (digit_val c)"
  by (auto simp: isdigit_def schar_def digit_val_def)

lemma digit_char_neq [simp]:
  "d < 10 \<Longrightarrow> digit_char d \<noteq> NUL" "d < 10 \<Longrightarrow> digit_char d \<noteq> SOH"
  by (auto dest!: arg_cong [where f = uchar] simp: uchar_digit_char) (simp_all add: uchar_def)

lemma isdigit_neq:
  "isdigit c \<Longrightarrow> c \<noteq> NUL" "isdigit c \<Longrightarrow> c \<noteq> SOH" "isdigit c \<Longrightarrow> c \<noteq> CHR ''=''"
  by (auto simp: isdigit_def uchar_def)

lemma dec_numeral_nonempty [simp]: "dec_numeral n \<noteq> []"
  by (subst dec_numeral.simps) simp

lemma dec_numeral_digits: "c \<in> set (dec_numeral n) \<Longrightarrow> isdigit c"
proof (induction n rule: dec_numeral.induct)
  case (1 n)
  then show ?case
    by (cases "n < 10") (auto simp: dec_numeral.simps [of n])
qed

lemma dec_value_append: "dec_value (s @ [c]) = 10 * dec_value s + digit_val c"
  by (simp add: dec_value_def)

lemma dec_value_numeral [simp]: "dec_value (dec_numeral n) = n"
proof (induction n rule: dec_numeral.induct)
  case (1 n)
  show ?case
  proof (cases "n < 10")
    case True
    then show ?thesis by (simp add: dec_numeral.simps [of n] dec_value_def)
  next
    case False
    then have "dec_numeral n = dec_numeral (n div 10) @ [digit_char (n mod 10)]"
      by (simp add: dec_numeral.simps [of n])
    with False "1" show ?thesis by (simp add: dec_value_append)
  qed
qed

lemma dec_numeral_no_sep: "NUL \<notin> set (dec_numeral n)" "SOH \<notin> set (dec_numeral n)"
  "CHR ''='' \<notin> set (dec_numeral n)"
  using dec_numeral_digits isdigit_neq by blast+

subsection \<open>C integer division\<close>

text \<open>C++ rounds the quotient towards zero, and the remainder has the sign of the dividend.\<close>

definition cdiv :: "int \<Rightarrow> int \<Rightarrow> int" where
  [c_arith]: "cdiv a b = sgn a * sgn b * (\<bar>a\<bar> div \<bar>b\<bar>)"

definition cmod :: "int \<Rightarrow> int \<Rightarrow> int" where
  [c_arith]: "cmod a b = a - b * cdiv a b"

lemma cdiv_nonneg: "0 \<le> a \<Longrightarrow> 0 < b \<Longrightarrow> cdiv a b = a div b"
  by (cases "a = 0") (simp_all add: cdiv_def)

lemma cmod_nonneg: "0 \<le> a \<Longrightarrow> 0 < b \<Longrightarrow> cmod a b = a mod b"
  by (simp add: cmod_def cdiv_nonneg minus_mult_div_eq_mod)

lemma cdiv_minus_left: "cdiv (- a) b = - cdiv a b"
  by (simp add: cdiv_def sgn_minus)

lemma cdiv_abs_less: "a \<noteq> 0 \<Longrightarrow> 2 \<le> b \<Longrightarrow> \<bar>cdiv a b\<bar> < \<bar>a\<bar>"
  by (auto simp: cdiv_def abs_mult sgn_if int_div_less_self pos_imp_zdiv_nonneg_iff)

subsection \<open>Sorted association lists: the model of an ordered map\<close>

text \<open>
  \<^verbatim>\<open>std::map\<close> iterates in key order. It is a list of pairs with strictly increasing keys;
  \<open>om_insert\<close> keeps an existing entry, as \<^verbatim>\<open>insert\<close> does, and \<open>om_set\<close> overwrites it.
\<close>

definition om_ok :: "('k::linorder \<times> 'v) list \<Rightarrow> bool" where
  "om_ok m \<longleftrightarrow> sorted_wrt (<) (map fst m)"

fun om_insert :: "'k::linorder \<Rightarrow> 'v \<Rightarrow> ('k \<times> 'v) list \<Rightarrow> ('k \<times> 'v) list" where
  "om_insert k v [] = [(k, v)]"
| "om_insert k v ((k', v') # m) =
     (if k < k' then (k, v) # (k', v') # m
      else if k = k' then (k', v') # m
      else (k', v') # om_insert k v m)"

fun om_set :: "'k::linorder \<Rightarrow> 'v \<Rightarrow> ('k \<times> 'v) list \<Rightarrow> ('k \<times> 'v) list" where
  "om_set k v [] = [(k, v)]"
| "om_set k v ((k', v') # m) =
     (if k < k' then (k, v) # (k', v') # m
      else if k = k' then (k, v) # m
      else (k', v') # om_set k v m)"

definition om_erase :: "'k \<Rightarrow> ('k \<times> 'v) list \<Rightarrow> ('k \<times> 'v) list" where
  "om_erase k m = filter (\<lambda>p. fst p \<noteq> k) m"

lemma fst_set_om_insert: "fst ` set (om_insert k v m) = insert k (fst ` set m)"
  by (induction k v m rule: om_insert.induct) auto

lemma fst_set_om_set: "fst ` set (om_set k v m) = insert k (fst ` set m)"
  by (induction k v m rule: om_set.induct) auto

lemma om_ok_Nil [simp]: "om_ok []"
  by (simp add: om_ok_def)

lemma om_ok_Cons: "om_ok ((k, v) # m) \<longleftrightarrow> (\<forall>k' \<in> fst ` set m. k < k') \<and> om_ok m"
  by (auto simp: om_ok_def)

lemma om_ok_insert: "om_ok m \<Longrightarrow> om_ok (om_insert k v m)"
  by (induction k v m rule: om_insert.induct)
    (auto simp: om_ok_Cons fst_set_om_insert simp flip: not_less_iff_gr_or_eq dest: less_trans)

lemma om_ok_set: "om_ok m \<Longrightarrow> om_ok (om_set k v m)"
  by (induction k v m rule: om_set.induct)
    (auto simp: om_ok_Cons fst_set_om_set simp flip: not_less_iff_gr_or_eq dest: less_trans)

lemma om_ok_erase: "om_ok m \<Longrightarrow> om_ok (om_erase k m)"
  by (induction m) (auto simp: om_erase_def om_ok_Cons)

lemma om_ok_distinct: "om_ok m \<Longrightarrow> distinct (map fst m)"
  by (auto simp: om_ok_def strict_sorted_iff)

lemma om_below_None: "\<forall>k' \<in> fst ` set m. (k :: 'k::linorder) < k' \<Longrightarrow> map_of m k = None"
  by (auto simp: map_of_eq_None_iff)

lemma map_of_om_insert:
  "om_ok m \<Longrightarrow>
    map_of (om_insert k v m) x =
      (if x = k then (case map_of m k of None \<Rightarrow> Some v | Some w \<Rightarrow> Some w) else map_of m x)"
proof (induction k v m rule: om_insert.induct)
  case (2 k v k' v' m)
  consider "k < k'" | "k = k'" | "k' < k" by fastforce
  then show ?case
  proof cases
    case 1
    with "2.prems" have "map_of m k = None"
      by (intro om_below_None) (auto simp: om_ok_Cons dest: less_trans)
    with 1 show ?thesis by auto
  next
    case 3
    with 2 show ?thesis by (auto simp: om_ok_Cons)
  qed auto
qed auto

lemma map_of_om_set: "map_of (om_set k v m) = (map_of m)(k \<mapsto> v)"
  by (induction k v m rule: om_set.induct) (auto simp: fun_eq_iff)

lemma map_of_om_erase: "map_of (om_erase k m) = (map_of m)(k := None)"
  by (induction m) (auto simp: om_erase_def fun_eq_iff)

lemmas om_ok_intros [intro] = om_ok_insert om_ok_set om_ok_erase
lemmas om_lookup = map_of_om_insert map_of_om_set map_of_om_erase

end
