(* ===== verification/Calendar.thy ===== *)
theory Calendar
  imports Prelude
begin

text \<open>
  \<^verbatim>\<open>include/fix8/tickval.hpp\<close> and the date and time codecs of \<^verbatim>\<open>include/fix8/field.hpp\<close>. A
  \<open>Tickval\<close> is its count of nanoseconds since 1970. The current time is an argument.
  \<open>None\<close> is undefined behaviour: an \<^verbatim>\<open>int\<close> that overflows, a read past the end of the
  text, an index outside the table of month starts.
\<close>

section \<open>\<^verbatim>\<open>Tickval\<close>\<close>

type_synonym ticks = int

definition errorticks :: ticks where "errorticks = 2 ^ 63 - 1"
definition thousand :: ticks where [c_arith]: "thousand = 1000"
definition million :: ticks where [c_arith]: "million = thousand * thousand"
definition billion :: ticks where [c_arith]: "billion = thousand * million"
definition tv_minute :: ticks where [c_arith]: "tv_minute = 60 * billion"
definition tv_hour :: ticks where [c_arith]: "tv_hour = 60 * tv_minute"
definition tv_day :: ticks where [c_arith]: "tv_day = 24 * tv_hour"
definition tv_week :: ticks where [c_arith]: "tv_week = 7 * tv_day"

definition tv_secs :: "ticks \<Rightarrow> int" where
  "tv_secs t = cdiv t billion"

definition tv_msecs :: "ticks \<Rightarrow> u32" where
  "tv_msecs t = of_int (cmod (cdiv t million) 1000)"

definition tv_usecs :: "ticks \<Rightarrow> u32" where
  "tv_usecs t = of_int (cmod (cdiv t thousand) 1000000)"

definition tv_nsecs :: "ticks \<Rightarrow> u32" where
  "tv_nsecs t = of_int (cmod t 1000000000)"

definition is_errorval :: "ticks \<Rightarrow> bool" where
  "is_errorval t \<longleftrightarrow> t = errorticks"

definition in_range :: "ticks \<Rightarrow> ticks \<Rightarrow> ticks \<Rightarrow> bool" where
  "in_range t a b \<longleftrightarrow> (if \<not> is_errorval b then a \<le> t \<and> t \<le> b else a \<le> t)"

section \<open>The civil calendar\<close>

text \<open>
  \<^verbatim>\<open>struct tm\<close> and \<^verbatim>\<open>gmtime_r\<close> of the C library, in the proleptic Gregorian calendar: the year is
  found by stepping over whole years from 1970, the month by stepping over whole months.
\<close>

record tm =
  tm_sec :: int
  tm_min :: int
  tm_hour :: int
  tm_mday :: int
  tm_mon :: int
  tm_year :: int
  tm_wday :: int
  tm_yday :: int

definition tm_zero :: tm where
  "tm_zero = \<lparr>tm_sec = 0, tm_min = 0, tm_hour = 0, tm_mday = 0, tm_mon = 0, tm_year = 0,
              tm_wday = 0, tm_yday = 0\<rparr>"

definition leap :: "int \<Rightarrow> bool" where
  "leap y \<longleftrightarrow> y mod 4 = 0 \<and> (y mod 100 \<noteq> 0 \<or> y mod 400 = 0)"

definition year_len :: "int \<Rightarrow> int" where
  "year_len y = (if leap y then 366 else 365)"

definition month_lens :: "int \<Rightarrow> int list" where
  "month_lens y = [31, if leap y then 29 else 28, 31, 30, 31, 30, 31, 31, 30, 31, 30, 31]"

function civil_year :: "int \<Rightarrow> int \<Rightarrow> int \<times> int" where
  "civil_year y d =
     (if d < 0 then civil_year (y - 1) (d + year_len (y - 1))
      else if year_len y \<le> d then civil_year (y + 1) (d - year_len y)
      else (y, d))"
  by pat_completeness auto
termination
  by (relation "measure (\<lambda>(y, d). if d < 0 then nat (366 - d) else nat d)") (auto simp: year_len_def split: if_splits)

declare civil_year.simps [simp del]

fun civil_month :: "int list \<Rightarrow> int \<Rightarrow> int \<Rightarrow> int \<times> int" where
  "civil_month [] m d = (m, d)"
| "civil_month (l # ls) m d = (if l \<le> d then civil_month ls (m + 1) (d - l) else (m, d))"

definition gmtime :: "int \<Rightarrow> tm" where
  "gmtime s =
     (let days = s div 86400; rest = s mod 86400;
          (y, yd) = civil_year 1970 days;
          (m, md) = civil_month (month_lens y) 0 yd
      in \<lparr>tm_sec = rest mod 60, tm_min = rest div 60 mod 60, tm_hour = rest div 3600,
          tm_mday = md + 1, tm_mon = m, tm_year = y - 1900,
          tm_wday = (4 + days) mod 7, tm_yday = yd\<rparr>)"

definition get_tm :: "ticks \<Rightarrow> tm" where
  "get_tm t = gmtime (tv_secs t)"

text \<open>Days in whole years, and the day number of a date, the reference of the conversions below.\<close>

fun year_days :: "int \<Rightarrow> nat \<Rightarrow> int" where
  "year_days y 0 = 0"
| "year_days y (Suc n) = year_len y + year_days (y + 1) n"

definition day_number :: "nat \<Rightarrow> nat \<Rightarrow> int \<Rightarrow> int" where
  "day_number n m md = year_days 1970 n + sum_list (take m (month_lens (1970 + int n))) + md - 1"

section \<open>The codecs\<close>

text \<open>An \<^verbatim>\<open>int\<close> operation whose result does not fit is undefined.\<close>

definition chk :: "int \<Rightarrow> int option" where
  "chk x = (if - (2 ^ 31) \<le> x \<and> x < 2 ^ 31 then Some x else None)"

fun format0 :: "int \<Rightarrow> nat \<Rightarrow> string" where
  "format0 data 0 = []"
| "format0 data (Suc width) =
     format0 (cdiv data 10) width @ [char_of (nat ((cmod data 10 + 48) mod 256))]"

text \<open>\<open>parse_decimal\<close> returns the value and the rest of the text.\<close>

fun parse_decimal :: "string \<Rightarrow> nat \<Rightarrow> int \<Rightarrow> (int \<times> string) option" where
  "parse_decimal str 0 to = Some (to, str)"
| "parse_decimal [] (Suc n) to = None"
| "parse_decimal (c # str) (Suc n) to = parse_decimal str n (to * 8 + to * 2 + (schar c - 48))"

definition mon_days :: "int list" where
  "mon_days =
     [0, 31, 31 + 28, 31 + 28 + 31, 31 + 28 + 31 + 30, 31 + 28 + 31 + 30 + 31,
      31 + 28 + 31 + 30 + 31 + 30, 31 + 28 + 31 + 30 + 31 + 30 + 31,
      31 + 28 + 31 + 30 + 31 + 30 + 31 + 31, 31 + 28 + 31 + 30 + 31 + 30 + 31 + 31 + 30,
      31 + 28 + 31 + 30 + 31 + 30 + 31 + 31 + 30 + 31,
      31 + 28 + 31 + 30 + 31 + 30 + 31 + 31 + 30 + 31 + 30,
      31 + 28 + 31 + 30 + 31 + 30 + 31 + 31 + 30 + 31 + 30 + 31]"

definition epoch_days :: "tm \<Rightarrow> int option" where
  "epoch_days ltm =
     (let tyears = (if tm_year ltm \<noteq> 0 then tm_year ltm - 70 else 0)
      in if tm_mon ltm < 0 \<or> 12 < tm_mon ltm then None
         else
           let tdays = mon_days ! nat (tm_mon ltm) + (if tm_mday ltm \<noteq> 0 then tm_mday ltm - 1 else 0)
                       + tyears * 365 + cdiv (tyears + 2) 4
           in Some (if tm_year ltm \<noteq> 0 \<and> cmod (tm_year ltm) 4 = 0 \<and> tm_mon ltm < 2
                    then tdays - 1 else tdays))"

text \<open>
  The sum of the return statement is evaluated from the left. The years the codecs pass have four
  digits, so the number of days itself cannot overflow.
\<close>

definition time_to_epoch :: "tm \<Rightarrow> int \<Rightarrow> int option" where
  "time_to_epoch ltm utcdiff =
     Option.bind (epoch_days ltm) (\<lambda>tdays.
     Option.bind (chk (tdays * 86400)) (\<lambda>a.
     Option.bind (chk ((tm_hour ltm + utcdiff) * 3600)) (\<lambda>b.
     Option.bind (chk (a + b)) (\<lambda>ab.
     Option.bind (chk (tm_min ltm * 60)) (\<lambda>c.
     Option.bind (chk (ab + c)) (\<lambda>abc. chk (abc + tm_sec ltm)))))))"

datatype TimeIndicator =
  time_only | time_with_ms | short_date_only | date_only | sec_only | with_ms

definition format_time :: "ticks \<Rightarrow> tm \<Rightarrow> bool \<Rightarrow> string" where
  "format_time tickval result ms =
     format0 (tm_hour result) 2 @ '':'' @ format0 (tm_min result) 2 @ '':'' @ format0 (tm_sec result) 2
     @ (if ms then ''.'' @ format0 (sint (tv_msecs tickval)) 3 else [])"

definition date_time_format :: "ticks \<Rightarrow> TimeIndicator \<Rightarrow> string" where
  "date_time_format tickval ind =
     (let result = get_tm tickval;
          ym = format0 (tm_year result + 1900) 4 @ format0 (tm_mon result + 1) 2;
          ymd = ym @ format0 (tm_mday result) 2
      in case ind of
           short_date_only \<Rightarrow> ym
         | date_only \<Rightarrow> ymd
         | sec_only \<Rightarrow> ymd @ ''-'' @ format_time tickval result False
         | with_ms \<Rightarrow> ymd @ ''-'' @ format_time tickval result True
         | time_only \<Rightarrow> format_time tickval result False
         | time_with_ms \<Rightarrow> format_time tickval result True)"

text \<open>
  The text passed to the decoders is followed by its terminator, which the code may read. \<open>skip\<close>
  is \<^verbatim>\<open>++ptr\<close>.
\<close>

definition skip :: "string \<Rightarrow> string option" where
  "skip str = (case str of [] \<Rightarrow> None | _ # cs \<Rightarrow> Some cs)"

definition is_now :: "string \<Rightarrow> bool" where
  "is_now s \<longleftrightarrow> s = [] \<or> s = ''now''"

text \<open>Hours, minutes and seconds with the separators between them.\<close>

definition parse_hms :: "string \<Rightarrow> tm \<Rightarrow> (tm \<times> string) option" where
  "parse_hms p0 tms =
     Option.bind (parse_decimal p0 2 (tm_hour tms)) (\<lambda>(h, p1). Option.bind (skip p1) (\<lambda>p2.
     Option.bind (parse_decimal p2 2 (tm_min tms)) (\<lambda>(mi, p3). Option.bind (skip p3) (\<lambda>p4.
     Option.bind (parse_decimal p4 2 (tm_sec tms)) (\<lambda>(s, p5).
     Some (tms\<lparr>tm_hour := h, tm_min := mi, tm_sec := s\<rparr>, p5))))))"

definition parse_ym :: "string \<Rightarrow> tm \<Rightarrow> (tm \<times> string) option" where
  "parse_ym p0 tms =
     Option.bind (parse_decimal p0 4 (tm_year tms)) (\<lambda>(y, p1).
     Option.bind (parse_decimal p1 2 (tm_mon tms)) (\<lambda>(m, p2).
     Some (tms\<lparr>tm_year := y - 1900, tm_mon := m - 1\<rparr>, p2)))"

definition parse_ms :: "string \<Rightarrow> ticks option" where
  "parse_ms p = Option.bind (skip p) (\<lambda>q. Option.bind (parse_decimal q 3 0) (\<lambda>(ms, _). Some (ms * million)))"

definition date_time_parse :: "ticks \<Rightarrow> string \<Rightarrow> ticks option" where
  "date_time_parse now s =
     (if is_now s then Some now
      else
        Option.bind (parse_ym (s @ [NUL]) tm_zero) (\<lambda>(t1, p1).
        Option.bind (parse_decimal p1 2 (tm_mday t1)) (\<lambda>(d, p2).
        Option.bind (skip p2) (\<lambda>p3.
        Option.bind (parse_hms p3 (t1\<lparr>tm_mday := d\<rparr>)) (\<lambda>(tms, p4).
        if length s = 21 then
          Option.bind (parse_ms p4) (\<lambda>ms.
          Option.bind (time_to_epoch tms 0) (\<lambda>e. Some (ms + e * billion)))
        else if length s = 17 then
          Option.bind (time_to_epoch tms 0) (\<lambda>e. Some (e * billion))
        else Some 0)))))"

definition time_parse :: "ticks \<Rightarrow> string \<Rightarrow> bool \<Rightarrow> ticks option" where
  "time_parse now s timeonly =
     (if is_now s then Some now
      else
        Option.bind (parse_hms (s @ [NUL]) tm_zero) (\<lambda>(tms, p).
        let secs = (if timeonly then Some (tm_hour tms * 3600 + tm_min tms * 60 + tm_sec tms)
                    else time_to_epoch tms 0)
        in if length s = 12 then
             Option.bind (parse_ms p) (\<lambda>ms. Option.bind secs (\<lambda>e. Some (ms + e * billion)))
           else if length s = 8 then Option.bind secs (\<lambda>e. Some (e * billion))
           else Some 0))"

definition date_parse :: "ticks \<Rightarrow> string \<Rightarrow> ticks option" where
  "date_parse now s =
     (if is_now s then Some now
      else
        Option.bind (parse_ym (s @ [NUL]) tm_zero) (\<lambda>(t1, p1).
        Option.bind (if length s = 8 then map_option fst (parse_decimal p1 2 (tm_mday t1)) else Some 1) (\<lambda>d.
        Option.bind (time_to_epoch (t1\<lparr>tm_mday := d\<rparr>) 0) (\<lambda>e. Some (e * billion)))))"

section \<open>Correctness\<close>

subsection \<open>The civil calendar\<close>

lemma year_len_pos: "365 \<le> year_len y" "year_len y \<le> 366"
  by (simp_all add: year_len_def)

lemma leap_range: "1970 \<le> y \<Longrightarrow> y < 2100 \<Longrightarrow> leap y \<longleftrightarrow> y mod 4 = 0"
proof -
  assume y: "1970 \<le> y" "y < 2100"
  have "y mod 400 = 0" if "y mod 100 = 0"
  proof -
    from that have q: "y = 100 * (y div 100)" using mult_div_mod_eq [of 100 y] by simp
    with y have "y div 100 = 20" by linarith
    with q have "y = 2000" by simp
    then show ?thesis by simp
  qed
  then show ?thesis by (auto simp: leap_def)
qed

lemma year_days_Suc: "year_days y (Suc n) = year_days y n + year_len (y + int n)"
proof (induction n arbitrary: y)
  case (Suc n)
  have "year_days y (Suc (Suc n)) = year_len y + year_days (y + 1) (Suc n)"
    by (simp only: year_days.simps)
  also have "\<dots> = year_days y (Suc n) + year_len (y + 1 + int n)"
    by (subst Suc.IH) (simp add: add.assoc)
  finally show ?case by (simp add: add.assoc)
qed simp

text \<open>Closed form of the days before a year of this and the next century.\<close>

lemma year_days_1970: "n \<le> 130 \<Longrightarrow> year_days 1970 n = int n * 365 + (int n + 1) div 4"
proof (induction n)
  case (Suc n)
  then have "leap (1970 + int n) \<longleftrightarrow> (1970 + int n) mod 4 = 0"
    by (intro leap_range) simp_all
  moreover have "(int n + 2) div 4 = (int n + 1) div 4 + (if (1970 + int n) mod 4 = 0 then 1 else 0)"
    by presburger
  ultimately show ?case
    using Suc by (simp add: year_days_Suc year_len_def add.commute del: year_days.simps)
qed simp

text \<open>Stepping back from a day number finds its year, its month and its day.\<close>

lemma civil_year_spec:
  assumes "0 \<le> d"
  obtains n r where "civil_year y d = (y + int n, r)" "d = year_days y n + r" "0 \<le> r" "r < year_len (y + int n)"
proof -
  have "\<exists>n r. civil_year y d = (y + int n, r) \<and> d = year_days y n + r \<and> 0 \<le> r \<and> r < year_len (y + int n)"
    using assms
  proof (induction y d rule: civil_year.induct)
    case (1 y d)
    show ?case
    proof (cases "year_len y \<le> d")
      case True
      with 1 obtain n r where *: "civil_year (y + 1) (d - year_len y) = (y + 1 + int n, r)"
        "d - year_len y = year_days (y + 1) n + r" "0 \<le> r" "r < year_len (y + 1 + int n)"
        by auto
      from True "1.prems" have "civil_year y d = civil_year (y + 1) (d - year_len y)"
        by (simp add: civil_year.simps [of y d])
      with * show ?thesis
        by (intro exI [of _ "Suc n"] exI [of _ r]) (simp add: add.assoc)
    next
      case False
      with "1.prems" show ?thesis
        by (intro exI [of _ 0] exI [of _ d]) (simp add: civil_year.simps [of y d])
    qed
  qed
  with that show thesis by blast
qed

lemma civil_month_spec:
  assumes "0 \<le> d" and "d < sum_list ls"
  obtains k r where "civil_month ls m d = (m + int k, r)" "d = sum_list (take k ls) + r" "0 \<le> r"
    "k < length ls" "r < ls ! k"
proof -
  have "\<exists>k r. civil_month ls m d = (m + int k, r) \<and> d = sum_list (take k ls) + r \<and> 0 \<le> r \<and>
      k < length ls \<and> r < ls ! k"
    using assms
  proof (induction ls m d rule: civil_month.induct)
    case (2 l ls m d)
    show ?case
    proof (cases "l \<le> d")
      case True
      with 2 obtain k r where "civil_month ls (m + 1) (d - l) = (m + 1 + int k, r)"
        "d - l = sum_list (take k ls) + r" "0 \<le> r" "k < length ls" "r < ls ! k"
        by auto
      with True show ?thesis by (intro exI [of _ "Suc k"] exI [of _ r]) simp
    next
      case False
      with "2.prems" show ?thesis by (intro exI [of _ 0] exI [of _ d]) simp
    qed
  qed simp
  with that show thesis by blast
qed

lemma sum_month_lens: "sum_list (month_lens y) = year_len y"
  by (simp add: month_lens_def year_len_def)

lemma length_month_lens [simp]: "length (month_lens y) = 12"
  by (simp add: month_lens_def)

lemma month_lens_le: "m < 12 \<Longrightarrow> month_lens y ! m \<le> 31"
  by (auto simp: month_lens_def nth_Cons split: nat.splits)

text \<open>A broken-down time is a valid date and time of day of year \<open>1970 + n\<close>.\<close>

definition tm_date :: "tm \<Rightarrow> nat \<Rightarrow> nat \<Rightarrow> int \<Rightarrow> bool" where
  "tm_date t n m md \<longleftrightarrow> tm_year t = 70 + int n \<and> tm_mon t = int m \<and> tm_mday t = md \<and>
     m < 12 \<and> 1 \<le> md \<and> md \<le> month_lens (1970 + int n) ! m \<and>
     0 \<le> tm_hour t \<and> tm_hour t < 24 \<and> 0 \<le> tm_min t \<and> tm_min t < 60 \<and> 0 \<le> tm_sec t \<and> tm_sec t < 60"

definition day_secs :: "tm \<Rightarrow> int" where
  "day_secs t = tm_hour t * 3600 + tm_min t * 60 + tm_sec t"

lemma hms_split: "(r::int) div 3600 * 3600 + r div 60 mod 60 * 60 + r mod 60 = r"
proof -
  have "r div 3600 = r div 60 div 60" using zdiv_zmult2_eq [of 60 r 60] by simp
  then show ?thesis using div_mult_mod_eq [of "r div 60" 60] div_mult_mod_eq [of r 60] by linarith
qed

lemma hour_range: "0 \<le> (s::int) mod 86400 div 3600 \<and> s mod 86400 div 3600 < 24"
  using pos_mod_bound [of 86400 s] pos_mod_sign [of 86400 s] by (simp add: div_less_iff_less_mult pos_imp_zdiv_nonneg_iff)

lemma gmtime_date:
  assumes "0 \<le> s"
  obtains n m md where "tm_date (gmtime s) n m md" "s = day_number n m md * 86400 + day_secs (gmtime s)"
proof -
  let ?d = "s div 86400" and ?r = "s mod 86400"
  from assms have "0 \<le> ?d" by simp
  then obtain n yd where y: "civil_year 1970 ?d = (1970 + int n, yd)" "?d = year_days 1970 n + yd"
    "0 \<le> yd" "yd < year_len (1970 + int n)"
    by (rule civil_year_spec)
  obtain m r where m: "civil_month (month_lens (1970 + int n)) 0 yd = (0 + int m, r)"
    "yd = sum_list (take m (month_lens (1970 + int n))) + r" "0 \<le> r"
    "m < length (month_lens (1970 + int n))" "r < month_lens (1970 + int n) ! m"
    by (rule civil_month_spec [of yd "month_lens (1970 + int n)" 0])
      (use y in \<open>simp_all add: sum_month_lens\<close>)
  have r: "0 \<le> ?r" "?r < 86400" by simp_all
  have "day_secs (gmtime s) = ?r"
    using y m by (simp add: day_secs_def gmtime_def Let_def hms_split)
  moreover have "tm_date (gmtime s) n m (r + 1)"
    using y m by (simp add: tm_date_def gmtime_def Let_def hour_range)
  moreover have "s = ?d * 86400 + ?r" by simp
  ultimately show thesis
    using that [of n m "r + 1"] y(2) m(2) by (simp add: day_number_def)
qed

subsection \<open>\<^verbatim>\<open>time_to_epoch\<close>\<close>

lemma mon_days_nth:
  assumes "m < 12"
  shows "mon_days ! m = sum_list (take m (month_lens y)) - (if leap y \<and> 2 \<le> m then 1 else 0)"
proof -
  from assms have "m \<in> set [0..<12]" by simp
  then have "m = 0 \<or> m = 1 \<or> m = 2 \<or> m = 3 \<or> m = 4 \<or> m = 5 \<or> m = 6 \<or> m = 7 \<or> m = 8 \<or> m = 9 \<or> m = 10
      \<or> m = 11"
    by (simp, presburger)
  then show ?thesis by (auto simp: mon_days_def month_lens_def numeral_eq_Suc)
qed

lemma epoch_days_correct:
  assumes "tm_date t n m md" and "n < 130"
  shows "epoch_days t = Some (day_number n m md)"
proof -
  from assms have t: "tm_year t = 70 + int n" "tm_mon t = int m" "tm_mday t = md" "m < 12" "1 \<le> md"
    by (simp_all add: tm_date_def)
  have lp: "leap (1970 + int n) \<longleftrightarrow> (70 + int n) mod 4 = 0"
    using leap_range [of "1970 + int n"] assms(2) mod_add_left_eq [of 1900 4 "70 + int n"] by simp
  have q: "(int n + 2) div 4 = (int n + 1) div 4 + (if (70 + int n) mod 4 = 0 then 1 else 0)"
    by presburger
  have "epoch_days t = Some (mon_days ! m + (md - 1) + int n * 365 + (int n + 2) div 4
      - (if (70 + int n) mod 4 = 0 \<and> m < 2 then 1 else 0))"
    using t by (simp add: epoch_days_def Let_def cdiv_nonneg cmod_nonneg)
  then show ?thesis
    using assms(2) unfolding day_number_def mon_days_nth [OF t(4), of "1970 + int n"] q lp
    by (simp add: year_days_1970)
qed

lemma chk_Some [simp]: "- (2 ^ 31) \<le> x \<Longrightarrow> x < 2 ^ 31 \<Longrightarrow> chk x = Some x"
  by (simp add: chk_def)

lemma chk_None: "2 ^ 31 \<le> x \<Longrightarrow> chk x = None"
  by (simp add: chk_def)

lemma day_number_nonneg: "1 \<le> md \<Longrightarrow> 0 \<le> day_number n m md"
proof -
  assume "1 \<le> md"
  moreover have "0 \<le> year_days y k" for y k
    by (induction k arbitrary: y) (simp_all add: year_len_def)
  moreover have "0 \<le> sum_list (take m (month_lens y))" for y
    by (rule sum_list_nonneg) (auto simp: month_lens_def dest!: in_set_takeD split: if_splits)
  ultimately show ?thesis unfolding day_number_def by (smt (verit))
qed

lemma time_to_epoch_day:
  assumes "tm_date t n m md" and "n < 130"
  shows "time_to_epoch t 0 = chk (day_number n m md * 86400 + day_secs t)"
proof -
  from assms(1) have t: "0 \<le> tm_hour t" "tm_hour t < 24" "0 \<le> tm_min t" "tm_min t < 60" "0 \<le> tm_sec t"
    "tm_sec t < 60" "1 \<le> md"
    by (simp_all add: tm_date_def)
  then have bc: "chk (tm_hour t * 3600) = Some (tm_hour t * 3600)" "chk (tm_min t * 60) = Some (tm_min t * 60)"
    by simp_all
  let ?a = "day_number n m md * 86400"
  have a: "0 \<le> ?a" using day_number_nonneg [of md n m] t by simp
  show ?thesis
  proof (cases "?a + day_secs t < 2 ^ 31")
    case True
    with t a bc show ?thesis
      by (simp add: time_to_epoch_def epoch_days_correct [OF assms] day_secs_def)
  next
    case False
    then have "chk (?a + tm_hour t * 3600 + tm_min t * 60 + tm_sec t) = None"
      by (intro chk_None) (simp add: day_secs_def)
    with bc show ?thesis
      by (auto simp: time_to_epoch_def epoch_days_correct [OF assms] day_secs_def chk_def add.assoc
          split: if_splits)
  qed
qed

lemma year_days_mono: "n \<le> k \<Longrightarrow> year_days y n \<le> year_days y k"
proof (induction k)
  case (Suc k)
  then show ?case
    using year_len_pos(1) [of "y + int k"] by (cases "n = Suc k") (simp_all add: year_days_Suc del: year_days.simps)
qed simp

text \<open>Before the year 2100 the broken-down time has a year below 130 after 1970.\<close>

lemma gmtime_date_2100:
  assumes "0 \<le> s" and "s < 4102444800"
  obtains n m md where "tm_date (gmtime s) n m md" "n < 130"
    "s = day_number n m md * 86400 + day_secs (gmtime s)"
proof -
  obtain n m md where d: "tm_date (gmtime s) n m md" and s: "s = day_number n m md * 86400 + day_secs (gmtime s)"
    by (rule gmtime_date [OF assms(1)])
  have "n < 130"
  proof (rule ccontr)
    assume "\<not> n < 130"
    then have "47482 \<le> year_days 1970 n"
      using year_days_mono [of 130 n 1970] year_days_1970 [of 130] by simp
    moreover have "0 \<le> sum_list (take m (month_lens (1970 + int n)))"
      by (rule sum_list_nonneg) (auto simp: month_lens_def dest!: in_set_takeD split: if_splits)
    ultimately have "47482 \<le> day_number n m md" using d by (simp add: day_number_def tm_date_def)
    moreover have "0 \<le> day_secs (gmtime s)" using d by (simp add: day_secs_def tm_date_def)
    ultimately have "47482 * 86400 \<le> s" using s by linarith
    with assms(2) show False by simp
  qed
  with d s that show thesis by blast
qed

lemma time_to_epoch_gmtime_chk:
  "0 \<le> s \<Longrightarrow> s < 4102444800 \<Longrightarrow> time_to_epoch (gmtime s) 0 = chk s"
  using gmtime_date_2100 [of s] time_to_epoch_day [of "gmtime s"] by metis

text \<open>C24: \<open>time_to_epoch\<close> inverts \<open>gmtime\<close> for every second from 1970 until the \<^verbatim>\<open>int\<close> arithmetic
  overflows in January 2038; from there to the end of 2099 (the comment in the code promises
  dates till 2100) the sum overflows.\<close>

theorem time_to_epoch_inverts_gmtime:
  assumes "0 \<le> s" and "s < 4102444800"
  shows "time_to_epoch (gmtime s) 0 = (if s < 2 ^ 31 then Some s else None)"
  using assms by (simp add: time_to_epoch_gmtime_chk chk_def)

theorem time_to_epoch_inverts_gmtime_witness:
  "time_to_epoch (gmtime 951782399) 0 = Some 951782399 \<and> time_to_epoch (gmtime 2147483648) 0 = None"
  using time_to_epoch_inverts_gmtime [of 951782399] time_to_epoch_inverts_gmtime [of 2147483648] by simp

subsection \<open>Formatting and parsing\<close>

lemma format0_nonneg: "0 \<le> x \<Longrightarrow> format0 x (Suc w) = format0 (x div 10) w @ [digit_char (nat (x mod 10))]"
proof -
  assume "0 \<le> x"
  moreover have "nat ((x mod 10 + 48) mod 256) = 48 + nat (x mod 10)"
    using pos_mod_bound [of 10 x] pos_mod_sign [of 10 x] by (simp add: nat_add_distrib del: pos_mod_bound pos_mod_sign)
  ultimately show ?thesis by (simp add: cdiv_nonneg cmod_nonneg digit_char_def)
qed

lemma length_format0 [simp]: "length (format0 x w) = w"
  by (induction w arbitrary: x) auto

lemma format0_digits: "0 \<le> x \<Longrightarrow> c \<in> set (format0 x w) \<Longrightarrow> isdigit c"
proof (induction w arbitrary: x)
  case (Suc w)
  then have "0 \<le> x div 10" by (simp add: pos_imp_zdiv_nonneg_iff)
  with Suc show ?case by (auto simp: format0_nonneg simp del: format0.simps(2))
qed simp

lemma parse_decimal_append:
  "parse_decimal (s @ t) (length s + n) to =
     Option.bind (parse_decimal (s @ t) (length s) to) (\<lambda>(v, rest). parse_decimal rest n v)"
  by (induction s arbitrary: to) auto

lemma parse_decimal_rest: "parse_decimal (s @ t) (length s) to =
    map_option (\<lambda>(v, _). (v, t)) (parse_decimal s (length s) to)"
  by (induction s arbitrary: to) auto

lemma parse_format0:
  "0 \<le> x \<Longrightarrow> x < 10 ^ w \<Longrightarrow> parse_decimal (format0 x w @ t) w to = Some (to * 10 ^ w + x, t)"
proof (induction w arbitrary: x t)
  case (Suc w)
  have x: "0 \<le> x div 10" "x div 10 < 10 ^ w"
    using Suc.prems by (simp_all add: pos_imp_zdiv_nonneg_iff div_less_iff_less_mult mult.commute)
  have "schar (digit_char (nat (x mod 10))) - 48 = x mod 10"
    using pos_mod_bound [of 10 x] pos_mod_sign [of 10 x] by (subst schar_digit) simp_all
  moreover have "parse_decimal (format0 x (Suc w) @ t) (Suc w) to =
      Option.bind (parse_decimal (format0 (x div 10) w @ digit_char (nat (x mod 10)) # t) w to)
        (\<lambda>(v, rest). parse_decimal rest 1 v)"
    using parse_decimal_append [of "format0 (x div 10) w" "digit_char (nat (x mod 10)) # t" 1 to]
    by (simp add: format0_nonneg [OF Suc.prems(1)] del: format0.simps(2))
  moreover have "(to * 10 ^ w + x div 10) * 8 + (to * 10 ^ w + x div 10) * 2 + x mod 10 = to * 10 ^ Suc w + x"
    using div_mult_mod_eq [of x 10] by (simp add: algebra_simps)
  ultimately show ?case using Suc.IH [OF x] by simp
qed simp

text \<open>What one field of the text contributes: a decoder after a formatter, with the text that follows.\<close>

lemmas parse_format0_0 = parse_format0 [where to = 0, simplified]

lemma skip_Cons [simp]: "skip (c # s) = Some s"
  by (simp add: skip_def)

lemma parse_hms_format:
  assumes "0 \<le> h" "h < 24" "0 \<le> mi" "mi < 60" "0 \<le> s" "s < 60"
    and "tm_hour t = 0" "tm_min t = 0" "tm_sec t = 0"
  shows "parse_hms (format0 h 2 @ CHR '':'' # format0 mi 2 @ CHR '':'' # format0 s 2 @ rest) t
      = Some (t\<lparr>tm_hour := h, tm_min := mi, tm_sec := s\<rparr>, rest)"
  using assms by (simp add: parse_hms_def parse_format0_0)

lemma parse_ym_format:
  assumes "0 \<le> y" "y < 10000" "0 \<le> m" "m < 100" and "tm_year t = 0" "tm_mon t = 0"
  shows "parse_ym (format0 y 4 @ format0 m 2 @ rest) t = Some (t\<lparr>tm_year := y - 1900, tm_mon := m - 1\<rparr>, rest)"
  using assms by (simp add: parse_ym_def parse_format0_0)

lemma parse_ms_format: "0 \<le> ms \<Longrightarrow> ms < 1000 \<Longrightarrow> parse_ms (c # format0 ms 3 @ rest) = Some (ms * 1000000)"
  by (simp add: parse_ms_def parse_format0_0 million_def thousand_def)

lemma sint_of_int_i32: "- (2 ^ 31) \<le> x \<Longrightarrow> x < 2 ^ 31 \<Longrightarrow> sint (of_int x :: i32) = x"
  by (simp add: int_word_sint)

lemma tv_nonneg:
  assumes "0 \<le> t"
  shows "tv_secs t = t div 1000000000" and "sint (tv_msecs t) = t div 1000000 mod 1000"
proof -
  from assms show "tv_secs t = t div 1000000000"
    by (simp add: tv_secs_def billion_def million_def thousand_def cdiv_nonneg)
  have "cmod (cdiv t million) 1000 = t div 1000000 mod 1000"
    using assms by (simp add: million_def thousand_def cdiv_nonneg cmod_nonneg pos_imp_zdiv_nonneg_iff)
  moreover have "sint (of_int (x mod 1000) :: u32) = x mod 1000" for x :: int
    using pos_mod_bound [of 1000 x] pos_mod_sign [of 1000 x]
    by (intro sint_of_int_i32) (simp_all del: pos_mod_bound pos_mod_sign)
  ultimately show "sint (tv_msecs t) = t div 1000000 mod 1000" by (simp add: tv_msecs_def)
qed

lemma tm_two_digits:
  assumes "tm_date t n m md"
  shows "0 \<le> md" "md < 100"
  using assms month_lens_le [of m "1970 + int n"] by (auto simp: tm_date_def)

text \<open>Reading back a date and time leaves the fields \<open>time_to_epoch\<close> looks at.\<close>

lemma time_to_epoch_cong:
  "tm_sec t = tm_sec u \<Longrightarrow> tm_min t = tm_min u \<Longrightarrow> tm_hour t = tm_hour u \<Longrightarrow> tm_mday t = tm_mday u \<Longrightarrow>
   tm_mon t = tm_mon u \<Longrightarrow> tm_year t = tm_year u \<Longrightarrow> time_to_epoch t d = time_to_epoch u d"
  by (simp add: time_to_epoch_def epoch_days_def)

lemma not_now_length: "3 < length s \<Longrightarrow> \<not> is_now s"
  by (auto simp: is_now_def)

text \<open>The text of a date and time, in the pieces the decoders read.\<close>

lemma with_ms_text:
  assumes "0 \<le> t" and "tm_date (get_tm t) n m md"
  shows "date_time_format t with_ms =
    format0 (1970 + int n) 4 @ format0 (int m + 1) 2 @ format0 md 2 @ CHR ''-'' #
    format0 (tm_hour (get_tm t)) 2 @ CHR '':'' # format0 (tm_min (get_tm t)) 2 @ CHR '':'' #
    format0 (tm_sec (get_tm t)) 2 @ CHR ''.'' # format0 (t div 1000000 mod 1000) 3"
  using assms by (simp add: date_time_format_def Let_def format_time_def tm_date_def tv_nonneg add.commute
      del: format0.simps)

lemma dtp_format:
  assumes "0 \<le> t" and "t < 2 ^ 31 * 1000000000"
  shows "date_time_parse now (date_time_format t with_ms) = Some (t - t mod 1000000)"
proof -
  let ?s = "tv_secs t" and ?tm = "get_tm t"
  have s: "?s = t div 1000000000" using assms by (simp add: tv_nonneg)
  with assms have "0 \<le> ?s" and lt: "?s < 2 ^ 31"
    by (simp_all add: pos_imp_zdiv_nonneg_iff div_less_iff_less_mult)
  then have "?s < 4102444800" by simp
  with \<open>0 \<le> ?s\<close> obtain n m md where d: "tm_date (gmtime ?s) n m md" and n: "n < 130"
    by (rule gmtime_date_2100)
  have e: "time_to_epoch (gmtime ?s) 0 = Some ?s"
    using \<open>0 \<le> ?s\<close> lt by (simp add: time_to_epoch_gmtime_chk)
  have d': "tm_date ?tm n m md" using d by (simp add: get_tm_def)
  note f = d' [unfolded tm_date_def]
  have ms: "0 \<le> t div 1000000 mod 1000" "t div 1000000 mod 1000 < 1000" by simp_all
  define tms where "tms = tm_zero\<lparr>tm_year := 1970 + int n - 1900, tm_mon := int m + 1 - 1, tm_mday := md,
    tm_hour := tm_hour ?tm, tm_min := tm_min ?tm, tm_sec := tm_sec ?tm\<rparr>"
  have "time_to_epoch tms 0 = time_to_epoch (gmtime ?s) 0"
    by (rule time_to_epoch_cong) (use f in \<open>simp_all add: tms_def tm_zero_def get_tm_def\<close>)
  with e have e': "time_to_epoch tms 0 = Some ?s" by simp
  let ?txt = "date_time_format t with_ms"
  have len: "length ?txt = 21" by (simp add: with_ms_text [OF assms(1) d'] del: format0.simps)
  have "parse_ym (?txt @ [NUL]) tm_zero = Some (tm_zero\<lparr>tm_year := 1970 + int n - 1900, tm_mon := int m + 1 - 1\<rparr>,
      format0 md 2 @ CHR ''-'' # format0 (tm_hour ?tm) 2 @ CHR '':'' # format0 (tm_min ?tm) 2 @ CHR '':'' #
      format0 (tm_sec ?tm) 2 @ CHR ''.'' # format0 (t div 1000000 mod 1000) 3 @ [NUL])"
    using f n parse_ym_format [of "1970 + int n" "int m + 1" tm_zero]
    by (simp add: with_ms_text [OF assms(1) d'] tm_zero_def del: format0.simps)
  then have "date_time_parse now ?txt = Some (t div 1000000 mod 1000 * 1000000 + ?s * billion)"
    using len f ms tm_two_digits [OF d'] e'
    by (simp add: date_time_parse_def not_now_length parse_format0_0 parse_hms_format parse_ms_format
        tm_zero_def tms_def del: format0.simps)
  moreover have "t div 1000000 mod 1000 * 1000000 + t div 1000000000 * 1000000000 = t - t mod 1000000"
  proof -
    have "t div 1000000000 = t div 1000000 div 1000" using zdiv_zmult2_eq [of 1000 t 1000000] by simp
    then show ?thesis using div_mult_mod_eq [of "t div 1000000" 1000] div_mult_mod_eq [of t 1000000] by linarith
  qed
  ultimately show ?thesis by (simp add: s billion_def million_def thousand_def)
qed



lemma tp_format:
  assumes "0 \<le> t"
  shows "time_parse now (date_time_format t time_with_ms) True = Some (t mod 86400000000000 - t mod 1000000)"
proof -
  let ?s = "tv_secs t" and ?tm = "get_tm t"
  have s: "?s = t div 1000000000" using assms by (simp add: tv_nonneg)
  with assms have "0 \<le> ?s" by (simp add: pos_imp_zdiv_nonneg_iff)
  then obtain n m md where d: "tm_date ?tm n m md" "?s = day_number n m md * 86400 + day_secs ?tm"
    unfolding get_tm_def by (rule gmtime_date)
  note f = d(1) [unfolded tm_date_def]
  let ?ms = "t div 1000000 mod 1000"
  have text_eq: "date_time_format t time_with_ms = format0 (tm_hour ?tm) 2 @ CHR '':'' # format0 (tm_min ?tm) 2 @
      CHR '':'' # format0 (tm_sec ?tm) 2 @ CHR ''.'' # format0 ?ms 3"
    using assms by (simp add: date_time_format_def Let_def format_time_def tv_nonneg del: format0.simps)
  then have "time_parse now (date_time_format t time_with_ms) True = Some (?ms * 1000000 + day_secs ?tm * 1000000000)"
    using f parse_ms_format [of ?ms "CHR ''.''" "[NUL]"]
    by (simp add: time_parse_def not_now_length parse_hms_format tm_zero_def day_secs_def Let_def
        billion_def million_def thousand_def del: format0.simps)
  moreover have "?ms * 1000000 + day_secs ?tm * 1000000000 = t mod 86400000000000 - t mod 1000000"
  proof -
    have "0 \<le> day_secs ?tm" "day_secs ?tm < 86400" using f by (simp_all add: day_secs_def)
    then have "day_secs ?tm = t div 1000000000 mod 86400" using d(2) s by (metis mod_pos_pos_trivial mod_mult_self3)
    moreover have "t mod 86400000000000 = t div 1000000000 mod 86400 * 1000000000 + t mod 1000000000"
      using zmod_zmult2_eq [of 86400 t 1000000000] by simp
    moreover have "t mod 1000000000 = ?ms * 1000000 + t mod 1000000"
      using zmod_zmult2_eq [of 1000 t 1000000] by simp
    ultimately show ?thesis by linarith
  qed
  ultimately show ?thesis by simp
qed

text \<open>A formatted time of day reads back as the nanoseconds since midnight, to the millisecond.\<close>

theorem time_parse_format:
  assumes "0 \<le> t"
  shows "time_parse now (date_time_format t time_with_ms) True = Some (t mod 86400000000000 - t mod 1000000)"
  using assms by (rule tp_format)

theorem time_parse_format_witness:
  "time_parse 0 (date_time_format 1419984000123456789 time_with_ms) True = Some 123000000"
  using time_parse_format [of 1419984000123456789 0] by simp

lemma length_date_only: "length (date_time_format t date_only) = 8"
  by (simp add: date_time_format_def Let_def del: format0.simps)

text \<open>A formatted date reads back as its midnight.\<close>

lemma dp_format:
  assumes "0 \<le> t" and "t < 2 ^ 31 * 1000000000"
  shows "date_parse now (date_time_format t date_only) = Some (t - t mod 86400000000000)"
proof -
  let ?s = "tv_secs t" and ?tm = "get_tm t"
  have s: "?s = t div 1000000000" using assms by (simp add: tv_nonneg)
  with assms have "0 \<le> ?s" and lt: "?s < 2 ^ 31"
    by (simp_all add: pos_imp_zdiv_nonneg_iff div_less_iff_less_mult)
  then have "?s < 4102444800" by simp
  with \<open>0 \<le> ?s\<close> obtain n m md where d: "tm_date ?tm n m md" and n: "n < 130"
    and day: "?s = day_number n m md * 86400 + day_secs ?tm"
    unfolding get_tm_def by (rule gmtime_date_2100)
  note f = d [unfolded tm_date_def]
  define tms where "tms = tm_zero\<lparr>tm_year := 1970 + int n - 1900, tm_mon := int m + 1 - 1, tm_mday := md\<rparr>"
  have "tm_date tms n m md" "day_secs tms = 0"
    using f by (simp_all add: tms_def tm_date_def tm_zero_def day_secs_def)
  moreover have "0 \<le> day_secs ?tm" "day_secs ?tm < 86400" using f by (simp_all add: day_secs_def)
  ultimately have e: "time_to_epoch tms 0 = Some (day_number n m md * 86400)"
    using time_to_epoch_day [of tms n m md] n day lt day_number_nonneg [of md n m] f by simp
  have text_eq: "date_time_format t date_only = format0 (1970 + int n) 4 @ format0 (int m + 1) 2 @ format0 md 2"
    using f by (simp add: date_time_format_def Let_def add.commute del: format0.simps)
  have "parse_ym (date_time_format t date_only @ [NUL]) tm_zero =
      Some (tm_zero\<lparr>tm_year := 1970 + int n - 1900, tm_mon := int m + 1 - 1\<rparr>, format0 md 2 @ [NUL])"
    unfolding text_eq using f n parse_ym_format [of "1970 + int n" "int m + 1" tm_zero "format0 md 2 @ [NUL]"]
    by (simp add: tm_zero_def del: format0.simps)
  moreover have "length (date_time_format t date_only) = 8" by (simp add: text_eq del: format0.simps)
  ultimately have "date_parse now (date_time_format t date_only) = Some (day_number n m md * 86400 * billion)"
    using tm_two_digits [OF d] e
    by (simp add: date_parse_def not_now_length parse_format0_0 tm_zero_def tms_def del: format0.simps)
  moreover have "day_number n m md * 86400 * 1000000000 = t - t mod 86400000000000"
  proof -
    have "day_secs ?tm = t div 1000000000 mod 86400"
      using day s \<open>0 \<le> day_secs ?tm\<close> \<open>day_secs ?tm < 86400\<close> by (metis mod_mult_self3 mod_pos_pos_trivial)
    moreover have "t mod 86400000000000 = t div 1000000000 mod 86400 * 1000000000 + t mod 1000000000"
      using zmod_zmult2_eq [of 86400 t 1000000000] by simp
    ultimately show ?thesis using day s div_mult_mod_eq [of t 1000000000] by linarith
  qed
  ultimately show ?thesis by (simp add: billion_def million_def thousand_def)
qed

text \<open>
  Texts the decoders cannot handle: a month \<^verbatim>\<open>00\<close> or \<^verbatim>\<open>14\<close> indexes outside the table, and a text
  shorter than the fixed layout is read past its end.
\<close>

lemma date_parse_bad_month: "date_parse 0 ''20150001'' = None" "date_parse 0 ''20151401'' = None"
  by code_simp+

lemma date_time_parse_short: "date_time_parse 0 ''20150101'' = None"
  by code_simp

end
