(* ===== verification/F8Utils.thy ===== *)
theory F8Utils
  imports Prelude
begin

text \<open>
  \<^verbatim>\<open>include/fix8/f8utils.hpp\<close> and \<^verbatim>\<open>runtime/f8utils.cpp\<close>: number conversion, enum bit sets,
  hashing and string helpers. Pointers into buffers are suffixes of strings; a loop that writes
  through a pointer returns the characters it writes. An integer template parameter is the word
  type of the result.
\<close>

section \<open>Conversion between numbers and text\<close>

subsection \<open>\<^verbatim>\<open>fast_atoi\<close>\<close>

text \<open>
  The loop runs until it meets the terminator. \<open>None\<close> is a run past the end of the buffer,
  which is undefined behaviour of the code. A C string ends with NUL.
\<close>

fun fast_atoi_loop :: "'a::len word \<Rightarrow> char \<Rightarrow> string \<Rightarrow> 'a word option" where
  "fast_atoi_loop retval term [] = None"
| "fast_atoi_loop retval term (c # str) =
     (if c = term then Some retval
      else fast_atoi_loop (push_bit 3 retval + push_bit 1 retval + of_int (schar c) - 48) term str)"

definition fast_atoi_term :: "string \<Rightarrow> char \<Rightarrow> 'a::len word option" where
  "fast_atoi_term str term = fast_atoi_loop 0 term (str @ [NUL])"

definition fast_atoi :: "string \<Rightarrow> 'a::len word" where
  "fast_atoi str = (case fast_atoi_term (cstr str) NUL of Some v \<Rightarrow> v | None \<Rightarrow> 0)"

lemma push_3_1: "push_bit 3 w + push_bit (Suc 0) w = 10 * (w :: 'a::len word)"
  by (simp add: push_bit_eq_mult)

text \<open>What the loop computes on any input: the terminator is always met by a C string.\<close>

lemma fast_atoi_loop_app:
  "t \<notin> set s \<Longrightarrow>
    fast_atoi_loop r t (s @ t # rest) = Some (foldl (\<lambda>a c. 10 * a + of_int (schar c) - 48) r s)"
  by (induction s arbitrary: r) (auto simp: push_3_1 simp del: push_bit_Suc)

lemma foldl_digits_word:
  "\<forall>c \<in> set s. isdigit c \<Longrightarrow>
    foldl (\<lambda>a c. 10 * a + of_int (schar c) - 48) (of_nat n :: 'a::len word) s
      = of_nat (foldl (\<lambda>n c. 10 * n + digit_val c) n s)"
proof (induction s arbitrary: n)
  case (Cons c s)
  have "10 * of_nat n + of_int (schar c) - 48 = (of_nat (10 * n + digit_val c) :: 'a word)"
    using Cons.prems by (simp add: schar_digit)
  moreover have "\<forall>c \<in> set s. isdigit c" using Cons.prems by simp
  then have "foldl (\<lambda>a c. 10 * a + of_int (schar c) - 48) (of_nat (10 * n + digit_val c) :: 'a word) s
      = of_nat (foldl (\<lambda>n c. 10 * n + digit_val c) (10 * n + digit_val c) s)"
    by (rule Cons.IH)
  ultimately show ?case by (simp only: foldl_Cons)
qed simp

lemma fast_atoi_term_digits:
  assumes "\<forall>c \<in> set s. isdigit c" and "\<not> isdigit t"
  shows "fast_atoi_loop 0 t (s @ t # rest) = Some (of_nat (dec_value s) :: 'a::len word)"
proof -
  from assms have "t \<notin> set s" by auto
  then show ?thesis
    using foldl_digits_word [OF assms(1), of 0, where ?'a = 'a]
    by (simp add: fast_atoi_loop_app dec_value_def)
qed

lemma fast_atoi_total: "\<exists>v. fast_atoi_term (cstr s) NUL = Some v"
  using fast_atoi_loop_app [of NUL "cstr s" 0 "[]"] by (auto simp: fast_atoi_term_def cstr_no_NUL)

lemma fast_atoi_digits:
  assumes "\<forall>c \<in> set s. isdigit c"
  shows "fast_atoi s = (of_nat (dec_value s) :: 'a::len word)"
proof -
  from assms have "cstr s = s" by (auto intro!: cstr_idem dest: isdigit_neq)
  moreover have "\<not> isdigit NUL" by (simp add: isdigit_def uchar_def)
  ultimately show ?thesis
    using fast_atoi_term_digits [OF assms, of NUL "[]", where ?'a = 'a]
    by (simp add: fast_atoi_def fast_atoi_term_def)
qed

subsection \<open>\<^verbatim>\<open>itoa\<close>\<close>

definition itoa_table :: string where
  "itoa_table = ''zyxwvutsrqponmlkjihgfedcba9876543210123456789abcdefghijklmnopqrstuvwxyz''"

text \<open>
  The generic version for a signed or narrow type: the body of the \<^verbatim>\<open>do\<close>-loop appends a digit
  and divides; the result is the digits in the order they are written and the last value of
  \<open>tmp_value\<close>, whose sign decides on the minus. The base is checked before the loop is entered,
  so the first guard is never taken there.
\<close>

function itoa_loop :: "int \<Rightarrow> int \<Rightarrow> string \<times> int" where
  "itoa_loop base tmp_value =
     (let value = cdiv tmp_value base;
          d = itoa_table ! nat (35 + (tmp_value - value * base))
      in if base < 2 \<or> value = 0 then ([d], tmp_value)
         else (let (ds, last) = itoa_loop base value in (d # ds, last)))"
  by pat_completeness auto
termination
proof (relation "measure (\<lambda>(base, v). nat \<bar>v\<bar>)")
  fix base tmp_value v :: int and d
  assume v: "v = cdiv tmp_value base" and "\<not> (base < 2 \<or> v = 0)"
  then have "2 \<le> base" and "tmp_value \<noteq> 0" by (auto simp: cdiv_def)
  then show "((base, v), base, tmp_value) \<in> measure (\<lambda>(base, v). nat \<bar>v\<bar>)"
    using cdiv_abs_less [of tmp_value base] v by simp
qed simp

declare itoa_loop.simps [simp del]

definition itoa :: "int \<Rightarrow> int \<Rightarrow> string" where
  "itoa value base =
     (if base < 2 \<or> base > 36 then []
      else (let (ds, last) = itoa_loop base value
            in rev (if last < 0 then ds @ [CHR ''-''] else ds)))"

text \<open>The specialisation for \<^verbatim>\<open>unsigned int\<close>.\<close>

function itoa_loop_u :: "nat \<Rightarrow> nat \<Rightarrow> string" where
  "itoa_loop_u base tmp_value =
     (let value = tmp_value div base;
          d = itoa_table ! (35 + (tmp_value - value * base))
      in if base < 2 \<or> value = 0 then [d] else d # itoa_loop_u base value)"
  by pat_completeness auto
termination
  by (relation "measure (\<lambda>(base, v). v)") (auto simp: Let_def div_eq_0_iff)

declare itoa_loop_u.simps [simp del]

definition itoa_unsigned :: "u32 \<Rightarrow> int \<Rightarrow> string" where
  "itoa_unsigned value base =
     (if base < 2 \<or> base > 36 then [] else rev (itoa_loop_u (nat base) (unat value)))"

lemma itoa_table_digit:
  assumes "d < 10"
  shows "itoa_table ! (35 + d) = digit_char d" and "itoa_table ! (35 - d) = digit_char d"
proof -
  have "\<forall>d < 10. itoa_table ! (35 + d) = digit_char d \<and> itoa_table ! (35 - d) = digit_char d"
    by code_simp
  with assms show "itoa_table ! (35 + d) = digit_char d" "itoa_table ! (35 - d) = digit_char d"
    by blast+
qed

lemma itoa_loop_u_10: "itoa_loop_u 10 n = rev (dec_numeral n)"
proof (induction n rule: dec_numeral.induct)
  case (1 n)
  have "n - n div 10 * 10 = n mod 10"
    by (simp add: minus_div_mult_eq_mod)
  then have d: "itoa_table ! (35 + (n - n div 10 * 10)) = digit_char (n mod 10)"
    by (simp add: itoa_table_digit)
  show ?case
    using 1 d by (cases "n < 10")
      (simp_all add: itoa_loop_u.simps [of 10 n] dec_numeral.simps [of n] Let_def div_eq_0_iff)
qed

lemma itoa_loop_10:
  "fst (itoa_loop 10 (int n)) = rev (dec_numeral n) \<and> 0 \<le> snd (itoa_loop 10 (int n))"
proof (induction n rule: dec_numeral.induct)
  case (1 n)
  have v: "cdiv (int n) 10 = int (n div 10)"
    by (simp add: cdiv_nonneg zdiv_int)
  have "int n - int (n div 10) * 10 = int (n mod 10)"
    by (simp add: zdiv_int zmod_int minus_div_mult_eq_mod)
  then have d: "itoa_table ! nat (35 + (int n - int (n div 10) * 10)) = digit_char (n mod 10)"
    by (simp add: nat_add_distrib itoa_table_digit)
  show ?case
    using 1 d by (cases "n < 10")
      (simp_all add: itoa_loop.simps [of 10 "int n"] dec_numeral.simps [of n] Let_def v
        div_eq_0_iff split_beta)
qed

lemma itoa_loop_10_neg:
  "0 < n \<Longrightarrow>
    fst (itoa_loop 10 (- int n)) = rev (dec_numeral n) \<and> snd (itoa_loop 10 (- int n)) < 0"
proof (induction n rule: dec_numeral.induct)
  case (1 n)
  have v: "cdiv (- int n) 10 = - int (n div 10)"
    by (simp add: cdiv_minus_left cdiv_nonneg zdiv_int)
  have "- int n - (- int (n div 10)) * 10 = - int (n mod 10)"
    by (simp add: zdiv_int zmod_int minus_div_mult_eq_mod [symmetric])
  moreover have "nat (35 - int (n mod 10)) = 35 - n mod 10"
    by (simp add: nat_diff_distrib')
  ultimately have d:
    "itoa_table ! nat (35 + (- int n - (- int (n div 10)) * 10)) = digit_char (n mod 10)"
    by (simp add: itoa_table_digit)
  show ?case
    using 1 d by (cases "n < 10")
      (simp_all add: itoa_loop.simps [of 10 "- int n"] dec_numeral.simps [of n] Let_def v
        div_eq_0_iff split_beta)
qed

lemma itoa_nonneg: "itoa (int n) 10 = dec_numeral n"
  using itoa_loop_10 [of n] by (auto simp: itoa_def split_beta)

lemma itoa_neg: "0 < n \<Longrightarrow> itoa (- int n) 10 = CHR ''-'' # dec_numeral n"
  using itoa_loop_10_neg [of n] by (auto simp: itoa_def split_beta)

lemma itoa_unsigned_10: "itoa_unsigned n 10 = dec_numeral (unat n)"
  by (simp add: itoa_unsigned_def itoa_loop_u_10)

section \<open>Bit sets over enumerations: \<^verbatim>\<open>ebitset\<close>\<close>

text \<open>
  A set of enumerators is a word; enumerator \<open>n\<close> is bit \<open>n\<close>. \<^verbatim>\<open>has\<close> and \<^verbatim>\<open>operator&\<close> return
  the masked word, tested against 0 by their callers.
\<close>

definition eb_of_bit :: "nat \<Rightarrow> 'a::len word" where
  "eb_of_bit sbit = push_bit sbit 1 - 1"

definition eb_has :: "'a::len word \<Rightarrow> nat \<Rightarrow> 'a word" where
  "eb_has a sbit = a AND push_bit sbit 1"

definition eb_set :: "'a::len word \<Rightarrow> nat \<Rightarrow> bool \<Rightarrow> 'a word" where
  "eb_set a sbit on = (if on then a OR push_bit sbit 1 else a AND NOT (push_bit sbit 1))"

definition eb_clear :: "'a::len word \<Rightarrow> nat \<Rightarrow> 'a word" where
  "eb_clear a sbit = a AND NOT (push_bit sbit 1)"

definition eb_setall :: "nat \<Rightarrow> 'a::len word" where
  "eb_setall sbit = push_bit sbit 1 - 1"

lemma bit_two_power: "bit (2 ^ n :: 'a::len word) m \<longleftrightarrow> m = n \<and> n < LENGTH('a)"
  by (auto simp: bit_exp_iff)

lemma eb_has_iff: "n < LENGTH('a) \<Longrightarrow> eb_has (a :: 'a::len word) n \<noteq> 0 \<longleftrightarrow> bit a n"
  by (simp add: eb_has_def and_exp_eq_0_iff_not_bit)

lemma bit_eb_set:
  "n < LENGTH('a) \<Longrightarrow> bit (eb_set (a :: 'a::len word) n on) m \<longleftrightarrow> (if m = n then on else bit a m)"
  by (auto simp: eb_set_def bit_or_iff bit_and_iff bit_not_iff bit_two_power dest: bit_imp_le_length)

lemma bit_eb_clear:
  "n < LENGTH('a) \<Longrightarrow> bit (eb_clear (a :: 'a::len word) n) m \<longleftrightarrow> m \<noteq> n \<and> bit a m"
  by (auto simp: eb_clear_def bit_and_iff bit_not_iff bit_two_power dest: bit_imp_le_length)

lemmas eb_simps = eb_has_iff bit_eb_set bit_eb_clear

lemma eb_setall_bits: "n < LENGTH('a) \<Longrightarrow> bit (eb_setall n :: 'a::len word) m \<longleftrightarrow> m < n"
proof -
  have "eb_setall n = (mask n :: 'a word)"
    by (simp add: eb_setall_def mask_eq_decr_exp push_bit_eq_mult)
  then show "n < LENGTH('a) \<Longrightarrow> ?thesis" by (auto simp: bit_mask_iff)
qed

section \<open>Strings\<close>

text \<open>The members of \<^verbatim>\<open>std::string\<close> the code calls; \<open>None\<close> is \<^verbatim>\<open>npos\<close>.\<close>

fun find_index :: "('a \<Rightarrow> bool) \<Rightarrow> 'a list \<Rightarrow> nat option" where
  "find_index p [] = None"
| "find_index p (x # xs) = (if p x then Some 0 else map_option Suc (find_index p xs))"

definition find_last_index :: "('a \<Rightarrow> bool) \<Rightarrow> 'a list \<Rightarrow> nat option" where
  "find_last_index p xs = map_option (\<lambda>i. length xs - 1 - i) (find_index p (rev xs))"

definition substr :: "string \<Rightarrow> nat \<Rightarrow> nat \<Rightarrow> string" where
  "substr s pos n = take n (drop pos s)"

definition strcaseeq :: "string \<Rightarrow> string \<Rightarrow> bool" where
  "strcaseeq a b \<longleftrightarrow> map tolower (cstr a) = map tolower (cstr b)"

lemma find_index_Some:
  "find_index p xs = Some i \<longleftrightarrow> i < length xs \<and> p (xs ! i) \<and> (\<forall>j < i. \<not> p (xs ! j))"
proof (induction xs arbitrary: i)
  case (Cons x xs)
  show ?case
    by (cases i) (auto simp: Cons less_Suc_eq_0_disj)
qed simp

lemma find_index_None: "find_index p xs = None \<longleftrightarrow> (\<forall>x \<in> set xs. \<not> p x)"
  by (induction xs) auto

lemma find_index_takeWhile:
  "find_index p xs = (if \<exists>x \<in> set xs. p x then Some (length (takeWhile (\<lambda>x. \<not> p x) xs)) else None)"
  by (induction xs) auto

text \<open>\<^verbatim>\<open>trim\<close>: a string made of white space only is returned as it is.\<close>

definition default_ws :: string where
  "default_ws = [CHR '' '', CHR 0x09]"

definition trim :: "string \<Rightarrow> string \<Rightarrow> string" where
  "trim source ws =
     (case find_index (\<lambda>c. c \<notin> set ws) source of
        None \<Rightarrow> source
      | Some bgstr \<Rightarrow>
          (case find_last_index (\<lambda>c. c \<notin> set ws) source of
             None \<Rightarrow> substr source bgstr (length source)
           | Some lst \<Rightarrow> substr source bgstr (lst - bgstr + 1)))"

definition InPlaceStrToUpper :: "string \<Rightarrow> string" where
  "InPlaceStrToUpper src = map (\<lambda>c. if islower c then toupper c else c) src"

definition InPlaceStrToLower :: "string \<Rightarrow> string" where
  "InPlaceStrToLower src = map (\<lambda>c. if isupper c then tolower c else c) src"

definition StrToLower :: "string \<Rightarrow> string" where
  "StrToLower src = InPlaceStrToLower src"

definition CheckAddTrailingSlash :: "string \<Rightarrow> string" where
  "CheckAddTrailingSlash src = (if src \<noteq> [] \<and> last src \<noteq> CHR ''/'' then src @ ''/'' else src)"

definition InPlaceReplaceInSet :: "string \<Rightarrow> string \<Rightarrow> char \<Rightarrow> string" where
  "InPlaceReplaceInSet iset src repl = map (\<lambda>c. if c \<notin> set iset then repl else c) src"

definition split_path :: "string \<Rightarrow> string \<Rightarrow> string \<Rightarrow> string \<times> string" where
  \<comment> \<open>the second argument is \<open>dirpart\<close> before the call: it is left alone without a separator\<close>
  "split_path source filepart dirpart =
     (case find_last_index (\<lambda>c. c = CHR ''/'' \<or> c = char_of (92 :: nat)) source of
        None \<Rightarrow> (source, dirpart)
      | Some slpos \<Rightarrow> (drop (slpos + 1) source, take slpos source))"

text \<open>\<^verbatim>\<open>CopyString\<close>: the bytes written to the target, terminator included; 0 is no limit.\<close>

definition CopyString :: "string \<Rightarrow> nat \<Rightarrow> string" where
  "CopyString src limit =
     (let sz = (if limit \<noteq> 0 \<and> length src > limit then limit else length src + 1)
      in take (sz - 1) src @ [NUL])"

definition get_value_bool :: "string \<Rightarrow> bool" where
  "get_value_bool source =
     (if source = [] then False
      else strcaseeq source ''true'' \<or> strcaseeq source ''yes'' \<or> strcaseeq source ''y''
        \<or> source = ''1'')"

definition enum_str_get :: "string list \<Rightarrow> string \<Rightarrow> nat \<Rightarrow> bool \<Rightarrow> nat" where
  "enum_str_get sset what def ignorecase =
     (if sset = [] then def
      else (case find_index (\<lambda>s. if ignorecase then strcaseeq s what else s = what) sset of
              None \<Rightarrow> def | Some i \<Rightarrow> i))"

definition eb_set_name ::
  "'a::len word \<Rightarrow> string list \<Rightarrow> string \<Rightarrow> bool \<Rightarrow> bool \<Rightarrow> 'a word \<times> int" where
  "eb_set_name a sset what ignorecase on =
     (case find_index (\<lambda>s. if ignorecase then strcaseeq (trim s default_ws) what
                            else trim s default_ws = what) sset of
        None \<Rightarrow> (a, -1)
      | Some dist \<Rightarrow> (eb_set a dist on, int dist))"

subsection \<open>Weekday names: \<^verbatim>\<open>decode_dow\<close>\<close>

definition day_names :: "string list" where
  "day_names = [''su'', ''mo'', ''tu'', ''we'', ''th'', ''fr'', ''sa'']"

text \<open>The multimap, ordered by letter; days that share a letter keep the order of \<^verbatim>\<open>days\<close>.\<close>

definition daymap :: "(char \<times> nat) list" where
  "daymap = [(CHR ''f'', 5), (CHR ''m'', 1), (CHR ''s'', 0), (CHR ''s'', 6), (CHR ''t'', 2),
             (CHR ''t'', 4), (CHR ''w'', 3)]"

definition decode_dow :: "string \<Rightarrow> int" where
  "decode_dow from =
     (if from = [] then -1
      else
        let source = StrToLower from
        in if isdigit (source ! 0) \<and> length source = 1 \<and> 48 \<le> uchar (source ! 0) \<and> uchar (source ! 0) \<le> 54
           then int (uchar (source ! 0)) - 48
           else
             (case map snd (filter (\<lambda>d. fst d = source ! 0) daymap) of
                [] \<Rightarrow> -1
              | [d] \<Rightarrow> int d
              | d1 # d2 # _ \<Rightarrow>
                  (if length source = 1 then -1
                   else if (day_names ! d1) ! 1 = source ! 1 then int d1
                   else if (day_names ! d2) ! 1 = source ! 1 then int d2
                   else -1)))"

section \<open>Bit rotation and hashes\<close>

definition rotl :: "'a::len word \<Rightarrow> nat \<Rightarrow> 'a word" where
  "rotl val n = push_bit n val OR drop_bit (LENGTH('a) - n) val"

definition rotr :: "'a::len word \<Rightarrow> nat \<Rightarrow> 'a word" where
  "rotr val n = drop_bit n val OR push_bit (LENGTH('a) - n) val"

definition ROT13Hash :: "string \<Rightarrow> u32" where
  "ROT13Hash str =
     fold (\<lambda>pp hash. let h = hash + of_int (schar pp) in h - rotl h 13) str 0"

definition rothash :: "u32 \<Rightarrow> u32 \<Rightarrow> u32" where
  "rothash result v =
     result XOR (drop_bit 2 result XOR push_bit 5 result XOR push_bit 13 result XOR v XOR 0x80001801)"

fun bitsum :: "nat list \<Rightarrow> u32" where
  "bitsum [] = 0"
| "bitsum (b # args) = push_bit b 1 OR bitsum args"

text \<open>The two rotations undo each other for every count the code may shift by.\<close>

lemma rotr_rotl:
  assumes "0 < n" and "n < LENGTH('a)"
  shows "rotr (rotl (w :: 'a::len word) n) n = w"
proof (rule bit_word_eqI)
  fix m
  assume "m < LENGTH('a)"
  with assms show "bit (rotr (rotl w n) n) m \<longleftrightarrow> bit w m"
    by (cases "n + m < LENGTH('a)")
      (auto simp: rotl_def rotr_def bit_or_iff bit_drop_bit_eq bit_push_bit_iff not_less add.commute
        dest: bit_imp_le_length)
qed

lemma bit_bitsum: "\<forall>b \<in> set bs. b < 32 \<Longrightarrow> bit (bitsum bs) n \<longleftrightarrow> n \<in> set bs"
  by (induction bs) (auto simp: bit_or_iff bit_two_power)

section \<open>Sub-expressions of a regular expression match\<close>

text \<open>
  \<^verbatim>\<open>RegMatch\<close> and the static members of \<^verbatim>\<open>RegExp\<close> that edit a string by a match. The match
  itself comes from the regular expression library; it is the list of pairs of start and end
  offsets it returns.
\<close>

type_synonym reg_match = "(nat \<times> nat) list"

definition SubCnt :: "reg_match \<Rightarrow> nat" where
  "SubCnt m = length m"

definition SubSize :: "reg_match \<Rightarrow> nat \<Rightarrow> int" where
  "SubSize m which = (if which < length m then int (snd (m ! which)) - int (fst (m ! which)) else -1)"

definition SubPos :: "reg_match \<Rightarrow> nat \<Rightarrow> int" where
  "SubPos m which = (if which < length m then int (fst (m ! which)) else -1)"

text \<open>\<open>SubExpr\<close> leaves the target alone when there is no such sub-expression: the code calls
  \<^verbatim>\<open>target.empty()\<close>, which only asks.\<close>

definition SubExpr :: "reg_match \<Rightarrow> string \<Rightarrow> string \<Rightarrow> nat \<Rightarrow> nat \<Rightarrow> string" where
  "SubExpr m source target offset num =
     (if num < length m
      then substr source (offset + fst (m ! num)) (snd (m ! num) - fst (m ! num))
      else target)"

definition Erase :: "reg_match \<Rightarrow> string \<Rightarrow> nat \<Rightarrow> string" where
  "Erase m source num =
     (if num < length m then take (fst (m ! num)) source @ drop (snd (m ! num)) source else source)"

definition Replace :: "reg_match \<Rightarrow> string \<Rightarrow> string \<Rightarrow> nat \<Rightarrow> string" where
  "Replace m source with num =
     (if num < length m
      then take (fst (m ! num)) source @ with @ drop (snd (m ! num)) source else source)"

definition ReplaceChar :: "reg_match \<Rightarrow> string \<Rightarrow> char \<Rightarrow> nat \<Rightarrow> string" where
  "ReplaceChar m source with num =
     (if num < length m
      then take (fst (m ! num)) source @ [with] @ drop (snd (m ! num)) source else source)"

section \<open>Properties\<close>

text \<open>
  For every width of the result type, \<open>fast_atoi\<close> reads what \<open>itoa\<close> prints for a
  number that is not negative, modulo the width: tag 65571 reads back as tag 35.
\<close>

theorem fast_atoi_itoa:
  "fast_atoi (itoa (int n) 10) = (of_nat n :: 'a::len word) \<and>
    fast_atoi (itoa_unsigned u 10) = (of_nat (unat u) :: 'a word) \<and>
    fast_atoi ''65571'' = (35 :: u16)"
proof (intro conjI)
  have digits: "\<forall>c \<in> set (dec_numeral m). isdigit c" for m using dec_numeral_digits by blast
  show "fast_atoi (itoa (int n) 10) = (of_nat n :: 'a word)"
    "fast_atoi (itoa_unsigned u 10) = (of_nat (unat u) :: 'a word)"
    by (simp_all add: itoa_nonneg itoa_unsigned_10 fast_atoi_digits [OF digits])
  show "fast_atoi ''65571'' = (35 :: u16)" by code_simp
qed

text \<open>
  An \<^verbatim>\<open>ebitset\<close> is a set of enumerators: setting or clearing one changes exactly that one,
  and \<open>eb_setall n\<close> holds the first \<open>n\<close>.
\<close>

theorem ebitset_is_set:
  assumes "n < LENGTH('a)" and "m < LENGTH('a)"
  shows "(eb_has (eb_set (a :: 'a::len word) n on) m \<noteq> 0 \<longleftrightarrow> (if m = n then on else eb_has a m \<noteq> 0)) \<and>
    (eb_has (eb_clear a n) m \<noteq> 0 \<longleftrightarrow> m \<noteq> n \<and> eb_has a m \<noteq> 0) \<and>
    (eb_has (eb_setall n :: 'a word) m \<noteq> 0 \<longleftrightarrow> m < n)"
  using assms by (simp add: eb_simps eb_setall_bits)

theorem ebitset_is_set_witness:
  "(eb_has (eb_set (4 :: u16) 1 True) 2 \<noteq> 0) \<and> (eb_has (eb_clear (4 :: u16) 1) 2 \<noteq> 0)"
proof -
  have "eb_has (4 :: u16) 2 \<noteq> 0" by code_simp
  then show ?thesis using ebitset_is_set [where ?'a = 16, of 1 2 4 True] by simp
qed

end
