(* ===== verification/Floats.thy ===== *)
theory Floats
  imports F8Utils Complex_Main
begin

text \<open>
  The conversion of prices and quantities: \<^verbatim>\<open>fast_atof\<close> of \<^verbatim>\<open>include/fix8/f8utils.hpp\<close> and
  \<^verbatim>\<open>modp_dtoa\<close> of \<^verbatim>\<open>runtime/modp_numtoa.c\<close>, for the default build, where \<^verbatim>\<open>fp_type\<close> is
  \<^verbatim>\<open>double\<close>. A finite double is its rational value, and every operation rounds to the nearest
  value with 53 significant bits, ties to even. Infinities, NaN and the gradual underflow below
  \<open>2\<^sup>-\<^sup>1\<^sup>0\<^sup>2\<^sup>2\<close> are outside the model.
\<close>

section \<open>Binary floating point\<close>

function bitlen :: "int \<Rightarrow> int" where
  "bitlen n = (if n \<le> 0 then 0 else 1 + bitlen (n div 2))"
  by pat_completeness auto
termination
  by (relation "measure nat") auto

declare bitlen.simps [simp del]

definition pow2 :: "int \<Rightarrow> rat" where
  "pow2 e = (if 0 \<le> e then 2 ^ nat e else 1 / 2 ^ nat (- e))"

text \<open>The exponent of a positive fraction: the largest \<open>e\<close> with \<open>2\<^sup>e \<le> p / q\<close>.\<close>

definition flog2 :: "int \<Rightarrow> int \<Rightarrow> int" where
  "flog2 p q =
     (let k = bitlen p - bitlen q
      in if pow2 k * of_int q \<le> of_int p then k else k - 1)"

definition round_half_even :: "rat \<Rightarrow> int" where
  "round_half_even x =
     (let f = \<lfloor>x\<rfloor>; d = x - of_int f
      in if d < 1 / 2 then f else if 1 / 2 < d then f + 1 else if even f then f else f + 1)"

definition rnd :: "rat \<Rightarrow> rat" where
  "rnd x =
     (let (p, q) = quotient_of x; e = flog2 \<bar>p\<bar> q - 52
      in if p = 0 then 0 else of_int (round_half_even (x / pow2 e)) * pow2 e)"

definition fadd :: "rat \<Rightarrow> rat \<Rightarrow> rat" where "fadd a b = rnd (a + b)"
definition fsub :: "rat \<Rightarrow> rat \<Rightarrow> rat" where "fsub a b = rnd (a - b)"
definition fmul :: "rat \<Rightarrow> rat \<Rightarrow> rat" where "fmul a b = rnd (a * b)"
definition fdiv :: "rat \<Rightarrow> rat \<Rightarrow> rat" where "fdiv a b = rnd (a / b)"

lemma round_half_even_int [simp]: "round_half_even (of_int n) = n"
  by (simp add: round_half_even_def)

lemma bitlen_le: "n < 2 ^ k \<Longrightarrow> bitlen n \<le> int k"
proof (induction n arbitrary: k rule: bitlen.induct)
  case (1 n)
  show ?case
  proof (cases "n \<le> 0")
    case False
    then obtain j where k: "k = Suc j" using "1.prems" by (cases k) auto
    with "1.prems" have "n div 2 < 2 ^ j" by (simp add: div_less_iff_less_mult mult.commute)
    with 1 False k show ?thesis by (simp add: bitlen.simps [of n])
  qed (simp add: bitlen.simps)
qed

text \<open>Integers of up to 53 bits are exact.\<close>

lemma rnd_int:
  assumes "\<bar>n\<bar> < 2 ^ 53"
  shows "rnd (of_int n) = of_int n"
proof (cases "n = 0")
  case True
  then show ?thesis by (simp add: rnd_def)
next
  case False
  define e where "e = flog2 \<bar>n\<bar> 1 - 52"
  have "bitlen \<bar>n\<bar> \<le> 53" using bitlen_le [OF assms] by simp
  moreover have "bitlen 1 = 1" by (simp add: bitlen.simps)
  ultimately have e: "e \<le> 0" by (simp add: e_def flog2_def Let_def)
  have scale: "of_int n / pow2 e = of_int (n * 2 ^ nat (- e))" and pos: "pow2 e \<noteq> 0"
    using e by (auto simp: pow2_def)
  have "rnd (of_int n) = of_int (round_half_even (of_int n / pow2 e)) * pow2 e"
    using False by (simp add: rnd_def e_def Let_def)
  also have "\<dots> = of_int n" unfolding scale round_half_even_int
    using e by (auto simp: pow2_def)
  finally show ?thesis .
qed

lemma rnd_nat: "n < 2 ^ 53 \<Longrightarrow> rnd (of_nat n) = of_nat n"
  using rnd_int [of "int n"] by simp

section \<open>\<^verbatim>\<open>fast_atof\<close>\<close>

text \<open>The scanning loops; each returns what it has accumulated and the rest of the text.\<close>

fun atof_int :: "rat \<Rightarrow> string \<Rightarrow> rat \<times> string" where
  "atof_int value [] = (value, [])"
| "atof_int value (c # p) =
     (if isdigit c then atof_int (fadd (fmul value 10) (of_int (schar c - 48))) p else (value, c # p))"

fun atof_frac :: "rat \<Rightarrow> rat \<Rightarrow> string \<Rightarrow> rat \<times> string" where
  "atof_frac value mpow10 [] = (value, [])"
| "atof_frac value mpow10 (c # p) =
     (if isdigit c then atof_frac (fadd value (fdiv (of_int (schar c - 48)) mpow10)) (fmul mpow10 10) p
      else (value, c # p))"

fun atof_expon :: "u32 \<Rightarrow> string \<Rightarrow> u32 \<times> string" where
  "atof_expon expon [] = (expon, [])"
| "atof_expon expon (c # p) =
     (if isdigit c then atof_expon (expon * 10 + of_int (schar c - 48)) p else (expon, c # p))"

fun atof_scale :: "nat \<Rightarrow> rat \<Rightarrow> rat" where
  "atof_scale expon scale =
     (if 50 \<le> expon then atof_scale (expon - 50) (fmul scale (rnd (10 ^ 50)))
      else if 8 \<le> expon then atof_scale (expon - 8) (fmul scale (10 ^ 8))
      else if 0 < expon then atof_scale (expon - 1) (fmul scale 10)
      else scale)"

declare atof_scale.simps [simp del]

definition atof_sign :: "string \<Rightarrow> bool \<times> string" where
  "atof_sign p =
     (case p of
        c # q \<Rightarrow> (if c = CHR ''-'' then (True, q) else if c = CHR ''+'' then (False, q) else (False, p))
      | [] \<Rightarrow> (False, []))"

definition fast_atof :: "string \<Rightarrow> rat" where
  "fast_atof str =
     (let (negv, p1) = atof_sign (dropWhile isspace (cstr str));
          sign = (if negv then -1 else 1);
          (v1, p2) = atof_int 0 p1;
          (v2, p3) = (case p2 of
                        c # q \<Rightarrow> (if c = CHR ''.'' then atof_frac v1 10 q else (v1, p2))
                      | [] \<Rightarrow> (v1, p2))
      in case p3 of
           c # q \<Rightarrow>
             (if toupper c = CHR ''E'' then
                let (frc, p4) = atof_sign q;
                    (expon, _) = atof_expon 0 p4;
                    scale = atof_scale (if 308 < expon then 308 else unat expon) 1
                in fmul sign (if frc then fdiv v2 scale else fmul v2 scale)
              else fmul sign (fmul v2 1))
         | [] \<Rightarrow> fmul sign (fmul v2 1))"

section \<open>\<^verbatim>\<open>modp_dtoa\<close>\<close>

text \<open>
  Digits are written from the last to the first and the text is reversed at the end. The loop over
  the fraction drops trailing zeros until the first digit that is not zero; \<open>done\<close> says that one
  was written.
\<close>

function dtoa_frac :: "nat \<Rightarrow> int \<Rightarrow> bool \<Rightarrow> string \<times> int \<times> bool" where
  "dtoa_frac frc count done =
     (let count' = count - 1;
          w = (if frc mod 10 \<noteq> 0 then [digit_char (frc mod 10)] else if done then ''0'' else []);
          done' = (frc mod 10 \<noteq> 0 \<or> done)
      in if frc div 10 = 0 then (w, count', done')
         else (let (ws, c, d) = dtoa_frac (frc div 10) count' done' in (w @ ws, c, d)))"
  by pat_completeness auto
termination
  by (relation "measure (\<lambda>(frc, c, d). frc)") (auto simp: div_eq_0_iff)

declare dtoa_frac.simps [simp del]

text \<open>
  A value above the largest \<^verbatim>\<open>int\<close> is cast to \<^verbatim>\<open>int\<close> first, which is undefined from \<open>2\<^sup>3\<^sup>1\<close>
  (\<open>None\<close>); between the two limits the library's \<^verbatim>\<open>%e\<close> prints the only text there is.
\<close>

definition dtoa_round :: "rat \<Rightarrow> int \<Rightarrow> int \<times> nat" where
  "dtoa_round value prec =
     (let whole = \<lfloor>value\<rfloor>;
          tmp = fmul (fsub value (of_int whole)) (10 ^ nat prec);
          frc = nat \<lfloor>tmp\<rfloor>;
          diff = fsub tmp (of_nat frc)
      in if 1 / 2 < diff then (if 10 ^ nat prec \<le> frc + 1 then (whole + 1, 0) else (whole, frc + 1))
         else if diff = 1 / 2 \<and> (frc = 0 \<or> odd frc) then (whole, frc + 1)
         else (whole, frc))"

definition modp_dtoa :: "rat \<Rightarrow> int \<Rightarrow> string option" where
  "modp_dtoa v prec0 =
     (let prec = (if prec0 < 0 then 0 else if 9 < prec0 then 9 else prec0);
          negv = (v < 0);
          value = (if negv then - v else v);
          (whole, frc) = dtoa_round value prec
      in if 2 ^ 31 \<le> value then None
         else if 2147483647 < value then Some ((if negv then ''-'' else []) @ ''2.147484e+09'')
         else
           let (whole', fr) =
                 (if prec = 0 then
                    let diff = fsub value (of_int whole)
                    in (if 1 / 2 < diff \<or> (diff = 1 / 2 \<and> odd whole) then whole + 1 else whole, [])
                  else
                    let (ws, count, done) = dtoa_frac frc prec False
                    in (whole, ws @ (if done then replicate (nat count) (CHR ''0'') else ''0'') @ ''.''))
           in Some (rev (fr @ rev (dec_numeral (nat whole')) @ (if negv then ''-'' else []))))"

section \<open>Integral values\<close>

lemma atof_int_digits:
  assumes "\<forall>c \<in> set s. isdigit c" and "foldl (\<lambda>n c. 10 * n + digit_val c) n s < 2 ^ 53"
    and "r = [] \<or> \<not> isdigit (hd r)"
  shows "atof_int (of_nat n) (s @ r) = (of_nat (foldl (\<lambda>n c. 10 * n + digit_val c) n s), r)"
  using assms
proof (induction s arbitrary: n)
  case Nil
  then show ?case by (cases r) auto
next
  case (Cons c s)
  have mono: "m \<le> foldl (\<lambda>n c. 10 * n + digit_val c) m t" for m t
  proof (induction t arbitrary: m)
    case (Cons d t)
    have "m \<le> 10 * m + digit_val d" by simp
    also have "\<dots> \<le> foldl (\<lambda>n c. 10 * n + digit_val c) m (d # t)" using Cons [of "10 * m + digit_val d"] by simp
    finally show ?case .
  qed simp
  from Cons.prems(2) mono [of "10 * n + digit_val c" s] have lt: "10 * n + digit_val c < 2 ^ 53"
    by (simp add: le_less_trans)
  have m: "fmul (of_nat n) 10 = of_nat (10 * n)"
    using lt rnd_nat [of "10 * n"] by (simp add: fmul_def mult.commute)
  have "fadd (fmul (of_nat n) 10) (of_int (schar c - 48)) = of_nat (10 * n + digit_val c)"
    unfolding m using lt rnd_nat [of "10 * n + digit_val c"] Cons.prems(1)
    by (simp add: fadd_def schar_digit)
  with Cons.prems(1) have "atof_int (of_nat n) ((c # s) @ r) = atof_int (of_nat (10 * n + digit_val c)) (s @ r)"
    by simp
  also have "\<dots> = (of_nat (foldl (\<lambda>n c. 10 * n + digit_val c) (10 * n + digit_val c) s), r)"
    using Cons.prems by (intro Cons.IH) simp_all
  finally show ?case by simp
qed

lemma rnd_0 [simp]: "rnd 0 = 0"
  using rnd_int [of 0] by simp

lemma dtoa_round_nat: "dtoa_round (of_nat n) prec = (int n, 0)"
  by (simp add: dtoa_round_def Let_def fsub_def fmul_def)

lemma modp_dtoa_int:
  assumes "n < 2 ^ 31" and "0 < prec"
  shows "modp_dtoa (if neg then - of_nat n else of_nat n) prec =
    Some ((if neg \<and> n \<noteq> 0 then ''-'' else []) @ dec_numeral n @ ''.0'')"
proof -
  have "dtoa_frac 0 c False = ([], c - 1, False)" for c
    by (simp add: dtoa_frac.simps)
  moreover have "(of_nat n :: rat) < 2147483648" "(of_nat n :: rat) \<le> 2147483647"
    using assms of_nat_less_iff [of n 2147483648, where ?'a = rat] of_nat_le_iff [of n 2147483647, where ?'a = rat]
    by simp_all
  ultimately show ?thesis
    using assms dtoa_round_nat [of 0] by (auto simp: modp_dtoa_def Let_def dtoa_round_nat)
qed

lemma dec_numeral_foldl: "foldl (\<lambda>n c. 10 * n + digit_val c) 0 (dec_numeral n) = n"
  using dec_value_numeral [of n] by (simp add: dec_value_def)

lemma fast_atof_whole:
  assumes "n < 2 ^ 31"
  shows "fast_atof (dec_numeral n @ ''.0'') = of_nat n"
proof -
  have digits: "\<forall>c \<in> set (dec_numeral n). isdigit c" using dec_numeral_digits by blast
  have nodig: "\<not> isdigit (CHR ''.'')" by (simp add: isdigit_def uchar_def)
  have "cstr (dec_numeral n @ ''.0'') = dec_numeral n @ ''.0''"
    using dec_numeral_no_sep(1) [of n] by (intro cstr_idem) auto
  moreover obtain c cs where c: "dec_numeral n = c # cs" "isdigit c"
    using digits by (cases "dec_numeral n") auto
  moreover have "\<not> isspace c" "c \<noteq> CHR ''-''" "c \<noteq> CHR ''+''"
    using c(2) by (auto simp: char_defs uchar_def)
  moreover have "atof_int 0 (dec_numeral n @ ''.0'') = (of_nat n, ''.0'')"
    using atof_int_digits [OF digits, of 0 "''.0''"] assms nodig by (simp add: dec_numeral_foldl)
  moreover have "atof_frac (of_nat n) 10 ''0'' = (of_nat n, [])"
    using assms rnd_nat [of n] by (simp add: isdigit_def uchar_def schar_def fdiv_def fadd_def)
  moreover have "fmul 1 (fmul (of_nat n) 1) = of_nat n"
    using assms rnd_nat [of n] by (simp add: fmul_def)
  ultimately show ?thesis
    by (simp add: fast_atof_def atof_sign_def)
qed

text \<open>C40: a price that is a whole number is printed as its decimal digits with one zero after the
  point, at every precision, and \<open>fast_atof\<close> reads the same number back.\<close>

theorem whole_price_roundtrip:
  assumes "n < 2 ^ 31" and "0 < prec"
  shows "\<exists>s. modp_dtoa (of_nat n) prec = Some s \<and> s = dec_numeral n @ ''.0'' \<and> fast_atof s = of_nat n"
  using modp_dtoa_int [OF assms, of False] fast_atof_whole [OF assms(1)] by simp

theorem whole_price_roundtrip_witness:
  "\<exists>s. modp_dtoa 1250 2 = Some s \<and> s = dec_numeral 1250 @ ''.0'' \<and> fast_atof s = 1250"
  using whole_price_roundtrip [of 1250 2] by simp

lemma rnd_0995: "rnd (995 / 1000) = 8962163258467287 / 9007199254740992"
  by code_simp

text \<open>The halfway case of \<open>modp_dtoa\<close> does not handle the carry out of the fraction: with the
  default precision of two digits the double nearest to 0.995 is printed as 0.1.\<close>

lemma halfway_carry_lost: "modp_dtoa (rnd (995 / 1000)) 2 = Some ''0.1''"
  unfolding rnd_0995 by code_simp

end
