(* ===== verification/Tables.thy ===== *)
theory Tables
  imports F8Utils "HOL-Library.Char_ord" "HOL-Library.List_Lexorder"
begin

text \<open>
  \<^verbatim>\<open>include/fix8/f8types.hpp\<close>: the sorted containers of the metadata layer.
  \<^verbatim>\<open>GeneratedTable\<close> is a static array of pairs searched by \<^verbatim>\<open>std::lower_bound\<close>;
  \<^verbatim>\<open>presorted_set\<close> is a growing sorted array searched by \<^verbatim>\<open>std::equal_range\<close>.
  Keys of type \<^verbatim>\<open>const char *\<close> are compared by \<^verbatim>\<open>strcmp\<close>: lexicographically by unsigned
  characters, which is the order of \<open>List_Lexorder\<close> over \<open>Char_ord\<close>.
\<close>

section \<open>Binary search\<close>

text \<open>
  \<open>lower_bound\<close> and \<open>upper_bound\<close> halve the interval of \<open>len\<close> elements from \<open>first\<close>, as the
  standard library does; elements are compared by the key \<open>kf\<close>.
\<close>

function lower_bound_loop :: "('a \<Rightarrow> 'k::linorder) \<Rightarrow> 'a list \<Rightarrow> 'k \<Rightarrow> nat \<Rightarrow> nat \<Rightarrow> nat" where
  "lower_bound_loop kf xs key first len =
     (if len = 0 then first
      else let half = len div 2; mid = first + half
           in if kf (xs ! mid) < key then lower_bound_loop kf xs key (mid + 1) (len - half - 1)
              else lower_bound_loop kf xs key first half)"
  by pat_completeness auto
termination
  by (relation "measure (\<lambda>(kf, xs, key, first, len). len)") auto

function upper_bound_loop :: "('a \<Rightarrow> 'k::linorder) \<Rightarrow> 'a list \<Rightarrow> 'k \<Rightarrow> nat \<Rightarrow> nat \<Rightarrow> nat" where
  "upper_bound_loop kf xs key first len =
     (if len = 0 then first
      else let half = len div 2; mid = first + half
           in if key < kf (xs ! mid) then upper_bound_loop kf xs key first half
              else upper_bound_loop kf xs key (mid + 1) (len - half - 1))"
  by pat_completeness auto
termination
  by (relation "measure (\<lambda>(kf, xs, key, first, len). len)") auto

declare lower_bound_loop.simps [simp del] upper_bound_loop.simps [simp del]

definition lower_bound :: "('a \<Rightarrow> 'k::linorder) \<Rightarrow> 'a list \<Rightarrow> 'k \<Rightarrow> nat" where
  "lower_bound kf xs key = lower_bound_loop kf xs key 0 (length xs)"

definition upper_bound :: "('a \<Rightarrow> 'k::linorder) \<Rightarrow> 'a list \<Rightarrow> 'k \<Rightarrow> nat" where
  "upper_bound kf xs key = upper_bound_loop kf xs key 0 (length xs)"

text \<open>The comparisons the search makes.\<close>

function lower_bound_cmps :: "('a \<Rightarrow> 'k::linorder) \<Rightarrow> 'a list \<Rightarrow> 'k \<Rightarrow> nat \<Rightarrow> nat \<Rightarrow> nat" where
  "lower_bound_cmps kf xs key first len =
     (if len = 0 then 0
      else let half = len div 2; mid = first + half
           in 1 + (if kf (xs ! mid) < key then lower_bound_cmps kf xs key (mid + 1) (len - half - 1)
                   else lower_bound_cmps kf xs key first half))"
  by pat_completeness auto
termination
  by (relation "measure (\<lambda>(kf, xs, key, first, len). len)") auto

declare lower_bound_cmps.simps [simp del]

definition key_sorted :: "('a \<Rightarrow> 'k::linorder) \<Rightarrow> 'a list \<Rightarrow> bool" where
  "key_sorted kf xs \<longleftrightarrow> sorted_wrt (\<lambda>x y. kf x < kf y) xs"

lemma key_sorted_nth: "key_sorted kf xs \<Longrightarrow> i < j \<Longrightarrow> j < length xs \<Longrightarrow> kf (xs ! i) < kf (xs ! j)"
  unfolding key_sorted_def by (rule sorted_wrt_nth_less)

lemma key_sorted_nth_le: "key_sorted kf xs \<Longrightarrow> i \<le> j \<Longrightarrow> j < length xs \<Longrightarrow> kf (xs ! i) \<le> kf (xs ! j)"
  using key_sorted_nth [of kf xs i j] by (cases "i = j") (auto simp: le_less)

lemma key_sorted_inj:
  "key_sorted kf xs \<Longrightarrow> i < length xs \<Longrightarrow> j < length xs \<Longrightarrow> kf (xs ! i) = kf (xs ! j) \<Longrightarrow> i = j"
  by (metis key_sorted_nth less_irrefl nat_neq_iff)

text \<open>The first position whose key is not below the one searched.\<close>

definition is_lb :: "('a \<Rightarrow> 'k::linorder) \<Rightarrow> 'a list \<Rightarrow> 'k \<Rightarrow> nat \<Rightarrow> bool" where
  "is_lb kf xs key r \<longleftrightarrow>
     r \<le> length xs \<and> (\<forall>i < r. kf (xs ! i) < key) \<and> (\<forall>i < length xs. r \<le> i \<longrightarrow> key \<le> kf (xs ! i))"

lemma is_lb_unique:
  assumes "is_lb kf xs key r" and "is_lb kf xs key r'"
  shows "r = r'"
proof (rule ccontr)
  have less: False if "is_lb kf xs key r" "is_lb kf xs key r'" "r < r'" for r r'
  proof -
    from that have "r < length xs" "kf (xs ! r) < key" "key \<le> kf (xs ! r)"
      by (auto simp: is_lb_def)
    then show False by simp
  qed
  assume "r \<noteq> r'"
  with assms less show False by (metis linorder_neqE_nat)
qed

lemma lower_bound_loop_spec:
  assumes "key_sorted kf xs" and "first + len \<le> length xs"
    and "\<forall>i < first. kf (xs ! i) < key" and "\<forall>i < length xs. first + len \<le> i \<longrightarrow> key \<le> kf (xs ! i)"
  shows "is_lb kf xs key (lower_bound_loop kf xs key first len)"
  using assms
proof (induction kf xs key first len rule: lower_bound_loop.induct)
  case (1 kf xs key first len)
  show ?case
  proof (cases "len = 0")
    case True
    with "1.prems" show ?thesis
      by (simp add: is_lb_def lower_bound_loop.simps [of kf xs key first 0])
  next
    case False
    define mid where "mid = first + len div 2"
    from False "1.prems"(2) have mid: "mid < length xs" "mid \<le> length xs"
      by (auto simp: mid_def)
    show ?thesis
    proof (cases "kf (xs ! mid) < key")
      case True
      have "\<forall>i < mid + 1. kf (xs ! i) < key"
        using True key_sorted_nth [OF "1.prems"(1) _ mid(1)] by (auto simp: less_Suc_eq intro: less_trans)
      moreover have "mid + 1 + (len - len div 2 - 1) = first + len"
        using False by (auto simp: mid_def)
      ultimately have "is_lb kf xs key (lower_bound_loop kf xs key (mid + 1) (len - len div 2 - 1))"
        using "1.IH"(1) [OF False refl refl] "1.prems" True by (simp add: mid_def)
      with True False show ?thesis
        by (simp add: lower_bound_loop.simps [of kf xs key first len] Let_def mid_def)
    next
      case not_less: False
      have "\<forall>i < length xs. mid \<le> i \<longrightarrow> key \<le> kf (xs ! i)"
        using not_less key_sorted_nth_le [OF "1.prems"(1), of mid]
        by (meson leI order_trans)
      then have "is_lb kf xs key (lower_bound_loop kf xs key first (len div 2))"
        using "1.IH"(2) [OF False refl refl] "1.prems" not_less mid(2) by (simp add: mid_def)
      with not_less False show ?thesis
        by (simp add: lower_bound_loop.simps [of kf xs key first len] Let_def mid_def)
    qed
  qed
qed

lemma lower_bound_is_lb: "key_sorted kf xs \<Longrightarrow> is_lb kf xs key (lower_bound kf xs key)"
  unfolding lower_bound_def by (rule lower_bound_loop_spec) auto

lemma is_lb_find:
  assumes "key_sorted kf xs" and "is_lb kf xs key r"
  shows "r < length xs \<and> \<not> key < kf (xs ! r) \<longleftrightarrow> key \<in> kf ` set xs"
proof
  assume "r < length xs \<and> \<not> key < kf (xs ! r)"
  with assms(2) have "kf (xs ! r) = key" and "r < length xs"
    by (auto simp: is_lb_def dest: antisym)
  then show "key \<in> kf ` set xs" by auto
next
  assume "key \<in> kf ` set xs"
  then obtain j where j: "j < length xs" "kf (xs ! j) = key"
    by (auto simp: in_set_conv_nth)
  with assms(2) have "r \<le> j" by (auto simp: is_lb_def not_less dest: leI)
  with j have "kf (xs ! r) \<le> key"
    using key_sorted_nth [OF assms(1)] by (cases "r = j") (auto simp: less_imp_le)
  with \<open>r \<le> j\<close> j show "r < length xs \<and> \<not> key < kf (xs ! r)" by auto
qed

lemma is_lb_hit:
  "is_lb kf xs key r \<Longrightarrow> r < length xs \<Longrightarrow> \<not> key < kf (xs ! r) \<Longrightarrow> kf (xs ! r) = key"
  by (auto simp: is_lb_def dest: antisym)

lemma lower_bound_cmps_bound: "0 < len \<Longrightarrow> 2 ^ lower_bound_cmps kf xs key first len \<le> 2 * len"
proof (induction kf xs key first len rule: lower_bound_cmps.induct)
  case (1 kf xs key first len)
  define half where "half = len div 2"
  have upper: "2 ^ lower_bound_cmps kf xs key (first + half + 1) (len - half - 1) \<le> (len :: nat)"
    if "kf (xs ! (first + half)) < key"
  proof (cases "len - half - 1 = 0")
    case True
    with "1.prems" show ?thesis by (simp add: lower_bound_cmps.simps)
  next
    case False
    with "1.IH"(1) [of half] that "1.prems"
    have "2 ^ lower_bound_cmps kf xs key (first + half + 1) (len - half - 1) \<le> 2 * (len - half - 1)"
      by (simp add: half_def)
    also have "\<dots> \<le> len" by (simp add: half_def)
    finally show ?thesis .
  qed
  have lower: "2 ^ lower_bound_cmps kf xs key first half \<le> (len :: nat)"
    if "\<not> kf (xs ! (first + half)) < key"
  proof (cases "half = 0")
    case True
    with "1.prems" show ?thesis by (simp add: lower_bound_cmps.simps)
  next
    case False
    with "1.IH"(2) [of half] that "1.prems"
    have "2 ^ lower_bound_cmps kf xs key first half \<le> 2 * half"
      by (simp add: half_def)
    also have "\<dots> \<le> len" by (simp add: half_def)
    finally show ?thesis .
  qed
  show ?case
    using "1.prems" upper lower
    by (simp add: lower_bound_cmps.simps [of kf xs key first len] Let_def flip: half_def)
qed

section \<open>\<^verbatim>\<open>GeneratedTable\<close>\<close>

text \<open>A static array of key and value; \<open>_pairsz\<close> is the length of the array.\<close>

type_synonym ('k, 'v) gtable = "('k \<times> 'v) list"

definition gt_find :: "('k::linorder, 'v) gtable \<Rightarrow> 'k \<Rightarrow> nat option" where
  "gt_find t key =
     (let res = lower_bound fst t key
      in if res \<noteq> length t \<and> \<not> key < fst (t ! res) then Some res else None)"

text \<open>\<open>find_ref\<close> throws \<^verbatim>\<open>InvalidMetadata\<close> with the key; \<open>find_ptr\<close> returns a null pointer.\<close>

definition gt_find_ref :: "('k::linorder, 'v) gtable \<Rightarrow> 'k \<Rightarrow> 'k + 'v" where
  "gt_find_ref t key = (case gt_find t key of Some res \<Rightarrow> Inr (snd (t ! res)) | None \<Rightarrow> Inl key)"

definition gt_find_ptr :: "('k::linorder, 'v) gtable \<Rightarrow> 'k \<Rightarrow> 'v option" where
  "gt_find_ptr t key = (case gt_find t key of Some res \<Rightarrow> Some (snd (t ! res)) | None \<Rightarrow> None)"

definition gt_find_pair_ptr :: "('k::linorder, 'v) gtable \<Rightarrow> 'k \<Rightarrow> nat option" where
  "gt_find_pair_ptr t key = (case gt_find t key of Some res \<Rightarrow> Some res | None \<Rightarrow> None)"

definition gt_at :: "('k, 'v) gtable \<Rightarrow> nat \<Rightarrow> ('k \<times> 'v) option" where
  "gt_at t idx = (if idx < length t then Some (t ! idx) else None)"

subsection \<open>The interface of the metadata tables\<close>

text \<open>
  Everything above the tables looks entries up by key and relies on one law: a lookup in a
  well-formed table returns the entry of that key, if there is one. \<open>entries\<close> is the table as
  an association list.
\<close>

locale lookup_table =
  fixes ok :: "'t \<Rightarrow> bool"
    and entries :: "'t \<Rightarrow> ('k \<times> 'v) list"
    and lookup :: "'t \<Rightarrow> 'k \<Rightarrow> 'v option"
  assumes lookup_entries: "ok t \<Longrightarrow> lookup t k = map_of (entries t) k"
    and entries_distinct: "ok t \<Longrightarrow> distinct (map fst (entries t))"
begin

lemma lookup_Some_iff: "ok t \<Longrightarrow> lookup t k = Some v \<longleftrightarrow> (k, v) \<in> set (entries t)"
  by (simp add: lookup_entries entries_distinct)

lemma lookup_None_iff: "ok t \<Longrightarrow> lookup t k = None \<longleftrightarrow> k \<notin> fst ` set (entries t)"
  by (simp add: lookup_entries map_of_eq_None_iff)

lemma lookup_unique: "ok t \<Longrightarrow> (k, v) \<in> set (entries t) \<Longrightarrow> (k, w) \<in> set (entries t) \<Longrightarrow> v = w"
  by (metis lookup_Some_iff option.inject)

lemma lookup_nth:
  "ok t \<Longrightarrow> i < length (entries t) \<Longrightarrow> lookup t (fst (entries t ! i)) = Some (snd (entries t ! i))"
  by (simp add: lookup_Some_iff)

end

lemma gt_find_Some:
  assumes "key_sorted fst t" and "gt_find t key = Some r"
  shows "r < length t \<and> fst (t ! r) = key"
proof -
  note lb = lower_bound_is_lb [OF assms(1), of key]
  from assms(2) have r: "r = lower_bound fst t key" "r \<noteq> length t" "\<not> key < fst (t ! r)"
    by (auto simp: gt_find_def Let_def split: if_splits)
  with lb have "r < length t" by (auto simp: is_lb_def)
  with r lb show ?thesis using is_lb_hit [of fst t key r] by simp
qed

lemma gt_find_None:
  assumes "key_sorted fst t"
  shows "gt_find t key = None \<longleftrightarrow> key \<notin> fst ` set t"
proof -
  note lb = lower_bound_is_lb [OF assms, of key]
  have "gt_find t key = None \<longleftrightarrow> \<not> (lower_bound fst t key < length t \<and> \<not> key < fst (t ! lower_bound fst t key))"
    using lb by (auto simp: gt_find_def Let_def is_lb_def)
  then show ?thesis using is_lb_find [OF assms lb] by simp
qed

lemma key_sorted_distinct: "key_sorted fst t \<Longrightarrow> distinct (map fst t)"
  unfolding distinct_conv_nth by (auto dest: key_sorted_inj)

lemma gt_find_ptr_map_of:
  assumes "key_sorted fst t"
  shows "gt_find_ptr t key = map_of t key"
proof (cases "gt_find t key")
  case None
  then have "map_of t key = None"
    using gt_find_None [OF assms, of key] by (simp add: map_of_eq_None_iff)
  with None show ?thesis by (simp add: gt_find_ptr_def)
next
  case (Some r)
  from gt_find_Some [OF assms Some] have "(key, snd (t ! r)) \<in> set t"
    by (metis nth_mem prod.collapse)
  then have "map_of t key = Some (snd (t ! r))"
    using key_sorted_distinct [OF assms] by simp
  with Some show ?thesis by (simp add: gt_find_ptr_def)
qed

interpretation gtable: lookup_table "key_sorted fst" "\<lambda>t. t" gt_find_ptr
  by unfold_locales (simp_all add: gt_find_ptr_map_of key_sorted_distinct)

section \<open>\<^verbatim>\<open>presorted_set\<close>\<close>

text \<open>
  \<open>ps_arr\<close> holds the \<open>_sz\<close> live elements, \<open>ps_rsz\<close> is the capacity of the allocated array.
  An iterator is an index, the end, or a pointer into an array the call has just freed.
\<close>

record 'a pset =
  ps_reserve :: nat
  ps_rsz :: nat
  ps_arr :: "'a list"

datatype iter = At nat | End | Dangling nat

definition calc_reserve :: "nat \<Rightarrow> nat \<Rightarrow> nat" where
  "calc_reserve sz res =
     (if sz = 0 then res
      else let val = sz * res div 100 in if val \<noteq> 0 then val else 1)"

definition ps_from_array :: "'a list \<Rightarrow> nat \<Rightarrow> 'a pset" where
  "ps_from_array arr reserve =
     \<lparr>ps_reserve = reserve, ps_rsz = length arr + calc_reserve (length arr) reserve, ps_arr = arr\<rparr>"

definition ps_copy :: "'a pset \<Rightarrow> 'a pset" where
  "ps_copy from = \<lparr>ps_reserve = ps_reserve from, ps_rsz = ps_rsz from, ps_arr = ps_arr from\<rparr>"

text \<open>The empty set: its first argument is the number of elements the array is to hold, and the
  code sets \<open>_sz\<close> to it, so only 0 describes an empty set.\<close>

definition ps_empty :: "nat \<Rightarrow> 'a pset" where
  "ps_empty reserve = \<lparr>ps_reserve = reserve, ps_rsz = calc_reserve 0 reserve, ps_arr = []\<rparr>"

text \<open>\<open>find\<close> with the answer flag: where the element is, or would be inserted.\<close>

definition equal_range :: "('a \<Rightarrow> 'k::linorder) \<Rightarrow> 'a list \<Rightarrow> 'k \<Rightarrow> nat \<times> nat" where
  "equal_range kf xs key = (lower_bound kf xs key, upper_bound kf xs key)"

definition ps_find_ans :: "('a \<Rightarrow> 'k::linorder) \<Rightarrow> 'a pset \<Rightarrow> 'k \<Rightarrow> nat \<times> bool" where
  "ps_find_ans kf s key =
     (let res = equal_range kf (ps_arr s) key in (fst res, fst res \<noteq> snd res))"

definition ps_find :: "('a \<Rightarrow> 'k::linorder) \<Rightarrow> 'a pset \<Rightarrow> 'k \<Rightarrow> iter" where
  "ps_find kf s key =
     (let res = equal_range kf (ps_arr s) key in if fst res \<noteq> snd res then At (fst res) else End)"

definition ps_at :: "'a pset \<Rightarrow> nat \<Rightarrow> iter" where
  "ps_at s idx = (if idx < length (ps_arr s) then At idx else End)"

text \<open>
  \<open>insert\<close>: the set, the iterator and the flag. Without elements a new array of the reserved
  size is made; a full array is replaced by a larger one and freed, after which the returned
  pointer \<^verbatim>\<open>where\<close> is stale.
\<close>

definition ps_insert :: "('a \<Rightarrow> 'k::linorder) \<Rightarrow> 'a pset \<Rightarrow> 'a \<Rightarrow> 'a pset \<times> iter \<times> bool" where
  "ps_insert kf s what =
     (if ps_arr s = [] then (s\<lparr>ps_arr := [what]\<rparr>, At 0, True)
      else
        let (w, answer) = ps_find_ans kf s (kf what);
            arr' = take w (ps_arr s) @ what # drop w (ps_arr s)
        in if answer then (s, End, False)
           else if length (ps_arr s) < ps_rsz s then (s\<lparr>ps_arr := arr'\<rparr>, At w, True)
           else (s\<lparr>ps_rsz := length (ps_arr s) + calc_reserve (length (ps_arr s)) (ps_reserve s),
                   ps_arr := arr'\<rparr>, Dangling w, True))"

text \<open>Inserting a range stops at the first element already present.\<close>

fun ps_insert_range :: "('a \<Rightarrow> 'k::linorder) \<Rightarrow> 'a pset \<Rightarrow> 'a list \<Rightarrow> 'a pset" where
  "ps_insert_range kf s [] = s"
| "ps_insert_range kf s (p # ps) =
     (let (s', _, ok) = ps_insert kf s p in if ok then ps_insert_range kf s' ps else s')"

definition ps_clear :: "'a pset \<Rightarrow> 'a pset" where
  "ps_clear s = s\<lparr>ps_arr := []\<rparr>"

definition ps_size :: "'a pset \<Rightarrow> nat" where
  "ps_size s = length (ps_arr s)"

definition ps_ok :: "('a \<Rightarrow> 'k::linorder) \<Rightarrow> 'a pset \<Rightarrow> bool" where
  "ps_ok kf s \<longleftrightarrow> key_sorted kf (ps_arr s) \<and> length (ps_arr s) \<le> ps_rsz s \<and> 0 < ps_rsz s"

subsection \<open>Its correctness\<close>

lemma upper_bound_loop_spec:
  assumes "key_sorted kf xs" and "first + len \<le> length xs"
    and "\<forall>i < first. kf (xs ! i) \<le> key" and "\<forall>i < length xs. first + len \<le> i \<longrightarrow> key < kf (xs ! i)"
  shows "(\<forall>i < upper_bound_loop kf xs key first len. kf (xs ! i) \<le> key) \<and>
    upper_bound_loop kf xs key first len \<le> length xs \<and>
    (\<forall>i < length xs. upper_bound_loop kf xs key first len \<le> i \<longrightarrow> key < kf (xs ! i))"
  using assms
proof (induction kf xs key first len rule: upper_bound_loop.induct)
  case (1 kf xs key first len)
  show ?case
  proof (cases "len = 0")
    case True
    with "1.prems" show ?thesis by (simp add: upper_bound_loop.simps [of kf xs key first 0])
  next
    case False
    define mid where "mid = first + len div 2"
    from False "1.prems"(2) have mid: "mid < length xs" "mid \<le> length xs" by (auto simp: mid_def)
    show ?thesis
    proof (cases "key < kf (xs ! mid)")
      case True
      have "\<forall>i < length xs. mid \<le> i \<longrightarrow> key < kf (xs ! i)"
        using True key_sorted_nth_le [OF "1.prems"(1), of mid] by (meson less_le_trans)
      with "1.IH"(1) [OF False refl refl] "1.prems" True mid show ?thesis using False
        by (simp add: upper_bound_loop.simps [of kf xs key first len] Let_def mid_def)
    next
      case ge: False
      have "\<forall>i < mid + 1. kf (xs ! i) \<le> key"
        using ge key_sorted_nth_le [OF "1.prems"(1) _ mid(1)] by (metis leI less_Suc_eq_le Suc_eq_plus1 order_trans)
      moreover have "mid + 1 + (len - len div 2 - 1) = first + len"
        using False by (auto simp: mid_def)
      ultimately show ?thesis
        using "1.IH"(2) [OF False refl refl] "1.prems" ge False
        by (simp add: upper_bound_loop.simps [of kf xs key first len] Let_def mid_def)
    qed
  qed
qed

lemma equal_range_nonempty:
  assumes "key_sorted kf xs"
  shows "lower_bound kf xs key \<noteq> upper_bound kf xs key \<longleftrightarrow> key \<in> kf ` set xs"
proof -
  define l u where "l = lower_bound kf xs key" and "u = upper_bound kf xs key"
  note lb = lower_bound_is_lb [OF assms, of key, folded l_def]
  have ub: "\<forall>i < u. kf (xs ! i) \<le> key" "u \<le> length xs" "\<forall>i < length xs. u \<le> i \<longrightarrow> key < kf (xs ! i)"
    using upper_bound_loop_spec [OF assms, of 0 "length xs" key]
    by (auto simp: u_def upper_bound_def)
  have "l < length xs \<and> \<not> key < kf (xs ! l) \<longleftrightarrow> l \<noteq> u"
  proof
    assume "l < length xs \<and> \<not> key < kf (xs ! l)"
    with ub(3) show "l \<noteq> u" by auto
  next
    assume "l \<noteq> u"
    then have "l < u"
    proof (rule contrapos_np)
      assume "\<not> l < u"
      moreover have "\<not> u < l"
      proof
        assume "u < l"
        with lb have "kf (xs ! u) < key" "u < length xs" by (auto simp: is_lb_def)
        with ub(3) show False by (auto dest: less_asym)
      qed
      ultimately show "l = u" by simp
    qed
    with ub show "l < length xs \<and> \<not> key < kf (xs ! l)" by (auto simp: not_less)
  qed
  with is_lb_find [OF assms lb] show ?thesis by (simp add: l_def u_def)
qed

lemma ps_find_ans_spec:
  assumes "key_sorted kf (ps_arr s)"
  shows "ps_find_ans kf s key = (lower_bound kf (ps_arr s) key, key \<in> kf ` set (ps_arr s))"
  using equal_range_nonempty [OF assms, of key] by (simp add: ps_find_ans_def equal_range_def Let_def)

lemma key_sorted_insert_at:
  assumes "key_sorted kf xs" and "is_lb kf xs (kf x) w" and "kf x \<notin> kf ` set xs"
  shows "key_sorted kf (take w xs @ x # drop w xs)"
proof -
  have below: "kf y < kf x" if "y \<in> set (take w xs)" for y
    using that assms(2) by (auto simp: is_lb_def in_set_conv_nth)
  have above: "kf x < kf y" if "y \<in> set (drop w xs)" for y
  proof -
    from that obtain i where i: "i < length xs - w" "y = xs ! (w + i)"
      by (auto simp: in_set_conv_nth)
    then have "kf x \<le> kf y" using assms(2) by (auto simp: is_lb_def)
    moreover have "y \<in> set xs" using i by simp
    then have "kf y \<noteq> kf x" using assms(3) by (metis imageI)
    ultimately show ?thesis by simp
  qed
  have "sorted_wrt (\<lambda>x y. kf x < kf y) (take w xs @ drop w xs)"
    using assms(1) by (simp add: key_sorted_def)
  then show ?thesis
    unfolding key_sorted_def sorted_wrt_append
    using below above by (auto intro: less_trans)
qed

lemma ps_insert_present:
  assumes "key_sorted kf (ps_arr s)" and "kf x \<in> kf ` set (ps_arr s)"
  shows "ps_insert kf s x = (s, End, False)"
  using assms by (auto simp: ps_insert_def ps_find_ans_spec Let_def)

lemma ps_insert_absent:
  assumes "ps_ok kf s" and "kf x \<notin> kf ` set (ps_arr s)"
  obtains w it where "snd (ps_insert kf s x) = (it, True)"
    and "ps_arr (fst (ps_insert kf s x)) = take w (ps_arr s) @ x # drop w (ps_arr s)"
    and "is_lb kf (ps_arr s) (kf x) w"
    and "length (ps_arr s) < ps_rsz (fst (ps_insert kf s x))"
proof -
  define w where "w = lower_bound kf (ps_arr s) (kf x)"
  from assms(1) have srt: "key_sorted kf (ps_arr s)" by (simp add: ps_ok_def)
  have lb: "is_lb kf (ps_arr s) (kf x) w" unfolding w_def by (rule lower_bound_is_lb [OF srt])
  show thesis
  proof (cases "ps_arr s = []")
    case True
    with assms lb show thesis
      by (intro that [of "At 0" w]) (simp_all add: ps_insert_def ps_ok_def is_lb_def)
  next
    case False
    then have "0 < calc_reserve (length (ps_arr s)) (ps_reserve s)"
      by (simp add: calc_reserve_def Let_def)
    with False assms(2) lb show thesis
      by (cases "length (ps_arr s) < ps_rsz s")
        (rule that, auto simp: ps_insert_def ps_find_ans_spec [OF srt] Let_def simp flip: w_def)+
  qed
qed

lemma ps_insert_ok: "ps_ok kf s \<Longrightarrow> ps_ok kf (fst (ps_insert kf s x))"
proof (cases "kf x \<in> kf ` set (ps_arr s)")
  case True
  then show "ps_ok kf s \<Longrightarrow> ?thesis" by (simp add: ps_insert_present ps_ok_def)
next
  case False
  assume ok: "ps_ok kf s"
  then obtain w where w: "ps_arr (fst (ps_insert kf s x)) = take w (ps_arr s) @ x # drop w (ps_arr s)"
    "is_lb kf (ps_arr s) (kf x) w" "length (ps_arr s) < ps_rsz (fst (ps_insert kf s x))"
    using ps_insert_absent [OF _ False] by metis
  from w(2) have "length (take w (ps_arr s) @ x # drop w (ps_arr s)) = length (ps_arr s) + 1"
    by (simp add: is_lb_def)
  with ok w False show ?thesis
    using key_sorted_insert_at [OF _ w(2) False] by (auto simp: ps_ok_def)
qed

lemma set_ps_insert:
  assumes "ps_ok kf s"
  shows "set (ps_arr (fst (ps_insert kf s x))) =
    (if kf x \<in> kf ` set (ps_arr s) then set (ps_arr s) else insert x (set (ps_arr s)))"
proof (cases "kf x \<in> kf ` set (ps_arr s)")
  case True
  with assms show ?thesis by (simp add: ps_insert_present ps_ok_def)
next
  case False
  obtain w where w: "ps_arr (fst (ps_insert kf s x)) = take w (ps_arr s) @ x # drop w (ps_arr s)"
    using ps_insert_absent [OF assms False] by metis
  have "set (take w (ps_arr s)) \<union> set (drop w (ps_arr s)) = set (ps_arr s)"
    by (metis append_take_drop_id set_append)
  with w False show ?thesis by auto
qed

lemma ps_insert_flag:
  assumes "ps_ok kf s"
  shows "snd (snd (ps_insert kf s x)) \<longleftrightarrow> kf x \<notin> kf ` set (ps_arr s)"
proof (cases "kf x \<in> kf ` set (ps_arr s)")
  case True
  with assms show ?thesis by (simp add: ps_insert_present ps_ok_def)
next
  case False
  from assms this obtain it where "snd (ps_insert kf s x) = (it, True)"
    by (rule ps_insert_absent)
  with False show ?thesis by simp
qed

lemma ps_find_At:
  assumes "key_sorted kf (ps_arr s)"
  shows "ps_find kf s key = At i \<longleftrightarrow> i < length (ps_arr s) \<and> kf (ps_arr s ! i) = key"
proof -
  note lb = lower_bound_is_lb [OF assms, of key]
  have find: "ps_find kf s key = (if key \<in> kf ` set (ps_arr s) then At (lower_bound kf (ps_arr s) key) else End)"
    using equal_range_nonempty [OF assms, of key] by (simp add: ps_find_def equal_range_def Let_def)
  have hit: "lower_bound kf (ps_arr s) key < length (ps_arr s) \<and> kf (ps_arr s ! lower_bound kf (ps_arr s) key) = key"
    if "key \<in> kf ` set (ps_arr s)"
    using that is_lb_find [OF assms lb] is_lb_hit [OF lb] by blast
  show ?thesis
  proof (cases "key \<in> kf ` set (ps_arr s)")
    case True
    with find hit show ?thesis by (auto dest: key_sorted_inj [OF assms])
  next
    case False
    with find show ?thesis by (metis iter.distinct(1) imageI nth_mem)
  qed
qed

definition ps_lookup :: "('a \<Rightarrow> 'k::linorder) \<Rightarrow> 'a pset \<Rightarrow> 'k \<Rightarrow> 'a option" where
  "ps_lookup kf s key = (case ps_find kf s key of At i \<Rightarrow> Some (ps_arr s ! i) | _ \<Rightarrow> None)"

definition keyed :: "('a \<Rightarrow> 'k) \<Rightarrow> 'a list \<Rightarrow> ('k \<times> 'a) list" where
  "keyed kf xs = map (\<lambda>x. (kf x, x)) xs"

lemma keyed_distinct: "key_sorted kf xs \<Longrightarrow> distinct (map fst (keyed kf xs))"
  unfolding distinct_conv_nth keyed_def by (auto dest: key_sorted_inj)

lemma map_of_keyed_index:
  assumes "key_sorted kf xs"
  shows "map_of (keyed kf xs) k = Some x \<longleftrightarrow> (\<exists>i < length xs. xs ! i = x \<and> kf x = k)"
proof -
  have "map_of (keyed kf xs) k = Some x \<longleftrightarrow> (k, x) \<in> set (keyed kf xs)"
    using keyed_distinct [OF assms] by simp
  also have "\<dots> \<longleftrightarrow> x \<in> set xs \<and> kf x = k" by (auto simp: keyed_def)
  finally show ?thesis by (auto simp: in_set_conv_nth)
qed

lemma ps_lookup_map_of:
  assumes "ps_ok kf s"
  shows "ps_lookup kf s k = map_of (keyed kf (ps_arr s)) k"
proof -
  from assms have srt: "key_sorted kf (ps_arr s)" by (simp add: ps_ok_def)
  have no_dangling: "ps_find kf s k \<noteq> Dangling w" for w
    by (simp add: ps_find_def Let_def)
  show ?thesis
  proof (cases "map_of (keyed kf (ps_arr s)) k")
    case None
    then have "ps_find kf s k \<noteq> At i" for i
      using map_of_keyed_index [OF srt, of k] by (auto simp: ps_find_At [OF srt])
    with None no_dangling show ?thesis by (cases "ps_find kf s k") (auto simp: ps_lookup_def)
  next
    case (Some x)
    then obtain i where "i < length (ps_arr s)" "ps_arr s ! i = x" "kf x = k"
      using map_of_keyed_index [OF srt, of k x] by auto
    then have "ps_find kf s k = At i" by (simp add: ps_find_At [OF srt])
    with Some \<open>ps_arr s ! i = x\<close> show ?thesis by (simp add: ps_lookup_def)
  qed
qed

interpretation pset: lookup_table "ps_ok kf" "\<lambda>s. keyed kf (ps_arr s)" "ps_lookup kf"
  for kf :: "'a \<Rightarrow> 'k::linorder"
  by unfold_locales (simp_all add: ps_lookup_map_of keyed_distinct ps_ok_def)

section \<open>Properties\<close>

text \<open>
  C38: \<open>GeneratedTable::find_ptr\<close> on a sorted table is a map lookup, \<open>find_ref\<close> returns the same
  entry or throws with the key, and the search makes at most \<^verbatim>\<open>log2(2 * size)\<close> comparisons.
\<close>

theorem generated_table_correct:
  assumes "key_sorted fst t"
  shows "gt_find_ptr t key = map_of t key \<and>
    gt_find_ref t key = (case map_of t key of Some v \<Rightarrow> Inr v | None \<Rightarrow> Inl key) \<and>
    (t = [] \<or> 2 ^ lower_bound_cmps fst t key 0 (length t) \<le> 2 * length t)"
proof -
  have ptr: "gt_find_ptr t key = map_of t key" by (rule gt_find_ptr_map_of [OF assms])
  then have "gt_find_ref t key = (case map_of t key of Some v \<Rightarrow> Inr v | None \<Rightarrow> Inl key)"
    by (cases "gt_find t key") (auto simp: gt_find_ref_def gt_find_ptr_def dest: sym)
  with ptr show ?thesis using lower_bound_cmps_bound [of "length t" fst t key 0] by auto
qed

theorem generated_table_correct_witness:
  "let t = [(''A'', 1), (''D'', 2), (''header'', 3 :: nat)]
   in gt_find_ptr t ''D'' = Some 2 \<and> gt_find_ref t ''E'' = Inl ''E'' \<and>
      2 ^ lower_bound_cmps fst t ''D'' 0 3 \<le> (6 :: nat)"
proof -
  have srt: "key_sorted fst [(''A'', 1), (''D'', 2), (''header'', 3 :: nat)]"
    by (simp add: key_sorted_def)
  show ?thesis
    using generated_table_correct [OF srt, of "''D''"] generated_table_correct [OF srt, of "''E''"]
    by (simp add: eval_nat_numeral)
qed

text \<open>
  C39: \<open>presorted_set::insert\<close> keeps the set sorted and within its capacity, adds exactly the
  element whose key was not there, and says so; \<open>find\<close> afterwards returns the element of a key.
\<close>

theorem presorted_insert_correct:
  assumes "ps_ok kf s"
  shows "ps_ok kf (fst (ps_insert kf s x)) \<and>
    (snd (snd (ps_insert kf s x)) \<longleftrightarrow> kf x \<notin> kf ` set (ps_arr s)) \<and>
    set (ps_arr (fst (ps_insert kf s x))) =
      (if kf x \<in> kf ` set (ps_arr s) then set (ps_arr s) else insert x (set (ps_arr s))) \<and>
    (ps_lookup kf (fst (ps_insert kf s x)) k = Some y \<longleftrightarrow>
       y \<in> set (ps_arr (fst (ps_insert kf s x))) \<and> kf y = k)"
proof -
  have ok: "ps_ok kf (fst (ps_insert kf s x))" by (rule ps_insert_ok [OF assms])
  moreover have "ps_lookup kf (fst (ps_insert kf s x)) k = Some y \<longleftrightarrow>
      y \<in> set (ps_arr (fst (ps_insert kf s x))) \<and> kf y = k"
    unfolding pset.lookup_Some_iff [OF ok] by (auto simp: keyed_def)
  ultimately show ?thesis using ps_insert_flag [OF assms] set_ps_insert [OF assms] by blast
qed

theorem presorted_insert_correct_witness:
  "let s = ps_from_array [3, 7 :: nat] 100
   in ps_ok (\<lambda>x. x) (fst (ps_insert (\<lambda>x. x) s 5)) \<and> snd (snd (ps_insert (\<lambda>x. x) s 5)) \<and>
      set (ps_arr (fst (ps_insert (\<lambda>x. x) s 5))) = {3, 5, 7}"
proof -
  have "ps_ok (\<lambda>x. x) (ps_from_array [3, 7 :: nat] 100)"
    by (simp add: ps_ok_def key_sorted_def ps_from_array_def)
  moreover have "ps_arr (ps_from_array [3, 7 :: nat] 100) = [3, 7]" by (simp add: ps_from_array_def)
  ultimately show ?thesis
    using presorted_insert_correct [of "\<lambda>x. x" "ps_from_array [3, 7 :: nat] 100" 5]
    by (auto simp: Let_def)
qed

end
