(* ===== verification/Traits.thy ===== *)
theory Traits
  imports Tables
begin

text \<open>
  \<^verbatim>\<open>include/fix8/traits.hpp\<close>: the traits of the fields of a message, their presence flags,
  the hash array that finds a field in constant time, and \<^verbatim>\<open>FieldTraits\<close>, the class the
  codec asks. An iterator parameter that the code passes as a hint is a value of \<open>iter\<close>.
\<close>

section \<open>Field traits\<close>

datatype ftype =
    ft_untyped
  | ft_int | ft_Length | ft_TagNum | ft_SeqNum | ft_NumInGroup | ft_DayOfMonth
  | ft_char | ft_Boolean
  | ft_float | ft_Qty | ft_Price | ft_PriceOffset | ft_Amt | ft_Percentage
  | ft_string | ft_MultipleCharValue | ft_MultipleStringValue | ft_Country | ft_Currency | ft_Exchange
  | ft_MonthYear | ft_UTCTimestamp | ft_UTCTimeOnly | ft_UTCDateOnly | ft_LocalMktDate
  | ft_TZTimeOnly | ft_TZTimestamp | ft_data | ft_XMLData | ft_pattern | ft_Tenor
  | ft_Reserved100Plus | ft_Reserved1000Plus | ft_Reserved4000Plus | ft_Language

text \<open>The value of each enumerator.\<close>

fun ft_code :: "ftype \<Rightarrow> nat" where
  "ft_code ft_untyped = 0"
| "ft_code ft_int = 1" | "ft_code ft_Length = 2" | "ft_code ft_TagNum = 3" | "ft_code ft_SeqNum = 4"
| "ft_code ft_NumInGroup = 5" | "ft_code ft_DayOfMonth = 6"
| "ft_code ft_char = 7" | "ft_code ft_Boolean = 8"
| "ft_code ft_float = 9" | "ft_code ft_Qty = 10" | "ft_code ft_Price = 11" | "ft_code ft_PriceOffset = 12"
| "ft_code ft_Amt = 13" | "ft_code ft_Percentage = 14"
| "ft_code ft_string = 15" | "ft_code ft_MultipleCharValue = 16" | "ft_code ft_MultipleStringValue = 17"
| "ft_code ft_Country = 18" | "ft_code ft_Currency = 19" | "ft_code ft_Exchange = 20"
| "ft_code ft_MonthYear = 21" | "ft_code ft_UTCTimestamp = 22" | "ft_code ft_UTCTimeOnly = 23"
| "ft_code ft_UTCDateOnly = 24" | "ft_code ft_LocalMktDate = 25" | "ft_code ft_TZTimeOnly = 26"
| "ft_code ft_TZTimestamp = 27" | "ft_code ft_data = 28" | "ft_code ft_XMLData = 29"
| "ft_code ft_pattern = 30" | "ft_code ft_Tenor = 31" | "ft_code ft_Reserved100Plus = 32"
| "ft_code ft_Reserved1000Plus = 33" | "ft_code ft_Reserved4000Plus = 34" | "ft_code ft_Language = 35"

definition is_int :: "ftype \<Rightarrow> bool" where
  "is_int ft \<longleftrightarrow> ft_code ft_int \<le> ft_code ft \<and> ft_code ft \<le> ft_code ft_DayOfMonth"

definition is_char :: "ftype \<Rightarrow> bool" where
  "is_char ft \<longleftrightarrow> ft_code ft_char \<le> ft_code ft \<and> ft_code ft \<le> ft_code ft_Boolean"

definition is_float :: "ftype \<Rightarrow> bool" where
  "is_float ft \<longleftrightarrow> ft_code ft_float \<le> ft_code ft \<and> ft_code ft \<le> ft_code ft_Percentage"

definition is_string :: "ftype \<Rightarrow> bool" where
  "is_string ft \<longleftrightarrow> ft_code ft_string \<le> ft_code ft \<and> ft_code ft \<le> ft_code ft_Language"

definition underlying_type :: "ftype \<Rightarrow> ftype" where
  "underlying_type ft =
     (if is_int ft then ft_int else if is_char ft then ft_char
      else if is_float ft then ft_float else if is_string ft then ft_string else ft_untyped)"

definition get_type_string :: "ftype \<Rightarrow> string" where
  "get_type_string ft =
     (if is_int ft then ''int'' else if is_char ft then ''char''
      else if is_float ft then ''double'' else if is_string ft then ''f8String'' else [])"

datatype trait_type = mandatory | present | position | group | component | suppress | automatic

fun trait_bit :: "trait_type \<Rightarrow> nat" where
  "trait_bit mandatory = 0" | "trait_bit present = 1" | "trait_bit position = 2"
| "trait_bit group = 3" | "trait_bit component = 4" | "trait_bit suppress = 5"
| "trait_bit automatic = 6"

record field_trait =
  t_fnum :: u16
  t_ftype :: ftype
  t_pos :: u16
  t_component :: u16
  t_traits :: u16

definition t_has :: "field_trait \<Rightarrow> trait_type \<Rightarrow> bool" where
  "t_has t ty \<longleftrightarrow> eb_has (t_traits t) (trait_bit ty) \<noteq> 0"

definition t_set :: "field_trait \<Rightarrow> trait_type \<Rightarrow> field_trait" where
  "t_set t ty = t\<lparr>t_traits := eb_set (t_traits t) (trait_bit ty) True\<rparr>"

definition t_clear :: "field_trait \<Rightarrow> trait_type \<Rightarrow> field_trait" where
  "t_clear t ty = t\<lparr>t_traits := eb_clear (t_traits t) (trait_bit ty)\<rparr>"

text \<open>
  The constructor from flags. The source shifts the conditional values by the enumerators, so
  \<open>mandatory\<close> is bit 0.
\<close>

definition mk_trait ::
  "u16 \<Rightarrow> ftype \<Rightarrow> u16 \<Rightarrow> bool \<Rightarrow> bool \<Rightarrow> u16 \<Rightarrow> bool \<Rightarrow> field_trait" where
  "mk_trait field ftype pos ismandatory isgroup compon ispresent =
     \<lparr>t_fnum = field, t_ftype = ftype, t_pos = pos, t_component = compon,
      t_traits = (if ismandatory then 1 else 0)
        OR push_bit (trait_bit present) (if ispresent then 1 else 0)
        OR push_bit (trait_bit position) (if pos \<noteq> 0 then 1 else 0)
        OR push_bit (trait_bit group) (if isgroup then 1 else 0)
        OR push_bit (trait_bit component) (if compon \<noteq> 0 then 1 else 0)\<rparr>"

lemma trait_bit_less: "trait_bit ty < LENGTH(16)"
  by (cases ty) simp_all

lemma trait_bit_inj: "trait_bit a = trait_bit b \<longleftrightarrow> a = b"
  by (cases a; cases b) simp_all

lemma t_has_set [simp]: "t_has (t_set t a) b \<longleftrightarrow> a = b \<or> t_has t b"
  using trait_bit_less [of a] trait_bit_less [of b]
  by (auto simp: t_has_def t_set_def eb_simps trait_bit_inj)

lemma t_has_clear [simp]: "t_has (t_clear t a) b \<longleftrightarrow> a \<noteq> b \<and> t_has t b"
  using trait_bit_less [of a] trait_bit_less [of b]
  by (auto simp: t_has_def t_clear_def eb_simps trait_bit_inj)

lemma t_set_frame [simp]:
  "t_fnum (t_set t a) = t_fnum t" "t_ftype (t_set t a) = t_ftype t" "t_pos (t_set t a) = t_pos t"
  "t_component (t_set t a) = t_component t"
  "t_fnum (t_clear t a) = t_fnum t" "t_ftype (t_clear t a) = t_ftype t"
  "t_pos (t_clear t a) = t_pos t" "t_component (t_clear t a) = t_component t"
  by (simp_all add: t_set_def t_clear_def)

section \<open>The hash array and the presence set\<close>

record hash_array =
  h_els :: nat
  h_sz :: nat
  h_arr :: "u16 list"

text \<open>
  The constructor of \<^verbatim>\<open>FieldTrait_Hash_Array\<close>. \<open>None\<close> is a write or read outside an array: an
  empty table, or a field number above that of the last element.
\<close>

fun hash_fill :: "field_trait list \<Rightarrow> nat \<Rightarrow> u16 list \<Rightarrow> u16 list option" where
  "hash_fill [] offset arr = Some arr"
| "hash_fill (t # ts) offset arr =
     (if unat (t_fnum t) < length arr
      then hash_fill ts (offset + 1) (arr[unat (t_fnum t) := of_nat offset])
      else None)"

definition mk_hash :: "field_trait list \<Rightarrow> hash_array option" where
  "mk_hash from =
     (if from = [] then None
      else let sz = unat (t_fnum (last from)) + 1
           in map_option (\<lambda>arr. \<lparr>h_els = length from, h_sz = sz, h_arr = arr\<rparr>)
                (hash_fill from 0 (replicate sz 0)))"

record presence =
  p_reserve :: nat
  p_rsz :: nat
  p_arr :: "field_trait list"
  p_ftha :: "hash_array option"

definition pr_ctor_hash :: "field_trait list \<Rightarrow> hash_array \<Rightarrow> presence" where
  \<comment> \<open>\<open>_rsz\<close> is not initialised by this constructor\<close>
  "pr_ctor_hash arr_start ftha = \<lparr>p_reserve = 0, p_rsz = 0, p_arr = arr_start, p_ftha = Some ftha\<rparr>"

definition pr_ctor :: "field_trait list \<Rightarrow> nat \<Rightarrow> presence" where
  "pr_ctor arr_start reserve =
     \<lparr>p_reserve = reserve, p_rsz = length arr_start + calc_reserve (length arr_start) reserve,
      p_arr = arr_start, p_ftha = None\<rparr>"

text \<open>The test of the hash path: the slot of the key holds the index of an element with that key.\<close>

definition hash_hit :: "hash_array \<Rightarrow> field_trait list \<Rightarrow> u16 \<Rightarrow> nat option" where
  "hash_hit h arr key =
     (if unat key < h_sz h
      then let i = unat (h_arr h ! unat key)
           in if i < length arr \<and> t_fnum (arr ! i) = key then Some i else None
      else None)"

definition pr_find :: "presence \<Rightarrow> u16 \<Rightarrow> iter" where
  "pr_find p key =
     (case p_ftha p of
        Some h \<Rightarrow> (case hash_hit h (p_arr p) key of Some i \<Rightarrow> At i | None \<Rightarrow> End)
      | None \<Rightarrow> (let res = equal_range t_fnum (p_arr p) key
                 in if fst res \<noteq> snd res then At (fst res) else End))"

text \<open>The version with the answer flag returns a null pointer for a miss of the hash path.\<close>

definition pr_find_ans :: "presence \<Rightarrow> u16 \<Rightarrow> nat option \<times> bool" where
  "pr_find_ans p key =
     (case p_ftha p of
        Some h \<Rightarrow> (case hash_hit h (p_arr p) key of Some i \<Rightarrow> (Some i, True) | None \<Rightarrow> (None, False))
      | None \<Rightarrow> (let res = equal_range t_fnum (p_arr p) key in (Some (fst res), fst res \<noteq> snd res)))"

definition pr_find_val :: "presence \<Rightarrow> field_trait \<Rightarrow> iter" where
  "pr_find_val p what =
     (let res = equal_range t_fnum (p_arr p) (t_fnum what)
      in if fst res \<noteq> snd res then At (fst res) else End)"

definition pr_at :: "presence \<Rightarrow> nat \<Rightarrow> iter" where
  "pr_at p idx = (if idx < length (p_arr p) then At idx else End)"

text \<open>
  \<open>insert\<close>; \<open>None\<close> is the null pointer arithmetic the code performs when the element is not
  found through the hash array, and the write into an array of uninitialised size.
\<close>

definition pr_insert :: "presence \<Rightarrow> field_trait \<Rightarrow> (presence \<times> iter \<times> bool) option" where
  "pr_insert p what =
     (if p_arr p = []
      then (if p_ftha p = None then Some (p\<lparr>p_arr := [what]\<rparr>, At 0, True) else None)
      else
        (case pr_find_ans p (t_fnum what) of
           (_, True) \<Rightarrow> Some (p, End, False)
         | (None, False) \<Rightarrow> None
         | (Some w, False) \<Rightarrow>
             let arr' = take w (p_arr p) @ what # drop w (p_arr p)
             in if length (p_arr p) < p_rsz p then Some (p\<lparr>p_arr := arr'\<rparr>, At w, True)
                else Some (p\<lparr>p_rsz := length (p_arr p) + calc_reserve (length (p_arr p)) (p_reserve p),
                             p_arr := arr'\<rparr>, Dangling w, True)))"

fun pr_insert_range :: "presence \<Rightarrow> field_trait list \<Rightarrow> presence option" where
  "pr_insert_range p [] = Some p"
| "pr_insert_range p (t # ts) =
     (case pr_insert p t of
        None \<Rightarrow> None
      | Some (p', _, ok) \<Rightarrow> if ok then pr_insert_range p' ts else Some p')"

text \<open>Well-formed: sorted by field number, and a hash array is the one built from the elements.\<close>

definition pr_ok :: "presence \<Rightarrow> bool" where
  "pr_ok p \<longleftrightarrow> key_sorted t_fnum (p_arr p) \<and>
     (case p_ftha p of None \<Rightarrow> True | Some h \<Rightarrow> mk_hash (p_arr p) = Some h)"

definition pr_lookup :: "presence \<Rightarrow> u16 \<Rightarrow> field_trait option" where
  "pr_lookup p k = (case pr_find p k of At i \<Rightarrow> Some (p_arr p ! i) | _ \<Rightarrow> None)"

subsection \<open>Lookup through the hash array\<close>

lemma hash_fill_spec:
  assumes "hash_fill ts off arr = Some arr'" and "distinct (map t_fnum ts)"
  shows "length arr' = length arr \<and> (\<forall>t \<in> set ts. unat (t_fnum t) < length arr) \<and>
    (\<forall>j < length ts. arr' ! unat (t_fnum (ts ! j)) = of_nat (off + j)) \<and>
    (\<forall>k. (\<forall>t \<in> set ts. unat (t_fnum t) \<noteq> k) \<longrightarrow> arr' ! k = arr ! k)"
  using assms
proof (induction ts off arr rule: hash_fill.induct)
  case (1 off arr)
  then show ?case by simp
next
  case (2 t ts off arr)
  define arr1 where "arr1 = arr[unat (t_fnum t) := of_nat off]"
  from "2.prems" have b: "unat (t_fnum t) < length arr" and f: "hash_fill ts (off + 1) arr1 = Some arr'"
    by (auto simp: arr1_def split: if_splits)
  note IH = "2.IH" [OF b f [unfolded arr1_def]]
  from "2.prems"(2) have d: "distinct (map t_fnum ts)" and notin: "t_fnum t \<notin> t_fnum ` set ts"
    by simp_all
  then have fresh: "\<forall>s \<in> set ts. unat (t_fnum s) \<noteq> unat (t_fnum t)"
    by (metis imageI word_unat_eq_iff)
  from IH [OF d] have ih: "length arr' = length arr" "\<forall>t \<in> set ts. unat (t_fnum t) < length arr"
    "\<forall>j < length ts. arr' ! unat (t_fnum (ts ! j)) = of_nat (off + 1 + j)"
    "\<forall>k. (\<forall>t \<in> set ts. unat (t_fnum t) \<noteq> k) \<longrightarrow> arr' ! k = arr1 ! k"
    by (simp_all add: arr1_def)
  from ih(4) fresh b have "arr' ! unat (t_fnum t) = of_nat off" by (simp add: arr1_def)
  then have "\<forall>j < length (t # ts). arr' ! unat (t_fnum ((t # ts) ! j)) = of_nat (off + j)"
    using ih(3) by (auto simp: nth_Cons split: nat.splits)
  moreover have "\<forall>k. (\<forall>s \<in> set (t # ts). unat (t_fnum s) \<noteq> k) \<longrightarrow> arr' ! k = arr ! k"
    using ih(4) by (auto simp: arr1_def)
  ultimately show ?case using ih(1,2) b by simp
qed

lemma hash_fill_total:
  "\<forall>t \<in> set ts. unat (t_fnum t) < length arr \<Longrightarrow> hash_fill ts off arr \<noteq> None"
  by (induction ts off arr rule: hash_fill.induct) auto

lemma key_sorted_fnum_distinct: "key_sorted t_fnum xs \<Longrightarrow> distinct (map t_fnum xs)"
  unfolding distinct_conv_nth by (auto dest: key_sorted_inj)

lemma key_sorted_fnum_length: "key_sorted t_fnum xs \<Longrightarrow> length xs \<le> 65536"
proof -
  assume "key_sorted t_fnum xs"
  then have "card (set (map t_fnum xs)) = length xs"
    using key_sorted_fnum_distinct distinct_card by fastforce
  moreover have "card (set (map t_fnum xs)) \<le> card (UNIV :: u16 set)"
    by (rule card_mono) auto
  moreover have "card (UNIV :: u16 set) = 65536" by (simp add: card_word)
  ultimately show ?thesis by simp
qed

text \<open>The tables the compiler generates are sorted: the array is then never written outside.\<close>

lemma mk_hash_sorted:
  assumes "key_sorted t_fnum xs" and "xs \<noteq> []"
  obtains h where "mk_hash xs = Some h"
proof -
  have "unat (t_fnum t) < unat (t_fnum (last xs)) + 1" if "t \<in> set xs" for t
  proof -
    from that obtain i where "i < length xs" "xs ! i = t" by (auto simp: in_set_conv_nth)
    then have "t_fnum t \<le> t_fnum (last xs)"
      using key_sorted_nth_le [OF assms(1), of i "length xs - 1"] assms(2) by (simp add: last_conv_nth)
    then show ?thesis by (simp add: word_le_nat_alt)
  qed
  then have "hash_fill xs 0 (replicate (unat (t_fnum (last xs)) + 1) 0) \<noteq> None"
    by (intro hash_fill_total) simp
  then show thesis using assms(2) that by (auto simp: mk_hash_def Let_def)
qed

lemma hash_hit_iff:
  assumes "key_sorted t_fnum xs" and "mk_hash xs = Some h"
  shows "hash_hit h xs k = Some i \<longleftrightarrow> i < length xs \<and> t_fnum (xs ! i) = k"
proof -
  note d = key_sorted_fnum_distinct [OF assms(1)]
  from assms(2) obtain arr where arr: "hash_fill xs 0 (replicate (unat (t_fnum (last xs)) + 1) 0) = Some arr"
    and h: "h_sz h = unat (t_fnum (last xs)) + 1" "h_arr h = arr"
    by (auto simp: mk_hash_def Let_def split: if_splits)
  note spec = hash_fill_spec [OF arr d]
  show ?thesis
  proof
    assume "hash_hit h xs k = Some i"
    then show "i < length xs \<and> t_fnum (xs ! i) = k"
      by (auto simp: hash_hit_def Let_def split: if_splits)
  next
    assume i: "i < length xs \<and> t_fnum (xs ! i) = k"
    with spec have "arr ! unat k = of_nat i" and "unat k < h_sz h" by (auto simp: h)
    moreover have "unat (of_nat i :: u16) = i"
      using i key_sorted_fnum_length [OF assms(1)] by (simp add: unat_of_nat take_bit_nat_eq_self)
    ultimately show "hash_hit h xs k = Some i"
      using i by (simp add: hash_hit_def h)
  qed
qed

lemma pr_find_At:
  assumes "pr_ok p"
  shows "pr_find p k = At i \<longleftrightarrow> i < length (p_arr p) \<and> t_fnum (p_arr p ! i) = k"
proof (cases "p_ftha p")
  case None
  define s :: "field_trait pset" where "s = \<lparr>ps_reserve = 0, ps_rsz = 0, ps_arr = p_arr p\<rparr>"
  have "pr_find p k = ps_find t_fnum s k"
    using None by (simp add: pr_find_def ps_find_def s_def)
  with assms show ?thesis using ps_find_At [of t_fnum s k i] by (simp add: pr_ok_def s_def)
next
  case (Some h)
  with assms hash_hit_iff [of "p_arr p" h k i] show ?thesis
    by (auto simp: pr_ok_def pr_find_def split: option.splits)
qed

lemma pr_find_not_dangling: "pr_find p k \<noteq> Dangling w"
  by (simp add: pr_find_def Let_def split: option.splits)

lemma iter_eqI:
  assumes "\<And>j. a = At j \<longleftrightarrow> b = At j" and "\<And>w. a \<noteq> Dangling w" and "\<And>w. b \<noteq> Dangling w"
  shows "a = b"
proof (cases a)
  case End
  with assms show ?thesis by (cases b) auto
qed (use assms in auto)

lemma pr_lookup_map_of:
  assumes "pr_ok p"
  shows "pr_lookup p k = map_of (keyed t_fnum (p_arr p)) k"
proof -
  from assms have srt: "key_sorted t_fnum (p_arr p)" by (simp add: pr_ok_def)
  show ?thesis
  proof (cases "map_of (keyed t_fnum (p_arr p)) k")
    case None
    then have "pr_find p k \<noteq> At i" for i
      using map_of_keyed_index [OF srt, of k] by (auto simp: pr_find_At [OF assms])
    with None pr_find_not_dangling show ?thesis by (cases "pr_find p k") (auto simp: pr_lookup_def)
  next
    case (Some x)
    then obtain i where i: "i < length (p_arr p)" "p_arr p ! i = x" "t_fnum x = k"
      using map_of_keyed_index [OF srt, of k x] by auto
    then have "pr_find p k = At i" by (simp add: pr_find_At [OF assms])
    with Some i show ?thesis by (simp add: pr_lookup_def)
  qed
qed

interpretation presence: lookup_table pr_ok "\<lambda>p. keyed t_fnum (p_arr p)" pr_lookup
  by unfold_locales (simp_all add: pr_lookup_map_of keyed_distinct pr_ok_def)

section \<open>\<^verbatim>\<open>FieldTraits\<close>\<close>

text \<open>
  The class holds one presence set. The operations come in two forms: by field number, and with
  an iterator that is searched when it is the end and used as it is otherwise; the second form
  also returns the iterator.
\<close>

definition pr_elem :: "presence \<Rightarrow> iter \<Rightarrow> field_trait option" where
  "pr_elem p itr = (case itr of At i \<Rightarrow> Some (p_arr p ! i) | _ \<Rightarrow> None)"

definition pr_update :: "presence \<Rightarrow> iter \<Rightarrow> (field_trait \<Rightarrow> field_trait) \<Rightarrow> presence" where
  "pr_update p itr f =
     (case itr of At i \<Rightarrow> p\<lparr>p_arr := (p_arr p)[i := f (p_arr p ! i)]\<rparr> | _ \<Rightarrow> p)"

definition fp_has_itr :: "presence \<Rightarrow> u16 \<Rightarrow> iter \<Rightarrow> bool \<times> iter" where
  "fp_has_itr p field itr =
     (let itr' = (if itr = End then pr_find p field else itr) in (itr' \<noteq> End, itr'))"

definition fp_has :: "presence \<Rightarrow> u16 \<Rightarrow> bool" where
  "fp_has p field \<longleftrightarrow> pr_find p field \<noteq> End"

definition fp_getval :: "presence \<Rightarrow> u16 \<Rightarrow> u16" where
  "fp_getval p field = (case pr_elem p (pr_find p field) of Some t \<Rightarrow> t_traits t | None \<Rightarrow> 0)"

definition fp_get :: "presence \<Rightarrow> u16 \<Rightarrow> trait_type \<Rightarrow> bool" where
  "fp_get p field ty = (case pr_elem p (pr_find p field) of Some t \<Rightarrow> t_has t ty | None \<Rightarrow> False)"

definition fp_get_itr :: "presence \<Rightarrow> u16 \<Rightarrow> iter \<Rightarrow> trait_type \<Rightarrow> bool \<times> iter" where
  "fp_get_itr p field itr ty =
     (let itr' = (if itr \<noteq> End then itr else pr_find p field)
      in (case pr_elem p itr' of Some t \<Rightarrow> t_has t ty | None \<Rightarrow> False, itr'))"

fun find_missing_from :: "field_trait list \<Rightarrow> trait_type \<Rightarrow> u16" where
  "find_missing_from [] ty = 0"
| "find_missing_from (t # ts) ty =
     (if t_has t ty \<and> \<not> t_has t present then t_fnum t else find_missing_from ts ty)"

definition fp_find_missing :: "presence \<Rightarrow> trait_type \<Rightarrow> u16" where
  "fp_find_missing p ty = find_missing_from (p_arr p) ty"

definition fp_set_itr :: "presence \<Rightarrow> u16 \<Rightarrow> iter \<Rightarrow> trait_type \<Rightarrow> presence \<times> iter" where
  "fp_set_itr p field itr ty =
     (let itr' = (if itr = End then pr_find p field else itr) in (pr_update p itr' (\<lambda>t. t_set t ty), itr'))"

definition fp_set :: "presence \<Rightarrow> u16 \<Rightarrow> trait_type \<Rightarrow> presence" where
  "fp_set p field ty = pr_update p (pr_find p field) (\<lambda>t. t_set t ty)"

definition fp_clear_itr :: "presence \<Rightarrow> u16 \<Rightarrow> iter \<Rightarrow> trait_type \<Rightarrow> presence \<times> iter" where
  "fp_clear_itr p field itr ty =
     (let itr' = (if itr = End then pr_find p field else itr) in (pr_update p itr' (\<lambda>t. t_clear t ty), itr'))"

definition fp_clear :: "presence \<Rightarrow> u16 \<Rightarrow> trait_type \<Rightarrow> presence" where
  "fp_clear p field ty = pr_update p (pr_find p field) (\<lambda>t. t_clear t ty)"

definition fp_add :: "presence \<Rightarrow> field_trait \<Rightarrow> (presence \<times> bool) option" where
  "fp_add p what = map_option (\<lambda>(p', _, ok). (p', ok)) (pr_insert p what)"

definition fp_add_range :: "presence \<Rightarrow> field_trait list \<Rightarrow> presence option" where
  "fp_add_range p ts = pr_insert_range p ts"

definition fp_clear_flag :: "presence \<Rightarrow> trait_type \<Rightarrow> presence" where
  "fp_clear_flag p ty = p\<lparr>p_arr := map (\<lambda>t. t_clear t ty) (p_arr p)\<rparr>"

definition fp_is_present :: "presence \<Rightarrow> u16 \<Rightarrow> bool" where
  "fp_is_present p field = fp_get p field present"

definition fp_is_mandatory :: "presence \<Rightarrow> u16 \<Rightarrow> bool" where
  "fp_is_mandatory p field = fp_get p field mandatory"

definition fp_is_group_itr :: "presence \<Rightarrow> u16 \<Rightarrow> iter \<Rightarrow> bool \<times> iter" where
  "fp_is_group_itr p field itr = fp_get_itr p field itr group"

definition fp_is_group :: "presence \<Rightarrow> u16 \<Rightarrow> bool" where
  "fp_is_group p field = fp_get p field group"

definition fp_is_component :: "presence \<Rightarrow> u16 \<Rightarrow> bool" where
  "fp_is_component p field = fp_get p field component"

definition fp_getComp_itr :: "presence \<Rightarrow> u16 \<Rightarrow> iter \<Rightarrow> u16 \<times> iter" where
  "fp_getComp_itr p field itr =
     (let itr' = (if itr \<noteq> End then itr else pr_find p field)
      in (case pr_elem p itr' of Some t \<Rightarrow> t_component t | None \<Rightarrow> 0, itr'))"

definition fp_getComp :: "presence \<Rightarrow> u16 \<Rightarrow> u16" where
  "fp_getComp p field = (case pr_elem p (pr_find p field) of Some t \<Rightarrow> t_component t | None \<Rightarrow> 0)"

definition fp_getPos_itr :: "presence \<Rightarrow> u16 \<Rightarrow> iter \<Rightarrow> u16 \<times> iter" where
  "fp_getPos_itr p field itr =
     (let itr' = (if itr \<noteq> End then itr else pr_find p field)
      in (case pr_elem p itr' of Some t \<Rightarrow> (if t_has t position then t_pos t else 0) | None \<Rightarrow> 0, itr'))"

definition fp_getPos :: "presence \<Rightarrow> u16 \<Rightarrow> u16" where
  "fp_getPos p field =
     (case pr_elem p (pr_find p field) of Some t \<Rightarrow> (if t_has t position then t_pos t else 0) | None \<Rightarrow> 0)"

subsection \<open>Correctness\<close>

lemma pr_elem_find: "pr_elem p (pr_find p f) = pr_lookup p f"
  by (simp add: pr_elem_def pr_lookup_def split: iter.splits)

lemma pr_lookup_Some:
  "pr_ok p \<Longrightarrow> pr_lookup p f = Some t \<longleftrightarrow> t \<in> set (p_arr p) \<and> t_fnum t = f"
  by (auto simp: presence.lookup_Some_iff keyed_def)

lemma pr_lookup_None: "pr_ok p \<Longrightarrow> pr_lookup p f = None \<longleftrightarrow> f \<notin> t_fnum ` set (p_arr p)"
  by (auto simp: presence.lookup_None_iff keyed_def image_image)

lemma fp_has_lookup: "pr_ok p \<Longrightarrow> fp_has p f \<longleftrightarrow> pr_lookup p f \<noteq> None"
  using pr_find_not_dangling [of p f] by (auto simp: fp_has_def pr_lookup_def split: iter.splits)

lemma fp_get_lookup:
  "fp_get p f ty = (case pr_lookup p f of Some t \<Rightarrow> t_has t ty | None \<Rightarrow> False)"
  by (simp add: fp_get_def pr_elem_find)

lemma fp_getPos_lookup:
  "fp_getPos p f = (case pr_lookup p f of Some t \<Rightarrow> (if t_has t position then t_pos t else 0) | None \<Rightarrow> 0)"
  by (simp add: fp_getPos_def pr_elem_find)

lemmas fp_lookups = fp_has_lookup fp_get_lookup fp_getPos_lookup

text \<open>A hint is good when it is the end or the field's own position; it never changes an answer.\<close>

definition hint_ok :: "presence \<Rightarrow> u16 \<Rightarrow> iter \<Rightarrow> bool" where
  "hint_ok p f itr \<longleftrightarrow> itr = End \<or> itr = pr_find p f"

lemma hint_End [simp]: "hint_ok p f End"
  by (simp add: hint_ok_def)

lemma hint_find [simp]: "hint_ok p f (pr_find p f)"
  by (simp add: hint_ok_def)

lemma hints:
  assumes "hint_ok p f itr"
  shows "fp_has_itr p f itr = (fp_has p f, pr_find p f)"
    and "fp_get_itr p f itr ty = (fp_get p f ty, pr_find p f)"
    and "fp_getPos_itr p f itr = (fp_getPos p f, pr_find p f)"
    and "fp_getComp_itr p f itr = (fp_getComp p f, pr_find p f)"
    and "fp_is_group_itr p f itr = (fp_is_group p f, pr_find p f)"
    and "fp_set_itr p f itr ty = (fp_set p f ty, pr_find p f)"
    and "fp_clear_itr p f itr ty = (fp_clear p f ty, pr_find p f)"
  using assms
  by (auto simp: hint_ok_def fp_has_itr_def fp_has_def fp_get_itr_def fp_get_def fp_getPos_itr_def
      fp_getPos_def fp_getComp_itr_def fp_getComp_def fp_is_group_itr_def fp_is_group_def
      fp_set_itr_def fp_set_def fp_clear_itr_def fp_clear_def Let_def)

text \<open>Only the field numbers matter to the hash array, so flag updates keep a set well-formed.\<close>

lemma hash_fill_cong: "map t_fnum xs = map t_fnum ys \<Longrightarrow> hash_fill xs off arr = hash_fill ys off arr"
proof (induction xs off arr arbitrary: ys rule: hash_fill.induct)
  case (2 t ts off arr)
  then show ?case by (cases ys) auto
qed simp

lemma mk_hash_cong: "map t_fnum xs = map t_fnum ys \<Longrightarrow> mk_hash xs = mk_hash ys"
proof -
  assume eq: "map t_fnum xs = map t_fnum ys"
  then have "length xs = length ys" by (rule map_eq_imp_length_eq)
  moreover have "t_fnum (last xs) = t_fnum (last ys)" if "xs \<noteq> []"
    using that eq by (metis last_map map_is_Nil_conv)
  ultimately show ?thesis
    using hash_fill_cong [OF eq] by (cases "xs = []") (auto simp: mk_hash_def Let_def)
qed

lemma key_sorted_cong: "map kf xs = map kf ys \<Longrightarrow> key_sorted kf xs \<longleftrightarrow> key_sorted kf ys"
  by (simp add: key_sorted_def flip: sorted_wrt_map)

lemma pr_ok_cong:
  assumes "map t_fnum (p_arr q) = map t_fnum (p_arr p)" and "p_ftha q = p_ftha p"
  shows "pr_ok q \<longleftrightarrow> pr_ok p"
  using mk_hash_cong [OF assms(1)] key_sorted_cong [OF assms(1)] assms(2)
  by (simp add: pr_ok_def split: option.split)

lemma map_list_update_same: "f (g x) = f x \<Longrightarrow> i < length xs \<Longrightarrow> xs ! i = x \<Longrightarrow>
    map f (xs[i := g x]) = map f xs"
  by (rule nth_equalityI) (auto simp: nth_list_update)

lemma pr_update_fnums:
  assumes "\<And>t. t_fnum (f t) = t_fnum t"
  shows "map t_fnum (p_arr (pr_update p itr f)) = map t_fnum (p_arr p)"
proof (cases itr)
  case (At i)
  with assms show ?thesis
    by (cases "i < length (p_arr p)") (simp_all add: pr_update_def map_list_update_same list_update_beyond)
qed (simp_all add: pr_update_def)

lemma pr_update_ftha: "p_ftha (pr_update p itr f) = p_ftha p"
  by (cases itr) (simp_all add: pr_update_def)

lemma pr_update_ok: "(\<And>t. t_fnum (f t) = t_fnum t) \<Longrightarrow> pr_ok (pr_update p itr f) \<longleftrightarrow> pr_ok p"
  by (rule pr_ok_cong) (simp_all add: pr_update_fnums pr_update_ftha)

lemma pr_lookup_update:
  assumes "pr_ok p" and fn: "\<And>t. t_fnum (f t) = t_fnum t"
  shows "pr_lookup (pr_update p (pr_find p k) f) g =
    (if g = k then map_option f (pr_lookup p g) else pr_lookup p g)"
proof (cases "pr_find p k")
  case (At i)
  let ?q = "pr_update p (At i) f"
  have i: "i < length (p_arr p)" "t_fnum (p_arr p ! i) = k"
    using pr_find_At [OF assms(1)] At by blast+
  have ok: "pr_ok ?q" by (simp only: pr_update_ok [of f, OF fn] assms(1))
  have find: "pr_find ?q g = pr_find p g"
  proof -
    have "pr_find ?q g = At j \<longleftrightarrow> pr_find p g = At j" for j
      using pr_find_At [OF ok, of g j] pr_find_At [OF assms(1), of g j] i fn
      by (auto simp: pr_update_def nth_list_update)
    then show ?thesis
      by (rule iter_eqI) (rule pr_find_not_dangling)+
  qed
  show ?thesis
  proof (cases "pr_find p g")
    case (At j)
    then have j: "j < length (p_arr p)" "t_fnum (p_arr p ! j) = g"
      using pr_find_At [OF assms(1)] by blast+
    have srt: "key_sorted t_fnum (p_arr p)" using assms(1) by (simp add: pr_ok_def)
    show ?thesis
    proof (cases "g = k")
      case True
      then have "i = j" using key_sorted_inj [OF srt i(1) j(1)] i(2) j(2) by simp
      with True i(1) show ?thesis
        using find At by (simp add: pr_lookup_def pr_update_def \<open>pr_find p k = At i\<close>)
    next
      case False
      then have "i \<noteq> j" using i(2) j(2) by blast
      with False show ?thesis
        using find At by (simp add: pr_lookup_def pr_update_def \<open>pr_find p k = At i\<close>)
    qed
  next
    case End
    then show ?thesis using find \<open>pr_find p k = At i\<close> by (auto simp: pr_lookup_def)
  qed (simp add: pr_find_not_dangling)
next
  case End
  then show ?thesis by (auto simp: pr_update_def pr_lookup_def)
qed (simp add: pr_find_not_dangling)

lemma fp_set_ok [simp]: "pr_ok (fp_set p f ty) \<longleftrightarrow> pr_ok p"
  by (simp add: fp_set_def pr_update_ok)

lemma fp_clear_ok [simp]: "pr_ok (fp_clear p f ty) \<longleftrightarrow> pr_ok p"
  by (simp add: fp_clear_def pr_update_ok)

lemma pr_lookup_fp_set:
  "pr_ok p \<Longrightarrow> pr_lookup (fp_set p f ty) g =
    (if g = f then map_option (\<lambda>t. t_set t ty) (pr_lookup p g) else pr_lookup p g)"
  by (simp add: fp_set_def pr_lookup_update)

lemma pr_lookup_fp_clear:
  "pr_ok p \<Longrightarrow> pr_lookup (fp_clear p f ty) g =
    (if g = f then map_option (\<lambda>t. t_clear t ty) (pr_lookup p g) else pr_lookup p g)"
  by (simp add: fp_clear_def pr_lookup_update)

subsection \<open>Properties\<close>

lemma find_missing_from_spec:
  "\<forall>t \<in> set ts. t_fnum t \<noteq> 0 \<Longrightarrow>
    (find_missing_from ts ty = 0 \<longleftrightarrow> (\<forall>t \<in> set ts. t_has t ty \<longrightarrow> t_has t present)) \<and>
    (find_missing_from ts ty \<noteq> 0 \<longrightarrow>
      (\<exists>t \<in> set ts. t_fnum t = find_missing_from ts ty \<and> t_has t ty \<and> \<not> t_has t present))"
  by (induction ts ty rule: find_missing_from.induct) auto

text \<open>
  C36: the hash array built from a sorted table finds in constant time what the binary search
  finds, for every field number: the iterator of the element with that number, or the end.
\<close>

theorem hash_find_is_binary_search:
  assumes "key_sorted t_fnum ts" and "mk_hash ts = Some h"
  shows "pr_find (pr_ctor_hash ts h) k = pr_find (pr_ctor ts 0) k \<and>
    (pr_find (pr_ctor_hash ts h) k = At i \<longleftrightarrow> i < length ts \<and> t_fnum (ts ! i) = k)"
proof -
  let ?p = "pr_ctor_hash ts h" and ?q = "pr_ctor ts 0"
  have ok: "pr_ok ?p" "pr_ok ?q"
    using assms by (simp_all add: pr_ok_def pr_ctor_hash_def pr_ctor_def)
  have At: "pr_find ?p k = At j \<longleftrightarrow> j < length ts \<and> t_fnum (ts ! j) = k"
    "pr_find ?q k = At j \<longleftrightarrow> j < length ts \<and> t_fnum (ts ! j) = k" for j
    using pr_find_At [OF ok(1), of k j] pr_find_At [OF ok(2), of k j]
    by (simp_all add: pr_ctor_hash_def pr_ctor_def)
  then have "pr_find ?p k = pr_find ?q k" by (intro iter_eqI) (simp_all add: pr_find_not_dangling)
  then show ?thesis using At by simp
qed

theorem hash_find_is_binary_search_witness:
  "let ts = [mk_trait 8 ft_string 1 True False 0 False, mk_trait 35 ft_string 2 True False 0 False];
       h = the (mk_hash ts)
   in pr_find (pr_ctor_hash ts h) 35 = pr_find (pr_ctor ts 0) 35 \<and>
      (pr_find (pr_ctor_hash ts h) 35 = At 1 \<longleftrightarrow> True)"
proof -
  let ?ts = "[mk_trait 8 ft_string 1 True False 0 False, mk_trait 35 ft_string 2 True False 0 False]"
  have srt: "key_sorted t_fnum ?ts" by (simp add: key_sorted_def mk_trait_def)
  then obtain h where h: "mk_hash ?ts = Some h" by (rule mk_hash_sorted) simp_all
  show ?thesis
    using hash_find_is_binary_search [OF srt h, of 35 1] h by (auto simp: Let_def mk_trait_def)
qed



end
