(* ===== verification/FixFields.thy ===== *)
theory FixFields
  imports Calendar Floats Traits
begin

text \<open>
  \<^verbatim>\<open>include/fix8/field.hpp\<close>: field objects. Each specialisation of the class template \<^verbatim>\<open>Field\<close> is
  a class \<open>fclass\<close> with a record of operations; its objects are a tag, a pointer to the realm of legal values and a value
  \<open>fvalue\<close>. Construction from text, printing, comparison and copying follow the specialisations.
  \<open>None\<close> is undefined behaviour of the conversion. The specialisation for \<^verbatim>\<open>char *\<close>, which the
  generated code does not use, is left out.
\<close>

section \<open>Realms: the legal values of a field\<close>

datatype rvals = R_int "int list" | R_char "char list" | R_float "rat list" | R_string "string list"

record realm =
  r_range :: rvals
  r_dt_set :: bool
  r_ftype :: ftype

fun rvals_size :: "rvals \<Rightarrow> nat" where
  "rvals_size (R_int xs) = length xs"
| "rvals_size (R_char xs) = length xs"
| "rvals_size (R_float xs) = length xs"
| "rvals_size (R_string xs) = length xs"

definition r_sz :: "realm \<Rightarrow> int" where
  "r_sz r = int (rvals_size (r_range r))"

text \<open>\<open>RealmBase\<close>, over the array of the values' type. A range is an array of its two bounds.\<close>

definition rlm_is_valid :: "bool \<Rightarrow> 'a::linorder list \<Rightarrow> 'a \<Rightarrow> bool" where
  "rlm_is_valid dt_set rng what \<longleftrightarrow>
     (if dt_set
      then let i = lower_bound (\<lambda>x. x) rng what in i \<noteq> length rng \<and> \<not> what < rng ! i
      else rng ! 0 \<le> what \<and> what \<le> rng ! 1)"

definition rlm_get_idx :: "bool \<Rightarrow> 'a::linorder list \<Rightarrow> 'a \<Rightarrow> int" where
  "rlm_get_idx dt_set rng what =
     (if dt_set
      then let res = lower_bound (\<lambda>x. x) rng what in if res \<noteq> length rng then int res else -1
      else 0)"

section \<open>Field values\<close>

datatype fclass =
  C_int | C_string | C_float | C_char | C_bool | C_timestamp | C_timeonly | C_dateonly | C_localmkt
| C_monthyear | C_tztime | C_tzstamp

datatype fvalue =
  V_int i32 | V_string string | V_float rat int | V_char char | V_bool bool | V_timestamp ticks
| V_timeonly ticks | V_dateonly ticks | V_localmkt ticks | V_monthyear nat ticks
| V_tztime ticks | V_tzstamp ticks

fun class_of :: "fvalue \<Rightarrow> fclass" where
  "class_of (V_int _) = C_int" | "class_of (V_string _) = C_string" | "class_of (V_float _ _) = C_float"
| "class_of (V_char _) = C_char" | "class_of (V_bool _) = C_bool"
| "class_of (V_timestamp _) = C_timestamp" | "class_of (V_timeonly _) = C_timeonly"
| "class_of (V_dateonly _) = C_dateonly" | "class_of (V_localmkt _) = C_localmkt"
| "class_of (V_monthyear _ _) = C_monthyear" | "class_of (V_tztime _) = C_tztime"
| "class_of (V_tzstamp _) = C_tzstamp"

definition default_precision :: int where
  "default_precision = 2"

text \<open>
  The text of a C string is followed by NUL, so the first character of an empty one is NUL.
\<close>

definition first_char :: "string \<Rightarrow> char" where
  "first_char s = (case s of [] \<Rightarrow> NUL | c # _ \<Rightarrow> c)"

section \<open>The classes\<close>

text \<open>
  A specialisation of \<^verbatim>\<open>Field\<close> is the record of its operations: the underlying type, the constructors
  without a value, from text and from a broken-down time, \<open>set_from_raw\<close>, whether the constructor
  from text and the copy constructor pass the realm on, the comparisons once the tags were found
  equal, the questions to the realm and \<^verbatim>\<open>print(char *)\<close>. \<open>None\<close> is an operation the class does not
  have, a value left uninitialised, or a conversion without a defined result. Objects of different
  classes are never compared: the code casts without a check.
\<close>

record field_class =
  fc_underlying :: ftype
  fc_default :: "ticks \<Rightarrow> fvalue option"
  fc_from_text :: "ticks \<Rightarrow> string \<Rightarrow> fvalue option"
  fc_from_tm :: "tm \<Rightarrow> fvalue option"
  fc_set_raw :: "string \<Rightarrow> fvalue \<Rightarrow> fvalue option"
  fc_keeps_rlm :: bool
  fc_copies_rlm :: bool
  fc_eq :: "fvalue \<Rightarrow> fvalue \<Rightarrow> bool"
  fc_less :: "fvalue \<Rightarrow> fvalue \<Rightarrow> bool"
  fc_is_valid :: "realm \<Rightarrow> fvalue \<Rightarrow> bool"
  fc_rlm_idx :: "realm \<Rightarrow> fvalue \<Rightarrow> int"
  fc_print :: "fvalue \<Rightarrow> string option"

definition Field_int :: field_class where
  "Field_int =
     \<lparr>fc_underlying = ft_int,
      fc_default = (\<lambda>now. Some (V_int 0)),
      fc_from_text = (\<lambda>now s. Some (V_int (fast_atoi s))),
      fc_from_tm = (\<lambda>t. None),
      fc_set_raw = (\<lambda>s v. Some (V_int (fast_atoi s))),
      fc_keeps_rlm = True, fc_copies_rlm = False,
      fc_eq = (\<lambda>a b. case a of V_int x \<Rightarrow> (case b of V_int y \<Rightarrow> y = x | _ \<Rightarrow> False) | _ \<Rightarrow> False),
      fc_less = (\<lambda>a b. case a of V_int x \<Rightarrow> (case b of V_int y \<Rightarrow> sint x < sint y | _ \<Rightarrow> False) | _ \<Rightarrow> False),
      fc_is_valid = (\<lambda>r a. case a of
          V_int v \<Rightarrow> (case r_range r of R_int xs \<Rightarrow> rlm_is_valid (r_dt_set r) xs (sint v) | _ \<Rightarrow> True) | _ \<Rightarrow> True),
      fc_rlm_idx = (\<lambda>r a. case a of
          V_int v \<Rightarrow> (case r_range r of R_int xs \<Rightarrow> rlm_get_idx (r_dt_set r) xs (sint v) | _ \<Rightarrow> -1) | _ \<Rightarrow> -1),
      fc_print = (\<lambda>a. case a of V_int v \<Rightarrow> Some (itoa (sint v) 10) | _ \<Rightarrow> None)\<rparr>"

definition Field_string :: field_class where
  "Field_string =
     \<lparr>fc_underlying = ft_data,
      fc_default = (\<lambda>now. Some (V_string [])),
      fc_from_text = (\<lambda>now s. Some (V_string s)),
      fc_from_tm = (\<lambda>t. None),
      fc_set_raw = (\<lambda>s v. Some (V_string s)),
      fc_keeps_rlm = True, fc_copies_rlm = False,
      fc_eq = (\<lambda>a b. case a of V_string x \<Rightarrow> (case b of V_string y \<Rightarrow> y = x | _ \<Rightarrow> False) | _ \<Rightarrow> False),
      fc_less = (\<lambda>a b. case a of V_string x \<Rightarrow> (case b of V_string y \<Rightarrow> x < y | _ \<Rightarrow> False) | _ \<Rightarrow> False),
      fc_is_valid = (\<lambda>r a. case a of
          V_string v \<Rightarrow> (case r_range r of R_string xs \<Rightarrow> rlm_is_valid (r_dt_set r) xs v | _ \<Rightarrow> True) | _ \<Rightarrow> True),
      fc_rlm_idx = (\<lambda>r a. case a of
          V_string v \<Rightarrow> (case r_range r of R_string xs \<Rightarrow> rlm_get_idx (r_dt_set r) xs v | _ \<Rightarrow> -1) | _ \<Rightarrow> -1),
      fc_print = (\<lambda>a. case a of V_string s \<Rightarrow> Some s | _ \<Rightarrow> None)\<rparr>"

definition Field_float :: field_class where
  "Field_float =
     \<lparr>fc_underlying = ft_float,
      fc_default = (\<lambda>now. Some (V_float 0 default_precision)),
      fc_from_text = (\<lambda>now s. Some (V_float (fast_atof s) default_precision)),
      fc_from_tm = (\<lambda>t. None),
      fc_set_raw = (\<lambda>s v. case v of V_float _ prec \<Rightarrow> Some (V_float (fast_atof s) prec) | _ \<Rightarrow> None),
      fc_keeps_rlm = True, fc_copies_rlm = True,
      fc_eq = (\<lambda>a b. case a of V_float x _ \<Rightarrow> (case b of V_float y _ \<Rightarrow> y = x | _ \<Rightarrow> False) | _ \<Rightarrow> False),
      fc_less = (\<lambda>a b. case a of V_float x _ \<Rightarrow> (case b of V_float y _ \<Rightarrow> x < y | _ \<Rightarrow> False) | _ \<Rightarrow> False),
      fc_is_valid = (\<lambda>r a. case a of
          V_float v _ \<Rightarrow> (case r_range r of R_float xs \<Rightarrow> rlm_is_valid (r_dt_set r) xs v | _ \<Rightarrow> True) | _ \<Rightarrow> True),
      fc_rlm_idx = (\<lambda>r a. case a of
          V_float v _ \<Rightarrow> (case r_range r of R_float xs \<Rightarrow> rlm_get_idx (r_dt_set r) xs v | _ \<Rightarrow> -1) | _ \<Rightarrow> -1),
      fc_print = (\<lambda>a. case a of V_float v prec \<Rightarrow> modp_dtoa v prec | _ \<Rightarrow> None)\<rparr>"

definition Field_char :: field_class where
  "Field_char =
     \<lparr>fc_underlying = ft_char,
      fc_default = (\<lambda>now. Some (V_char NUL)),
      fc_from_text = (\<lambda>now s. Some (V_char (first_char s))),
      fc_from_tm = (\<lambda>t. None),
      fc_set_raw = (\<lambda>s v. Some (V_char (first_char s))),
      fc_keeps_rlm = True, fc_copies_rlm = True,
      fc_eq = (\<lambda>a b. case a of V_char x \<Rightarrow> (case b of V_char y \<Rightarrow> y = x | _ \<Rightarrow> False) | _ \<Rightarrow> False),
      fc_less = (\<lambda>a b. case a of V_char x \<Rightarrow> (case b of V_char y \<Rightarrow> schar x < schar y | _ \<Rightarrow> False) | _ \<Rightarrow> False),
      fc_is_valid = (\<lambda>r a. case a of
          V_char v \<Rightarrow> (case r_range r of R_char xs \<Rightarrow> rlm_is_valid (r_dt_set r) (map schar xs) (schar v) | _ \<Rightarrow> True)
        | _ \<Rightarrow> True),
      fc_rlm_idx = (\<lambda>r a. case a of
          V_char v \<Rightarrow> (case r_range r of R_char xs \<Rightarrow> rlm_get_idx (r_dt_set r) (map schar xs) (schar v) | _ \<Rightarrow> -1)
        | _ \<Rightarrow> -1),
      fc_print = (\<lambda>a. case a of V_char c \<Rightarrow> Some [c] | _ \<Rightarrow> None)\<rparr>"

definition Field_Boolean :: field_class where
  "Field_Boolean =
     \<lparr>fc_underlying = ft_char,
      fc_default = (\<lambda>now. None),
      fc_from_text = (\<lambda>now s. Some (V_bool (toupper (first_char s) = CHR ''Y''))),
      fc_from_tm = (\<lambda>t. None),
      fc_set_raw = (\<lambda>s v. Some (V_bool (toupper (first_char s) = CHR ''Y''))),
      fc_keeps_rlm = True, fc_copies_rlm = False,
      fc_eq = (\<lambda>a b. case a of V_bool x \<Rightarrow> (case b of V_bool y \<Rightarrow> y = x | _ \<Rightarrow> False) | _ \<Rightarrow> False),
      fc_less = (\<lambda>a b. case a of V_bool x \<Rightarrow> (case b of V_bool y \<Rightarrow> \<not> x \<and> y | _ \<Rightarrow> False) | _ \<Rightarrow> False),
      fc_is_valid = (\<lambda>r a. True),
      fc_rlm_idx = (\<lambda>r a. case a of
          V_bool v \<Rightarrow>
            (case r_range r of
               R_char xs \<Rightarrow> rlm_get_idx (r_dt_set r) (map schar xs) (schar (if v then CHR ''Y'' else CHR ''N''))
             | _ \<Rightarrow> -1)
        | _ \<Rightarrow> -1),
      fc_print = (\<lambda>a. case a of V_bool b \<Rightarrow> Some (if b then ''Y'' else ''N'') | _ \<Rightarrow> None)\<rparr>"

text \<open>The classes that count, number or measure inherit everything from the one for integers.\<close>

definition Field_Length :: field_class where "Field_Length = Field_int"
definition Field_TagNum :: field_class where "Field_TagNum = Field_int"
definition Field_SeqNum :: field_class where "Field_SeqNum = Field_int"
definition Field_NumInGroup :: field_class where "Field_NumInGroup = Field_int"
definition Field_DayOfMonth :: field_class where "Field_DayOfMonth = Field_int"

text \<open>The date and time classes hold a \<open>Tickval\<close>.\<close>

fun ticks_of :: "fvalue \<Rightarrow> ticks option" where
  "ticks_of (V_timestamp t) = Some t" | "ticks_of (V_timeonly t) = Some t" | "ticks_of (V_dateonly t) = Some t"
| "ticks_of (V_localmkt t) = Some t" | "ticks_of (V_monthyear _ t) = Some t" | "ticks_of (V_tztime t) = Some t"
| "ticks_of (V_tzstamp t) = Some t" | "ticks_of _ = None"

definition on_ticks :: "(ticks \<Rightarrow> ticks \<Rightarrow> bool) \<Rightarrow> fvalue \<Rightarrow> fvalue \<Rightarrow> bool" where
  "on_ticks r a b = (case ticks_of a of Some x \<Rightarrow> (case ticks_of b of Some y \<Rightarrow> r x y | None \<Rightarrow> False) | None \<Rightarrow> False)"

definition tm_ticks :: "tm \<Rightarrow> ticks option" where
  "tm_ticks t = map_option (\<lambda>e. e * billion) (time_to_epoch t 0)"

definition Field_UTCTimestamp :: field_class where
  "Field_UTCTimestamp =
     \<lparr>fc_underlying = ft_string,
      fc_default = (\<lambda>now. Some (V_timestamp now)),
      fc_from_text = (\<lambda>now s. map_option V_timestamp (date_time_parse now s)),
      fc_from_tm = (\<lambda>t. map_option V_timestamp (tm_ticks t)),
      fc_set_raw = (\<lambda>s v. None), fc_keeps_rlm = False, fc_copies_rlm = False,
      fc_eq = on_ticks (=), fc_less = on_ticks (<), fc_is_valid = (\<lambda>r a. True), fc_rlm_idx = (\<lambda>r a. -1),
      fc_print = (\<lambda>a. map_option (\<lambda>t. date_time_format t with_ms) (ticks_of a))\<rparr>"

definition Field_UTCTimeOnly :: field_class where
  "Field_UTCTimeOnly =
     \<lparr>fc_underlying = ft_string,
      fc_default = (\<lambda>now. Some (V_timeonly 0)),
      fc_from_text = (\<lambda>now s. map_option V_timeonly (time_parse now s True)),
      fc_from_tm = (\<lambda>t. map_option V_timeonly (tm_ticks t)),
      fc_set_raw = (\<lambda>s v. None), fc_keeps_rlm = False, fc_copies_rlm = False,
      fc_eq = on_ticks (=), fc_less = on_ticks (<), fc_is_valid = (\<lambda>r a. True), fc_rlm_idx = (\<lambda>r a. -1),
      fc_print = (\<lambda>a. map_option (\<lambda>t. date_time_format t time_with_ms) (ticks_of a))\<rparr>"

definition Field_UTCDateOnly :: field_class where
  "Field_UTCDateOnly =
     \<lparr>fc_underlying = ft_string,
      fc_default = (\<lambda>now. Some (V_dateonly 0)),
      fc_from_text = (\<lambda>now s. map_option V_dateonly (date_parse now s)),
      fc_from_tm = (\<lambda>t. map_option V_dateonly (tm_ticks t)),
      fc_set_raw = (\<lambda>s v. None), fc_keeps_rlm = False, fc_copies_rlm = False,
      fc_eq = on_ticks (=), fc_less = on_ticks (<), fc_is_valid = (\<lambda>r a. True), fc_rlm_idx = (\<lambda>r a. -1),
      fc_print = (\<lambda>a. map_option (\<lambda>t. date_time_format t date_only) (ticks_of a))\<rparr>"

definition Field_LocalMktDate :: field_class where
  "Field_LocalMktDate =
     \<lparr>fc_underlying = ft_string,
      fc_default = (\<lambda>now. Some (V_localmkt 0)),
      fc_from_text = (\<lambda>now s. map_option V_localmkt (date_parse now s)),
      fc_from_tm = (\<lambda>t. map_option V_localmkt (tm_ticks t)),
      fc_set_raw = (\<lambda>s v. None), fc_keeps_rlm = False, fc_copies_rlm = False,
      fc_eq = on_ticks (=), fc_less = on_ticks (<), fc_is_valid = (\<lambda>r a. True), fc_rlm_idx = (\<lambda>r a. -1),
      fc_print = (\<lambda>a. map_option (\<lambda>t. date_time_format t date_only) (ticks_of a))\<rparr>"

text \<open>\<open>MonthYear\<close> remembers the size of its text; its default constructor leaves the size unset.\<close>

definition Field_MonthYear :: field_class where
  "Field_MonthYear =
     \<lparr>fc_underlying = ft_string,
      fc_default = (\<lambda>now. None),
      fc_from_text = (\<lambda>now s. map_option (V_monthyear (length s)) (date_parse now s)),
      fc_from_tm = (\<lambda>t. map_option (V_monthyear 6) (tm_ticks t)),
      fc_set_raw = (\<lambda>s v. None), fc_keeps_rlm = False, fc_copies_rlm = False,
      fc_eq = on_ticks (=), fc_less = on_ticks (<), fc_is_valid = (\<lambda>r a. True), fc_rlm_idx = (\<lambda>r a. -1),
      fc_print = (\<lambda>a. case a of
          V_monthyear sz t \<Rightarrow> Some (date_time_format t (if sz = 6 then short_date_only else date_only))
        | _ \<Rightarrow> None)\<rparr>"

text \<open>The two time zone classes ignore the text and print nothing.\<close>

definition Field_TZTimeOnly :: field_class where
  "Field_TZTimeOnly =
     \<lparr>fc_underlying = ft_string,
      fc_default = (\<lambda>now. Some (V_tztime 0)),
      fc_from_text = (\<lambda>now s. Some (V_tztime 0)),
      fc_from_tm = (\<lambda>t. None),
      fc_set_raw = (\<lambda>s v. None), fc_keeps_rlm = True, fc_copies_rlm = False,
      fc_eq = on_ticks (=), fc_less = on_ticks (<), fc_is_valid = (\<lambda>r a. True), fc_rlm_idx = (\<lambda>r a. -1),
      fc_print = (\<lambda>a. Some [])\<rparr>"

definition Field_TZTimestamp :: field_class where
  "Field_TZTimestamp =
     \<lparr>fc_underlying = ft_string,
      fc_default = (\<lambda>now. Some (V_tzstamp 0)),
      fc_from_text = (\<lambda>now s. Some (V_tzstamp 0)),
      fc_from_tm = (\<lambda>t. None),
      fc_set_raw = (\<lambda>s v. None), fc_keeps_rlm = True, fc_copies_rlm = False,
      fc_eq = on_ticks (=), fc_less = on_ticks (<), fc_is_valid = (\<lambda>r a. True), fc_rlm_idx = (\<lambda>r a. -1),
      fc_print = (\<lambda>a. Some [])\<rparr>"

text \<open>Dynamic dispatch: the class of an object is the class of its value.\<close>

fun class_ops :: "fclass \<Rightarrow> field_class" where
  "class_ops C_int = Field_int" | "class_ops C_string = Field_string" | "class_ops C_float = Field_float"
| "class_ops C_char = Field_char" | "class_ops C_bool = Field_Boolean"
| "class_ops C_timestamp = Field_UTCTimestamp" | "class_ops C_timeonly = Field_UTCTimeOnly"
| "class_ops C_dateonly = Field_UTCDateOnly" | "class_ops C_localmkt = Field_LocalMktDate"
| "class_ops C_monthyear = Field_MonthYear" | "class_ops C_tztime = Field_TZTimeOnly"
| "class_ops C_tzstamp = Field_TZTimestamp"

text \<open>The specialisation the generated code names for a field type; the aliases share one.\<close>

fun class_for :: "ftype \<Rightarrow> field_class option" where
  "class_for ft_int = Some Field_int" | "class_for ft_Length = Some Field_Length"
| "class_for ft_TagNum = Some Field_TagNum" | "class_for ft_SeqNum = Some Field_SeqNum"
| "class_for ft_NumInGroup = Some Field_NumInGroup" | "class_for ft_DayOfMonth = Some Field_DayOfMonth"
| "class_for ft_char = Some Field_char" | "class_for ft_Boolean = Some Field_Boolean"
| "class_for ft_float = Some Field_float" | "class_for ft_Qty = Some Field_float"
| "class_for ft_Price = Some Field_float" | "class_for ft_PriceOffset = Some Field_float"
| "class_for ft_Amt = Some Field_float" | "class_for ft_Percentage = Some Field_float"
| "class_for ft_string = Some Field_string" | "class_for ft_MultipleCharValue = Some Field_string"
| "class_for ft_MultipleStringValue = Some Field_string" | "class_for ft_Country = Some Field_string"
| "class_for ft_Currency = Some Field_string" | "class_for ft_Exchange = Some Field_string"
| "class_for ft_MonthYear = Some Field_MonthYear" | "class_for ft_UTCTimestamp = Some Field_UTCTimestamp"
| "class_for ft_UTCTimeOnly = Some Field_UTCTimeOnly" | "class_for ft_UTCDateOnly = Some Field_UTCDateOnly"
| "class_for ft_LocalMktDate = Some Field_LocalMktDate" | "class_for ft_TZTimeOnly = Some Field_TZTimeOnly"
| "class_for ft_TZTimestamp = Some Field_TZTimestamp" | "class_for ft_data = Some Field_string"
| "class_for ft_XMLData = Some Field_string" | "class_for ft_Language = Some Field_string"
| "class_for _ = None"

definition from_text :: "ticks \<Rightarrow> fclass \<Rightarrow> string \<Rightarrow> fvalue option" where
  "from_text now c s = fc_from_text (class_ops c) now s"

definition print_value :: "fvalue \<Rightarrow> string option" where
  "print_value v = fc_print (class_ops (class_of v)) v"

definition value_eq :: "fvalue \<Rightarrow> fvalue \<Rightarrow> bool" where
  "value_eq a b = fc_eq (class_ops (class_of a)) a b"

definition value_less :: "fvalue \<Rightarrow> fvalue \<Rightarrow> bool" where
  "value_less a b = fc_less (class_ops (class_of a)) a b"

lemmas field_classes =
  Field_int_def Field_string_def Field_float_def Field_char_def Field_Boolean_def Field_UTCTimestamp_def
  Field_UTCTimeOnly_def Field_UTCDateOnly_def Field_LocalMktDate_def Field_MonthYear_def
  Field_TZTimeOnly_def Field_TZTimestamp_def

lemma from_text_simps [simp]:
  "from_text now C_int s = Some (V_int (fast_atoi s))"
  "from_text now C_string s = Some (V_string s)"
  "from_text now C_float s = Some (V_float (fast_atof s) default_precision)"
  "from_text now C_char s = Some (V_char (first_char s))"
  "from_text now C_bool s = Some (V_bool (toupper (first_char s) = CHR ''Y''))"
  "from_text now C_timestamp s = map_option V_timestamp (date_time_parse now s)"
  "from_text now C_timeonly s = map_option V_timeonly (time_parse now s True)"
  "from_text now C_dateonly s = map_option V_dateonly (date_parse now s)"
  "from_text now C_localmkt s = map_option V_localmkt (date_parse now s)"
  "from_text now C_monthyear s = map_option (V_monthyear (length s)) (date_parse now s)"
  "from_text now C_tztime s = Some (V_tztime 0)"
  "from_text now C_tzstamp s = Some (V_tzstamp 0)"
  by (simp_all add: from_text_def field_classes)

lemma print_value_simps [simp]:
  "print_value (V_int v) = Some (itoa (sint v) 10)"
  "print_value (V_string s) = Some s"
  "print_value (V_float w prec) = modp_dtoa w prec"
  "print_value (V_char c) = Some [c]"
  "print_value (V_bool b) = Some (if b then ''Y'' else ''N'')"
  "print_value (V_timestamp t) = Some (date_time_format t with_ms)"
  "print_value (V_timeonly t) = Some (date_time_format t time_with_ms)"
  "print_value (V_dateonly t) = Some (date_time_format t date_only)"
  "print_value (V_localmkt t) = Some (date_time_format t date_only)"
  "print_value (V_monthyear sz t) = Some (date_time_format t (if sz = 6 then short_date_only else date_only))"
  "print_value (V_tztime t) = Some []"
  "print_value (V_tzstamp t) = Some []"
  by (simp_all add: print_value_def field_classes)

lemma value_eq_refl [simp]: "value_eq v v"
  by (cases v) (simp_all add: value_eq_def field_classes on_ticks_def)

section \<open>Field objects\<close>

record fld =
  f_fnum :: u16
  f_rlm :: "realm option"
  f_val :: fvalue

definition same_base :: "fld \<Rightarrow> fld \<Rightarrow> bool" where
  "same_base a b \<longleftrightarrow> f_fnum b = f_fnum a"

definition fld_eq :: "fld \<Rightarrow> fld \<Rightarrow> bool" where
  "fld_eq a b \<longleftrightarrow> same_base a b \<and> value_eq (f_val a) (f_val b)"

definition fld_less :: "fld \<Rightarrow> fld \<Rightarrow> bool" where
  "fld_less a b \<longleftrightarrow> same_base a b \<and> value_less (f_val a) (f_val b)"

definition fld_le :: "fld \<Rightarrow> fld \<Rightarrow> bool" where
  "fld_le a b \<longleftrightarrow> fld_less a b \<or> fld_eq a b"

text \<open>
  The copy constructors: only the classes for floating point and single characters pass the
  realm on.
\<close>

definition fld_copy :: "fld \<Rightarrow> fld" where
  "fld_copy a = a\<lparr>f_rlm := (if fc_copies_rlm (class_ops (class_of (f_val a))) then f_rlm a else None)\<rparr>"

text \<open>
  The constructor from text with a realm: the date and time classes drop the realm, the two time
  zone classes keep it.
\<close>

definition keeps_realm :: "fclass \<Rightarrow> bool" where
  "keeps_realm c = fc_keeps_rlm (class_ops c)"

definition fld_make :: "ticks \<Rightarrow> u16 \<Rightarrow> fclass \<Rightarrow> string \<Rightarrow> realm option \<Rightarrow> fld option" where
  "fld_make now fnum c from db =
     map_option (\<lambda>v. \<lparr>f_fnum = fnum, f_rlm = (if keeps_realm c then db else None), f_val = v\<rparr>)
       (from_text now c from)"

text \<open>
  \<open>get_rlm_val\<close> and the second \<open>_make\<close>, which takes the value of the realm at a given index
  instead of the text when there is one.
\<close>

definition rlm_val :: "rvals \<Rightarrow> nat \<Rightarrow> fclass \<Rightarrow> fvalue option" where
  "rlm_val r i c =
     (case r of
        R_int xs \<Rightarrow> (if c = C_int then Some (V_int (of_int (xs ! i))) else None)
      | R_char xs \<Rightarrow>
          (if c = C_char then Some (V_char (xs ! i))
           else if c = C_bool then Some (V_bool (toupper (xs ! i) = CHR ''Y'')) else None)
      | R_float xs \<Rightarrow> (if c = C_float then Some (V_float (xs ! i) default_precision) else None)
      | R_string xs \<Rightarrow> (if c = C_string then Some (V_string (xs ! i)) else None))"

definition inst_make :: "ticks \<Rightarrow> u16 \<Rightarrow> fclass \<Rightarrow> string \<Rightarrow> realm option \<Rightarrow> int \<Rightarrow> fld option" where
  "inst_make now fnum c from db rv =
     (case db of
        None \<Rightarrow> fld_make now fnum c from db
      | Some r \<Rightarrow>
          (if rv < 0 \<or> r_sz r \<le> rv \<or> \<not> r_dt_set r then fld_make now fnum c from db
           else map_option (\<lambda>v. \<lparr>f_fnum = fnum, f_rlm = db, f_val = v\<rparr>)
                  (rlm_val (r_range r) (nat rv) c)))"

text \<open>\<open>is_valid\<close> and \<open>get_rlm_idx\<close>: without a realm every value is valid and has no index.\<close>

definition fld_is_valid :: "fld \<Rightarrow> bool" where
  "fld_is_valid f =
     (case f_rlm f of None \<Rightarrow> True | Some r \<Rightarrow> fc_is_valid (class_ops (class_of (f_val f))) r (f_val f))"

definition fld_get_rlm_idx :: "fld \<Rightarrow> int" where
  "fld_get_rlm_idx f =
     (case f_rlm f of None \<Rightarrow> -1 | Some r \<Rightarrow> fc_rlm_idx (class_ops (class_of (f_val f))) r (f_val f))"

text \<open>\<open>set_from_raw\<close>; the classes without it are \<open>None\<close>.\<close>

definition fld_set_raw :: "string \<Rightarrow> fld \<Rightarrow> fld option" where
  "fld_set_raw s f =
     map_option (\<lambda>v. f\<lparr>f_val := v\<rparr>) (fc_set_raw (class_ops (class_of (f_val f))) s (f_val f))"

text \<open>\<^verbatim>\<open>BaseField::encode(char *)\<close>. The tag is an \<^verbatim>\<open>unsigned short\<close>, so the generic \<open>itoa\<close> prints it.\<close>

definition fld_encode :: "fld \<Rightarrow> string option" where
  "fld_encode f =
     map_option (\<lambda>v. itoa (uint (f_fnum f)) 10 @ ''='' @ v @ [SOH]) (print_value (f_val f))"

text \<open>The tags and message types every FIX version shares.\<close>

definition Common_BeginSeqNo :: u16 where "Common_BeginSeqNo = 7"
definition Common_BeginString :: u16 where "Common_BeginString = 8"
definition Common_BodyLength :: u16 where "Common_BodyLength = 9"
definition Common_CheckSum :: u16 where "Common_CheckSum = 10"
definition Common_EndSeqNo :: u16 where "Common_EndSeqNo = 16"
definition Common_MsgSeqNum :: u16 where "Common_MsgSeqNum = 34"
definition Common_MsgType :: u16 where "Common_MsgType = 35"
definition Common_NewSeqNo :: u16 where "Common_NewSeqNo = 36"
definition Common_PossDupFlag :: u16 where "Common_PossDupFlag = 43"
definition Common_RefSeqNum :: u16 where "Common_RefSeqNum = 45"
definition Common_SenderCompID :: u16 where "Common_SenderCompID = 49"
definition Common_SendingTime :: u16 where "Common_SendingTime = 52"
definition Common_TargetCompID :: u16 where "Common_TargetCompID = 56"
definition Common_Text :: u16 where "Common_Text = 58"
definition Common_EncryptMethod :: u16 where "Common_EncryptMethod = 98"
definition Common_HeartBtInt :: u16 where "Common_HeartBtInt = 108"
definition Common_TestReqID :: u16 where "Common_TestReqID = 112"
definition Common_OrigSendingTime :: u16 where "Common_OrigSendingTime = 122"
definition Common_GapFillFlag :: u16 where "Common_GapFillFlag = 123"
definition Common_ResetSeqNumFlag :: u16 where "Common_ResetSeqNumFlag = 141"
definition Common_RefMsgType :: u16 where "Common_RefMsgType = 372"
definition Common_BusinessRejectReason :: u16 where "Common_BusinessRejectReason = 380"
definition Common_DefaultApplVerID :: u16 where "Common_DefaultApplVerID = 1137"

definition Common_MsgType_HEARTBEAT :: string where "Common_MsgType_HEARTBEAT = ''0''"
definition Common_MsgType_TEST_REQUEST :: string where "Common_MsgType_TEST_REQUEST = ''1''"
definition Common_MsgType_RESEND_REQUEST :: string where "Common_MsgType_RESEND_REQUEST = ''2''"
definition Common_MsgType_REJECT :: string where "Common_MsgType_REJECT = ''3''"
definition Common_MsgType_SEQUENCE_RESET :: string where "Common_MsgType_SEQUENCE_RESET = ''4''"
definition Common_MsgType_LOGOUT :: string where "Common_MsgType_LOGOUT = ''5''"
definition Common_MsgType_LOGON :: string where "Common_MsgType_LOGON = ''A''"
definition Common_MsgType_BUSINESS_REJECT :: string where "Common_MsgType_BUSINESS_REJECT = ''j''"

lemmas common_tags =
  Common_BeginSeqNo_def Common_BeginString_def Common_BodyLength_def Common_CheckSum_def
  Common_EndSeqNo_def Common_MsgSeqNum_def Common_MsgType_def Common_NewSeqNo_def
  Common_PossDupFlag_def Common_RefSeqNum_def Common_SenderCompID_def Common_SendingTime_def
  Common_TargetCompID_def Common_Text_def Common_EncryptMethod_def Common_HeartBtInt_def
  Common_TestReqID_def Common_OrigSendingTime_def Common_GapFillFlag_def
  Common_ResetSeqNumFlag_def Common_RefMsgType_def Common_BusinessRejectReason_def
  Common_DefaultApplVerID_def

section \<open>Correctness\<close>

subsection \<open>Realms\<close>

lemma key_sorted_id: "key_sorted (\<lambda>x. x) xs \<longleftrightarrow> sorted_wrt (<) xs"
  by (simp add: key_sorted_def)

lemma rlm_set_valid:
  assumes "sorted_wrt (<) rng"
  shows "rlm_is_valid True rng v \<longleftrightarrow> v \<in> set rng"
proof -
  have srt: "key_sorted (\<lambda>x. x) rng" using assms by (simp add: key_sorted_id)
  note lb = lower_bound_is_lb [OF srt, of v]
  then have "lower_bound (\<lambda>x. x) rng v \<le> length rng" by (simp add: is_lb_def)
  with is_lb_find [OF srt lb] show ?thesis by (auto simp: rlm_is_valid_def Let_def le_less)
qed

lemma rlm_set_idx:
  assumes "sorted_wrt (<) rng" and "i < length rng"
  shows "rlm_get_idx True rng (rng ! i) = int i"
proof -
  define l where "l = lower_bound (\<lambda>x. x) rng (rng ! i)"
  have lb: "is_lb (\<lambda>x. x) rng (rng ! i) l"
    unfolding l_def using assms(1) by (intro lower_bound_is_lb) (simp add: key_sorted_id)
  have "is_lb (\<lambda>x. x) rng (rng ! i) i"
    using assms key_sorted_nth [of "\<lambda>x. x" rng _ i] key_sorted_nth_le [of "\<lambda>x. x" rng i]
    by (auto simp: is_lb_def key_sorted_id)
  with lb have "l = i" by (rule is_lb_unique)
  with assms(2) show ?thesis by (simp add: rlm_get_idx_def l_def)
qed

text \<open>
  For a realm that is a sorted set of values, \<open>is_valid\<close> is membership, and for a legal value
  \<open>get_rlm_idx\<close> is the index of that value.
\<close>

theorem realm_set_correct:
  assumes "sorted_wrt (<) rng"
  shows "(rlm_is_valid True rng v \<longleftrightarrow> v \<in> set rng) \<and>
    (rlm_is_valid True rng v \<longrightarrow>
       (\<exists>i < length rng. rlm_get_idx True rng v = int i \<and> rng ! i = v))"
  using rlm_set_valid [OF assms] rlm_set_idx [OF assms] by (metis in_set_conv_nth)

theorem realm_set_correct_witness:
  "rlm_is_valid True [1, 3, 9 :: int] 3 \<and> \<not> rlm_is_valid True [1, 3, 9 :: int] 4 \<and>
    (\<exists>i < 3. rlm_get_idx True [1, 3, 9 :: int] 3 = int i \<and> [1, 3, 9 :: int] ! i = 3)"
proof -
  have srt: "sorted_wrt (<) [1, 3, 9 :: int]" by simp
  show ?thesis
    using realm_set_correct [OF srt, of 3] realm_set_correct [OF srt, of 4] by (simp add: eval_nat_numeral)
qed

text \<open>For a value outside the set the index is that of another value, unless all are smaller.\<close>

lemma rlm_get_idx_no_check: "rlm_get_idx True [1, 3, 9 :: int] 2 = 1"
  by code_simp

subsection \<open>Reading back what is printed\<close>

text \<open>
  The values whose text reads back: no sign on integers, no separator or terminator in strings and
  characters, times in the range and at the precision of their format.
\<close>

definition text_ok :: "string \<Rightarrow> bool" where
  "text_ok s \<longleftrightarrow> SOH \<notin> set s \<and> NUL \<notin> set s"

fun value_ok :: "fvalue \<Rightarrow> bool" where
  "value_ok (V_int v) = (0 \<le> sint v)"
| "value_ok (V_string s) = text_ok s"
| "value_ok (V_float v prec) = (prec = default_precision \<and> (\<exists>n < 2 ^ 31. v = of_nat n))"
| "value_ok (V_char c) = (c \<noteq> SOH \<and> c \<noteq> NUL)"
| "value_ok (V_bool b) = True"
| "value_ok (V_timestamp t) = (0 \<le> t \<and> t < 2 ^ 31 * 1000000000 \<and> t mod 1000000 = 0)"
| "value_ok (V_timeonly t) = (0 \<le> t \<and> t < tv_day \<and> t mod 1000000 = 0)"
| "value_ok (V_dateonly t) = (0 \<le> t \<and> t < 2 ^ 31 * 1000000000 \<and> t mod tv_day = 0)"
| "value_ok (V_localmkt t) = (0 \<le> t \<and> t < 2 ^ 31 * 1000000000 \<and> t mod tv_day = 0)"
| "value_ok (V_monthyear sz t) = (sz = 8 \<and> 0 \<le> t \<and> t < 2 ^ 31 * 1000000000 \<and> t mod tv_day = 0)"
| "value_ok (V_tztime t) = False"
| "value_ok (V_tzstamp t) = False"

lemma tv_day_eq: "tv_day = 86400000000000"
  by (simp add: c_arith)

lemma text_ok_append [simp]: "text_ok (a @ b) \<longleftrightarrow> text_ok a \<and> text_ok b"
  by (auto simp: text_ok_def)

lemma text_ok_Cons [simp]: "text_ok (c # s) \<longleftrightarrow> c \<noteq> SOH \<and> c \<noteq> NUL \<and> text_ok s"
  by (auto simp: text_ok_def)

lemma text_ok_Nil [simp]: "text_ok []"
  by (simp add: text_ok_def)

lemma text_ok_dec [simp]: "text_ok (dec_numeral n)"
  using dec_numeral_no_sep by (simp add: text_ok_def)

lemma text_ok_format0 [simp]: "0 \<le> x \<Longrightarrow> text_ok (format0 x w)"
  using format0_digits [of x _ w] isdigit_neq(1,2) by (fastforce simp: text_ok_def)

lemma date_text_ok:
  assumes "0 \<le> t"
  shows "text_ok (date_time_format t ind)"
proof -
  have "0 \<le> tv_secs t" using assms by (simp add: tv_nonneg pos_imp_zdiv_nonneg_iff)
  then obtain n m md where d: "tm_date (get_tm t) n m md"
    unfolding get_tm_def by (rule gmtime_date)
  note f = d [unfolded tm_date_def]
  have "text_ok (format_time t (get_tm t) b)" for b
    using f assms by (simp add: format_time_def tv_nonneg del: format0.simps)
  with f show ?thesis by (cases ind) (simp_all add: date_time_format_def Let_def del: format0.simps)
qed

text \<open>A printed value that is well-formed contains no separator.\<close>

lemma print_text_ok: "value_ok v \<Longrightarrow> print_value v = Some s \<Longrightarrow> text_ok s"
proof (cases v)
  case (V_int x)
  assume "value_ok v" "print_value v = Some s"
  with V_int show ?thesis using itoa_nonneg [of "nat (sint x)"] by auto
next
  case (V_float x p)
  assume "value_ok v" "print_value v = Some s"
  with V_float show ?thesis
    using modp_dtoa_int [of _ default_precision False] by (auto simp: default_precision_def)
qed (auto simp: date_text_ok)

lemma from_text_print:
  assumes "value_ok v" and "print_value v = Some s"
  shows "from_text now (class_of v) s = Some v"
proof (cases v)
  case (V_int x)
  with assms have s: "s = dec_numeral (nat (sint x))" and "0 \<le> sint x"
    using itoa_nonneg [of "nat (sint x)"] by auto
  then have "of_nat (nat (sint x)) = x" by simp
  then show ?thesis
    using V_int s fast_atoi_digits [of s, where ?'a = 32] dec_numeral_digits by auto
next
  case (V_float x p)
  with assms obtain n where n: "n < 2 ^ 31" "x = of_nat n" "p = default_precision" by auto
  with assms V_float have "s = dec_numeral n @ ''.0''"
    using modp_dtoa_int [of n default_precision False] by (simp add: default_precision_def)
  with n V_float show ?thesis
    using fast_atof_whole [of n] by simp
next
  case (V_timeonly t)
  with assms show ?thesis using tp_format [of t now] by (auto simp: tv_day_eq)
next
  case (V_monthyear sz t)
  with assms have "s = date_time_format t date_only" by auto
  with assms V_monthyear show ?thesis
    using dp_format [of t now] by (auto simp: tv_day_eq length_date_only)
next
  case (V_bool b)
  then show ?thesis
    using assms(2) by (cases b) (auto simp: first_char_def toupper_def islower_def uchar_def)
qed (use assms dtp_format dp_format in \<open>auto simp: first_char_def tv_day_eq\<close>)



text \<open>The sign of an integer is taken for a digit: minus five reads back as minus twenty-five.\<close>

lemma negative_int_misread:
  "Option.bind (print_value (V_int (- 5))) (from_text 0 C_int) = Some (V_int (- 25))"
proof -
  have "itoa (-5) 10 = ''-5''" by code_simp
  moreover have "fast_atoi ''-5'' = (- 25 :: i32)" by code_simp
  ultimately show ?thesis by simp
qed

text \<open>What \<open>encode\<close> writes for a field: tag, separator, value, terminator.\<close>

lemma fld_encode_eq:
  "fld_encode f =
     map_option (\<lambda>v. dec_numeral (unat (f_fnum f)) @ ''='' @ v @ [SOH]) (print_value (f_val f))"
  using itoa_nonneg [of "unat (f_fnum f)"] by (simp add: fld_encode_def)

subsection \<open>Comparison\<close>

lemma schar_inj: "schar c = schar d \<Longrightarrow> c = d"
  by (rule uchar_inj) (metis schar_mod of_nat_eq_iff)

lemma value_trichotomy:
  assumes "class_of a = class_of b"
  shows "(value_less a b \<or> value_eq a b \<or> value_less b a) \<and>
    \<not> (value_less a b \<and> value_eq a b) \<and> \<not> (value_less a b \<and> value_less b a)"
proof (cases a)
  case (V_int x)
  with assms obtain y where "b = V_int y" by (cases b) simp_all
  with V_int show ?thesis
    by (auto simp: value_less_def value_eq_def Field_int_def) (metis linorder_neqE_linordered_idom signed_word_eqI)
next
  case (V_char x)
  with assms obtain y where "b = V_char y" by (cases b) simp_all
  with V_char show ?thesis
    by (auto simp: value_less_def value_eq_def Field_char_def) (metis linorder_neqE_linordered_idom schar_inj)
qed (use assms in \<open>cases b; auto simp: value_less_def value_eq_def field_classes on_ticks_def\<close>)+

text \<open>
  Fields of one class with one tag are ordered: exactly one of less, equal and greater holds,
  and \<open>operator<=\<close> is the negation of greater. Fields with different tags compare as nothing.
\<close>

theorem field_order_total:
  assumes "class_of (f_val a) = class_of (f_val b)"
  shows "(same_base a b \<longrightarrow>
      (fld_less a b \<or> fld_eq a b \<or> fld_less b a) \<and> \<not> (fld_less a b \<and> fld_eq a b) \<and>
      \<not> (fld_less a b \<and> fld_less b a) \<and> (fld_le a b \<longleftrightarrow> \<not> fld_less b a)) \<and>
    (\<not> same_base a b \<longrightarrow> \<not> fld_less a b \<and> \<not> fld_eq a b \<and> \<not> fld_le a b)"
proof -
  have eq_sym: "value_eq (f_val a) (f_val b) \<longleftrightarrow> value_eq (f_val b) (f_val a)"
    using assms by (cases "f_val a"; cases "f_val b") (auto simp: value_eq_def field_classes on_ticks_def)
  have "same_base b a \<longleftrightarrow> same_base a b" by (auto simp: same_base_def)
  with eq_sym value_trichotomy [OF assms] value_trichotomy [OF assms [symmetric]] show ?thesis
    unfolding fld_less_def fld_eq_def fld_le_def by blast
qed

theorem field_order_total_witness:
  "let a = \<lparr>f_fnum = 38, f_rlm = None, f_val = V_int 3\<rparr>; b = \<lparr>f_fnum = 38, f_rlm = None, f_val = V_int 5\<rparr>
   in same_base a b \<and> fld_le a b \<and> \<not> fld_less b a"
proof -
  let ?a = "\<lparr>f_fnum = 38, f_rlm = None, f_val = V_int 3\<rparr>" and ?b = "\<lparr>f_fnum = 38, f_rlm = None, f_val = V_int 5\<rparr>"
  have "same_base ?a ?b" by (simp add: same_base_def)
  moreover have "\<not> fld_less ?b ?a" by (simp add: fld_less_def value_less_def Field_int_def)
  ultimately show ?thesis using field_order_total [of ?a ?b] by (simp add: Let_def)
qed

end
