(* ===== verification/Elements.thy ===== *)
theory Elements
  imports FixFields
begin

text \<open>
  The exceptions of \<^verbatim>\<open>include/fix8/f8exception.hpp\<close> and the element scanners of \<^verbatim>\<open>MessageBase\<close>
  (\<^verbatim>\<open>include/fix8/message.hpp\<close>, \<^verbatim>\<open>runtime/message.cpp\<close>). An element is \<^verbatim>\<open>tag=value\<close> followed by the
  separator. A computation that may throw has the result type \<open>error + 'a\<close>.
\<close>

section \<open>Exceptions\<close>

text \<open>
  \<open>Undefined\<close> is undefined behaviour of the code, by its cause, or a call that waits for itself;
  \<open>OutOfFuel\<close> is a loop of the model that was stopped. Neither is an exception of the code.
\<close>

datatype ub = BufferOverflow | NullDeref | BadConversion | Uninitialised | Deadlock

datatype error =
  F8Exception string bool
| InvalidMetadata string
| DuplicateField u16
| InvalidDomainValue string
| InvalidField u16
| UnknownField u16
| InvalidMsgSequence u32 u32
| MsgSequenceTooLow u32 u32
| InvalidBodyLength u32
| InvalidMessage string
| IllegalMessage string
| InvalidVersion string
| BadSendingTime string
| BadCompidId string
| InvalidRepeatingGroup u16
| MissingRepeatingGroupField u32
| MissingMessageComponent string
| MissingMandatoryField u16
| MissingFixedWidthField
| BadCheckSum u32
| f8_threadException string
| PeerResetConnection string
| InvalidConfiguration string
| ConfigurationError string
| LogfileException string
| XMLError string
| Undefined ub
| OutOfFuel

fun force_logoff :: "error \<Rightarrow> bool" where
  "force_logoff (F8Exception _ fl) = fl"
| "force_logoff (InvalidMsgSequence _ _) = True"
| "force_logoff (MsgSequenceTooLow _ _) = True"
| "force_logoff (InvalidVersion _) = True"
| "force_logoff (BadSendingTime _) = True"
| "force_logoff (BadCompidId _) = True"
| "force_logoff _ = False"

abbreviation throw :: "error \<Rightarrow> error + 'a" where "throw \<equiv> Inl"
abbreviation return :: "'a \<Rightarrow> error + 'a" where "return \<equiv> Inr"

definition bind :: "error + 'a \<Rightarrow> ('a \<Rightarrow> error + 'b) \<Rightarrow> error + 'b" where
  "bind m f = (case m of Inl e \<Rightarrow> Inl e | Inr x \<Rightarrow> f x)"

lemma bind_simps [simp]: "bind (Inl e) f = Inl e" "bind (Inr x) f = f x"
  by (simp_all add: bind_def)

lemma bind_Inr: "bind m f = Inr y \<longleftrightarrow> (\<exists>x. m = Inr x \<and> f x = Inr y)"
  by (cases m) simp_all

lemma bind_Inl: "bind m f = Inl e \<longleftrightarrow> m = Inl e \<or> (\<exists>x. m = Inr x \<and> f x = Inl e)"
  by (cases m) simp_all

definition of_option :: "error \<Rightarrow> 'a option \<Rightarrow> error + 'a" where
  "of_option e m = (case m of None \<Rightarrow> Inl e | Some x \<Rightarrow> Inr x)"

lemma of_option_simps [simp]: "of_option e None = Inl e" "of_option e (Some x) = Inr x"
  by (simp_all add: of_option_def)

section \<open>\<^verbatim>\<open>extract_element\<close>\<close>

definition MAX_MSGTYPE_FIELD_LEN :: nat where "MAX_MSGTYPE_FIELD_LEN = 32"
definition FIX8_MAX_FLD_LENGTH :: nat where "FIX8_MAX_FLD_LENGTH = 2048"
definition FIX8_MAX_MSG_LENGTH :: nat where "FIX8_MAX_MSG_LENGTH = 8192"

datatype ee_state = get_tag | get_value

text \<open>
  The loop over the characters from \<open>from\<close>; the last two arguments are what has been written to
  the two buffers. The result is the value returned and the texts left in the buffers.
\<close>

fun ee_loop :: "ee_state \<Rightarrow> nat \<Rightarrow> string \<Rightarrow> string \<Rightarrow> string \<Rightarrow> nat \<times> string \<times> string" where
  "ee_loop st ii [] tag val = (0, tag, val)"
| "ee_loop get_tag ii (c # from) tag val =
     (if \<not> isdigit c then
        (if c \<noteq> CHR ''='' then (0, tag, val) else ee_loop get_value (ii + 1) from tag val)
      else ee_loop get_tag (ii + 1) from (tag @ [c]) val)"
| "ee_loop get_value ii (c # from) tag val =
     (if c = SOH then (ii + 1, tag, val) else ee_loop get_value (ii + 1) from tag (val @ [c]))"

text \<open>The version for \<^verbatim>\<open>f8String\<close>, and the version for two buffers of the given sizes.\<close>

definition extract_element_str :: "string \<Rightarrow> nat \<times> string \<times> string" where
  "extract_element_str from = ee_loop get_tag 0 from [] []"

definition extract_element :: "nat \<Rightarrow> nat \<Rightarrow> string \<Rightarrow> error + nat \<times> string \<times> string" where
  "extract_element tag_cap val_cap from =
     (let (r, tag, val) = ee_loop get_tag 0 from [] []
      in if length tag < tag_cap \<and> length val < val_cap then return (r, tag, val)
         else throw (Undefined BufferOverflow))"

text \<open>
  The version for a value of known size. The tag buffer is not terminated after the digits: what
  follows them is what the buffer held before. \<open>tagbuf\<close> is the contents written so far.
\<close>

definition extract_element_fixed_width ::
  "nat \<Rightarrow> string \<Rightarrow> nat \<Rightarrow> string \<Rightarrow> error + nat \<times> string \<times> string" where
  "extract_element_fixed_width tag_cap from val_sz tagbuf =
     (let tag = takeWhile isdigit from;
          rest = drop (length tag) from;
          old = NUL # drop 1 tagbuf
      in if rest = [] \<or> hd rest \<noteq> CHR ''='' \<or> length rest - 1 < val_sz
         then if length tag < tag_cap then return (0, tag @ NUL # drop (length tag + 1) old, [])
              else throw (Undefined BufferOverflow)
         else if length tag \<le> tag_cap
              then return (length tag + 1 + val_sz + 1, tag @ drop (length tag) old, take val_sz (tl rest))
              else throw (Undefined BufferOverflow))"

text \<open>Reading a buffer as a C string: it must hold a terminator.\<close>

definition read_cstr :: "string \<Rightarrow> error + string" where
  "read_cstr buf = (if NUL \<in> set buf then return (cstr buf) else throw (Undefined Uninitialised))"

definition default_assignment_separator :: char where "default_assignment_separator = CHR ''=''"
definition default_field_separator :: char where "default_field_separator = SOH"

section \<open>Header and trailer\<close>

text \<open>
  \<open>extract_header\<close> returns the offset behind the message type and fills the caller's buffers for
  the body length and the message type, which start out as empty strings.
\<close>

definition extract_header :: "string \<Rightarrow> error + nat \<times> string \<times> string" where
  "extract_header from =
     bind (extract_element MAX_MSGTYPE_FIELD_LEN FIX8_MAX_FLD_LENGTH from) (\<lambda>(r1, tag1, _).
     if r1 = 0 then return (0, [], [])
     else if take 1 tag1 \<noteq> ''8'' then return (0, [], [])
     else
       bind (extract_element MAX_MSGTYPE_FIELD_LEN MAX_MSGTYPE_FIELD_LEN (drop r1 from)) (\<lambda>(r2, tag2, len).
       if r2 = 0 then return (r1, len, [])
       else if take 1 tag2 \<noteq> ''9'' then return (0, len, [])
       else
         bind (extract_element MAX_MSGTYPE_FIELD_LEN MAX_MSGTYPE_FIELD_LEN (drop (r1 + r2) from))
           (\<lambda>(r3, tag3, mtype).
         if r3 = 0 then return (r1 + r2, len, mtype)
         else if take 2 tag3 \<noteq> ''35'' then return (0, len, mtype)
         else return (r1 + r2 + r3, len, mtype))))"

text \<open>\<open>extract_trailer\<close> reads the last seven characters; a shorter text is read out of bounds.\<close>

definition extract_trailer :: "string \<Rightarrow> error + nat \<times> string" where
  "extract_trailer from =
     (if length from < 7 then throw (Undefined BufferOverflow)
      else let (r, _, chksum) = extract_element_str (take 6 (drop (length from - 7) from))
           in return (r, chksum))"

section \<open>Correctness\<close>

text \<open>A well-formed element at the front of the text is taken apart, and the rest is left.\<close>

lemma ee_value:
  "SOH \<notin> set v \<Longrightarrow>
    ee_loop get_value ii (v @ SOH # rest) tag val = (ii + length v + 1, tag, val @ v)"
  by (induction v arbitrary: ii val) auto

lemma ee_tag:
  "\<forall>c \<in> set t. isdigit c \<Longrightarrow>
    ee_loop get_tag ii (t @ CHR ''='' # u) tag val = ee_loop get_value (ii + length t + 1) u (tag @ t) val"
proof (induction t arbitrary: ii tag)
  case Nil
  have "\<not> isdigit (CHR ''='')" by (simp add: isdigit_def uchar_def)
  then show ?case by simp
qed simp

lemma ee_loop_element:
  assumes "\<forall>c \<in> set t. isdigit c" and "SOH \<notin> set v"
  shows "ee_loop get_tag 0 (t @ CHR ''='' # v @ SOH # rest) [] [] = (length t + length v + 2, t, v)"
  using assms by (simp add: ee_tag ee_value)

text \<open>The result never exceeds the text, and a result that is not zero is at least two.\<close>

lemma ee_loop_bound:
  "ee_loop st ii from tag val = (r, t, v) \<Longrightarrow> r \<noteq> 0 \<Longrightarrow> ii < r \<and> r \<le> ii + length from"
proof (induction st ii "from" tag val rule: ee_loop.induct)
  case (2 ii c "from" tag val)
  then show ?case by (auto split: if_splits)
next
  case (3 ii c "from" tag val)
  then show ?case by (auto split: if_splits)
qed simp

lemma extract_element_bound:
  assumes "extract_element a b from = Inr (r, t, v)" and "r \<noteq> 0"
  shows "0 < r" "r \<le> length from"
  using assms ee_loop_bound [of get_tag 0 "from" "[]" "[]" r t v]
  by (auto simp: extract_element_def split: prod.splits if_splits)

lemma extract_element_parts:
  assumes "\<forall>c \<in> set t. isdigit c" and "SOH \<notin> set v" and "length t < a" and "length v < b"
  shows "extract_element a b (t @ CHR ''='' # v @ SOH # rest) = Inr (length t + length v + 2, t, v)"
  using ee_loop_element [OF assms(1,2), of rest] assms(3,4) by (simp add: extract_element_def)

lemma extract_element_Inl: "extract_element a b from = Inl e \<Longrightarrow> e = Undefined BufferOverflow"
  by (auto simp: extract_element_def split: prod.splits if_splits)

lemma length_dec_numeral: "n < 10 ^ k \<Longrightarrow> 0 < k \<Longrightarrow> length (dec_numeral n) \<le> k"
proof (induction n arbitrary: k rule: dec_numeral.induct)
  case (1 n)
  show ?case
  proof (cases "n < 10")
    case False
    then obtain j where k: "k = Suc j" "0 < j" using "1.prems" by (cases k; cases "k - 1") auto
    with "1.prems"(1) have "n div 10 < 10 ^ j" by (simp add: less_mult_imp_div_less mult.commute)
    then have "length (dec_numeral (n div 10)) \<le> j" using "1.IH" [of j] False k(2) by simp
    with False k show ?thesis by (simp add: dec_numeral.simps [of n])
  qed (use "1.prems" in \<open>simp add: dec_numeral.simps [of n]\<close>)
qed



text \<open>
  The buffers of \<open>extract_header\<close> have 32 characters and the scanner does not know it: a message
  type of 32 characters is written past the end.
\<close>

lemma extract_header_overflow:
  "extract_header (''8=F'' @ SOH # ''9=5'' @ SOH # ''35='' @ replicate 32 (CHR ''A'') @ [SOH]) =
    Inl (Undefined BufferOverflow)"
  by code_simp

end
