(* ===== verification/Checksum.thy ===== *)
theory Checksum
  imports Elements
begin

text \<open>
  The check sum of \<^verbatim>\<open>include/fix8/message.hpp\<close>: \<open>calc_chksum\<close>, which for 64-bit \<^verbatim>\<open>long\<close> adds eight
  bytes at a time, the byte-wise version of the other builds, and \<open>fmt_chksum\<close>. Bytes are loaded
  in little-endian order, that of the platforms the code runs on.
\<close>

section \<open>The code\<close>

fun le_value :: "string \<Rightarrow> int" where
  "le_value [] = 0"
| "le_value (c # cs) = int (uchar c) + 256 * le_value cs"

definition load64 :: "string \<Rightarrow> u64" where
  "load64 bs = of_int (le_value (take 8 bs))"

definition OVERFLOW_MASK :: u64 where
  "OVERFLOW_MASK = push_bit 8 1 OR push_bit 16 1 OR push_bit 24 1 OR push_bit 32 1 OR push_bit 40 1
     OR push_bit 48 1 OR push_bit 56 1"

definition COLLAPSE_INT64 :: "u64 \<Rightarrow> u64" where
  "COLLAPSE_INT64 x =
     x + drop_bit 8 x + drop_bit 16 x + drop_bit 24 x + drop_bit 32 x + drop_bit 40 x + drop_bit 48 x
     + drop_bit 56 x"

text \<open>One round of the loop: the sum of the two words, and the lanes that received a carry.\<close>

definition chk_carries :: "u64 \<Rightarrow> u64 \<Rightarrow> u64" where
  "chk_carries ret w =
     (let expected_overflow = (ret AND OVERFLOW_MASK) XOR (OVERFLOW_MASK AND w)
      in (expected_overflow XOR (ret + w)) AND OVERFLOW_MASK)"

fun chk_blocks :: "nat \<Rightarrow> string \<Rightarrow> u64 \<Rightarrow> u64 \<Rightarrow> u64 \<times> u64 \<times> string" where
  "chk_blocks 0 bs ret overflow = (ret, overflow, bs)"
| "chk_blocks (Suc n) bs ret overflow =
     (let w = load64 (take 8 bs)
      in chk_blocks n (drop 8 bs) (ret + w) (overflow + chk_carries ret w))"

text \<open>
  \<open>calc_chksum\<close> on the bytes it reads: \<open>elen\<close> bytes from \<open>offset\<close>, where \<open>elen\<close> is the whole size
  when no length is given, whatever the offset. \<open>None\<close> is a read past the buffer.
\<close>

definition chk_sum_bytes :: "string \<Rightarrow> u32" where
  "chk_sum_bytes bs =
     (let (ret, overflow, rest) = chk_blocks (length bs div 8) bs 0 0;
          total = fold (\<lambda>c r. r + of_int (schar c)) rest (COLLAPSE_INT64 ret)
      in ucast ((total - COLLAPSE_INT64 overflow) AND 0xff))"

definition calc_chksum :: "string \<Rightarrow> nat \<Rightarrow> nat \<Rightarrow> int \<Rightarrow> u32 option" where
  "calc_chksum buf sz offset len =
     (let elen = (if len \<noteq> -1 then (if 0 \<le> len then nat len else 2 ^ 64 - nat (- len)) else sz)
      in if offset + elen \<le> length buf then Some (chk_sum_bytes (take elen (drop offset buf))) else None)"

text \<open>The version of the other builds.\<close>

definition calc_chksum_bytewise :: "string \<Rightarrow> nat \<Rightarrow> nat \<Rightarrow> int \<Rightarrow> u32 option" where
  "calc_chksum_bytewise buf sz offset len =
     (let n = (if len \<noteq> -1 then len else int sz - 2 * int offset)
      in if offset + nat n \<le> length buf
         then Some (fold (\<lambda>c val. val + of_int (schar c)) (take (nat n) (drop offset buf)) 0 mod 256) else None)"

definition fmt_chksum :: "u32 \<Rightarrow> string" where
  "fmt_chksum val =
     (let pad = (if 99 < val then 0 else if 9 < val then 1 else 2)
      in replicate pad (CHR ''0'') @ itoa_unsigned val 10)"

text \<open>What a check sum is: the sum of the bytes modulo 256.\<close>

definition byte_sum :: "string \<Rightarrow> nat" where
  "byte_sum bs = sum_list (map uchar bs) mod 256"

section \<open>Lanes\<close>

text \<open>Byte \<open>k\<close> of a number, and the carry into it when two numbers are added.\<close>

definition lane :: "int \<Rightarrow> nat \<Rightarrow> int" where
  "lane x k = x div 256 ^ k mod 256"

definition carry :: "int \<Rightarrow> int \<Rightarrow> nat \<Rightarrow> int" where
  "carry a b k = (a mod 256 ^ k + b mod 256 ^ k) div 256 ^ k"

definition lane_sum :: "int \<Rightarrow> int" where
  "lane_sum x = (\<Sum>k<8. lane x k)"

lemma div_add_carry: "(a + b) div 256 ^ k = a div 256 ^ k + b div 256 ^ k + carry a b k"
  unfolding carry_def by (rule div_add1_eq)

lemma two_blocks_div: "0 < m \<Longrightarrow> (2 * m - 1) div m = (1 :: int)"
  using div_mult_self1 [of m "m - 1" 1] by (simp add: algebra_simps)

lemma carry_01: "carry a b k = 0 \<or> carry a b k = 1"
proof -
  let ?m = "256 ^ k :: int"
  have m: "0 < ?m" by simp
  have "0 \<le> a mod ?m + b mod ?m" "a mod ?m + b mod ?m < 2 * ?m"
    using pos_mod_bound [OF m, of a] pos_mod_bound [OF m, of b] by (simp, linarith)
  then have "0 \<le> carry a b k" "carry a b k \<le> 1"
    unfolding carry_def using m zdiv_mono1 [of "a mod ?m + b mod ?m" "2 * ?m - 1" ?m]
    by (simp_all add: pos_imp_zdiv_nonneg_iff two_blocks_div)
  then show ?thesis by linarith
qed

lemma carry_0 [simp]: "carry a b 0 = 0"
  by (simp add: carry_def)

lemma lane_add: "lane (a + b) k = (lane a k + lane b k + carry a b k) mod 256"
  unfolding lane_def div_add_carry by (metis mod_add_left_eq mod_add_eq)

text \<open>The lanes of a sum modulo 256: each carry between lanes is one too many.\<close>

lemma lane_sum_add:
  "lane_sum (a + b) mod 256 = (lane_sum a + lane_sum b + (\<Sum>k<8. carry a b k)) mod 256"
proof -
  have "lane_sum (a + b) mod 256 = (\<Sum>k<8. lane a k + lane b k + carry a b k) mod 256"
    unfolding lane_sum_def lane_add by (rule mod_sum_eq)
  then show ?thesis by (simp add: lane_sum_def sum.distrib)
qed

text \<open>Wrapping at 64 bits does not touch the lanes.\<close>

lemma lane_mod_64:
  assumes "k < 8"
  shows "lane (x mod 2 ^ 64) k = lane x k"
proof -
  have e: "(2 :: int) ^ 64 = 256 ^ k * 256 ^ (8 - k)"
    using assms by (simp flip: power_add)
  have "x mod 2 ^ 64 div 256 ^ k = x div 256 ^ k mod 256 ^ (8 - k)"
    unfolding e by (simp add: zmod_zmult2_eq)
  moreover have "(256 :: int) dvd 256 ^ (8 - k)"
    using assms by (intro dvd_power) simp
  ultimately show ?thesis by (simp add: lane_def mod_mod_cancel)
qed

lemma lane_sum_mod_64: "lane_sum (x mod 2 ^ 64) = lane_sum x"
  unfolding lane_sum_def by (rule sum.cong) (simp_all only: lane_mod_64 lessThan_iff)

text \<open>A sum without carries adds lane by lane.\<close>

lemma no_carry:
  assumes "\<And>j. j < k \<Longrightarrow> lane a j + lane b j < 256"
  shows "carry a b k = 0"
  using assms
proof (induction k)
  case (Suc k)
  then have c: "carry a b k = 0" by simp
  have step: "x mod 256 ^ Suc k = lane x k * 256 ^ k + x mod 256 ^ k" for x :: int
    using zmod_zmult2_eq [of "256" x "256 ^ k"] by (simp add: lane_def mult.commute)
  let ?m = "256 ^ k :: int"
  have "a mod ?m + b mod ?m < ?m"
  proof (rule ccontr)
    assume "\<not> a mod ?m + b mod ?m < ?m"
    then have "1 \<le> (a mod ?m + b mod ?m) div ?m"
      by (simp add: pos_imp_zdiv_pos_iff int_one_le_iff_zero_less)
    with c show False by (simp add: carry_def)
  qed
  moreover have "(lane a k + lane b k) * ?m \<le> 255 * ?m"
    using Suc.prems [of k] by (intro mult_right_mono) simp_all
  ultimately have "a mod 256 ^ Suc k + b mod 256 ^ Suc k < 256 ^ Suc k"
    unfolding step by (simp add: algebra_simps)
  then show ?case by (simp add: carry_def del: power_Suc)
qed simp

lemma lane_add_no_carry:
  assumes "\<And>j. j \<le> k \<Longrightarrow> lane a j + lane b j < 256"
  shows "lane (a + b) k = lane a k + lane b k"
proof -
  have "0 \<le> lane a k" "0 \<le> lane b k" by (simp_all add: lane_def)
  then show ?thesis using assms no_carry [of k a b] by (simp add: lane_add)
qed

section \<open>The words of the loop\<close>

lemma lane_take_bit: "lane x k = take_bit 8 (drop_bit (8 * k) x)"
  by (simp add: lane_def take_bit_eq_mod drop_bit_eq_div power_mult)

lemma bit_lane: "bit (w :: u64) (8 * k) \<longleftrightarrow> odd (lane (uint w) k)"
  by (simp add: lane_take_bit flip: bit_0) (simp add: bit_take_bit_iff bit_drop_bit_eq bit_uint_iff; auto dest: bit_imp_le_length)

lemma bit_mask: "bit OVERFLOW_MASK n \<longleftrightarrow> n \<in> {8, 16, 24, 32, 40, 48, 56}"
  by (simp only: OVERFLOW_MASK_def push_bit_of_1 bit_or_iff bit_two_power len_of_numeral_defs) auto

lemma lane_bits: "k < 8 \<Longrightarrow> 8 * k \<in> {8, 16, 24, 32, 40, 48, 56 :: nat} \<longleftrightarrow> k \<noteq> 0"
  by (simp; presburger)

lemma lane_bits_low: "0 < n \<Longrightarrow> n < 8 \<Longrightarrow> 8 * k + n \<notin> {8, 16, 24, 32, 40, 48, 56 :: nat}"
  by (simp; presburger)

lemma bit_carries:
  "bit (chk_carries r w) n \<longleftrightarrow> n \<in> {8, 16, 24, 32, 40, 48, 56} \<and> (bit (r + w) n \<noteq> (bit r n \<noteq> bit w n))"
  by (auto simp: chk_carries_def Let_def bit_and_iff bit_xor_iff bit_mask)

text \<open>A carry word has lane \<open>k\<close> equal to the carry into it.\<close>

lemma odd_lane_add:
  "k < 8 \<Longrightarrow> odd (lane (uint (r + w :: u64)) k) \<longleftrightarrow> odd (lane (uint r) k + lane (uint w) k + carry (uint r) (uint w) k)"
proof -
  assume "k < 8"
  then have "lane (uint (r + w)) k = lane (uint r + uint w) k"
    using lane_mod_64 [of k "uint r + uint w"] by (simp add: uint_word_ariths)
  moreover have "odd ((x :: int) mod 256) \<longleftrightarrow> odd x" for x by presburger
  ultimately show ?thesis by (simp add: lane_add)
qed

lemma lane_carries:
  assumes "k < 8"
  shows "lane (uint (chk_carries r w)) k = carry (uint r) (uint w) k"
proof -
  have "bit (chk_carries r w) (8 * k) \<longleftrightarrow> k \<noteq> 0 \<and> odd (carry (uint r) (uint w) k)"
    by (subst bit_carries) (auto simp only: lane_bits [OF assms] bit_lane odd_lane_add [OF assms] odd_add)
  then have b: "bit (chk_carries r w) (8 * k) \<longleftrightarrow> carry (uint r) (uint w) k = 1"
    using carry_01 [of "uint r" "uint w" k] by (cases "k = 0") auto
  have "lane (uint (chk_carries r w)) k = of_bool (bit (chk_carries r w) (8 * k))"
  proof (rule bit_eqI)
    fix n
    have "bit (lane (uint (chk_carries r w)) k) n \<longleftrightarrow> n < 8 \<and> bit (chk_carries r w) (8 * k + n)"
      by (simp add: lane_take_bit bit_take_bit_iff bit_drop_bit_eq bit_uint_iff) (auto dest: bit_imp_le_length)
    moreover have "bit (of_bool b :: int) n \<longleftrightarrow> n = 0 \<and> b" for b
      by (cases b) (simp_all add: bit_1_iff)
    moreover have "\<not> bit (chk_carries r w) (8 * k + n)" if "0 < n" "n < 8"
      using lane_bits_low [OF that, of k] by (simp add: bit_carries)
    ultimately show "bit (lane (uint (chk_carries r w)) k) n = bit (of_bool (bit (chk_carries r w) (8 * k)) :: int) n"
      by (cases "n = 0") auto
  qed
  with b carry_01 [of "uint r" "uint w" k] show ?thesis by auto
qed

section \<open>The loop\<close>

lemma lane_nonneg: "0 \<le> lane x k"
  by (simp add: lane_def)

lemma uint_lane_sum_add:
  "lane_sum (uint (r + w :: u64)) mod 256 =
    (lane_sum (uint r) + lane_sum (uint w) + lane_sum (uint (chk_carries r w))) mod 256"
proof -
  have "lane_sum (uint (r + w)) = lane_sum (uint r + uint w)"
    using lane_sum_mod_64 [of "uint r + uint w"] by (simp add: uint_word_ariths)
  moreover have "lane_sum (uint (chk_carries r w)) = (\<Sum>k<8. carry (uint r) (uint w) k)"
    unfolding lane_sum_def by (rule sum.cong) (simp_all add: lane_carries)
  ultimately show ?thesis by (simp add: lane_sum_add)
qed

text \<open>
  The count of carries: while every lane of the counter is below 255, adding a carry word adds its
  lanes.
\<close>

lemma counter_add:
  assumes "\<And>k. k < 8 \<Longrightarrow> lane (uint ov) k \<le> b" and "b < 255"
  shows "k < 8 \<Longrightarrow> lane (uint (ov + chk_carries r w)) k = lane (uint ov) k + lane (uint (chk_carries r w)) k"
proof -
  assume k: "k < 8"
  have one: "lane (uint (chk_carries r w)) j \<le> 1" if "j < 8" for j
    using that carry_01 [of "uint r" "uint w" j] by (auto simp: lane_carries)
  have "lane (uint (ov + chk_carries r w)) k = lane (uint ov + uint (chk_carries r w)) k"
    using lane_mod_64 [OF k, of "uint ov + uint (chk_carries r w)"] by (simp add: uint_word_ariths)
  also have "\<dots> = lane (uint ov) k + lane (uint (chk_carries r w)) k"
  proof (rule lane_add_no_carry)
    fix j assume "j \<le> k"
    with k have "j < 8" by simp
    then show "lane (uint ov) j + lane (uint (chk_carries r w)) j < 256"
      using assms one [of j] by fastforce
  qed
  finally show ?thesis .
qed

lemma lane_le_value: "k < length bs \<Longrightarrow> lane (le_value bs) k = int (uchar (bs ! k))"
proof (induction bs arbitrary: k)
  case (Cons c bs)
  have c: "int (uchar c) div 256 = 0" "int (uchar c) mod 256 = int (uchar c)"
    using uchar_less [of c] by simp_all
  show ?case
  proof (cases k)
    case 0
    then show ?thesis using c by (simp add: lane_def)
  next
    case (Suc j)
    have "(int (uchar c) + 256 * le_value bs) div 256 = le_value bs" using c by simp
    then have "lane (le_value (c # bs)) (Suc j) = lane (le_value bs) j"
      by (simp add: lane_def zdiv_zmult2_eq)
    with Suc Cons show ?thesis by simp
  qed
qed simp

lemma lane_load64:
  assumes "8 \<le> length bs"
  shows "lane_sum (uint (load64 bs)) = (\<Sum>k<8. int (uchar (bs ! k)))"
proof -
  have "lane_sum (uint (load64 bs)) = lane_sum (le_value (take 8 bs))"
    using lane_sum_mod_64 [of "le_value (take 8 bs)"] by (simp add: load64_def uint_word_of_int)
  also have "\<dots> = (\<Sum>k<8. int (uchar (bs ! k)))"
    unfolding lane_sum_def by (rule sum.cong) (use assms in \<open>simp_all add: lane_le_value\<close>)
  finally show ?thesis .
qed

definition bytes :: "string \<Rightarrow> int" where
  "bytes bs = int (sum_list (map uchar bs))"

lemma bytes_append [simp]: "bytes (a @ b) = bytes a + bytes b"
  by (simp add: bytes_def)

lemma bytes_take_8: "8 \<le> length bs \<Longrightarrow> bytes (take 8 bs) = (\<Sum>k<8. int (uchar (bs ! k)))"
  by (simp add: bytes_def sum_list_sum_nth atLeast0LessThan min_def)

lemma chk_blocks_spec:
  assumes "8 * n \<le> length bs" and "\<And>k. k < 8 \<Longrightarrow> lane (uint ov) k \<le> b" and "b + int n \<le> 255"
    and "chk_blocks n bs ret ov = (ret', ov', rest)"
  shows "rest = drop (8 * n) bs \<and>
    (lane_sum (uint ret') - lane_sum (uint ov')) mod 256 =
      (lane_sum (uint ret) - lane_sum (uint ov) + bytes (take (8 * n) bs)) mod 256"
  using assms
proof (induction n arbitrary: bs ret ov b)
  case 0
  then show ?case by (simp add: bytes_def)
next
  case (Suc n)
  define w where "w = load64 (take 8 bs)"
  define v where "v = chk_carries ret w"
  have len: "8 \<le> length bs" using Suc.prems(1) by simp
  have "lane (uint (ov + v)) k = lane (uint ov) k + lane (uint v) k" if "k < 8" for k
    unfolding v_def by (rule counter_add [OF Suc.prems(2)]) (use that Suc.prems(3) in auto)
  note lv = this
  have v1: "lane (uint v) k \<le> 1" if "k < 8" for k
    using that carry_01 [of "uint ret" "uint w" k] by (auto simp: v_def lane_carries)
  have ov: "lane (uint (ov + v)) k \<le> b + 1" if "k < 8" for k
    using lv [OF that] v1 [OF that] Suc.prems(2) [OF that] by linarith
  have sum_ov: "lane_sum (uint (ov + v)) = lane_sum (uint ov) + lane_sum (uint v)"
    unfolding lane_sum_def sum.distrib [symmetric] by (rule sum.cong) (simp_all add: lv)
  have wb: "lane_sum (uint w) = bytes (take 8 bs)"
    using len lane_load64 [of "take 8 bs"] by (simp add: w_def bytes_take_8)
  have rec: "chk_blocks n (drop 8 bs) (ret + w) (ov + v) = (ret', ov', rest)"
    using Suc.prems(4) by (simp add: w_def v_def Let_def)
  have "8 * n \<le> length (drop 8 bs)" "b + 1 + int n \<le> 255" using Suc.prems(1,3) by simp_all
  from Suc.IH [OF this(1) ov this(2) rec]
  have ih: "rest = drop (8 * n) (drop 8 bs)"
    "(lane_sum (uint ret') - lane_sum (uint ov')) mod 256 =
      (lane_sum (uint (ret + w)) - lane_sum (uint (ov + v)) + bytes (take (8 * n) (drop 8 bs))) mod 256"
    by simp_all
  have split: "take (8 * Suc n) bs = take 8 bs @ take (8 * n) (drop 8 bs)"
    by (simp add: take_add)
  have "(lane_sum (uint (ret + w)) - lane_sum (uint (ov + v)) + bytes (take (8 * n) (drop 8 bs))) mod 256
      = (lane_sum (uint (ret + w)) mod 256 - lane_sum (uint (ov + v)) + bytes (take (8 * n) (drop 8 bs))) mod 256"
    by (metis mod_add_left_eq mod_diff_left_eq)
  also have "\<dots> = (lane_sum (uint ret) + lane_sum (uint w) + lane_sum (uint v)
      - lane_sum (uint (ov + v)) + bytes (take (8 * n) (drop 8 bs))) mod 256"
    unfolding uint_lane_sum_add v_def [symmetric] by (metis mod_add_left_eq mod_diff_left_eq)
  finally show ?case
    using ih unfolding split bytes_append by (simp add: sum_ov wb algebra_simps)
qed

definition lo :: "u64 \<Rightarrow> int" where
  "lo x = uint x mod 256"

lemma lo_add: "lo (x + y) = (lo x + lo y) mod 256"
proof -
  have "lo (x + y) = (uint x + uint y) mod 2 ^ 64 mod 256" by (simp add: lo_def uint_word_ariths)
  also have "\<dots> = (uint x + uint y) mod 256" by (rule mod_mod_cancel) simp
  finally show ?thesis by (simp add: lo_def mod_simps)
qed

lemma lo_diff: "lo (x - y) = (lo x - lo y) mod 256"
proof -
  have "lo (x - y) = (uint x - uint y) mod 2 ^ 64 mod 256" by (simp add: lo_def uint_word_ariths)
  also have "\<dots> = (uint x - uint y) mod 256" by (rule mod_mod_cancel) simp
  finally show ?thesis by (simp add: lo_def mod_simps)
qed

lemma lo_drop_bit: "lo (drop_bit (8 * k) x) = lane (uint x) k"
proof -
  have "take_bit 64 (uint x) = uint x"
    by (rule take_bit_int_eq_self) (use unsigned_less [of x, where ?'a = int] in simp_all)
  then have "uint (drop_bit (8 * k) x) = drop_bit (8 * k) (uint x)" by (simp add: unsigned_drop_bit_eq)
  then show ?thesis by (simp only: lo_def lane_def drop_bit_eq_div power_mult) simp
qed

lemma lo_0: "lo x = lane (uint x) 0"
  by (simp add: lo_def lane_def)

lemma lo_schar: "lo (of_int (schar c)) = int (uchar c) mod 256"
proof -
  have "lo (of_int (schar c)) = schar c mod 2 ^ 64 mod 256" by (simp add: lo_def uint_word_of_int)
  also have "\<dots> = schar c mod 256" by (rule mod_mod_cancel) simp
  finally show ?thesis using schar_mod [of c] uchar_less [of c] by simp
qed

lemma lo_collapse: "lo (COLLAPSE_INT64 x) = lane_sum (uint x) mod 256"
proof -
  have s: "lane_sum (uint x) = lane (uint x) 0 + lane (uint x) 1 + lane (uint x) 2 + lane (uint x) 3
      + lane (uint x) 4 + lane (uint x) 5 + lane (uint x) 6 + lane (uint x) 7"
    unfolding lane_sum_def by (simp add: numeral_eq_Suc)
  have d: "lo (drop_bit 8 x) = lane (uint x) 1" "lo (drop_bit 16 x) = lane (uint x) 2"
    "lo (drop_bit 24 x) = lane (uint x) 3" "lo (drop_bit 32 x) = lane (uint x) 4"
    "lo (drop_bit 40 x) = lane (uint x) 5" "lo (drop_bit 48 x) = lane (uint x) 6"
    "lo (drop_bit 56 x) = lane (uint x) 7"
    using lo_drop_bit [of 1 x] lo_drop_bit [of 2 x] lo_drop_bit [of 3 x] lo_drop_bit [of 4 x]
      lo_drop_bit [of 5 x] lo_drop_bit [of 6 x] lo_drop_bit [of 7 x]
    by simp_all
  show ?thesis unfolding s COLLAPSE_INT64_def lo_add d by (simp add: lo_0 mod_add_left_eq)
qed

lemma lo_tail: "lo (fold (\<lambda>c r. r + of_int (schar c)) cs t) = (lo t + bytes cs) mod 256"
proof (induction cs arbitrary: t)
  case Nil
  then show ?case by (simp add: bytes_def lo_def)
next
  case (Cons c cs)
  have "(lo (t + of_int (schar c)) + bytes cs) mod 256 = (lo t + int (uchar c) + bytes cs) mod 256"
    unfolding lo_add lo_schar by (metis mod_add_left_eq mod_add_right_eq)
  with Cons show ?case by (simp add: bytes_def add.assoc)
qed

lemma bytewise_sum: "fold (\<lambda>c val. val + of_int (schar c)) bs 0 mod 256 = (of_nat (byte_sum bs) :: u32)"
proof -
  have f: "uint (fold (\<lambda>c val. val + of_int (schar c)) bs (v :: u32)) mod 256 = (uint v + bytes bs) mod 256" for v
  proof (induction bs arbitrary: v)
    case (Cons c bs)
    have "uint (v + of_int (schar c)) mod 256 = (uint v + schar c) mod 2 ^ 32 mod 256"
      by (simp add: uint_word_ariths uint_word_of_int mod_simps)
    also have "\<dots> = (uint v + schar c) mod 256" by (rule mod_mod_cancel) simp
    also have "\<dots> = (uint v + int (uchar c)) mod 256" by (metis mod_add_right_eq schar_mod mod_mod_trivial)
    finally have "(uint (v + of_int (schar c)) + bytes bs) mod 256 = (uint v + int (uchar c) + bytes bs) mod 256"
      by (metis mod_add_left_eq)
    with Cons show ?case by (simp add: bytes_def add.assoc)
  qed (simp add: bytes_def)
  have "uint (fold (\<lambda>c val. val + of_int (schar c)) bs (0 :: u32) mod 256) = bytes bs mod 256"
    using f [of 0] by (simp add: uint_mod_distrib)
  then have "of_int (uint (fold (\<lambda>c val. val + of_int (schar c)) bs (0 :: u32) mod 256)) =
      (of_int (bytes bs mod 256) :: u32)"
    by (rule arg_cong)
  then have "fold (\<lambda>c val. val + of_int (schar c)) bs (0 :: u32) mod 256 = of_int (bytes bs mod 256)"
    by (simp only: word_of_int_uint)
  moreover have "bytes bs mod 256 = int (byte_sum bs)" by (simp add: bytes_def byte_sum_def zmod_int)
  ultimately show ?thesis by simp
qed

lemma chk_carries_0: "chk_carries 0 w = 0"
  by (rule bit_word_eqI) (auto simp: chk_carries_def bit_and_iff bit_xor_iff)

lemma chk_blocks_0:
  assumes "8 * n \<le> length bs" and "n \<le> 256" and "chk_blocks n bs 0 0 = (ret, ov, rest)"
  shows "rest = drop (8 * n) bs \<and>
    (lane_sum (uint ret) - lane_sum (uint ov)) mod 256 = bytes (take (8 * n) bs) mod 256"
proof (cases n)
  case 0
  with assms show ?thesis by (auto simp: lane_sum_def lane_def bytes_def)
next
  case (Suc m)
  let ?w = "load64 (take 8 bs)"
  have rec: "chk_blocks m (drop 8 bs) ?w 0 = (ret, ov, rest)"
    using assms(3) Suc by (simp add: chk_carries_0 Let_def)
  have zero: "lane (uint (0 :: u64)) k \<le> 0" for k by (simp add: lane_def)
  have wb: "lane_sum (uint ?w) = bytes (take 8 bs)"
    using assms(1) Suc lane_load64 [of "take 8 bs"] by (simp add: bytes_take_8)
  have "lane_sum (uint (0 :: u64)) = 0" by (simp add: lane_sum_def lane_def)
  moreover have "take (8 * n) bs = take 8 bs @ take (8 * m) (drop 8 bs)"
    using Suc by (simp add: take_add)
  ultimately show ?thesis
    using chk_blocks_spec [OF _ zero _ rec] assms(1,2) Suc wb by (simp add: add.commute)
qed

lemma chk_sum_bytes_spec:
  assumes "length bs < 2056"
  shows "chk_sum_bytes bs = of_nat (byte_sum bs)"
proof -
  define n where "n = length bs div 8"
  obtain ret ov rest where b: "chk_blocks n bs 0 0 = (ret, ov, rest)" by (metis prod_cases3)
  have n: "8 * n \<le> length bs" "n \<le> 256" using assms by (simp_all add: n_def)
  note spec = chk_blocks_0 [OF n b]
  define total where "total = fold (\<lambda>c r. r + of_int (schar c)) rest (COLLAPSE_INT64 ret)"
  have "lo (total - COLLAPSE_INT64 ov) = (lane_sum (uint ret) - lane_sum (uint ov) + bytes rest) mod 256"
    by (simp add: lo_diff total_def lo_tail lo_collapse mod_simps algebra_simps)
  also have "\<dots> = (bytes (take (8 * n) bs) + bytes rest) mod 256"
    using spec by (metis mod_add_left_eq)
  also have "\<dots> = bytes bs mod 256"
    using spec bytes_append [of "take (8 * n) bs" "drop (8 * n) bs"] by simp
  finally have lo: "lo (total - COLLAPSE_INT64 ov) = bytes bs mod 256" .
  have mask: "(x AND 0xff :: u64) = take_bit 8 x" for x
    by (simp add: take_bit_eq_mask mask_eq_decr_exp)
  have "uint ((total - COLLAPSE_INT64 ov) AND 0xff) = lo (total - COLLAPSE_INT64 ov)"
    unfolding mask lo_def unsigned_take_bit_eq by (simp add: take_bit_eq_mod)
  then have "(total - COLLAPSE_INT64 ov) AND 0xff = of_int (bytes bs mod 256)"
    using lo by (metis word_of_int_uint)
  moreover have "chk_sum_bytes bs = ucast ((total - COLLAPSE_INT64 ov) AND 0xff)"
    using b by (simp add: chk_sum_bytes_def n_def [symmetric] total_def)
  moreover have "bytes bs mod 256 = int (byte_sum bs)" by (simp add: bytes_def byte_sum_def zmod_int)
  moreover have "take_bit 64 (byte_sum bs) = byte_sum bs"
    by (rule take_bit_nat_eq_self) (rule less_trans [of _ 256]; simp add: byte_sum_def)
  ultimately show ?thesis by (simp add: unsigned_of_nat)
qed

text \<open>
  C17: the eight-bytes-at-a-time sum of any text of fewer than 2,056 bytes is the sum of its bytes
  modulo 256, so it is what the byte-wise version of the other builds computes.
\<close>

theorem calc_chksum_correct:
  assumes "length bs < 2056"
  shows "calc_chksum (bs @ [NUL]) (length bs) 0 (-1) = Some (of_nat (byte_sum bs)) \<and>
    calc_chksum_bytewise (bs @ [NUL]) (length bs) 0 (-1) = Some (of_nat (byte_sum bs))"
  using chk_sum_bytes_spec [OF assms] bytewise_sum [of bs]
  by (simp add: calc_chksum_def calc_chksum_bytewise_def)

theorem calc_chksum_correct_witness:
  "calc_chksum (''8=FIX.4.2'' @ [NUL]) (length ''8=FIX.4.2'') 0 (-1) = Some (of_nat (byte_sum ''8=FIX.4.2'')) \<and>
    calc_chksum_bytewise (''8=FIX.4.2'' @ [NUL]) (length ''8=FIX.4.2'') 0 (-1) = Some (of_nat (byte_sum ''8=FIX.4.2''))"
  by (rule calc_chksum_correct) simp

section \<open>Where the counters wrap\<close>

lemma bit_of_lane: "n < 64 \<Longrightarrow> bit (w :: u64) n \<longleftrightarrow> bit (lane (uint w) (n div 8)) (n mod 8)"
  by (simp add: lane_take_bit bit_take_bit_iff bit_drop_bit_eq bit_uint_iff)

lemma word_lane_eqI:
  assumes "\<And>k. k < 8 \<Longrightarrow> lane (uint a) k = lane (uint (b :: u64)) k"
  shows "a = b"
proof (rule bit_word_eqI)
  fix n assume "n < LENGTH(64)"
  then have "n < 64" "n div 8 < 8" by auto
  then show "bit a n = bit b n" using assms [of "n div 8"] by (simp add: bit_of_lane)
qed

lemma less_8: "k < 8 \<longleftrightarrow> k = 0 \<or> k = 1 \<or> k = 2 \<or> k = 3 \<or> k = 4 \<or> k = 5 \<or> k = 6 \<or> k = (7 :: nat)"
  by presburger

lemma mask_num: "OVERFLOW_MASK = 0x0101010101010100"
  by (simp add: OVERFLOW_MASK_def)

lemma lane_mask: "k < 8 \<Longrightarrow> lane (uint OVERFLOW_MASK) k = (if k = 0 then 0 else 1)"
  unfolding mask_num by (auto simp: less_8 lane_def)

lemma uint_neg: "1 \<le> j \<Longrightarrow> j \<le> 256 \<Longrightarrow> uint (- of_nat j :: u64) = 2 ^ 64 - int j"
  by (simp add: uint_word_ariths unsigned_of_nat take_bit_nat_eq_self zmod_zminus1_eq_if)

lemma mod_neg_pow:
  assumes "1 \<le> j" and "j \<le> 256" and "k < 8"
  shows "(2 ^ 64 - int j) mod 256 ^ k = (if k = 0 \<or> (k = 1 \<and> j = 256) then 0 else 256 ^ k - int j)"
proof -
  have "(2 ^ 64 - int j) mod 256 ^ k = (- int j) mod 256 ^ k"
  proof -
    have "(2 :: int) ^ 64 = 256 ^ k * 256 ^ (8 - k)" using assms by (simp flip: power_add)
    then show ?thesis by (simp only: diff_conv_add_uminus mod_mult_self4)
  qed
  also have "\<dots> = (if k = 0 \<or> (k = 1 \<and> j = 256) then 0 else 256 ^ k - int j)"
  proof (cases "k = 0 \<or> (k = 1 \<and> j = 256)")
    case False
    have "int j < 256 ^ k"
    proof (cases "k = 1")
      case True
      with False assms show ?thesis by simp
    next
      case k: False
      with False have "2 \<le> k" by simp
      then have "(256 :: int) ^ 2 \<le> 256 ^ k" by (intro power_increasing) simp_all
      moreover have "int j \<le> 256" "(256 :: int) ^ 2 = 65536" using assms by simp_all
      ultimately show ?thesis by linarith
    qed
    then have "(- int j + 256 ^ k) mod 256 ^ k = 256 ^ k - int j"
      using assms(1) by (intro mod_pos_pos_trivial [THEN trans]) simp_all
    with False show ?thesis by simp
  qed auto
  finally show ?thesis .
qed

lemma carries_all_ones:
  assumes "1 \<le> j" and "j \<le> 256"
  shows "chk_carries (- of_nat j) (- 1) = (if j = 256 then OVERFLOW_MASK - 256 else OVERFLOW_MASK)"
proof (rule word_lane_eqI)
  fix k :: nat assume k: "k < 8"
  have u1: "uint (- 1 :: u64) = 2 ^ 64 - 1" using uint_neg [of 1] by simp
  have "carry (2 ^ 64 - int j) (2 ^ 64 - int 1) k = (if k = 0 \<or> (k = 1 \<and> j = 256) then 0 else 1)"
    unfolding carry_def mod_neg_pow [OF assms k] mod_neg_pow [of 1 k, simplified, OF k]
    using assms k by (auto simp: less_8)
  then have "lane (uint (chk_carries (- of_nat j) (- 1))) k = (if k = 0 \<or> (k = 1 \<and> j = 256) then 0 else 1)"
    using k assms by (simp add: lane_carries uint_neg u1)
  moreover have m: "OVERFLOW_MASK - 256 = 0x0101010101010000" by (simp add: mask_num)
  have "lane (uint (OVERFLOW_MASK - 256)) k = (if k = 0 \<or> k = 1 then 0 else 1)"
    unfolding m using k by (auto simp: less_8 lane_def)
  ultimately show "lane (uint (chk_carries (- of_nat j) (- 1))) k
      = lane (uint (if j = 256 then OVERFLOW_MASK - 256 else OVERFLOW_MASK)) k"
    using k by (auto simp: lane_mask)
qed

lemma load64_ones: "load64 (replicate 8 (CHR 0xFF)) = - 1"
proof -
  have "replicate 8 (CHR 0xFF) = [CHR 0xFF, CHR 0xFF, CHR 0xFF, CHR 0xFF, CHR 0xFF, CHR 0xFF, CHR 0xFF, CHR 0xFF]"
    by (simp add: numeral_eq_Suc)
  then show ?thesis by (simp add: load64_def uchar_def)
qed

lemma chk_blocks_ones_step:
  assumes "1 \<le> j" and "j \<le> 256"
  shows "chk_blocks (Suc n) (replicate (8 * Suc n) (CHR 0xFF)) (- of_nat j) ov
      = chk_blocks n (replicate (8 * n) (CHR 0xFF)) (- of_nat (Suc j))
          (ov + (if j = 256 then OVERFLOW_MASK - 256 else OVERFLOW_MASK))"
proof -
  have t: "take 8 (replicate (8 * Suc n) (CHR 0xFF)) = replicate 8 (CHR 0xFF)"
    "drop 8 (replicate (8 * Suc n) (CHR 0xFF)) = replicate (8 * n) (CHR 0xFF)"
    by simp_all
  show ?thesis
    by (simp only: chk_blocks.simps t load64_ones Let_def carries_all_ones [OF assms]) (simp add: algebra_simps)
qed

lemma chk_blocks_ones:
  "1 \<le> j \<Longrightarrow> j + n = 256 \<Longrightarrow>
    chk_blocks (Suc n) (replicate (8 * Suc n) (CHR 0xFF)) (- of_nat j) ov =
      (- 257, ov + of_nat n * OVERFLOW_MASK + (OVERFLOW_MASK - 256), [])"
proof (induction n arbitrary: j ov)
  case 0
  then have "j = 256" by simp
  then show ?case using chk_blocks_ones_step [of 256 0 ov] by (simp add: algebra_simps)
next
  case (Suc n)
  then have j: "j \<le> 256" "(j = 256) = False" by auto
  have "chk_blocks (Suc (Suc n)) (replicate (8 * Suc (Suc n)) (CHR 0xFF)) (- of_nat j) ov
      = chk_blocks (Suc n) (replicate (8 * Suc n) (CHR 0xFF)) (- of_nat (Suc j)) (ov + OVERFLOW_MASK)"
    by (simp only: chk_blocks_ones_step [OF Suc.prems(1) j(1)] j(2) if_False)
  also have "\<dots> = (- 257, (ov + OVERFLOW_MASK) + of_nat n * OVERFLOW_MASK + (OVERFLOW_MASK - 256), [])"
    using Suc.prems by (intro Suc.IH) simp_all
  also have "(ov + OVERFLOW_MASK) + of_nat n * OVERFLOW_MASK + (OVERFLOW_MASK - 256)
      = ov + of_nat (Suc n) * OVERFLOW_MASK + (OVERFLOW_MASK - 256)"
    by (simp add: algebra_simps)
  finally show ?case .
qed

text \<open>
  For 2,056 bytes the counters of the lanes wrap: the eight-bytes-at-a-time sum of a text of
  2,056 bytes 0xFF is 243, the sum of the bytes modulo 256 is 248. Messages may have 8,192 bytes.
\<close>

lemma calc_chksum_wraps:
  "calc_chksum (replicate 2056 (CHR 0xFF) @ [NUL]) 2056 0 (-1) = Some 243 \<and>
    byte_sum (replicate 2056 (CHR 0xFF)) = 248"
proof -
  have r: "replicate 2056 (CHR 0xFF) = replicate 8 (CHR 0xFF) @ replicate (8 * Suc 255) (CHR 0xFF)"
    by (simp flip: replicate_add)
  have "chk_blocks (Suc (Suc 255)) (replicate 2056 (CHR 0xFF)) 0 0
      = chk_blocks (Suc 255) (replicate (8 * Suc 255) (CHR 0xFF)) (- of_nat 1) 0"
    unfolding r chk_blocks.simps(2) [of "Suc 255"] by (simp add: load64_ones chk_carries_0 del: chk_blocks.simps)
  then have b: "chk_blocks 257 (replicate 2056 (CHR 0xFF)) 0 0 =
      (- 257, 255 * OVERFLOW_MASK + (OVERFLOW_MASK - 256), [])"
    using chk_blocks_ones [of 1 255 0] by simp
  have "chk_sum_bytes (replicate 2056 (CHR 0xFF)) = 243"
    by (simp add: chk_sum_bytes_def b mask_num COLLAPSE_INT64_def)
  moreover have "byte_sum (replicate 2056 (CHR 0xFF)) = 248"
    by (simp add: byte_sum_def sum_list_replicate uchar_def)
  ultimately show ?thesis by (simp add: calc_chksum_def)
qed

text \<open>
  With an offset the two versions read different parts of the text, and the first one reads past
  the end of the buffer when no length is given.
\<close>

lemma calc_chksum_offset:
  "calc_chksum (''12345678'' @ [NUL]) 8 2 (-1) = None"
  "calc_chksum_bytewise (''12345678'' @ [NUL]) 8 2 (-1) = Some 210"
  by code_simp+

text \<open>\<open>fmt_chksum\<close> prints a check sum with exactly three digits.\<close>

lemma fmt_chksum_spec:
  assumes "v < 256"
  shows "length (fmt_chksum (of_nat v)) = 3 \<and>
    fast_atoi (fmt_chksum (of_nat v)) = (of_nat v :: u32)"
proof -
  have u: "unat (of_nat v :: u32) = v" using assms by (simp add: unat_of_nat take_bit_nat_eq_self)
  have le: "99 < (of_nat v :: u32) \<longleftrightarrow> 99 < v" "9 < (of_nat v :: u32) \<longleftrightarrow> 9 < v"
    by (simp_all add: word_less_nat_alt u)
  have d0: "digit_char 0 = CHR ''0''" by code_simp
  have q: "v div 10 < 10 \<longleftrightarrow> v < 100" "v div 100 < 10" using assms by (simp_all add: div_less_iff_less_mult)
  have eq: "fmt_chksum (of_nat v) = [digit_char (v div 100), digit_char (v div 10 mod 10), digit_char (v mod 10)]"
    using assms q by (auto simp add: fmt_chksum_def Let_def le u itoa_unsigned_10 dec_numeral.simps d0 numeral_2_eq_2 div_mult2_eq [symmetric])
  from q(2) have digits: "\<forall>c \<in> set (fmt_chksum (of_nat v)). isdigit c" by (simp add: eq)
  have "v div 10 div 10 = v div 100" by (simp add: div_mult2_eq [symmetric])
  then have "10 * (v div 100) + v div 10 mod 10 = v div 10"
    using mult_div_mod_eq [of 10 "v div 10"] by simp
  then have "10 * (10 * (v div 100) + v div 10 mod 10) + v mod 10 = v"
    using mult_div_mod_eq [of 10 v] by simp
  moreover have "dec_value (fmt_chksum (of_nat v)) = 10 * (10 * (v div 100) + v div 10 mod 10) + v mod 10"
    using q(2) by (simp add: eq dec_value_def)
  ultimately have "fast_atoi (fmt_chksum (of_nat v)) = (of_nat v :: u32)"
    using fast_atoi_digits [OF digits, where ?'a = 32] by simp
  then show ?thesis by (simp add: eq)
qed

end
