(* ===== verification/Messages.thy ===== *)
theory Messages
  imports Checksum
begin

text \<open>
  The state of a message and the operations that edit it: \<^verbatim>\<open>F8MetaCntx\<close>, \<^verbatim>\<open>GroupBase\<close> and
  \<^verbatim>\<open>MessageBase\<close> of \<^verbatim>\<open>include/fix8/message.hpp\<close> and \<^verbatim>\<open>runtime/message.cpp\<close>.

  The metadata the compiler generates is a value of the types below: the tables of messages and
  fields, and for each message and repeating group its traits, their hash array and its nested
  groups. A field object belongs to one message: its pointer is its index in the message's list of
  objects, \<open>None\<close> the null pointer, and a deleted object stays in the list without being referred
  to. The map of groups can hold null pointers too.
\<close>

section \<open>Metadata\<close>

record base_entry =
  be_class :: fclass
  be_name :: string
  be_fnum :: u16
  be_rlm :: "realm option"

datatype gschema =
  GSchema (gs_fnum: u16) (gs_msgtype: string) (gs_traits: "field_trait list") (gs_ftha: hash_array)
    (gs_groups: "(u16 \<times> gschema) list")

record msg_entry =
  me_name :: string
  me_msgtype :: string
  me_traits :: "field_trait list"
  me_ftha :: hash_array
  me_groups :: "(u16 \<times> gschema) list"
  me_admin :: bool

record metactx =
  c_version :: u32
  c_bme :: "(string, msg_entry) gtable"
  c_be :: "(u32, base_entry) gtable"
  c_flu :: "base_entry option list"
  c_hdr :: msg_entry
  c_trl :: msg_entry
  c_beginStr :: string
  c_preamble_sz :: nat
  c_reverse_msgtable :: "(string \<times> msg_entry) list"
  c_reverse_fieldtable :: "(string \<times> base_entry) list"

text \<open>
  The constructor: the look-up array is filled from the sorted field table, the reverse tables keep
  the first entry of a name. An empty field table is dereferenced, and an unsorted one writes past
  the end of the look-up array.
\<close>

definition fill_flu :: "(u32, base_entry) gtable \<Rightarrow> base_entry option list \<Rightarrow> base_entry option list" where
  "fill_flu be flu = fold (\<lambda>(k, e) arr. arr[unat k := Some e]) be flu"

definition mk_metactx ::
  "u32 \<Rightarrow> (string, msg_entry) gtable \<Rightarrow> (u32, base_entry) gtable \<Rightarrow> string \<Rightarrow> error + metactx" where
  "mk_metactx version bme be bg =
     (case gt_at be (length be - 1) of
        None \<Rightarrow> throw (Undefined NullDeref)
      | Some lst \<Rightarrow>
          let flu_sz = unat (fst lst + 1) in
          (case gt_find_ref bme ''header'' of
             Inl k \<Rightarrow> throw (F8Exception (''Invalid Metadata: '' @ k) False)
           | Inr hdr \<Rightarrow>
          (case gt_find_ref bme ''trailer'' of
             Inl k \<Rightarrow> throw (F8Exception (''Invalid Metadata: '' @ k) False)
           | Inr trl \<Rightarrow>
               if \<exists>k \<in> fst ` set be. flu_sz \<le> unat k then throw (Undefined BufferOverflow)
               else if flu_sz = 1 then throw (F8Exception ''F8MetaCntx initialisation incomplete'' False)
               else return
                 \<lparr>c_version = version, c_bme = bme, c_be = be,
                  c_flu = fill_flu be (replicate flu_sz None), c_hdr = hdr, c_trl = trl,
                  c_beginStr = bg, c_preamble_sz = 2 + length bg + 1 + 3,
                  c_reverse_msgtable = fold (\<lambda>(k, e). om_insert (me_name e) e) bme [],
                  c_reverse_fieldtable = fold (\<lambda>(k, e). om_insert (be_name e) e) be []\<rparr>)))"

definition find_be :: "metactx \<Rightarrow> u16 \<Rightarrow> base_entry option" where
  "find_be ctx fnum = (if unat fnum < length (c_flu ctx) then c_flu ctx ! unat fnum else None)"

definition reverse_find_be :: "metactx \<Rightarrow> string \<Rightarrow> base_entry option" where
  "reverse_find_be ctx fieldstr =
     (if fieldstr \<noteq> [] then map_of (c_reverse_fieldtable ctx) fieldstr else None)"

definition reverse_find_fnum :: "metactx \<Rightarrow> string \<Rightarrow> u16" where
  "reverse_find_fnum ctx fieldstr =
     (if fieldstr \<noteq> []
      then (case map_of (c_reverse_fieldtable ctx) fieldstr of Some e \<Rightarrow> be_fnum e | None \<Rightarrow> 0)
      else 0)"

definition create_be :: "ticks \<Rightarrow> base_entry \<Rightarrow> string \<Rightarrow> error + fld" where
  "create_be now be from =
     of_option (Undefined BadConversion)
       (inst_make now (be_fnum be) (be_class be) (cstr from) (be_rlm be) (-1))"

definition create_field :: "metactx \<Rightarrow> ticks \<Rightarrow> u16 \<Rightarrow> string \<Rightarrow> error + fld option" where
  "create_field ctx now fnum from =
     (case find_be ctx fnum of None \<Rightarrow> return None | Some be \<Rightarrow> bind (create_be now be from) (\<lambda>f. return (Some f)))"

definition create_field_by_name :: "metactx \<Rightarrow> ticks \<Rightarrow> string \<Rightarrow> string \<Rightarrow> error + fld option" where
  "create_field_by_name ctx now tag from =
     (case reverse_find_be ctx tag of
        None \<Rightarrow> return None
      | Some be \<Rightarrow> bind (create_be now be from) (\<lambda>f. return (Some f)))"

definition find_bme :: "metactx \<Rightarrow> string \<Rightarrow> msg_entry option" where
  "find_bme ctx tag = gt_find_ptr (c_bme ctx) tag"

definition reverse_find_bme :: "metactx \<Rightarrow> string \<Rightarrow> msg_entry option" where
  "reverse_find_bme ctx msgstr = map_of (c_reverse_msgtable ctx) msgstr"

section \<open>The state of a message\<close>

type_synonym ptr = "nat option"

record core =
  m_unknown :: string
  m_fields :: "(u16 \<times> ptr) list"
  m_fp :: presence
  m_pos :: "(u16 \<times> nat) list"
  m_objs :: "fld list"
  m_msgType :: string
  m_nested :: "(u16 \<times> gschema) list"

datatype msgbase = MsgBase (mb: core) (mb_groups: "(u16 \<times> grp option) list")
  and grp = Grp (g_fnum: u16) (g_schema: gschema) (g_msgs: "msgbase list")

record message =
  msg_header :: msgbase
  msg_body :: msgbase
  msg_trailer :: msgbase
  msg_custom_seqnum :: u32
  msg_no_increment :: bool
  msg_end_of_batch :: bool

definition on_core :: "(core \<Rightarrow> core) \<Rightarrow> msgbase \<Rightarrow> msgbase" where
  "on_core f m = MsgBase (f (mb m)) (mb_groups m)"

lemma on_core_simps [simp]:
  "mb (on_core f m) = f (mb m)" "mb_groups (on_core f m) = mb_groups m" "on_core f (MsgBase c g) = MsgBase (f c) g"
  by (simp_all add: on_core_def)

definition new_core :: "string \<Rightarrow> field_trait list \<Rightarrow> hash_array \<Rightarrow> (u16 \<times> gschema) list \<Rightarrow> core" where
  "new_core msgType traits ftha nested =
     \<lparr>m_unknown = [], m_fields = [], m_fp = pr_ctor_hash traits ftha, m_pos = [], m_objs = [],
      m_msgType = msgType, m_nested = nested\<rparr>"

text \<open>
  The elements of a repeating group, and the groups a deep constructor adds. A group element is a
  plain \<^verbatim>\<open>MessageBase\<close>, whose \<open>create_nested_group\<close> makes nothing.
\<close>

definition new_group :: "gschema \<Rightarrow> grp" where
  "new_group s = Grp (gs_fnum s) s []"

definition deep_groups :: "bool \<Rightarrow> (u16 \<times> gschema) list \<Rightarrow> (u16 \<times> grp option) list" where
  "deep_groups deepctor gs =
     (if deepctor then fold (\<lambda>(k, s). om_insert k (Some (new_group s))) gs [] else [])"

definition create_group :: "gschema \<Rightarrow> bool \<Rightarrow> msgbase" where
  "create_group s deepctor =
     MsgBase (new_core (gs_msgtype s) (gs_traits s) (gs_ftha s) []) (deep_groups deepctor (gs_groups s))"

definition create_nested_group :: "(u16 \<times> gschema) list \<Rightarrow> u16 \<Rightarrow> grp option" where
  "create_nested_group gs fnum = map_option new_group (map_of gs fnum)"

text \<open>\<^verbatim>\<open>GroupBase\<close>.\<close>

definition g_add :: "grp \<Rightarrow> msgbase \<Rightarrow> grp" where
  "g_add g what = Grp (g_fnum g) (g_schema g) (g_msgs g @ [what])"

definition g_size :: "grp \<Rightarrow> nat" where
  "g_size g = length (g_msgs g)"

definition g_get_element :: "grp \<Rightarrow> nat \<Rightarrow> msgbase option" where
  "g_get_element g idx = (if idx < length (g_msgs g) then Some (g_msgs g ! idx) else None)"

definition g_clear :: "grp \<Rightarrow> grp" where
  "g_clear g = Grp (g_fnum g) (g_schema g) []"

section \<open>Fields\<close>

text \<open>\<^verbatim>\<open>std::multimap\<close> puts a new entry behind those with an equal key.\<close>

fun mm_insert :: "'k::linorder \<Rightarrow> 'v \<Rightarrow> ('k \<times> 'v) list \<Rightarrow> ('k \<times> 'v) list" where
  "mm_insert k v [] = [(k, v)]"
| "mm_insert k v ((k', v') # m) =
     (if k < k' then (k, v) # (k', v') # m else (k', v') # mm_insert k v m)"

fun mm_erase_val :: "'v \<Rightarrow> ('k \<times> 'v) list \<Rightarrow> ('k \<times> 'v) list" where
  "mm_erase_val v [] = []"
| "mm_erase_val v ((k', v') # m) = (if v' = v then m else (k', v') # mm_erase_val v m)"

fun mm_key_of :: "'v \<Rightarrow> ('k \<times> 'v) list \<Rightarrow> 'k option" where
  "mm_key_of v [] = None"
| "mm_key_of v ((k', v') # m) = (if v' = v then Some k' else mm_key_of v m)"

text \<open>The position list never holds a null pointer.\<close>

definition pos_of :: "ptr \<Rightarrow> (u16 \<times> nat) list \<Rightarrow> u16 option" where
  "pos_of old m = (case old of Some p \<Rightarrow> mm_key_of p m | None \<Rightarrow> None)"

definition pos_erase :: "ptr \<Rightarrow> (u16 \<times> nat) list \<Rightarrow> (u16 \<times> nat) list" where
  "pos_erase old m = (case old of Some p \<Rightarrow> mm_erase_val p m | None \<Rightarrow> m)"

definition m_find :: "core \<Rightarrow> u16 \<Rightarrow> ptr option" where
  "m_find c fnum = map_of (m_fields c) fnum"

definition get_field :: "core \<Rightarrow> u16 \<Rightarrow> fld option" where
  "get_field c fnum = (case m_find c fnum of Some (Some p) \<Rightarrow> Some (m_objs c ! p) | _ \<Rightarrow> None)"

definition get_field_by_name :: "metactx \<Rightarrow> core \<Rightarrow> string \<Rightarrow> fld option" where
  "get_field_by_name ctx c tag = get_field c (reverse_find_fnum ctx tag)"

definition have_field :: "core \<Rightarrow> u16 \<Rightarrow> bool" where
  "have_field c fnum = fp_get (m_fp c) fnum present"

definition is_legal :: "core \<Rightarrow> u16 \<Rightarrow> bool" where
  "is_legal c fnum = fp_has (m_fp c) fnum"

text \<open>Writing through the pointer to a field object.\<close>

definition set_value :: "nat \<Rightarrow> fvalue \<Rightarrow> core \<Rightarrow> core" where
  "set_value p v c = c\<lparr>m_objs := (m_objs c)[p := (m_objs c ! p)\<lparr>f_val := v\<rparr>]\<rparr>"

definition check_set_rlm :: "metactx \<Rightarrow> fld \<Rightarrow> fld" where
  "check_set_rlm ctx f =
     (if f_rlm f = None
      then (case find_be ctx (f_fnum f) of
              Some tbe \<Rightarrow> (if be_rlm tbe \<noteq> None then f\<lparr>f_rlm := be_rlm tbe\<rparr> else f)
            | None \<Rightarrow> f)
      else f)"

definition add_field_decoder :: "u16 \<Rightarrow> nat \<Rightarrow> fld \<Rightarrow> core \<Rightarrow> core" where
  "add_field_decoder fnum pos what c =
     (let p = length (m_objs c)
      in c\<lparr>m_objs := m_objs c @ [what],
           m_fields := om_insert fnum (Some p) (m_fields c),
           m_pos := mm_insert (of_nat pos) p (m_pos c)\<rparr>)"

text \<open>The two versions of \<open>replace\<close> for fields: the position of the old object is kept.\<close>

definition replace_at :: "u16 \<Rightarrow> u16 \<Rightarrow> fld \<Rightarrow> core \<Rightarrow> core \<times> ptr option" where
  "replace_at fnum pos0 wth c =
     (case m_find c fnum of
        None \<Rightarrow> (c, None)
      | Some old \<Rightarrow>
          let pos = (case pos_of old (m_pos c) of Some k \<Rightarrow> k | None \<Rightarrow> pos0);
              p = length (m_objs c)
          in (c\<lparr>m_objs := m_objs c @ [wth],
                m_pos := mm_insert pos p (pos_erase old (m_pos c)),
                m_fields := om_set fnum (Some p) (m_fields c)\<rparr>, Some old))"

definition replace_field :: "u16 \<Rightarrow> fld \<Rightarrow> core \<Rightarrow> core \<times> ptr option" where
  "replace_field fnum wth c =
     (let (c', old) = replace_at fnum (fp_getPos (m_fp c) fnum) wth c
      in if old = None then (c', None) else (c'\<lparr>m_fp := fp_set (m_fp c') fnum present\<rparr>, old))"

definition replace_field_itr :: "u16 \<Rightarrow> iter \<Rightarrow> fld \<Rightarrow> core \<Rightarrow> core \<times> ptr option" where
  "replace_field_itr fnum fitr wth c =
     (let (pos, fitr') = fp_getPos_itr (m_fp c) fnum fitr; (c', old) = replace_at fnum pos wth c
      in if old = None then (c', None)
         else (c'\<lparr>m_fp := fst (fp_set_itr (m_fp c') fnum fitr' present)\<rparr>, old))"

definition remove_field :: "u16 \<Rightarrow> core \<Rightarrow> core \<times> ptr option" where
  "remove_field fnum c =
     (case m_find c fnum of
        None \<Rightarrow> (c, None)
      | Some old \<Rightarrow>
          (c\<lparr>m_pos := pos_erase old (m_pos c), m_fp := fp_clear (m_fp c) fnum present,
             m_fields := om_erase fnum (m_fields c)\<rparr>, Some old))"

definition remove_field_itr :: "u16 \<Rightarrow> iter \<Rightarrow> core \<Rightarrow> core \<times> ptr option" where
  "remove_field_itr fnum fitr c =
     (case m_find c fnum of
        None \<Rightarrow> (c, None)
      | Some old \<Rightarrow>
          (c\<lparr>m_pos := pos_erase old (m_pos c),
             m_fp := fst (fp_clear_itr (m_fp c) fnum fitr present),
             m_fields := om_erase fnum (m_fields c)\<rparr>, Some old))"

text \<open>\<open>add_field\<close> with an iterator; the versions without one start from the end.\<close>

definition add_field_itr :: "u16 \<Rightarrow> iter \<Rightarrow> u16 \<Rightarrow> fld \<Rightarrow> bool \<Rightarrow> core \<Rightarrow> core" where
  "add_field_itr fnum itr pos what check c =
     (let (there, itr') = (if check then fp_get_itr (m_fp c) fnum itr present else (False, itr))
      in if check \<and> there then fst (replace_field_itr fnum itr' what c)
         else
           let p = length (m_objs c)
           in c\<lparr>m_objs := m_objs c @ [what],
                m_fields := om_insert fnum (Some p) (m_fields c),
                m_pos := mm_insert pos p (m_pos c),
                m_fp := fst (fp_set_itr (m_fp c) fnum itr' present)\<rparr>)"

definition add_field_pos :: "u16 \<Rightarrow> u16 \<Rightarrow> fld \<Rightarrow> bool \<Rightarrow> core \<Rightarrow> core" where
  "add_field_pos fnum pos what check c = add_field_itr fnum End pos what check c"

definition add_field :: "fld \<Rightarrow> core \<Rightarrow> error + core" where
  "add_field what c =
     (let fnum = f_fnum what; (there, itr) = fp_has_itr (m_fp c) fnum End
      in if there
         then let (pos, itr') = fp_getPos_itr (m_fp c) fnum itr
              in return (add_field_itr fnum itr' pos what True c)
         else throw (InvalidField fnum))"

definition set_flag :: "u16 \<Rightarrow> trait_type \<Rightarrow> core \<Rightarrow> core" where
  "set_flag fnum ty c = c\<lparr>m_fp := fp_set (m_fp c) fnum ty\<rparr>"

definition clear_flag :: "u16 \<Rightarrow> trait_type \<Rightarrow> core \<Rightarrow> core" where
  "clear_flag fnum ty c = c\<lparr>m_fp := fp_clear (m_fp c) fnum ty\<rparr>"

definition add_trait :: "field_trait \<Rightarrow> core \<Rightarrow> error + core \<times> bool" where
  "add_trait what c =
     (case fp_add (m_fp c) what of
        None \<Rightarrow> throw (Undefined NullDeref)
      | Some (fp, ok) \<Rightarrow> return (c\<lparr>m_fp := fp\<rparr>, ok))"

section \<open>Groups\<close>

text \<open>\<open>None\<close> stands for no entry and for a null pointer; the code does not tell them apart.\<close>

definition find_group :: "msgbase \<Rightarrow> u16 \<Rightarrow> grp option" where
  "find_group m fnum = (case map_of (mb_groups m) fnum of Some g \<Rightarrow> g | None \<Rightarrow> None)"

definition add_group :: "grp \<Rightarrow> msgbase \<Rightarrow> msgbase" where
  "add_group g m = MsgBase (mb m) (om_insert (g_fnum g) (Some g) (mb_groups m))"

definition put_group :: "u16 \<Rightarrow> grp option \<Rightarrow> msgbase \<Rightarrow> msgbase" where
  "put_group fnum g m = MsgBase (mb m) (om_set fnum g (mb_groups m))"

text \<open>
  \<open>find_add_group\<close>: the group class comes from the enclosing group, or else from the message
  itself. When neither knows the group, the null pointer is dereferenced before it is tested.
\<close>

definition find_add_group :: "u16 \<Rightarrow> gschema option \<Rightarrow> msgbase \<Rightarrow> error + msgbase \<times> grp option" where
  "find_add_group fnum grpbase m =
     (case map_of (mb_groups m) fnum of
        Some g \<Rightarrow> return (m, g)
      | None \<Rightarrow>
          (case create_nested_group (case grpbase of Some s \<Rightarrow> gs_groups s | None \<Rightarrow> m_nested (mb m)) fnum of
             None \<Rightarrow> throw (Undefined NullDeref)
           | Some g \<Rightarrow> return (add_group g m, Some g)))"

definition replace_group :: "u16 \<Rightarrow> grp option \<Rightarrow> msgbase \<Rightarrow> msgbase \<times> grp option" where
  "replace_group fnum g m =
     (case map_of (mb_groups m) fnum of
        None \<Rightarrow> (m, None)
      | Some old \<Rightarrow> (put_group fnum g m, old))"

text \<open>\<open>clear\<close> for reuse: the groups are deleted, and their entries stay in the map as null pointers.\<close>

definition m_clear :: "msgbase \<Rightarrow> msgbase" where
  "m_clear m =
     MsgBase ((mb m)\<lparr>m_fields := [], m_fp := fp_clear_flag (m_fp (mb m)) present, m_pos := []\<rparr>)
       (map (\<lambda>(k, g). (k, None)) (mb_groups m))"

definition clear_positions :: "core \<Rightarrow> core" where
  "clear_positions c = c\<lparr>m_pos := []\<rparr>"

definition push_unknown :: "core \<Rightarrow> core \<Rightarrow> core" where
  "push_unknown from to = (if m_unknown from \<noteq> [] then to\<lparr>m_unknown := m_unknown from\<rparr> else to)"

definition has_group_count :: "fld \<Rightarrow> bool" where
  "has_group_count f = (case f_val f of V_int v \<Rightarrow> 0 < sint v | _ \<Rightarrow> False)"

section \<open>The invariant of the field maps\<close>

text \<open>
  Every field in the map is in the position list exactly once and the other way round, the list is
  in order, tags agree, and a tag is in the map exactly when its trait says \<open>present\<close>.
\<close>

definition core_ok :: "core \<Rightarrow> bool" where
  "core_ok c \<longleftrightarrow> om_ok (m_fields c) \<and> pr_ok (m_fp c) \<and> sorted (map fst (m_pos c)) \<and>
     distinct (map snd (m_pos c)) \<and>
     (\<forall>x \<in> set (m_fields c). \<exists>i. snd x = Some i \<and> i < length (m_objs c) \<and> f_fnum (m_objs c ! i) = fst x) \<and>
     snd ` set (m_fields c) = Some ` snd ` set (m_pos c) \<and>
     (\<forall>k. have_field c k \<longleftrightarrow> k \<in> fst ` set (m_fields c))"

lemma set_mm_insert [simp]: "set (mm_insert k v m) = insert (k, v) (set m)"
  by (induction k v m rule: mm_insert.induct) auto

lemma sorted_mm_insert: "sorted (map fst m) \<Longrightarrow> sorted (map fst (mm_insert k v m))"
  by (induction k v m rule: mm_insert.induct) (auto simp: not_less)

lemma distinct_mm_insert:
  "distinct (map snd m) \<Longrightarrow> v \<notin> snd ` set m \<Longrightarrow> distinct (map snd (mm_insert k v m))"
  by (induction k v m rule: mm_insert.induct) (auto simp: image_iff)

lemma set_mm_erase: "distinct (map snd m) \<Longrightarrow> set (mm_erase_val v m) = {x \<in> set m. snd x \<noteq> v}"
  by (induction v m rule: mm_erase_val.induct) (auto simp: image_iff)

lemma sorted_mm_erase: "sorted (map fst m) \<Longrightarrow> sorted (map fst (mm_erase_val v m))"
proof (induction v m rule: mm_erase_val.induct)
  case (2 v k' v' m)
  have "set (mm_erase_val v m) \<subseteq> set m" by (induction v m rule: mm_erase_val.induct) auto
  with 2 show ?case by auto
qed simp

lemma distinct_mm_erase: "distinct (map snd m) \<Longrightarrow> distinct (map snd (mm_erase_val v m))"
proof (induction v m rule: mm_erase_val.induct)
  case (2 v k' v' m)
  have "set (mm_erase_val v m) \<subseteq> set m" by (induction v m rule: mm_erase_val.induct) auto
  with 2 show ?case by (auto simp: image_iff)
qed simp

lemma set_om_insert_new: "k \<notin> fst ` set m \<Longrightarrow> set (om_insert k v m) = insert (k, v) (set m)"
  by (induction k v m rule: om_insert.induct) auto

lemma set_om_set: "om_ok m \<Longrightarrow> set (om_set k v m) = insert (k, v) {x \<in> set m. fst x \<noteq> k}"
  by (induction k v m rule: om_set.induct) (auto simp: om_ok_Cons image_iff dest: less_trans)

lemma set_om_erase: "set (om_erase k m) = {x \<in> set m. fst x \<noteq> k}"
  by (auto simp: om_erase_def)

lemmas map_sets = set_mm_erase set_om_insert_new set_om_set set_om_erase

lemma om_inj: "om_ok m \<Longrightarrow> x \<in> set m \<Longrightarrow> y \<in> set m \<Longrightarrow> fst x = fst y \<Longrightarrow> x = y"
  by (metis eq_key_imp_eq_value om_ok_distinct prod.collapse)

lemma m_find_Some: "om_ok (m_fields c) \<Longrightarrow> m_find c k = Some q \<longleftrightarrow> (k, q) \<in> set (m_fields c)"
  by (simp add: m_find_def om_ok_distinct)

lemma m_find_None: "m_find c k = None \<longleftrightarrow> k \<notin> fst ` set (m_fields c)"
  by (simp add: m_find_def map_of_eq_None_iff)

text \<open>Different tags have different objects.\<close>

lemma core_ok_ptr_inj:
  assumes "core_ok c" and "(k, q) \<in> set (m_fields c)" and "(k', q) \<in> set (m_fields c)"
  shows "k = k'"
proof -
  have e: "\<forall>x \<in> set (m_fields c). \<exists>i. snd x = Some i \<and> i < length (m_objs c) \<and> f_fnum (m_objs c ! i) = fst x"
    using assms(1) by (simp add: core_ok_def)
  from bspec [OF e assms(2)] bspec [OF e assms(3)] show ?thesis by auto
qed

lemma core_ok_find:
  assumes "core_ok c" and "have_field c k"
  obtains i where "m_find c k = Some (Some i)" "i < length (m_objs c)" "f_fnum (m_objs c ! i) = k"
    "get_field c k = Some (m_objs c ! i)" "i \<in> snd ` set (m_pos c)"
proof -
  from assms obtain q where q: "(k, q) \<in> set (m_fields c)" by (auto simp: core_ok_def)
  have "\<forall>x \<in> set (m_fields c). \<exists>i. snd x = Some i \<and> i < length (m_objs c) \<and> f_fnum (m_objs c ! i) = fst x"
    using assms(1) by (simp add: core_ok_def)
  from bspec [OF this q] obtain i where i: "q = Some i" "i < length (m_objs c)" "f_fnum (m_objs c ! i) = k"
    by auto
  with q assms(1) have "m_find c k = Some (Some i)" by (simp add: core_ok_def m_find_Some)
  moreover have "Some i \<in> snd ` set (m_fields c)" using q i(1) by force
  then have "Some i \<in> Some ` snd ` set (m_pos c)" using assms(1) unfolding core_ok_def by blast
  then have "i \<in> snd ` set (m_pos c)" by blast
  ultimately show thesis using that i by (simp add: get_field_def)
qed

subsection \<open>Adding and replacing\<close>

lemma add_object:
  assumes ok: "core_ok c" and new: "f_fnum what = k"
    and fp: "pr_ok fp" "\<And>g. fp_get fp g present \<longleftrightarrow> g = k \<or> have_field c g"
    and pos: "sorted (map fst pos)" "distinct (map snd pos)"
      "snd ` set pos = insert (length (m_objs c)) {i. Some i \<in> snd ` {x \<in> set (m_fields c). fst x \<noteq> k}}"
    and fields: "om_ok fs" "set fs = insert (k, Some (length (m_objs c))) {x \<in> set (m_fields c). fst x \<noteq> k}"
  shows "core_ok (c\<lparr>m_objs := m_objs c @ [what], m_fields := fs, m_pos := pos, m_fp := fp\<rparr>)"
proof -
  let ?c = "c\<lparr>m_objs := m_objs c @ [what], m_fields := fs, m_pos := pos, m_fp := fp\<rparr>"
  have e: "\<forall>x \<in> set (m_fields c). \<exists>i. snd x = Some i \<and> i < length (m_objs c) \<and> f_fnum (m_objs c ! i) = fst x"
    using ok by (simp add: core_ok_def)
  have "\<forall>x \<in> set fs. \<exists>i. snd x = Some i \<and> i < length (m_objs ?c) \<and> f_fnum (m_objs ?c ! i) = fst x"
  proof
    fix x assume "x \<in> set fs"
    then consider "x = (k, Some (length (m_objs c)))" | "x \<in> set (m_fields c)" using fields(2) by auto
    then show "\<exists>i. snd x = Some i \<and> i < length (m_objs ?c) \<and> f_fnum (m_objs ?c ! i) = fst x"
    proof cases
      case 2
      with e obtain i where "snd x = Some i" "i < length (m_objs c)" "f_fnum (m_objs c ! i) = fst x" by blast
      then show ?thesis by (intro exI [of _ i]) (simp add: nth_append)
    qed (use new in simp)
  qed
  moreover have "snd ` set fs = Some ` snd ` set pos"
  proof -
    have "\<exists>i. snd x = Some i" if "x \<in> set (m_fields c)" for x using e that by blast
    then have "snd ` {x \<in> set (m_fields c). fst x \<noteq> k} =
        Some ` {i. Some i \<in> snd ` {x \<in> set (m_fields c). fst x \<noteq> k}}"
      by (auto simp: image_iff) metis
    then show ?thesis unfolding fields(2) pos(3) by simp
  qed
  moreover have "have_field ?c g \<longleftrightarrow> g \<in> fst ` set fs" for g
  proof -
    have "have_field c g \<longleftrightarrow> g \<in> fst ` set (m_fields c)" using ok by (simp add: core_ok_def)
    moreover have "fst ` set fs = insert k (fst ` set (m_fields c))" unfolding fields(2) by force
    ultimately show ?thesis using fp(2) [of g] by (simp add: have_field_def)
  qed
  ultimately show ?thesis using fp(1) pos(1,2) fields(1) by (simp add: core_ok_def)
qed

lemma pos_others:
  assumes "core_ok c"
  shows "{i. Some i \<in> snd ` {x \<in> set (m_fields c). fst x \<noteq> k}} =
    {i \<in> snd ` set (m_pos c). m_find c k \<noteq> Some (Some i)}"
proof -
  have om: "om_ok (m_fields c)" and s: "snd ` set (m_fields c) = Some ` snd ` set (m_pos c)"
    using assms by (simp_all add: core_ok_def)
  have "Some i \<in> snd ` {x \<in> set (m_fields c). fst x \<noteq> k} \<longleftrightarrow>
      Some i \<in> snd ` set (m_fields c) \<and> (k, Some i) \<notin> set (m_fields c)" for i
  proof
    assume "Some i \<in> snd ` {x \<in> set (m_fields c). fst x \<noteq> k}"
    then obtain k' where k': "(k', Some i) \<in> set (m_fields c)" "k' \<noteq> k" by auto
    then have "(k, Some i) \<notin> set (m_fields c)" using core_ok_ptr_inj [OF assms] by blast
    with k' show "Some i \<in> snd ` set (m_fields c) \<and> (k, Some i) \<notin> set (m_fields c)" by force
  next
    assume "Some i \<in> snd ` set (m_fields c) \<and> (k, Some i) \<notin> set (m_fields c)"
    then obtain k' where "(k', Some i) \<in> set (m_fields c)" "k' \<noteq> k" by fastforce
    then show "Some i \<in> snd ` {x \<in> set (m_fields c). fst x \<noteq> k}" by force
  qed
  moreover have "Some i \<in> snd ` set (m_fields c) \<longleftrightarrow> i \<in> snd ` set (m_pos c)" for i
    unfolding s by blast
  ultimately show ?thesis using om by (auto simp: m_find_Some)
qed

lemma have_legal: "core_ok c \<Longrightarrow> have_field c k \<Longrightarrow> is_legal c k"
  by (auto simp: core_ok_def have_field_def is_legal_def fp_lookups split: option.splits)

lemma present_after_set:
  assumes "pr_ok fp" and "fp_has fp k"
  shows "fp_get (fp_set fp k present) g present \<longleftrightarrow> g = k \<or> fp_get fp g present"
  using assms by (auto simp: fp_lookups pr_lookup_fp_set split: option.splits)

text \<open>What \<open>add_field\<close> amounts to: a fresh object, or a replacement when the tag is there.\<close>

lemma add_field_cases:
  assumes "core_ok c" and "is_legal c (f_fnum what)"
  shows "add_field what c = Inr
    (if have_field c (f_fnum what) then fst (replace_field (f_fnum what) what c)
     else c\<lparr>m_objs := m_objs c @ [what],
            m_fields := om_insert (f_fnum what) (Some (length (m_objs c))) (m_fields c),
            m_pos := mm_insert (fp_getPos (m_fp c) (f_fnum what)) (length (m_objs c)) (m_pos c),
            m_fp := fp_set (m_fp c) (f_fnum what) present\<rparr>)"
proof -
  have e: "pr_find (m_fp c) (f_fnum what) \<noteq> End" using assms(2) by (simp add: is_legal_def fp_has_def)
  show ?thesis
    using assms(2) e
    by (simp add: add_field_def is_legal_def hints Let_def add_field_itr_def have_field_def
        replace_field_itr_def replace_field_def replace_at_def split: option.splits)
qed

lemma core_ok_replace:
  assumes ok: "core_ok c" and have_k: "have_field c (f_fnum what)"
  shows "core_ok (fst (replace_field (f_fnum what) what c))"
proof -
  let ?k = "f_fnum what"
  from core_ok_find [OF assms] obtain i where i: "m_find c ?k = Some (Some i)" by blast
  have om: "om_ok (m_fields c)" and fp: "pr_ok (m_fp c)" and d: "distinct (map snd (m_pos c))"
    and srt: "sorted (map fst (m_pos c))"
    and lt: "\<forall>x \<in> set (m_fields c). \<exists>i. snd x = Some i \<and> i < length (m_objs c) \<and> f_fnum (m_objs c ! i) = fst x"
    and s: "snd ` set (m_fields c) = Some ` snd ` set (m_pos c)"
    using ok by (simp_all add: core_ok_def)
  have fresh: "length (m_objs c) \<notin> snd ` set (m_pos c)"
  proof
    assume "length (m_objs c) \<in> snd ` set (m_pos c)"
    then have "Some (length (m_objs c)) \<in> snd ` set (m_fields c)" unfolding s by blast
    then obtain x where "x \<in> set (m_fields c)" "snd x = Some (length (m_objs c))" by force
    with lt show False by force
  qed
  define pos where "pos = mm_insert (case mm_key_of i (m_pos c) of Some k \<Rightarrow> k | None \<Rightarrow> fp_getPos (m_fp c) ?k)
    (length (m_objs c)) (mm_erase_val i (m_pos c))"
  have r: "fst (replace_field ?k what c) = c\<lparr>m_objs := m_objs c @ [what],
      m_fields := om_set ?k (Some (length (m_objs c))) (m_fields c), m_pos := pos,
      m_fp := fp_set (m_fp c) ?k present\<rparr>"
    using i by (simp add: replace_field_def replace_at_def Let_def pos_of_def pos_erase_def pos_def)
  show ?thesis unfolding r
  proof (rule add_object [OF ok refl])
    show "pr_ok (fp_set (m_fp c) ?k present)" using fp by simp
    show "fp_get (fp_set (m_fp c) ?k present) g present \<longleftrightarrow> g = ?k \<or> have_field c g" for g
      using present_after_set [OF fp] have_legal [OF assms] by (simp add: is_legal_def have_field_def)
    show "sorted (map fst pos)" unfolding pos_def by (intro sorted_mm_insert sorted_mm_erase srt)
    show "distinct (map snd pos)"
      unfolding pos_def using fresh d by (intro distinct_mm_insert distinct_mm_erase) (auto simp: set_mm_erase)
    show "snd ` set pos = insert (length (m_objs c)) {i. Some i \<in> snd ` {x \<in> set (m_fields c). fst x \<noteq> ?k}}"
      unfolding pos_others [OF ok] i using d by (auto simp: pos_def set_mm_erase)
    show "om_ok (om_set ?k (Some (length (m_objs c))) (m_fields c))" using om by blast
    show "set (om_set ?k (Some (length (m_objs c))) (m_fields c)) =
        insert (?k, Some (length (m_objs c))) {x \<in> set (m_fields c). fst x \<noteq> ?k}"
      using om by (rule set_om_set)
  qed
qed

lemma fresh_ptr: "core_ok c \<Longrightarrow> length (m_objs c) \<notin> snd ` set (m_pos c)"
proof
  assume ok: "core_ok c" and "length (m_objs c) \<in> snd ` set (m_pos c)"
  then have "Some (length (m_objs c)) \<in> snd ` set (m_fields c)" by (simp add: core_ok_def)
  then obtain x where "x \<in> set (m_fields c)" "snd x = Some (length (m_objs c))" by force
  with ok show False by (force simp: core_ok_def)
qed

lemma add_field_legal: "add_field what c = Inr c' \<Longrightarrow> is_legal c (f_fnum what)"
  by (auto simp: add_field_def hints is_legal_def Let_def split: if_splits)

lemma core_ok_put:
  assumes ok: "core_ok c" and legal: "is_legal c k" and new: "\<not> have_field c k" and what: "f_fnum what = k"
  shows "core_ok (c\<lparr>m_objs := m_objs c @ [what], m_fields := om_insert k (Some (length (m_objs c))) (m_fields c),
    m_pos := mm_insert pos (length (m_objs c)) (m_pos c), m_fp := fp_set (m_fp c) k present\<rparr>)"
proof -
  have nk: "k \<notin> fst ` set (m_fields c)" and fp: "pr_ok (m_fp c)" and om: "om_ok (m_fields c)"
    using ok new by (auto simp: core_ok_def)
  then have none: "m_find c k = None" by (simp add: m_find_None)
  have same: "{x \<in> set (m_fields c). fst x \<noteq> k} = set (m_fields c)" using nk by force
  show ?thesis
  proof (rule add_object [OF ok what])
    show "pr_ok (fp_set (m_fp c) k present)" using fp by simp
    show "fp_get (fp_set (m_fp c) k present) g present \<longleftrightarrow> g = k \<or> have_field c g" for g
      using present_after_set [OF fp] legal by (simp add: is_legal_def have_field_def)
    show "snd ` set (mm_insert pos (length (m_objs c)) (m_pos c)) =
        insert (length (m_objs c)) {i. Some i \<in> snd ` {x \<in> set (m_fields c). fst x \<noteq> k}}"
      unfolding pos_others [OF ok] none by simp
    show "set (om_insert k (Some (length (m_objs c))) (m_fields c)) =
        insert (k, Some (length (m_objs c))) {x \<in> set (m_fields c). fst x \<noteq> k}"
      unfolding same using nk by (rule set_om_insert_new)
  qed (use ok om fresh_ptr [OF ok] in \<open>auto simp: core_ok_def intro: sorted_mm_insert distinct_mm_insert\<close>)
qed

lemma core_ok_add_pos:
  "core_ok c \<Longrightarrow> is_legal c (f_fnum what) \<Longrightarrow> \<not> have_field c (f_fnum what) \<Longrightarrow>
    core_ok (add_field_pos (f_fnum what) pos what False c)"
  by (simp add: add_field_pos_def add_field_itr_def hints Let_def core_ok_put)

lemma core_ok_add:
  assumes ok: "core_ok c" and add: "add_field what c = Inr c'"
  shows "core_ok c'"
proof -
  have legal: "is_legal c (f_fnum what)"
    using add by (rule add_field_legal)
  show ?thesis
  proof (cases "have_field c (f_fnum what)")
    case True
    with add add_field_cases [OF ok legal] core_ok_replace [OF ok True] show ?thesis by simp
  next
    case False
    with add add_field_cases [OF ok legal] core_ok_put [OF ok legal False refl] show ?thesis by auto
  qed
qed

lemma add_field_get:
  assumes ok: "core_ok c" and add: "add_field what c = Inr c'"
  shows "get_field c' g = (if g = f_fnum what then Some what else get_field c g)"
proof -
  let ?k = "f_fnum what"
  have legal: "is_legal c ?k"
    using add by (rule add_field_legal)
  have om: "om_ok (m_fields c)" using ok by (simp add: core_ok_def)
  have "m_objs c' = m_objs c @ [what]" and f: "map_of (m_fields c') = (map_of (m_fields c))(?k \<mapsto> Some (length (m_objs c)))"
  proof -
    have "m_objs c' = m_objs c @ [what] \<and> map_of (m_fields c') = (map_of (m_fields c))(?k \<mapsto> Some (length (m_objs c)))"
    proof (cases "have_field c ?k")
      case True
      from core_ok_find [OF ok True] obtain i where "m_find c ?k = Some (Some i)" by blast
      with add add_field_cases [OF ok legal] True show ?thesis
        by (auto simp: replace_field_def replace_at_def Let_def map_of_om_set)
    next
      case False
      then have "map_of (m_fields c) ?k = None" using ok by (auto simp: core_ok_def map_of_eq_None_iff)
      with add add_field_cases [OF ok legal] False om show ?thesis
        by (auto simp: map_of_om_insert fun_eq_iff)
    qed
    then show "m_objs c' = m_objs c @ [what]" "map_of (m_fields c') = (map_of (m_fields c))(?k \<mapsto> Some (length (m_objs c)))"
      by blast+
  qed
  moreover have "m_objs c' ! i = m_objs c ! i" if "i < length (m_objs c)" for i
    using that \<open>m_objs c' = m_objs c @ [what]\<close> by (simp add: nth_append)
  moreover have "i < length (m_objs c)" if "map_of (m_fields c) g = Some (Some i)" for i
    using map_of_SomeD [OF that] ok by (force simp: core_ok_def)
  ultimately show ?thesis
    by (auto simp: get_field_def m_find_def nth_append split: option.splits)
qed

lemma add_field_fp:
  assumes ok: "core_ok c" and add: "add_field what c = Inr c'"
  shows "m_fp c' = fp_set (m_fp c) (f_fnum what) present"
proof (cases "have_field c (f_fnum what)")
  case True
  from core_ok_find [OF ok True] obtain i where "m_find c (f_fnum what) = Some (Some i)" by blast
  with add add_field_cases [OF ok add_field_legal [OF add]] True show ?thesis
    by (auto simp: replace_field_def replace_at_def Let_def)
next
  case False
  with add add_field_cases [OF ok add_field_legal [OF add]] show ?thesis by auto
qed

subsection \<open>Removing\<close>

lemma core_ok_remove:
  assumes ok: "core_ok c"
  shows "core_ok (fst (remove_field k c))"
proof (cases "m_find c k")
  case None
  then show ?thesis using ok by (simp add: remove_field_def)
next
  case (Some q)
  let ?c = "fst (remove_field k c)"
  have om: "om_ok (m_fields c)" and fp: "pr_ok (m_fp c)" and d: "distinct (map snd (m_pos c))"
    and srt: "sorted (map fst (m_pos c))"
    and e: "\<forall>x \<in> set (m_fields c). \<exists>i. snd x = Some i \<and> i < length (m_objs c) \<and> f_fnum (m_objs c ! i) = fst x"
    and h: "\<And>g. have_field c g \<longleftrightarrow> g \<in> fst ` set (m_fields c)"
    using ok by (simp_all add: core_ok_def)
  have kq: "(k, q) \<in> set (m_fields c)" using Some om by (simp add: m_find_Some)
  with bspec [OF e kq] obtain i where i: "q = Some i" by auto
  have c': "?c = c\<lparr>m_pos := mm_erase_val i (m_pos c), m_fp := fp_clear (m_fp c) k present,
      m_fields := om_erase k (m_fields c)\<rparr>"
    using Some i by (simp add: remove_field_def pos_erase_def)
  have have': "have_field ?c g \<longleftrightarrow> g \<noteq> k \<and> have_field c g" for g
    using pr_lookup_fp_clear [OF fp, of k present g]
    by (auto simp: c' have_field_def fp_get_lookup split: option.splits)
  have "snd ` set (om_erase k (m_fields c)) = Some ` snd ` set (mm_erase_val i (m_pos c))"
  proof -
    have "\<exists>j. snd x = Some j" if "x \<in> set (m_fields c)" for x using e that by blast
    then have "snd ` {x \<in> set (m_fields c). fst x \<noteq> k} =
        Some ` {j. Some j \<in> snd ` {x \<in> set (m_fields c). fst x \<noteq> k}}"
      by (auto simp: image_iff) metis
    also have "\<dots> = Some ` snd ` {x \<in> set (m_pos c). snd x \<noteq> i}"
      unfolding pos_others [OF ok] Some i by auto
    finally show ?thesis by (simp add: set_om_erase set_mm_erase [OF d])
  qed
  moreover have "fst ` set (om_erase k (m_fields c)) = fst ` set (m_fields c) - {k}"
    by (auto simp: set_om_erase)
  moreover have "om_ok (om_erase k (m_fields c))" using om by blast
  ultimately show ?thesis
    using om fp e have' h srt d
    by (auto simp: core_ok_def c' set_om_erase have_field_def intro: sorted_mm_erase distinct_mm_erase)
qed

lemma get_remove_field: "get_field (fst (remove_field k c)) g = (if g = k then None else get_field c g)"
  by (auto simp: remove_field_def get_field_def m_find_def map_of_om_erase split: option.splits)

section \<open>A small dictionary\<close>

text \<open>
  Metadata in the form the compiler generates, for the concrete inputs of the witnesses: a header
  and a trailer, a heart beat and an order with a repeating group.
\<close>

definition sample_flag :: "trait_type list \<Rightarrow> field_trait \<Rightarrow> field_trait" where
  "sample_flag tys t = fold (\<lambda>ty t. t_set t ty) tys t"

definition sample_hdr_traits :: "field_trait list" where
  "sample_hdr_traits =
     [sample_flag [suppress, automatic] (mk_trait 8 ft_string 1 False False 0 False),
      sample_flag [suppress, automatic] (mk_trait 9 ft_Length 2 False False 0 False),
      mk_trait 34 ft_SeqNum 6 True False 0 False,
      sample_flag [automatic] (mk_trait 35 ft_string 3 False False 0 False),
      mk_trait 43 ft_Boolean 7 False False 0 False,
      mk_trait 49 ft_string 4 True False 0 False,
      mk_trait 52 ft_UTCTimestamp 8 True False 0 False,
      mk_trait 56 ft_string 5 True False 0 False]"

definition sample_trl_traits :: "field_trait list" where
  "sample_trl_traits =
     [sample_flag [suppress, automatic] (mk_trait 10 ft_string 3 False False 0 False)]"

definition sample_hb_traits :: "field_trait list" where
  "sample_hb_traits = [mk_trait 112 ft_string 1 False False 0 False]"

definition sample_alloc_traits :: "bool \<Rightarrow> field_trait list" where
  "sample_alloc_traits required =
     [mk_trait 79 ft_string 1 required False 0 False, mk_trait 80 ft_int 2 False False 0 False]"

definition sample_order_traits :: "field_trait list" where
  "sample_order_traits =
     [mk_trait 11 ft_string 1 True False 0 False, mk_trait 38 ft_Qty 4 False False 0 False,
      mk_trait 54 ft_char 2 True False 0 False, mk_trait 60 ft_UTCTimestamp 3 False False 0 False,
      mk_trait 78 ft_NumInGroup 5 False True 0 False,
      mk_trait 354 ft_Length 6 False False 0 False, mk_trait 355 ft_data 7 False False 0 False]"

definition sample_hash :: "field_trait list \<Rightarrow> hash_array" where
  "sample_hash ts = (case mk_hash ts of Some h \<Rightarrow> h | None \<Rightarrow> \<lparr>h_els = 0, h_sz = 0, h_arr = []\<rparr>)"

definition sample_alloc :: "bool \<Rightarrow> gschema" where
  "sample_alloc required =
     GSchema 78 ''NoAllocs'' (sample_alloc_traits required) (sample_hash (sample_alloc_traits required)) []"

definition sample_entry ::
  "string \<Rightarrow> string \<Rightarrow> field_trait list \<Rightarrow> (u16 \<times> gschema) list \<Rightarrow> bool \<Rightarrow> string \<times> msg_entry" where
  "sample_entry ty name ts gs admin =
     (ty, \<lparr>me_name = name, me_msgtype = ty, me_traits = ts, me_ftha = sample_hash ts, me_groups = gs,
           me_admin = admin\<rparr>)"

definition sample_bme :: "bool \<Rightarrow> (string, msg_entry) gtable" where
  "sample_bme required =
     [sample_entry ''0'' ''Heartbeat'' sample_hb_traits [] True,
      sample_entry ''D'' ''NewOrderSingle'' sample_order_traits [(78, sample_alloc required)] False,
      sample_entry ''header'' ''header'' sample_hdr_traits [] False,
      sample_entry ''trailer'' ''trailer'' sample_trl_traits [] False]"

definition sample_be :: "(u32, base_entry) gtable" where
  "sample_be = map (\<lambda>(k, n, c). (k, \<lparr>be_class = c, be_name = n, be_fnum = ucast k, be_rlm = None\<rparr>))
     [(8, ''BeginString'', C_string), (9, ''BodyLength'', C_int), (10, ''CheckSum'', C_string),
      (11, ''ClOrdID'', C_string), (34, ''MsgSeqNum'', C_int), (35, ''MsgType'', C_string),
      (38, ''OrderQty'', C_float), (43, ''PossDupFlag'', C_bool), (49, ''SenderCompID'', C_string),
      (52, ''SendingTime'', C_timestamp), (54, ''Side'', C_char), (56, ''TargetCompID'', C_string),
      (60, ''TransactTime'', C_timestamp), (78, ''NoAllocs'', C_int), (79, ''AllocAccount'', C_string),
      (80, ''AllocShares'', C_int), (112, ''TestReqID'', C_string), (354, ''EncodedTextLen'', C_int),
      (355, ''EncodedText'', C_string)]"

definition sample_ctx :: "bool \<Rightarrow> error + metactx" where
  "sample_ctx required = mk_metactx 4200 (sample_bme required) sample_be ''FIX.4.2''"

lemma core_ok_new:
  assumes "key_sorted t_fnum ts" and "mk_hash ts = Some h" and "\<forall>t \<in> set ts. \<not> t_has t present"
  shows "core_ok (new_core ty ts h gs)"
proof -
  have ok: "pr_ok (pr_ctor_hash ts h)" using assms by (simp add: pr_ok_def pr_ctor_hash_def)
  have "\<not> fp_get (pr_ctor_hash ts h) k present" for k
  proof (cases "pr_lookup (pr_ctor_hash ts h) k")
    case (Some t)
    then have "t \<in> set ts" using pr_lookup_Some [OF ok] by (simp add: pr_ctor_hash_def)
    with Some assms(3) show ?thesis by (simp add: fp_get_lookup)
  qed (simp add: fp_get_lookup)
  then show ?thesis using ok by (simp add: core_ok_def new_core_def have_field_def)
qed

lemma sample_order_ok: "core_ok (new_core ''D'' sample_order_traits (sample_hash sample_order_traits) [])"
proof (rule core_ok_new)
  show "key_sorted t_fnum sample_order_traits" by (simp add: key_sorted_def sample_order_traits_def mk_trait_def)
  then obtain h where "mk_hash sample_order_traits = Some h"
    by (rule mk_hash_sorted) (simp_all add: sample_order_traits_def)
  then show "mk_hash sample_order_traits = Some (sample_hash sample_order_traits)" by (simp add: sample_hash_def)
  show "\<forall>t \<in> set sample_order_traits. \<not> t_has t present"
    by (simp add: sample_order_traits_def) code_simp
qed

section \<open>Properties\<close>

text \<open>C18: \<open>add_field\<close> refuses exactly the tags that are not traits of the message; otherwise it keeps
  the maps consistent, the field reads back, and no other field changes.\<close>

theorem add_field_correct:
  assumes "core_ok c"
  shows "(\<not> is_legal c (f_fnum what) \<and> add_field what c = Inl (InvalidField (f_fnum what))) \<or>
    (\<exists>c'. is_legal c (f_fnum what) \<and> add_field what c = Inr c' \<and> core_ok c' \<and>
       (\<forall>g. get_field c' g = (if g = f_fnum what then Some what else get_field c g)) \<and>
       (\<forall>g. have_field c' g \<longleftrightarrow> g = f_fnum what \<or> have_field c g))"
proof (cases "is_legal c (f_fnum what)")
  case False
  then show ?thesis by (auto simp: add_field_def is_legal_def hints)
next
  case True
  then obtain c' where c': "add_field what c = Inr c'" using add_field_cases [OF assms True] by auto
  have ok': "core_ok c'" by (rule core_ok_add [OF assms c'])
  have "have_field c' g \<longleftrightarrow> g = f_fnum what \<or> have_field c g" for g
  proof -
    have fp: "pr_ok (m_fp c)" "fp_has (m_fp c) (f_fnum what)"
      using assms True by (simp_all add: core_ok_def is_legal_def)
    have "m_fp c' = fp_set (m_fp c) (f_fnum what) present" by (rule add_field_fp [OF assms c'])
    then show ?thesis using present_after_set [OF fp] by (simp add: have_field_def)
  qed
  with True c' ok' add_field_get [OF assms c'] show ?thesis by blast
qed

theorem add_field_correct_witness:
  "let c = new_core ''D'' sample_order_traits (sample_hash sample_order_traits) [];
       f = \<lparr>f_fnum = 11, f_rlm = None, f_val = V_string ''ord1''\<rparr>
   in (\<not> is_legal c 11 \<and> add_field f c = Inl (InvalidField 11)) \<or>
      (\<exists>c'. is_legal c 11 \<and> add_field f c = Inr c' \<and> core_ok c' \<and>
         (\<forall>g. get_field c' g = (if g = 11 then Some f else get_field c g)) \<and>
         (\<forall>g. have_field c' g \<longleftrightarrow> g = 11 \<or> have_field c g))"
  using add_field_correct [OF sample_order_ok, of "\<lparr>f_fnum = 11, f_rlm = None, f_val = V_string ''ord1''\<rparr>"]
  by (simp add: Let_def)

text \<open>C19: \<open>remove\<close> keeps the maps consistent and takes out exactly the field with the given tag.\<close>

theorem remove_field_correct:
  assumes "core_ok c"
  shows "core_ok (fst (remove_field k c)) \<and>
    (\<forall>g. get_field (fst (remove_field k c)) g = (if g = k then None else get_field c g)) \<and>
    \<not> have_field (fst (remove_field k c)) k"
proof -
  have ok: "core_ok (fst (remove_field k c))" by (rule core_ok_remove [OF assms])
  have "\<not> have_field (fst (remove_field k c)) k"
  proof
    assume "have_field (fst (remove_field k c)) k"
    from core_ok_find [OF ok this] show False using get_remove_field [of k c k] by force
  qed
  with ok show ?thesis by (simp add: get_remove_field)
qed

theorem remove_field_correct_witness:
  "let c = new_core ''D'' sample_order_traits (sample_hash sample_order_traits) []
   in core_ok (fst (remove_field 11 c)) \<and>
      (\<forall>g. get_field (fst (remove_field 11 c)) g = (if g = 11 then None else get_field c g)) \<and>
      \<not> have_field (fst (remove_field 11 c)) 11"
  using remove_field_correct [OF sample_order_ok, of 11] by (simp add: Let_def)

text \<open>
  A message that was cleared for reuse still has an entry for each repeating group, and the entry
  is a null pointer.
\<close>

lemma clear_keeps_null_groups:
  "map_of (mb_groups m) k = Some g \<Longrightarrow> find_group (m_clear m) k = None \<and>
    find_add_group k gb (m_clear m) = Inr (m_clear m, None)"
proof -
  assume "map_of (mb_groups m) k = Some g"
  moreover have "map_of (map (\<lambda>(k, g). (k, None :: grp option)) xs) k = map_option (\<lambda>_. None) (map_of xs k)" for xs :: "(u16 \<times> grp option) list"
    by (induction xs) auto
  ultimately show ?thesis by (simp add: m_clear_def find_group_def find_add_group_def)
qed

end
