(* ===== verification/Codec.thy ===== *)
theory Codec
  imports Messages
begin

text \<open>
  Decoding and encoding of messages: \<open>decode\<close>, \<open>decode_group\<close>, \<open>encode\<close>, \<open>encode_group\<close> of
  \<^verbatim>\<open>MessageBase\<close> and \<open>factory\<close>, \<open>decode\<close>, \<open>encode\<close>, \<open>clone\<close> of \<^verbatim>\<open>Message\<close>
  (\<^verbatim>\<open>runtime/message.cpp\<close>, \<^verbatim>\<open>include/fix8/message.hpp\<close>). The loops take fuel: \<open>OutOfFuel\<close> is a
  loop that was stopped, and the theorems say when it does not occur.
\<close>

section \<open>Construction\<close>

text \<open>
  The generated header and trailer classes put their own fields in place when they are made; the
  member pointers to them are the indices below.
\<close>

definition hdr_begin_string :: nat where "hdr_begin_string = 0"
definition hdr_body_length :: nat where "hdr_body_length = 1"
definition hdr_msg_type :: nat where "hdr_msg_type = 2"
definition trl_check_sum :: nat where "trl_check_sum = 0"

definition new_fld :: "u16 \<Rightarrow> fvalue \<Rightarrow> fld" where
  "new_fld fnum v = \<lparr>f_fnum = fnum, f_rlm = None, f_val = v\<rparr>"

definition mk_hdr :: "metactx \<Rightarrow> msgbase" where
  "mk_hdr ctx =
     (let e = c_hdr ctx;
          c0 = new_core (me_msgtype e) (me_traits e) (me_ftha e) (me_groups e);
          c1 = add_field_pos Common_BeginString 1 (new_fld Common_BeginString (V_string (c_beginStr ctx))) False c0;
          c2 = add_field_pos Common_BodyLength 2 (new_fld Common_BodyLength (V_int 0)) False c1;
          c3 = add_field_pos Common_MsgType 3 (new_fld Common_MsgType (V_string [])) False c2
      in MsgBase c3 [])"

definition mk_trl :: "metactx \<Rightarrow> msgbase" where
  "mk_trl ctx =
     (let e = c_trl ctx;
          c0 = new_core (me_msgtype e) (me_traits e) (me_ftha e) (me_groups e)
      in MsgBase (add_field_pos Common_CheckSum 3 (new_fld Common_CheckSum (V_string [])) False c0) [])"

definition create_message :: "metactx \<Rightarrow> msg_entry \<Rightarrow> bool \<Rightarrow> message" where
  "create_message ctx e deepctor =
     \<lparr>msg_header = mk_hdr ctx,
      msg_body = MsgBase (new_core (me_msgtype e) (me_traits e) (me_ftha e) (me_groups e))
                   (deep_groups deepctor (me_groups e)),
      msg_trailer = mk_trl ctx, msg_custom_seqnum = 0, msg_no_increment = False,
      msg_end_of_batch = True\<rparr>"

definition create_msg :: "metactx \<Rightarrow> string \<Rightarrow> bool \<Rightarrow> message option" where
  "create_msg ctx tag deepctor = map_option (\<lambda>e. create_message ctx e deepctor) (find_bme ctx tag)"

definition create_msg_from_longname :: "metactx \<Rightarrow> string \<Rightarrow> bool \<Rightarrow> message option" where
  "create_msg_from_longname ctx tag deepctor =
     map_option (\<lambda>e. create_message ctx e deepctor) (reverse_find_bme ctx tag)"

section \<open>Decoding\<close>

text \<open>What a decoding function reads: the metadata, the clock, the message and its end.\<close>

record denv =
  d_ctx :: metactx
  d_now :: ticks
  d_from :: string
  d_fsize :: nat

definition elem_at :: "denv \<Rightarrow> nat \<Rightarrow> error + nat \<times> string \<times> string" where
  "elem_at env s =
     extract_element FIX8_MAX_FLD_LENGTH FIX8_MAX_FLD_LENGTH (take (d_fsize env - s) (drop s (d_from env)))"

text \<open>The exception for a missing mandatory field, whose name is looked up in the field table.\<close>

definition check_missing :: "metactx \<Rightarrow> core \<Rightarrow> error + unit" where
  "check_missing ctx c =
     (let missing = fp_find_missing (m_fp c) mandatory
      in if missing \<noteq> 0
         then (case find_be ctx missing of
                 None \<Rightarrow> throw (Undefined NullDeref)
               | Some tbe \<Rightarrow> throw (MissingMandatoryField missing))
         else return ())"

text \<open>
  Repeating groups. \<open>dec_group\<close> is \<open>decode_group\<close>; \<open>dec_repeats\<close> is its outer loop over the
  elements of the group and \<open>dec_elements\<close> the inner loop over the fields of one element, which
  returns whether another element may follow. \<open>elem_step\<close> is one turn of the inner loop up to the
  decoding of a nested group: \<open>Leave\<close> is an end of the loop with the flag \<^verbatim>\<open>ok\<close>, \<open>Took\<close> a field
  stored, with the offset behind it and the tag of the group it counts.
\<close>

datatype elem_result = Leave bool | Took msgbase nat "u16 option"

definition elem_step :: "denv \<Rightarrow> nat \<Rightarrow> nat \<Rightarrow> msgbase \<Rightarrow> error + elem_result" where
  "elem_step env pos s grp =
     (if \<not> s < d_fsize env then return (Leave True)
      else
        bind (elem_at env s) (\<lambda>(result, tag, val).
        if result = 0 then return (Leave True)
        else
          let tv = (fast_atoi tag :: u32); tw = (ucast tv :: u16); fp = m_fp (mb grp);
              (there, itr) = fp_get_itr fp tw End present
          in if there then return (Leave True)
             else
               let (gpos, itr1) = (if pos = 0 then fp_getPos_itr fp tw itr else (1, itr))
               in if gpos \<noteq> 1 then throw (MissingRepeatingGroupField tv)
                  else
                    (case find_be (d_ctx env) tw of
                       None \<Rightarrow> return (Leave False)
                     | Some be \<Rightarrow>
                         let (legal, itr2) = fp_has_itr fp tw itr1
                         in if \<not> legal then return (Leave False)
                            else
                              bind (create_be (d_now env) be val) (\<lambda>bf.
                              let grp1 = on_core (add_field_itr tw itr2 (of_nat (pos + 1)) bf False) grp;
                                  grp2 = on_core (\<lambda>c. c\<lparr>m_fp := fst (fp_set_itr (m_fp c) tw itr2 present)\<rparr>) grp1
                              in return (Took grp2 (s + result)
                                   (if fst (fp_is_group_itr (m_fp (mb grp2)) tw itr2) \<and> has_group_count bf
                                    then Some tw else None))))))"

fun dec_group :: "nat \<Rightarrow> denv \<Rightarrow> gschema option \<Rightarrow> u16 \<Rightarrow> nat \<Rightarrow> msgbase \<Rightarrow> error + msgbase \<times> nat"
  and dec_repeats :: "nat \<Rightarrow> denv \<Rightarrow> gschema \<Rightarrow> nat \<Rightarrow> msgbase list \<Rightarrow> error + msgbase list \<times> nat"
  and dec_elements :: "nat \<Rightarrow> denv \<Rightarrow> gschema \<Rightarrow> nat \<Rightarrow> nat \<Rightarrow> msgbase \<Rightarrow> error + msgbase \<times> nat \<times> bool"
where
  "dec_group 0 env grpbase fnum s m = throw OutOfFuel"
| "dec_group (Suc n) env grpbase fnum s m =
     (case find_add_group fnum grpbase m of
        Inl e \<Rightarrow> Inl e
      | Inr (m', None) \<Rightarrow> throw (InvalidRepeatingGroup fnum)
      | Inr (m', Some g) \<Rightarrow>
          (case dec_repeats n env (g_schema g) s (g_msgs g) of
             Inl e \<Rightarrow> Inl e
           | Inr (msgs, s') \<Rightarrow>
               return (put_group (if map_of (mb_groups m) fnum = None then g_fnum g else fnum)
                         (Some (Grp (g_fnum g) (g_schema g) msgs)) m', s')))"
| "dec_repeats 0 env gs s acc = throw OutOfFuel"
| "dec_repeats (Suc n) env gs s acc =
     (if s < d_fsize env then
        (case dec_elements n env gs 0 s (create_group gs False) of
           Inl e \<Rightarrow> Inl e
         | Inr (grp, s', ok) \<Rightarrow>
             (case check_missing (d_ctx env) (mb grp) of
                Inl e \<Rightarrow> Inl e
              | Inr _ \<Rightarrow>
                  if ok then dec_repeats n env gs s' (acc @ [grp]) else return (acc @ [grp], s')))
      else return (acc, s))"
| "dec_elements 0 env gs pos s grp = throw OutOfFuel"
| "dec_elements (Suc n) env gs pos s grp =
     (case elem_step env pos s grp of
        Inl e \<Rightarrow> Inl e
      | Inr (Leave ok) \<Rightarrow> return (grp, s, ok)
      | Inr (Took grp' s' None) \<Rightarrow> dec_elements n env gs (pos + 1) s' grp'
      | Inr (Took grp' s' (Some tw)) \<Rightarrow>
          (case dec_group n env (Some gs) tw s' grp' of
             Inl e \<Rightarrow> Inl e
           | Inr (grp'', s'') \<Rightarrow> dec_elements n env gs (pos + 1) s'' grp''))"

text \<open>
  \<open>MessageBase::decode\<close>. The local variables of the loop: the object, the last position, the
  position and offset before the first unknown field (\<open>None\<close> is the initial \<^verbatim>\<open>npos\<close>), the offset.
\<close>

record dstate =
  d_m :: msgbase
  d_pos :: nat
  d_lvp :: "nat option"
  d_lvo :: nat
  d_off :: nat

text \<open>One field: made, stored, marked; its group is decoded when it counts one.\<close>

definition dec_store :: "nat \<Rightarrow> denv \<Rightarrow> u16 \<Rightarrow> iter \<Rightarrow> string \<Rightarrow> dstate \<Rightarrow> error + dstate" where
  "dec_store fuel env tv itr val st =
     (case find_be (d_ctx env) tv of
        None \<Rightarrow> throw (UnknownField tv)
      | Some be \<Rightarrow>
          bind (create_be (d_now env) be val) (\<lambda>bf.
          let c = add_field_decoder tv (d_pos st + 1) bf (mb (d_m st));
              m = MsgBase (c\<lparr>m_fp := pr_update (m_fp c) itr (\<lambda>t. t_set t present)\<rparr>) (mb_groups (d_m st));
              isgroup = (case pr_elem (m_fp c) itr of Some t \<Rightarrow> t_has t group | None \<Rightarrow> False);
              st' = st\<lparr>d_m := m, d_pos := d_pos st + 1\<rparr>
          in if isgroup \<and> has_group_count bf
             then bind (dec_group fuel env None tv (d_off st) m) (\<lambda>(m', s'). return (st'\<lparr>d_m := m', d_off := s'\<rparr>))
             else return st'))"

text \<open>An unknown field: kept in permissive mode (\<open>True\<close> goes on with the loop), else the end.\<close>

definition dec_unknown :: "denv \<Rightarrow> bool \<Rightarrow> nat \<Rightarrow> dstate \<Rightarrow> dstate \<times> bool" where
  "dec_unknown env permissive result st =
     (if permissive
      then (let st1 = (if d_lvp st = None then st\<lparr>d_lvp := Some (d_pos st), d_lvo := d_off st\<rparr> else st);
                m = on_core (\<lambda>c. c\<lparr>m_unknown := m_unknown c @ take result (drop (d_off st) (d_from env))\<rparr>) (d_m st)
            in (st1\<lparr>d_m := m, d_off := d_off st + result\<rparr>, True))
      else (st, False))"

text \<open>
  The data field that must follow a length field. Its text is not read to a separator: the length
  field gives its size.
\<close>

definition dec_data :: "nat \<Rightarrow> denv \<Rightarrow> bool \<Rightarrow> u16 \<Rightarrow> string \<Rightarrow> string \<Rightarrow> dstate \<Rightarrow> error + dstate \<times> bool" where
  "dec_data fuel env permissive lasttv tag val st =
     (let val_sz = unat (fast_atoi val :: u32)
      in if FIX8_MAX_FLD_LENGTH - 1 < val_sz then throw (F8Exception ''Value size too large'' False)
         else
           bind (extract_element_fixed_width FIX8_MAX_FLD_LENGTH
                  (take (d_fsize env - d_off st) (drop (d_off st) (d_from env))) val_sz (tag @ [NUL]))
             (\<lambda>(result, tagbuf, val').
           if result = 0 then throw MissingFixedWidthField
           else
             bind (read_cstr tagbuf) (\<lambda>tag'.
             let tv = (fast_atoi tag' :: u16); itr = pr_find (m_fp (mb (d_m st))) tv
             in case pr_elem (m_fp (mb (d_m st))) itr of
                  None \<Rightarrow> return (dec_unknown env permissive result st)
                | Some t \<Rightarrow>
                    if t_ftype t \<noteq> ft_data \<or> unat lasttv + 1 \<noteq> unat tv then return (st, True)
                    else bind (dec_store fuel env tv itr val' (st\<lparr>d_off := d_off st + result\<rparr>)) (\<lambda>st'.
                         return (st', True)))))"

fun dec_loop :: "nat \<Rightarrow> denv \<Rightarrow> bool \<Rightarrow> dstate \<Rightarrow> error + dstate" where
  "dec_loop 0 env permissive st = throw OutOfFuel"
| "dec_loop (Suc n) env permissive st =
     (if d_fsize env < d_off st then return st
      else
        bind (elem_at env (d_off st)) (\<lambda>(result, tag, val).
        if result = 0 then return st
        else
          let tv = (fast_atoi tag :: u16); fp = m_fp (mb (d_m st)); itr = pr_find fp tv
          in case pr_elem fp itr of
               None \<Rightarrow>
                 (case dec_unknown env permissive result st of
                    (st', go_on) \<Rightarrow> if go_on then dec_loop n env permissive st' else return st')
             | Some t \<Rightarrow>
                 let st1 = st\<lparr>d_off := d_off st + result\<rparr>
                 in if t_has t present
                    then if \<not> t_has t automatic then throw (DuplicateField tv)
                         else dec_loop n env permissive st1
                    else
                      bind (dec_store n env tv itr val st1) (\<lambda>st2.
                      if t_ftype t \<noteq> ft_Length \<or> tv = Common_BodyLength then dec_loop n env permissive st2
                      else
                        bind (dec_data n env permissive tv tag val st2) (\<lambda>(st3, go_on).
                        if go_on then dec_loop n env permissive st3 else return st3))))"

definition decode ::
  "nat \<Rightarrow> metactx \<Rightarrow> ticks \<Rightarrow> string \<Rightarrow> nat \<Rightarrow> nat \<Rightarrow> bool \<Rightarrow> msgbase \<Rightarrow> error + msgbase \<times> nat" where
  "decode fuel ctx now from s_offset ignore permissive m =
     (if length from < ignore then throw (Undefined BufferOverflow)
      else
        let env = \<lparr>d_ctx = ctx, d_now = now, d_from = from, d_fsize = length from - ignore\<rparr>;
            st = \<lparr>d_m = m, d_pos = length (m_pos (mb m)), d_lvp = None, d_lvo = 0, d_off = s_offset\<rparr>
        in bind (dec_loop fuel env permissive st) (\<lambda>st'.
           bind (check_missing ctx (mb (d_m st'))) (\<lambda>_.
           return (d_m st', if permissive \<and> d_lvp st' = Some (d_pos st') then d_lvo st' else d_off st'))))"

definition msg_decode ::
  "nat \<Rightarrow> metactx \<Rightarrow> ticks \<Rightarrow> string \<Rightarrow> nat \<Rightarrow> nat \<Rightarrow> bool \<Rightarrow> message \<Rightarrow> error + message \<times> nat" where
  "msg_decode fuel ctx now from offset ignore permissive msg =
     bind (decode fuel ctx now from offset 0 permissive (msg_header msg)) (\<lambda>(h, hlen).
     bind (decode fuel ctx now from hlen 0 permissive (msg_body msg)) (\<lambda>(b, blen).
     bind (decode fuel ctx now from blen ignore permissive (msg_trailer msg)) (\<lambda>(t, n).
     return (msg\<lparr>msg_header := h, msg_body := b, msg_trailer := t\<rparr>, n))))"

text \<open>
  \<open>factory\<close> for one complete message. The fuel is a function of the length that the theorems below
  show to be enough.
\<close>

definition fuel_for :: "string \<Rightarrow> nat" where
  "fuel_for from = 3 * length from + 5"

definition factory ::
  "metactx \<Rightarrow> ticks \<Rightarrow> string \<Rightarrow> bool \<Rightarrow> bool \<Rightarrow> error + message" where
  "factory ctx now from no_chksum permissive =
     bind (extract_header from) (\<lambda>(hlen, len, mtype).
     if hlen = 0 then throw (InvalidMessage from)
     else
       let mlen = (fast_atoi len :: u32)
       in case gt_find_ptr (c_bme ctx) (cstr mtype) of
            None \<Rightarrow> throw (InvalidMessage (cstr mtype))
          | Some bme \<Rightarrow>
              bind (msg_decode (fuel_for from) ctx now from hlen 7 permissive (create_message ctx bme False))
                (\<lambda>(msg, _).
              let h = on_core (set_value hdr_msg_type (V_string (cstr mtype)) \<circ> set_value hdr_body_length (V_int mlen))
                        (msg_header msg);
                  msg1 = msg\<lparr>msg_header := h\<rparr>;
                  pp = drop (length from - 7) from
              in if take 2 pp \<noteq> ''10'' then throw (InvalidMessage from)
                 else if no_chksum then return msg1
                 else
                   let chksum = take 3 (drop 3 pp);
                       msg2 = msg1\<lparr>msg_trailer := on_core (set_value trl_check_sum (V_string chksum)) (msg_trailer msg1)\<rparr>;
                       chkval = (fast_atoi (cstr chksum) :: u32)
                   in (case calc_chksum (from @ [NUL]) (length from) 0 (int (length from - 7)) of
                         None \<Rightarrow> throw (Undefined BufferOverflow)
                       | Some mchkval \<Rightarrow> if chkval \<noteq> mchkval then throw (BadCheckSum mchkval) else return msg2)))"

definition factory_cstr :: "metactx \<Rightarrow> ticks \<Rightarrow> string \<Rightarrow> bool \<Rightarrow> bool \<Rightarrow> error + message" where
  "factory_cstr ctx now from no_chksum permissive = factory ctx now (cstr from) no_chksum permissive"

section \<open>Encoding\<close>

text \<open>
  \<open>enc_fields\<close> is the loop of \<open>MessageBase::encode\<close> over the positions; the encodings of the groups
  are given by a map, looked up where the code calls \<open>encode_group\<close>.
\<close>

fun enc_fields :: "core \<Rightarrow> (u16 \<times> (error + string) option) list \<Rightarrow> (u16 \<times> nat) list \<Rightarrow> error + string" where
  "enc_fields c encs [] = return []"
| "enc_fields c encs ((k, p) # pos) =
     (let f = m_objs c ! p; (sup, itr) = fp_get_itr (m_fp c) (f_fnum f) End suppress
      in if sup then enc_fields c encs pos
         else
           bind (of_option (Undefined BadConversion) (fld_encode f)) (\<lambda>s.
           bind (case pr_elem (m_fp c) itr of
                   None \<Rightarrow> throw (Undefined NullDeref)
                 | Some t \<Rightarrow>
                     if t_has t group \<and> has_group_count f
                     then (case map_of encs (f_fnum f) of
                             Some (Some r) \<Rightarrow> r
                           | _ \<Rightarrow> throw (InvalidRepeatingGroup (f_fnum f)))
                     else return []) (\<lambda>g.
           bind (enc_fields c encs pos) (\<lambda>rest. return (s @ g @ rest)))))"

fun enc_all :: "(error + string) list \<Rightarrow> error + string" where
  "enc_all [] = return []"
| "enc_all (r # rs) = bind r (\<lambda>s. bind (enc_all rs) (\<lambda>t. return (s @ t)))"

primrec enc_base :: "msgbase \<Rightarrow> error + string" and enc_grp :: "grp \<Rightarrow> error + string" where
  "enc_base (MsgBase c gs) =
     bind (enc_fields c (map (map_prod (\<lambda>k. k) (map_option enc_grp)) gs) (m_pos c)) (\<lambda>s. return (s @ m_unknown c))"
| "enc_grp (Grp f sch ms) = enc_all (map enc_base ms)"

text \<open>
  \<open>Message::encode\<close>: header, body and trailer go behind the room left for the preamble, then the
  first two fields are written in front and the check sum behind. The size of the buffer is not
  checked by the code; \<open>Undefined\<close> covers a text that does not fit. The flags it clears and the
  values it sets stay with the message.
\<close>

definition HEADER_CALC_OFFSET :: nat where "HEADER_CALC_OFFSET = 32"

definition preamble_len :: "metactx \<Rightarrow> nat \<Rightarrow> nat" where
  "preamble_len ctx msgLen =
     c_preamble_sz ctx +
     (if msgLen < 10 then 1 else if msgLen < 100 then 2 else if msgLen < 1000 then 3
      else if msgLen < 10000 then 4 else if msgLen < 100000 then 5 else if msgLen < 1000000 then 6 else 7)"

definition enc_obj :: "core \<Rightarrow> nat \<Rightarrow> error + string" where
  "enc_obj c p = of_option (Undefined BadConversion) (fld_encode (m_objs c ! p))"

definition msg_encode :: "metactx \<Rightarrow> message \<Rightarrow> error + message \<times> string" where
  "msg_encode ctx msg =
     (let h1 = on_core (set_value hdr_msg_type (V_string (m_msgType (mb (msg_body msg))))) (msg_header msg)
      in bind (enc_base h1) (\<lambda>hs.
         bind (enc_base (msg_body msg)) (\<lambda>bs.
         bind (enc_base (msg_trailer msg)) (\<lambda>ts.
         let content = hs @ bs @ ts; msgLen = length content; hlen = preamble_len ctx msgLen;
             h2 = on_core (clear_flag Common_BeginString suppress) h1
         in
         bind (enc_obj (mb h2) hdr_begin_string) (\<lambda>s8.
         let h3 = on_core (set_value hdr_body_length (V_int (of_nat msgLen)) \<circ> clear_flag Common_BodyLength suppress) h2
         in
         bind (enc_obj (mb h3) hdr_body_length) (\<lambda>s9.
         let pre = s8 @ s9; text = pre @ drop (length pre - hlen) content
         in if length pre < hlen then throw (Undefined Uninitialised)
            else if HEADER_CALC_OFFSET < hlen \<or> FIX8_MAX_MSG_LENGTH < msgLen + 8
                 then throw (Undefined BufferOverflow)
            else
              let sum = chk_sum_bytes (take (msgLen + hlen) text);
                  t1 = on_core (clear_flag Common_CheckSum suppress
                                \<circ> set_value trl_check_sum (V_string (fmt_chksum sum))) (msg_trailer msg)
              in bind (enc_obj (mb t1) trl_check_sum) (\<lambda>s10.
                 return (msg\<lparr>msg_header := h3, msg_trailer := t1\<rparr>, take (msgLen + hlen) text @ s10))))))))"

definition setup_reuse :: "message \<Rightarrow> message" where
  "setup_reuse msg =
     msg\<lparr>msg_header := on_core (\<lambda>c. fst (remove_field Common_MsgSeqNum
           (set_flag Common_BodyLength suppress (set_flag Common_BeginString suppress c)))) (msg_header msg),
         msg_trailer := on_core (set_flag Common_CheckSum suppress) (msg_trailer msg)\<rparr>"

definition get_field_flattened :: "message \<Rightarrow> u16 \<Rightarrow> fld option" where
  "get_field_flattened msg fnum =
     (if m_find (mb (msg_body msg)) fnum \<noteq> None then get_field (mb (msg_body msg)) fnum
      else if m_find (mb (msg_header msg)) fnum \<noteq> None then get_field (mb (msg_header msg)) fnum
      else get_field (mb (msg_trailer msg)) fnum)"

definition msg_push_unknown :: "message \<Rightarrow> message \<Rightarrow> message" where
  "msg_push_unknown from to =
     to\<lparr>msg_header := on_core (push_unknown (mb (msg_header from))) (msg_header to),
        msg_body := on_core (push_unknown (mb (msg_body from))) (msg_body to),
        msg_trailer := on_core (push_unknown (mb (msg_trailer from))) (msg_trailer to)\<rparr>"

definition msg_clear :: "message \<Rightarrow> message" where
  "msg_clear msg =
     msg\<lparr>msg_header := m_clear (msg_header msg), msg_trailer := m_clear (msg_trailer msg),
         msg_body := m_clear (msg_body msg)\<rparr>"

end
