(* ===== verification/DecodeLoops.thy ===== *)
theory DecodeLoops
  imports Codec
begin

text \<open>
  Termination of the decoder. The outer loop of \<open>decode_group\<close> ends because every element of a
  group that takes nothing from the text lacks a mandatory field and throws; a dictionary with a
  group that has no mandatory field makes the loop run forever on a malformed element.
\<close>

section \<open>Progress\<close>

text \<open>Groups the decoder can be trusted with: each has a mandatory field, and so have those inside.\<close>

definition wants_field :: "field_trait list \<Rightarrow> bool" where
  "wants_field ts \<longleftrightarrow>
     0 \<notin> t_fnum ` set ts \<and> (\<exists>t \<in> set ts. t_has t mandatory \<and> \<not> t_has t present)"

primrec guarded :: "gschema \<Rightarrow> bool" where
  "guarded (GSchema fnum ty ts h gs) \<longleftrightarrow>
     wants_field ts \<and> list_all snd (map (map_prod (\<lambda>k. k) guarded) gs)"

definition guarded_nested :: "(u16 \<times> gschema) list \<Rightarrow> bool" where
  "guarded_nested gs \<longleftrightarrow> (\<forall>s \<in> snd ` set gs. guarded s)"

definition guarded_groups :: "msgbase \<Rightarrow> bool" where
  "guarded_groups m \<longleftrightarrow> (\<forall>k g. (k, Some g) \<in> set (mb_groups m) \<longrightarrow> guarded (g_schema g))"

definition guarded_msg :: "msgbase \<Rightarrow> bool" where
  "guarded_msg m \<longleftrightarrow> guarded_groups m \<and> guarded_nested (m_nested (mb m))"

lemma guarded_iff: "guarded s \<longleftrightarrow> wants_field (gs_traits s) \<and> guarded_nested (gs_groups s)"
  by (cases s) (auto simp: guarded_nested_def list_all_iff)

lemma find_missing_wants:
  "wants_field ts \<Longrightarrow> find_missing_from ts mandatory \<noteq> 0"
  by (induction ts) (auto simp: wants_field_def)

lemma check_missing_wants:
  assumes "wants_field (gs_traits gs)"
  shows "\<exists>e. check_missing ctx (mb (create_group gs False)) = Inl e \<and> e \<noteq> OutOfFuel"
  using find_missing_wants [OF assms]
  by (auto simp: check_missing_def create_group_def new_core_def pr_ctor_hash_def fp_find_missing_def Let_def
      split: option.splits)

lemma check_missing_no_fuel: "check_missing ctx c \<noteq> Inl OutOfFuel"
  by (auto simp: check_missing_def Let_def split: option.splits)

lemma elem_at_bound:
  assumes "elem_at env s = Inr (r, t, v)" and "r \<noteq> 0" and "s \<le> d_fsize env" 
  shows "s + r \<le> d_fsize env"
proof -
  have "r \<le> length (take (d_fsize env - s) (drop s (d_from env)))"
    using assms(1,2) unfolding elem_at_def by (rule extract_element_bound)
  then have "r \<le> d_fsize env - s" by simp
  with assms(3) show ?thesis by arith
qed

lemma elem_at_no_fuel: "elem_at env s \<noteq> Inl OutOfFuel"
  unfolding elem_at_def using extract_element_Inl by fastforce

lemma create_be_no_fuel: "create_be now be v \<noteq> Inl OutOfFuel"
  by (auto simp: create_be_def of_option_def split: option.splits)

lemma elem_step_no_fuel: "elem_step env pos s grp \<noteq> Inl OutOfFuel"
  using elem_at_no_fuel [of env s] create_be_no_fuel
  by (auto simp: elem_step_def bind_Inl Let_def split: prod.splits option.splits if_splits)

lemma elem_step_Took:
  assumes "elem_step env pos s grp = Inr (Took grp' s' tw)"
  shows "s < s'" "s' \<le> d_fsize env" "mb_groups grp' = mb_groups grp" 
proof -
  from assms obtain r t v where e: "elem_at env s = Inr (r, t, v)" and r: "r \<noteq> 0" and s: "s < d_fsize env"
    and s': "s' = s + r" and g: "mb_groups grp' = mb_groups grp"
    by (auto simp: elem_step_def bind_Inr Let_def split: prod.splits option.splits if_splits)
  from elem_at_bound [OF e r] s s' g r show "s < s'" "s' \<le> d_fsize env" "mb_groups grp' = mb_groups grp" by simp_all
qed


text \<open>The ways a call can return a value.\<close>

lemma dec_group_Inr:
  assumes "dec_group (Suc n) env gb fnum s m = Inr (m', s')"
  obtains m1 g msgs where "find_add_group fnum gb m = Inr (m1, Some g)"
    and "dec_repeats n env (g_schema g) s (g_msgs g) = Inr (msgs, s')"
    and "m' = put_group (if map_of (mb_groups m) fnum = None then g_fnum g else fnum)
      (Some (Grp (g_fnum g) (g_schema g) msgs)) m1"
  using assms by (auto split: sum.splits option.splits)

lemma dec_repeats_Inr:
  assumes "dec_repeats (Suc n) env gs s acc = Inr (ms, s')"
  obtains (stop) "\<not> s < d_fsize env" "ms = acc" "s' = s"
  | (final) grp where "s < d_fsize env" "dec_elements n env gs 0 s (create_group gs False) = Inr (grp, s', False)"
      "check_missing (d_ctx env) (mb grp) = Inr ()" "ms = acc @ [grp]"
  | (again) grp t where "s < d_fsize env" "dec_elements n env gs 0 s (create_group gs False) = Inr (grp, t, True)"
      "check_missing (d_ctx env) (mb grp) = Inr ()" "dec_repeats n env gs t (acc @ [grp]) = Inr (ms, s')"
  using assms by (auto split: sum.splits if_splits)

lemma dec_elements_Inr:
  assumes "dec_elements (Suc n) env gs pos s grp = Inr (grp', s', ok)"
  obtains (leave) "elem_step env pos s grp = Inr (Leave ok)" "grp' = grp" "s' = s"
  | (took) g t where "elem_step env pos s grp = Inr (Took g t None)" "dec_elements n env gs (pos + 1) t g = Inr (grp', s', ok)"
  | (nested) g t tw g' t' where "elem_step env pos s grp = Inr (Took g t (Some tw))"
      "dec_group n env (Some gs) tw t g = Inr (g', t')" "dec_elements n env gs (pos + 1) t' g' = Inr (grp', s', ok)"
  using assms by (auto split: sum.splits elem_result.splits option.splits)

text \<open>Offsets never go back, and an element that took nothing is as it was made.\<close>

lemma dec_progress:
  "dec_group n env gb fnum s m = Inr (m', s') \<Longrightarrow> s \<le> s'"
  "dec_repeats n env gs s acc = Inr (ms, s') \<Longrightarrow> s \<le> s'"
  "dec_elements n env gs pos s grp = Inr (grp', s', ok) \<Longrightarrow> s \<le> s' \<and> (s' = s \<longrightarrow> grp' = grp)"
proof (induction n arbitrary: gb fnum s m m' s' gs acc ms pos grp grp' ok)
  case (Suc n)
  {
    case 1
    then show ?case using Suc.IH(2) by (elim dec_group_Inr) blast
  next
    case 2
    then show ?case
    proof (cases rule: dec_repeats_Inr)
      case (again grp t)
      then have "s \<le> t" "t \<le> s'" using Suc.IH(2,3) by blast+
      then show ?thesis by simp
    qed (use Suc.IH(3) in auto)
  next
    case 3
    then show ?case
    proof (cases rule: dec_elements_Inr)
      case (took g t)
      then have "s < t" "t \<le> s'" using Suc.IH(3) elem_step_Took(1) by blast+
      then show ?thesis by simp
    next
      case (nested g t tw g' t')
      then have "s < t" "t \<le> t'" "t' \<le> s'" using Suc.IH(1,3) elem_step_Took(1) by blast+
      then show ?thesis by simp
    qed simp
  }
qed simp_all

section \<open>Enough fuel\<close>

lemma set_om_set_subset: "set (om_set k v m) \<subseteq> insert (k, v) (set m)"
  by (induction k v m rule: om_set.induct) auto

lemma set_om_insert_subset: "set (om_insert k v m) \<subseteq> insert (k, v) (set m)"
  by (induction k v m rule: om_insert.induct) auto

lemma guarded_put:
  assumes "guarded_groups m" and "guarded (g_schema g)"
  shows "guarded_groups (put_group k (Some g) m)"
  using assms set_om_set_subset [of k "Some g" "mb_groups m"]
  by (fastforce simp: guarded_groups_def put_group_def)

lemma guarded_add:
  assumes "guarded_groups m" and "guarded (g_schema g)"
  shows "guarded_groups (add_group g m)"
  using assms set_om_insert_subset [of "g_fnum g" "Some g" "mb_groups m"]
  by (fastforce simp: guarded_groups_def add_group_def)

lemma find_add_group_guarded:
  assumes "find_add_group fnum gb m = Inr (m', Some g)" and "guarded_groups m"
    and "case gb of Some s \<Rightarrow> guarded s | None \<Rightarrow> guarded_nested (m_nested (mb m))"
  shows "guarded (g_schema g)"
proof (cases "map_of (mb_groups m) fnum")
  case None
  with assms obtain s where s: "map_of (case gb of Some s \<Rightarrow> gs_groups s | None \<Rightarrow> m_nested (mb m)) fnum = Some s"
    and g: "g = new_group s"
    by (auto simp: find_add_group_def create_nested_group_def split: option.splits)
  have "guarded_nested (case gb of Some s \<Rightarrow> gs_groups s | None \<Rightarrow> m_nested (mb m))"
    using assms(3) by (simp add: guarded_iff split: option.splits)
  with s have "guarded s" by (force simp: guarded_nested_def dest: map_of_SomeD)
  with g show ?thesis by (simp add: new_group_def)
next
  case (Some p)
  with assms show ?thesis by (auto simp: find_add_group_def guarded_groups_def dest: map_of_SomeD)
qed

lemma find_add_group_no_fuel: "find_add_group fnum gb m \<noteq> Inl OutOfFuel"
  by (auto simp: find_add_group_def split: option.splits)


lemma dec_group_fuel:
  "dec_group (Suc n) env gb fnum s m = Inl OutOfFuel \<Longrightarrow>
    \<exists>m1 g. find_add_group fnum gb m = Inr (m1, Some g) \<and> dec_repeats n env (g_schema g) s (g_msgs g) = Inl OutOfFuel"
  using find_add_group_no_fuel by (auto split: sum.splits option.splits)

lemma dec_repeats_fuel:
  assumes "dec_repeats (Suc n) env gs s acc = Inl OutOfFuel"
  obtains (elements) "s < d_fsize env" "dec_elements n env gs 0 s (create_group gs False) = Inl OutOfFuel"
  | (again) grp t where "s < d_fsize env" "dec_elements n env gs 0 s (create_group gs False) = Inr (grp, t, True)"
      "check_missing (d_ctx env) (mb grp) = Inr ()" "dec_repeats n env gs t (acc @ [grp]) = Inl OutOfFuel"
  using assms check_missing_no_fuel by (auto split: sum.splits if_splits)

lemma dec_elements_fuel:
  assumes "dec_elements (Suc n) env gs pos s grp = Inl OutOfFuel"
  obtains (took) g t where "elem_step env pos s grp = Inr (Took g t None)" "dec_elements n env gs (pos + 1) t g = Inl OutOfFuel"
  | (group) g t tw where "elem_step env pos s grp = Inr (Took g t (Some tw))"
      "dec_group n env (Some gs) tw t g = Inl OutOfFuel"
  | (nested) g t tw g' t' where "elem_step env pos s grp = Inr (Took g t (Some tw))"
      "dec_group n env (Some gs) tw t g = Inr (g', t')" "dec_elements n env gs (pos + 1) t' g' = Inl OutOfFuel"
  using assms elem_step_no_fuel by (auto split: sum.splits elem_result.splits option.splits)

text \<open>The groups a call leaves behind are still to be trusted.\<close>

lemma find_add_group_mb:
  assumes "find_add_group fnum gb m = Inr (m', g)"
  shows "mb m' = mb m" and "map_of (mb_groups m) fnum \<noteq> None \<Longrightarrow> m' = m"
    and "map_of (mb_groups m) fnum = None \<Longrightarrow> m' = add_group (the g) m"
  using assms by (auto simp: find_add_group_def add_group_def split: option.splits)

lemma dec_group_mb: "dec_group n env gb fnum s m = Inr (m', s') \<Longrightarrow> mb m' = mb m"
proof (cases n)
  case (Suc k)
  assume "dec_group n env gb fnum s m = Inr (m', s')"
  with Suc obtain m1 g where "find_add_group fnum gb m = Inr (m1, Some g)" and "mb m' = mb m1"
    by (auto simp: put_group_def simp del: dec_group.simps elim!: dec_group_Inr)
  then show ?thesis using find_add_group_mb(1) by simp
qed simp

lemma dec_group_guarded:
  assumes "dec_group n env gb fnum s m = Inr (m', s')" and "guarded_groups m"
    and "case gb of Some s \<Rightarrow> guarded s | None \<Rightarrow> guarded_nested (m_nested (mb m))"
  shows "guarded_groups m'"
proof -
  obtain k where n: "n = Suc k" using assms(1) by (cases n) simp_all
  from assms(1) [unfolded n] obtain m1 g msgs where f: "find_add_group fnum gb m = Inr (m1, Some g)"
    and m': "m' = put_group (if map_of (mb_groups m) fnum = None then g_fnum g else fnum)
      (Some (Grp (g_fnum g) (g_schema g) msgs)) m1"
    by (rule dec_group_Inr)
  have g: "guarded (g_schema g)" by (rule find_add_group_guarded [OF f assms(2,3)])
  then have "guarded_groups m1"
    using find_add_group_mb(2,3) [OF f] assms(2) guarded_add by (cases "map_of (mb_groups m) fnum") auto
  with g show ?thesis unfolding m' by (intro guarded_put) simp_all
qed

lemma guarded_new [simp]: "guarded_groups (create_group gs False)"
  by (simp add: guarded_groups_def create_group_def deep_groups_def)

lemma guarded_cong: "mb_groups a = mb_groups b \<Longrightarrow> guarded_groups a = guarded_groups b"
  by (simp add: guarded_groups_def)

text \<open>
  The decoder of groups does not run out of fuel: three units for every character that is left.
\<close>

lemma dec_fuel:
  "guarded_groups m \<Longrightarrow> (case gb of Some s \<Rightarrow> guarded s | None \<Rightarrow> guarded_nested (m_nested (mb m))) \<Longrightarrow>
    3 * (d_fsize env - s) + 3 \<le> n \<Longrightarrow> dec_group n env gb fnum s m \<noteq> Inl OutOfFuel"
  "guarded gs \<Longrightarrow> 3 * (d_fsize env - s) + 2 \<le> n \<Longrightarrow> dec_repeats n env gs s acc \<noteq> Inl OutOfFuel"
  "guarded gs \<Longrightarrow> guarded_groups grp \<Longrightarrow> 3 * (d_fsize env - s) + 1 \<le> n \<Longrightarrow>
    dec_elements n env gs pos s grp \<noteq> Inl OutOfFuel"
proof (induction n arbitrary: gb fnum s m gs acc pos grp)
  case (Suc n)
  {
    case 1
    show ?case
    proof
      assume "dec_group (Suc n) env gb fnum s m = Inl OutOfFuel"
      then obtain m1 g where f: "find_add_group fnum gb m = Inr (m1, Some g)"
        and r: "dec_repeats n env (g_schema g) s (g_msgs g) = Inl OutOfFuel"
        using dec_group_fuel by blast
      have "guarded (g_schema g)" by (rule find_add_group_guarded [OF f "1"(1,2)])
      with r "1"(3) show False using Suc.IH(2) [of "g_schema g" s] by simp
    qed
  next
    case 2
    show ?case
    proof
      assume "dec_repeats (Suc n) env gs s acc = Inl OutOfFuel"
      then show False
      proof (cases rule: dec_repeats_fuel)
        case elements
        with 2 show False using Suc.IH(3) [of gs "create_group gs False" s 0] by simp
      next
        case (again grp t)
        have le: "s \<le> t" "t = s \<longrightarrow> grp = create_group gs False"
          using dec_progress(3) [OF again(2)] by blast+
        have "t \<noteq> s"
        proof
          assume "t = s"
          with le(2) again(3) check_missing_wants [of gs "d_ctx env"] 2(1) show False
            by (auto simp: guarded_iff)
        qed
        with le again(1) 2(2) have "3 * (d_fsize env - t) + 2 \<le> n" by arith
        with again(4) 2(1) show False using Suc.IH(2) by blast
      qed
    qed
  next
    case 3
    show ?case
    proof
      assume "dec_elements (Suc n) env gs pos s grp = Inl OutOfFuel"
      then show False
      proof (cases rule: dec_elements_fuel)
        case (took g t)
        note b = elem_step_Took [OF took(1)]
        from b(1,2) 3(3) have "3 * (d_fsize env - t) + 1 \<le> n" by arith
        with took(2) 3(1,2) guarded_cong [OF b(3)] show False using Suc.IH(3) by blast
      next
        case (group g t tw)
        note b = elem_step_Took [OF group(1)]
        from b(1,2) 3(3) have "3 * (d_fsize env - t) + 3 \<le> n" by arith
        with group(2) 3(1,2) guarded_cong [OF b(3)] show False using Suc.IH(1) [of g "Some gs" t tw] by simp
      next
        case (nested g t tw g' t')
        note b = elem_step_Took [OF nested(1)]
        have g: "guarded_groups g" using 3(2) guarded_cong [OF b(3)] by simp
        have "guarded_groups g'" using dec_group_guarded [OF nested(2) g] 3(1) by simp
        moreover have "t \<le> t'" using dec_progress(1) [OF nested(2)] .
        then have "3 * (d_fsize env - t') + 1 \<le> n" using b(1,2) 3(3) by arith
        ultimately show False using Suc.IH(3) nested(3) 3(1) by blast
      qed
    qed
  }
qed simp_all



section \<open>More fuel\<close>

text \<open>More fuel never changes a result.\<close>

lemma dec_fuel_mono:
  "dec_group n env gb fnum s m \<noteq> Inl OutOfFuel \<Longrightarrow> dec_group (Suc n) env gb fnum s m = dec_group n env gb fnum s m"
  "dec_repeats n env gs s acc \<noteq> Inl OutOfFuel \<Longrightarrow> dec_repeats (Suc n) env gs s acc = dec_repeats n env gs s acc"
  "dec_elements n env gs pos s grp \<noteq> Inl OutOfFuel \<Longrightarrow>
    dec_elements (Suc n) env gs pos s grp = dec_elements n env gs pos s grp"
proof (induction n arbitrary: gb fnum s m gs acc pos grp)
  case (Suc n)
  define M where "M = Suc n"
  note IH = Suc.IH [folded M_def]
  {
    case 1
    then have r: "dec_repeats n env (g_schema g) s (g_msgs g) \<noteq> Inl OutOfFuel"
      if "find_add_group fnum gb m = Inr (m', Some g)" for m' g
      using that by auto
    show ?case
      unfolding M_def [symmetric]
      apply (rule trans [OF _ dec_group.simps(2) [of n, folded M_def, symmetric]])
      apply (unfold dec_group.simps(2) [of M])
      using r IH(2) by (simp split: sum.split option.split)
  next
    case 2
    have e: "dec_elements n env gs 0 s (create_group gs False) \<noteq> Inl OutOfFuel" if "s < d_fsize env"
      using 2 that by auto
    have r: "dec_repeats n env gs t (acc @ [grp]) \<noteq> Inl OutOfFuel"
      if "s < d_fsize env" "dec_elements n env gs 0 s (create_group gs False) = Inr (grp, t, True)"
        "check_missing (d_ctx env) (mb grp) = Inr ()" for grp t
      using 2 that by auto
    show ?case
      unfolding M_def [symmetric]
      apply (rule trans [OF _ dec_repeats.simps(2) [of n, folded M_def, symmetric]])
      apply (unfold dec_repeats.simps(2) [of M])
      using e r IH(2,3) by (auto split: sum.split)
  next
    case 3
    have g: "dec_group n env (Some gs) tw t g \<noteq> Inl OutOfFuel"
      if "elem_step env pos s grp = Inr (Took g t (Some tw))" for g t tw
      using 3 that by auto
    have e: "dec_elements n env gs (pos + 1) t g \<noteq> Inl OutOfFuel"
      if "elem_step env pos s grp = Inr (Took g t None)" for g t
      using 3 that by auto
    have e': "dec_elements n env gs (pos + 1) t' g' \<noteq> Inl OutOfFuel"
      if "elem_step env pos s grp = Inr (Took g t (Some tw))" "dec_group n env (Some gs) tw t g = Inr (g', t')"
      for g t tw g' t'
      using 3 that by auto
    show ?case
      unfolding M_def [symmetric]
      apply (rule trans [OF _ dec_elements.simps(2) [of n, folded M_def, symmetric]])
      apply (unfold dec_elements.simps(2) [of M])
      using g e e' IH(1,3) by (auto split: sum.split elem_result.split option.split)
  }
qed simp_all


section \<open>The loop of \<open>decode\<close>\<close>

lemma guarded_msg_cong:
  "mb_groups a = mb_groups b \<Longrightarrow> m_nested (mb a) = m_nested (mb b) \<Longrightarrow> guarded_msg a = guarded_msg b"
  by (simp add: guarded_msg_def guarded_groups_def)

lemma dec_store_Inr:
  assumes "dec_store fuel env tv itr val st = Inr st'"
  obtains be bf m where "find_be (d_ctx env) tv = Some be" "create_be (d_now env) be val = Inr bf"
    "m = MsgBase ((add_field_decoder tv (d_pos st + 1) bf (mb (d_m st)))
         \<lparr>m_fp := pr_update (m_fp (mb (d_m st))) itr (\<lambda>t. t_set t present)\<rparr>) (mb_groups (d_m st))"
    "st' = st\<lparr>d_m := m, d_pos := d_pos st + 1\<rparr> \<or>
     (\<exists>m' s'. dec_group fuel env None tv (d_off st) m = Inr (m', s') \<and>
        st' = st\<lparr>d_m := m', d_pos := d_pos st + 1, d_off := s'\<rparr>)"
  using assms
  by (auto simp: dec_store_def bind_Inr Let_def add_field_decoder_def split: option.splits if_splits)

lemma dec_store_fuel:
  assumes "dec_store fuel env tv itr val st = Inl OutOfFuel"
  obtains m where "dec_group fuel env None tv (d_off st) m = Inl OutOfFuel"
    "mb_groups m = mb_groups (d_m st)" "m_nested (mb m) = m_nested (mb (d_m st))"
  using assms create_be_no_fuel
  by (auto simp: dec_store_def bind_Inl Let_def add_field_decoder_def split: option.splits if_splits)

lemma dec_store_guarded:
  assumes "dec_store fuel env tv itr val st = Inr st'" and g: "guarded_msg (d_m st)"
  shows "guarded_msg (d_m st') \<and> d_off st \<le> d_off st'"
  using assms(1)
proof (cases rule: dec_store_Inr)
  case (1 be bf m)
  have m: "guarded_msg m" using g guarded_msg_cong [of m "d_m st"] 1(3) by (simp add: add_field_decoder_def Let_def)
  from 1(4) show ?thesis
  proof
    assume "\<exists>m' s'. dec_group fuel env None tv (d_off st) m = Inr (m', s') \<and>
        st' = st\<lparr>d_m := m', d_pos := d_pos st + 1, d_off := s'\<rparr>"
    then obtain m' s' where d: "dec_group fuel env None tv (d_off st) m = Inr (m', s')"
      and st': "st' = st\<lparr>d_m := m', d_pos := d_pos st + 1, d_off := s'\<rparr>" by blast
    have "guarded_groups m'" using dec_group_guarded [OF d] m by (simp add: guarded_msg_def)
    then show ?thesis
      using st' dec_progress(1) [OF d] dec_group_mb [OF d] m by (simp add: guarded_msg_def)
  qed (use m in simp)
qed

lemma dec_store_enough:
  assumes "guarded_msg (d_m st)" and "3 * (d_fsize env - d_off st) + 3 \<le> fuel"
  shows "dec_store fuel env tv itr val st \<noteq> Inl OutOfFuel"
proof
  assume "dec_store fuel env tv itr val st = Inl OutOfFuel"
  then show False
  proof (cases rule: dec_store_fuel)
    case (1 m)
    then have "guarded_msg m" using assms(1) guarded_msg_cong by blast
    then show False using dec_fuel(1) [of m None env "d_off st" fuel] 1(1) assms(2) by (simp add: guarded_msg_def)
  qed
qed

lemma dec_unknown_state:
  "dec_unknown env permissive r st = (st', go_on) \<Longrightarrow>
    mb_groups (d_m st') = mb_groups (d_m st) \<and> m_nested (mb (d_m st')) = m_nested (mb (d_m st)) \<and>
    d_off st' = (if go_on then d_off st + r else d_off st)"
  by (auto simp: dec_unknown_def Let_def split: if_splits)

lemma dec_unknown_guarded:
  "dec_unknown env permissive r st = (st', go_on) \<Longrightarrow> guarded_msg (d_m st) \<Longrightarrow>
    guarded_msg (d_m st') \<and> d_off st \<le> d_off st'"
  using dec_unknown_state [of env permissive r st st' go_on] guarded_msg_cong [of "d_m st'" "d_m st"]
  by (auto split: if_splits)

lemma fixed_width_no_fuel: "extract_element_fixed_width c from n t \<noteq> Inl OutOfFuel"
  by (auto simp: extract_element_fixed_width_def Let_def)

lemma read_cstr_no_fuel: "read_cstr b \<noteq> Inl OutOfFuel"
  by (simp add: read_cstr_def)

lemma dec_data_Inr:
  assumes "dec_data fuel env permissive lasttv tag val st = Inr (st', go_on)"
  obtains (unknown) r where "dec_unknown env permissive r st = (st', go_on)"
  | (stop) "st' = st"
  | (store) r tv itr v where "dec_store fuel env tv itr v (st\<lparr>d_off := d_off st + r\<rparr>) = Inr st'"
  using assms by (auto simp: dec_data_def bind_Inr Let_def split: prod.splits option.splits if_splits)

lemma dec_data_guarded:
  assumes "dec_data fuel env permissive lasttv tag val st = Inr (st', go_on)" and "guarded_msg (d_m st)"
  shows "guarded_msg (d_m st') \<and> d_off st \<le> d_off st'"
  using assms(1)
proof (cases rule: dec_data_Inr)
  case (store r tv itr v)
  from dec_store_guarded [OF store] assms(2) show ?thesis by simp
qed (use assms(2) dec_unknown_guarded in auto)

lemma dec_data_enough:
  assumes "guarded_msg (d_m st)" and "3 * (d_fsize env - d_off st) + 3 \<le> fuel"
  shows "dec_data fuel env permissive lasttv tag val st \<noteq> Inl OutOfFuel"
proof -
  have "dec_store fuel env tv itr v (st\<lparr>d_off := d_off st + r\<rparr>) \<noteq> Inl OutOfFuel" for tv itr v r
    using assms by (intro dec_store_enough) auto
  then show ?thesis
    using fixed_width_no_fuel read_cstr_no_fuel
    by (auto simp: dec_data_def bind_Inl bind_Inr Let_def split: prod.splits option.splits if_splits)
qed


lemma dec_loop_enough:
  "guarded_msg (d_m st) \<Longrightarrow> 3 * (d_fsize env - d_off st) + 1 \<le> n \<Longrightarrow> dec_loop n env permissive st \<noteq> Inl OutOfFuel"
proof (induction n arbitrary: st)
  case (Suc n)
  note g = Suc.prems(1) and f = Suc.prems(2)
  show ?case
  proof (cases "d_fsize env < d_off st")
    case le: False
    show ?thesis
    proof (cases "elem_at env (d_off st)")
      case (Inl e)
      with le elem_at_no_fuel [of env "d_off st"] show ?thesis by auto
    next
      case (Inr x)
      obtain r tag val where x: "x = (r, tag, val)" by (cases x)
      show ?thesis
      proof (cases "r = 0")
        case True
        with le Inr x show ?thesis by simp
      next
        case r: False
        have b: "d_off st + r \<le> d_fsize env" using elem_at_bound [of env "d_off st" r tag val] Inr x r le by simp
        have more: "3 * (d_fsize env - d_off st') + 1 \<le> n" if "d_off st + r \<le> d_off st'" for st' :: dstate
          using that b r f by arith
        have go: "dec_loop n env permissive st' \<noteq> Inl OutOfFuel"
          if "guarded_msg (d_m st')" "d_off st + r \<le> d_off st'" for st'
          using Suc.IH [OF that(1) more [OF that(2)]] .
        let ?st1 = "st\<lparr>d_off := d_off st + r\<rparr>" and ?tv = "fast_atoi tag :: u16"
        let ?fp = "m_fp (mb (d_m st))"
        have st1: "guarded_msg (d_m ?st1)" using g by simp
        have unk: "dec_loop n env permissive st' \<noteq> Inl OutOfFuel"
          if "dec_unknown env permissive r st = (st', True)" for st'
          using go dec_unknown_guarded [OF that g] dec_unknown_state [OF that] by simp
        have store: "dec_store n env ?tv itr val ?st1 \<noteq> Inl OutOfFuel" for itr
          using dec_store_enough [OF st1] b r f by simp
        have stored: "guarded_msg (d_m st2) \<and> d_off st + r \<le> d_off st2"
          if "dec_store n env ?tv itr val ?st1 = Inr st2" for itr st2
          using dec_store_guarded [OF that st1] by simp
        have dat: "dec_data n env permissive ?tv tag val st2 \<noteq> Inl OutOfFuel"
          if "dec_store n env ?tv itr val ?st1 = Inr st2" for itr st2
          using stored [OF that] b r f by (intro dec_data_enough) auto
        have data': "guarded_msg (d_m st3) \<and> d_off st + r \<le> d_off st3"
          if "dec_store n env ?tv itr val ?st1 = Inr st2" "dec_data n env permissive ?tv tag val st2 = Inr (st3, b)"
          for itr st2 st3 b
          using stored [OF that(1)] dec_data_guarded [OF that(2)] by force
        show ?thesis
          using le Inr x r go [OF st1] unk store stored dat data' go
          by (auto simp: bind_Inl Let_def split: option.splits prod.splits if_splits)
      qed
    qed
  qed simp
qed simp

text \<open>The object and the offset a call of \<open>decode\<close> leaves are those of the loop.\<close>

lemma decode_enough:
  assumes "guarded_msg m" and "3 * length from + 1 \<le> fuel"
  shows "decode fuel ctx now from s_offset ignore permissive m \<noteq> Inl OutOfFuel"
proof -
  let ?env = "\<lparr>d_ctx = ctx, d_now = now, d_from = from, d_fsize = length from - ignore\<rparr>"
  let ?st = "\<lparr>d_m = m, d_pos = length (m_pos (mb m)), d_lvp = None, d_lvo = 0, d_off = s_offset\<rparr>"
  have "3 * (d_fsize ?env - d_off ?st) + 1 \<le> fuel" using assms(2) by auto
  with assms(1) have "dec_loop fuel ?env permissive ?st \<noteq> Inl OutOfFuel" by (intro dec_loop_enough) simp_all
  then show ?thesis using check_missing_no_fuel by (auto simp: decode_def Let_def bind_Inl)
qed

lemma msg_decode_enough:
  assumes "guarded_msg (msg_header msg)" "guarded_msg (msg_body msg)" "guarded_msg (msg_trailer msg)"
    and "3 * length from + 1 \<le> fuel"
  shows "msg_decode fuel ctx now from offset ignore permissive msg \<noteq> Inl OutOfFuel"
  using decode_enough [OF assms(1,4)] decode_enough [OF assms(2,4)] decode_enough [OF assms(3,4)]
  by (auto simp: msg_decode_def bind_Inl split: prod.splits)

definition guarded_ctx :: "metactx \<Rightarrow> bool" where
  "guarded_ctx ctx \<longleftrightarrow>
     guarded_nested (me_groups (c_hdr ctx)) \<and> guarded_nested (me_groups (c_trl ctx)) \<and>
     (\<forall>e \<in> snd ` set (c_bme ctx). guarded_nested (me_groups e))"

lemma add_field_itr_nested: "m_nested (add_field_itr f itr pos w False c) = m_nested c"
  by (simp add: add_field_itr_def Let_def)

lemma guarded_create:
  assumes "guarded_ctx ctx" and "guarded_nested (me_groups e)"
  shows "guarded_msg (msg_header (create_message ctx e False))" "guarded_msg (msg_body (create_message ctx e False))"
    "guarded_msg (msg_trailer (create_message ctx e False))"
  using assms
  by (simp_all add: guarded_msg_def guarded_groups_def create_message_def mk_hdr_def mk_trl_def Let_def
      add_field_pos_def add_field_itr_nested new_core_def deep_groups_def guarded_ctx_def)

lemma extract_header_no_fuel: "extract_header from \<noteq> Inl OutOfFuel"
  by (auto simp: extract_header_def bind_Inl dest!: extract_element_Inl split: prod.splits if_splits)

lemma factory_enough:
  assumes "guarded_ctx ctx" and "key_sorted fst (c_bme ctx)"
  shows "factory ctx now from no_chksum permissive \<noteq> Inl OutOfFuel"
proof -
  have msg: "msg_decode (fuel_for from) ctx now from hlen 7 permissive (create_message ctx bme False) \<noteq> Inl OutOfFuel"
    if "gt_find_ptr (c_bme ctx) k = Some bme" for k bme hlen
  proof -
    from that have "bme \<in> snd ` set (c_bme ctx)"
      using gtable.lookup_Some_iff [OF assms(2), of k bme] by force
    then have "guarded_nested (me_groups bme)" using assms(1) unfolding guarded_ctx_def by blast
    with assms(1) show ?thesis by (intro msg_decode_enough guarded_create) (simp_all add: fuel_for_def)
  qed
  show ?thesis
    using extract_header_no_fuel [of "from"] msg
    by (auto simp: factory_def bind_Inl Let_def split: prod.splits option.splits if_splits)
qed

section \<open>The sample dictionary\<close>

definition sample_meta :: "bool \<Rightarrow> metactx" where
  "sample_meta required =
     \<lparr>c_version = 4200, c_bme = sample_bme required, c_be = sample_be,
      c_flu = fill_flu sample_be (replicate 356 None),
      c_hdr = snd (sample_entry ''header'' ''header'' sample_hdr_traits [] False),
      c_trl = snd (sample_entry ''trailer'' ''trailer'' sample_trl_traits [] False),
      c_beginStr = ''FIX.4.2'', c_preamble_sz = 13,
      c_reverse_msgtable = fold (\<lambda>(k, e). om_insert (me_name e) e) (sample_bme required) [],
      c_reverse_fieldtable = fold (\<lambda>(k, e). om_insert (be_name e) e) sample_be []\<rparr>"

lemma sample_bme_sorted: "key_sorted fst (sample_bme required)"
  by (simp add: key_sorted_def sample_bme_def sample_entry_def)

lemma find_ref_Inr: "key_sorted fst t \<Longrightarrow> map_of t k = Some v \<Longrightarrow> gt_find_ref t k = Inr v"
  using gt_find_ptr_map_of [of t k] by (auto simp: gt_find_ref_def gt_find_ptr_def split: option.splits)

lemma sample_ctx_meta: "sample_ctx required = Inr (sample_meta required)"
proof -
  have "gt_find_ref (sample_bme required) ''header'' = Inr (c_hdr (sample_meta required))"
    "gt_find_ref (sample_bme required) ''trailer'' = Inr (c_trl (sample_meta required))"
    by (rule find_ref_Inr [OF sample_bme_sorted], simp add: sample_meta_def sample_bme_def sample_entry_def)+
  moreover have "gt_at sample_be (length sample_be - 1) = Some (355, \<lparr>be_class = C_string, be_name = ''EncodedText'', be_fnum = 355, be_rlm = None\<rparr>)"
    by (simp add: gt_at_def sample_be_def)
  moreover have "\<not> (\<exists>k \<in> fst ` set sample_be. 356 \<le> unat k)"
    by (simp add: sample_be_def)
  ultimately show ?thesis
    by (simp add: sample_ctx_def mk_metactx_def sample_meta_def Let_def)
qed

lemma wants_sample [simp]: "wants_field (sample_alloc_traits True)"
  by (auto simp: wants_field_def sample_alloc_traits_def mk_trait_def) (simp_all add: t_has_def eb_has_def)

lemma sample_guarded: "guarded_ctx (sample_meta True)"
  by (simp add: guarded_ctx_def guarded_nested_def sample_meta_def sample_bme_def sample_entry_def
      sample_alloc_def)

section \<open>Properties\<close>



text \<open>
  A group without a mandatory field is decoded forever when its text is not an element: no
  amount of fuel is enough for \<open>decode_group\<close>, which adds empty elements to the group.
\<close>

theorem decode_group_diverges:
  assumes "find_add_group fnum gb m = Inr (m', Some g)"
    and "find_missing_from (gs_traits (g_schema g)) mandatory = 0"
    and "s < d_fsize env" and "elem_at env s = Inr (0, tag, val)"
  shows "dec_group n env gb fnum s m = Inl OutOfFuel"
proof -
  let ?gs = "g_schema g"
  have els: "dec_elements k env ?gs 0 s (create_group ?gs False) \<in> {Inl OutOfFuel, Inr (create_group ?gs False, s, True)}" for k
    using assms(3,4) by (cases k) (simp_all add: elem_step_def)
  have "check_missing (d_ctx env) (mb (create_group ?gs False)) = Inr ()"
    using assms(2) by (simp add: check_missing_def create_group_def new_core_def pr_ctor_hash_def fp_find_missing_def)
  then have "dec_repeats k env ?gs s acc = Inl OutOfFuel" for k acc
  proof (induction k arbitrary: acc)
    case (Suc k)
    then show ?case using els [of k] assms(3) by auto
  qed simp
  then show ?thesis using assms(1) by (cases n) simp_all
qed

theorem decode_group_diverges_witness:
  "let m = msg_body (create_message (sample_meta False) (snd (sample_bme False ! 1)) False);
       env = \<lparr>d_ctx = sample_meta False, d_now = 0, d_from = ''x'', d_fsize = 1\<rparr>
   in dec_group 1000 env None 78 0 m = Inl OutOfFuel"
proof -
  let ?m = "msg_body (create_message (sample_meta False) (snd (sample_bme False ! 1)) False)"
  let ?env = "\<lparr>d_ctx = sample_meta False, d_now = 0, d_from = ''x'', d_fsize = 1\<rparr>"
  have f: "find_add_group 78 None ?m = Inr (add_group (new_group (sample_alloc False)) ?m, Some (new_group (sample_alloc False)))"
    by (simp add: find_add_group_def create_message_def create_nested_group_def sample_bme_def sample_entry_def
        new_core_def deep_groups_def)
  have w: "find_missing_from (gs_traits (g_schema (new_group (sample_alloc False)))) mandatory = 0"
    by (simp add: new_group_def sample_alloc_def) code_simp
  have "\<not> isdigit (CHR ''x'')" by (simp add: isdigit_def uchar_def)
  then have e: "elem_at ?env 0 = Inr (0, [], [])"
    by (simp add: elem_at_def extract_element_def FIX8_MAX_FLD_LENGTH_def)
  show ?thesis using decode_group_diverges [OF f w _ e] by simp
qed

end
