(* ===== verification/RoundTrip.thy ===== *)
theory RoundTrip
  imports DecodeLoops
begin

text \<open>
  What \<open>encode\<close> writes for a message body without repeating groups, \<open>decode\<close> reads back: the same
  fields, in the same order, and encoding them again gives the same text.
\<close>

section \<open>One field\<close>

text \<open>The text of a field on the wire, and the fields the dictionary \<open>ctx\<close> and the traits \<open>ts\<close> of a
  message describe: well-formed values of the right class, with neither a group nor a length.\<close>

definition wire :: "fld \<Rightarrow> string" where
  "wire f = (case fld_encode f of Some s \<Rightarrow> s | None \<Rightarrow> [])"

definition flat :: "metactx \<Rightarrow> field_trait list \<Rightarrow> fld \<Rightarrow> bool" where
  "flat ctx ts f \<longleftrightarrow>
     value_ok (f_val f) \<and>
     (\<exists>v. print_value (f_val f) = Some v \<and> length v < FIX8_MAX_FLD_LENGTH) \<and>
     (\<exists>be. find_be ctx (f_fnum f) = Some be \<and> be_class be = class_of (f_val f) \<and> be_fnum be = f_fnum f \<and>
        f_rlm f = (if keeps_realm (be_class be) then be_rlm be else None)) \<and>
     (\<exists>t \<in> set ts. t_fnum t = f_fnum f \<and> \<not> t_has t group \<and> \<not> t_has t suppress \<and>
        (t_ftype t \<noteq> ft_Length \<or> f_fnum f = Common_BodyLength))"

lemma create_be_flat:
  assumes "flat ctx ts f" and "print_value (f_val f) = Some v" and "find_be ctx (f_fnum f) = Some be"
  shows "create_be now be v = Inr f"
proof -
  from assms have be: "be_class be = class_of (f_val f)" "be_fnum be = f_fnum f"
    "f_rlm f = (if keeps_realm (be_class be) then be_rlm be else None)" and ok: "value_ok (f_val f)"
    by (auto simp: flat_def)
  from print_text_ok [OF ok assms(2)] have "cstr v = v" by (simp add: text_ok_def cstr_idem)
  moreover have "from_text now (be_class be) v = Some (f_val f)"
    using from_text_print [OF ok assms(2)] be(1) by simp
  then have "fld_make now (be_fnum be) (be_class be) v (be_rlm be) = Some f"
    using be by (cases f) (simp add: fld_make_def)
  ultimately show ?thesis by (cases "be_rlm be") (simp_all add: create_be_def inst_make_def)
qed

text \<open>What storing a field does to the object.\<close>

definition stored :: "nat \<Rightarrow> fld \<Rightarrow> core \<Rightarrow> core" where
  "stored pos f c = (add_field_decoder (f_fnum f) (pos + 1) f c)\<lparr>m_fp := fp_set (m_fp c) (f_fnum f) present\<rparr>"

lemma fast_atoi_tag: "fast_atoi (dec_numeral (unat (k :: u16))) = k"
  using fast_atoi_digits [of "dec_numeral (unat k)", where ?'a = 16] dec_numeral_digits by auto

lemma extract_wire:
  assumes "flat ctx ts f" and "print_value (f_val f) = Some v"
  shows "extract_element FIX8_MAX_FLD_LENGTH FIX8_MAX_FLD_LENGTH (wire f @ rest) =
    Inr (length (wire f), dec_numeral (unat (f_fnum f)), v)"
proof -
  have digits: "\<forall>c \<in> set (dec_numeral (unat (f_fnum f))). isdigit c" using dec_numeral_digits by blast
  have "SOH \<notin> set v" and len: "length v < FIX8_MAX_FLD_LENGTH"
    using assms print_text_ok by (auto simp: flat_def text_ok_def)
  moreover have "length (dec_numeral (unat (f_fnum f))) \<le> 5"
    using unsigned_less [of "f_fnum f", where ?'a = nat] by (intro length_dec_numeral) simp_all
  then have "length (dec_numeral (unat (f_fnum f))) < FIX8_MAX_FLD_LENGTH" by (simp add: FIX8_MAX_FLD_LENGTH_def)
  ultimately show ?thesis
    using extract_element_parts [OF digits, of v FIX8_MAX_FLD_LENGTH FIX8_MAX_FLD_LENGTH rest] assms(2)
    by (simp add: wire_def fld_encode_eq)
qed

lemma dec_loop_field:
  assumes flat: "flat ctx ts f" and ctx: "d_ctx env = ctx"
    and here: "take (d_fsize env - d_off st) (drop (d_off st) (d_from env)) = wire f @ rest"
    and off: "d_off st \<le> d_fsize env"
    and look: "pr_lookup (m_fp (mb (d_m st))) (f_fnum f) = Some t" "\<not> t_has t present" "\<not> t_has t group"
      "t_ftype t \<noteq> ft_Length \<or> f_fnum f = Common_BodyLength"
  shows "dec_loop (Suc n) env permissive st =
    dec_loop n env permissive
      (st\<lparr>d_m := on_core (stored (d_pos st) f) (d_m st), d_pos := d_pos st + 1, d_off := d_off st + length (wire f)\<rparr>)"
proof -
  from flat obtain v where v: "print_value (f_val f) = Some v" by (auto simp: flat_def)
  from flat obtain be where be: "find_be ctx (f_fnum f) = Some be" by (auto simp: flat_def)
  have e: "elem_at env (d_off st) = Inr (length (wire f), dec_numeral (unat (f_fnum f)), v)"
    unfolding elem_at_def here by (rule extract_wire [OF flat v])
  have nz: "length (wire f) \<noteq> 0" using v by (simp add: wire_def fld_encode_eq)
  let ?fp = "m_fp (mb (d_m st))"
  have el: "pr_elem ?fp (pr_find ?fp (f_fnum f)) = Some t" using look(1) by (simp add: pr_elem_find)
  let ?st1 = "st\<lparr>d_off := d_off st + length (wire f)\<rparr>"
  have "dec_store n env (f_fnum f) (pr_find ?fp (f_fnum f)) v ?st1 =
      Inr (st\<lparr>d_m := on_core (stored (d_pos st) f) (d_m st), d_pos := d_pos st + 1, d_off := d_off st + length (wire f)\<rparr>)"
    using be ctx create_be_flat [OF flat v be] el look(3)
    by (simp add: dec_store_def Let_def stored_def add_field_decoder_def fp_set_def on_core_def)
  then show ?thesis
    using off e nz el look(2,4) by (auto simp: Let_def fast_atoi_tag)
qed


section \<open>A sequence of fields\<close>

fun stored_all :: "nat \<Rightarrow> fld list \<Rightarrow> core \<Rightarrow> core" where
  "stored_all pos [] c = c"
| "stored_all pos (f # fs) c = stored_all (pos + 1) fs (stored pos f c)"

abbreviation wires :: "fld list \<Rightarrow> string" where
  "wires fs \<equiv> concat (map wire fs)"

text \<open>The presence set still knows the fields that are to come, and does not think them present.\<close>

definition expects :: "presence \<Rightarrow> fld list \<Rightarrow> bool" where
  "expects fp fs \<longleftrightarrow> pr_ok fp \<and>
     (\<forall>f \<in> set fs. \<exists>t. pr_lookup fp (f_fnum f) = Some t \<and> \<not> t_has t present \<and> \<not> t_has t group \<and>
        \<not> t_has t suppress \<and> (t_ftype t \<noteq> ft_Length \<or> f_fnum f = Common_BodyLength))"

lemma expects_stored:
  assumes "expects (m_fp c) (f # fs)" and "f_fnum f \<notin> f_fnum ` set fs"
  shows "expects (m_fp (stored pos f c)) fs"
proof -
  have ok: "pr_ok (m_fp c)" using assms(1) by (simp add: expects_def)
  have "pr_lookup (fp_set (m_fp c) (f_fnum f) present) (f_fnum g) = pr_lookup (m_fp c) (f_fnum g)" if "g \<in> set fs" for g
  proof -
    have "f_fnum g \<noteq> f_fnum f" using that assms(2) by (metis imageI)
    then show ?thesis by (simp add: pr_lookup_fp_set [OF ok])
  qed
  then show ?thesis using assms(1) ok by (simp add: expects_def stored_def)
qed

lemma dec_loop_fields:
  assumes "\<forall>f \<in> set fs. flat ctx ts f" and "d_ctx env = ctx" and "distinct (map f_fnum fs)"
    and "expects (m_fp (mb (d_m st))) fs"
    and "take (d_fsize env - d_off st) (drop (d_off st) (d_from env)) = wires fs @ rest"
    and "d_off st \<le> d_fsize env" and "d_fsize env \<le> length (d_from env)"
  shows "dec_loop (length fs + n) env permissive st =
    dec_loop n env permissive
      (st\<lparr>d_m := on_core (stored_all (d_pos st) fs) (d_m st), d_pos := d_pos st + length fs,
         d_off := d_off st + length (wires fs)\<rparr>)"
  using assms
proof (induction fs arbitrary: st)
  case Nil
  then show ?case by (simp add: on_core_def)
next
  case (Cons f fs)
  from Cons.prems(4) obtain t where t: "pr_lookup (m_fp (mb (d_m st))) (f_fnum f) = Some t"
    "\<not> t_has t present" "\<not> t_has t group" "t_ftype t \<noteq> ft_Length \<or> f_fnum f = Common_BodyLength"
    by (auto simp: expects_def)
  define st1 where "st1 = st\<lparr>d_m := on_core (stored (d_pos st) f) (d_m st), d_pos := d_pos st + 1,
      d_off := d_off st + length (wire f)\<rparr>"
  from Cons.prems(5) have here: "take (d_fsize env - d_off st) (drop (d_off st) (d_from env)) = wire f @ (wires fs @ rest)"
    by simp
  have fl: "flat ctx ts f" using Cons.prems(1) by simp
  have one: "dec_loop (Suc (length fs + n)) env permissive st = dec_loop (length fs + n) env permissive st1"
    unfolding st1_def by (rule dec_loop_field [OF fl Cons.prems(2) here Cons.prems(6) t])
  have lw: "length (wire f) \<le> d_fsize env - d_off st"
    using arg_cong [OF here, of length] by simp
  have "take (d_fsize env - d_off st1) (drop (d_off st1) (d_from env)) = drop (length (wire f))
      (take (d_fsize env - d_off st) (drop (d_off st) (d_from env)))"
    by (simp add: st1_def drop_take add.commute)
  also have "\<dots> = wires fs @ rest" unfolding here by simp
  finally have nxt: "take (d_fsize env - d_off st1) (drop (d_off st1) (d_from env)) = wires fs @ rest" .
  have "expects (m_fp (mb (d_m st1))) fs"
    using expects_stored [OF Cons.prems(4)] Cons.prems(3) by (simp add: st1_def)
  then have "dec_loop (length fs + n) env permissive st1 =
      dec_loop n env permissive (st1\<lparr>d_m := on_core (stored_all (d_pos st1) fs) (d_m st1),
        d_pos := d_pos st1 + length fs, d_off := d_off st1 + length (wires fs)\<rparr>)"
    using Cons.prems lw nxt by (intro Cons.IH) (simp_all add: st1_def)
  with one show ?case by (simp add: st1_def add.assoc on_core_def)
qed

text \<open>What the object holds afterwards.\<close>

lemma mm_insert_last: "\<forall>x \<in> set m. fst x \<le> k \<Longrightarrow> mm_insert k v m = m @ [(k, v)]"
  by (induction k v m rule: mm_insert.induct) auto

definition numbered :: "nat \<Rightarrow> (u16 \<times> nat) list" where
  "numbered n = map (\<lambda>i. (of_nat (i + 1), i)) [0..<n]"

lemma numbered_Suc: "n + 1 < 65536 \<Longrightarrow> mm_insert (of_nat (n + 1)) n (numbered n) = numbered (n + 1)"
proof -
  assume n: "n + 1 < 65536"
  have "(of_nat (i + 1) :: u16) \<le> of_nat (n + 1)" if "i < n" for i
    using that n by (simp add: word_le_nat_alt unat_of_nat take_bit_nat_eq_self del: of_nat_Suc of_nat_add)
  then have "mm_insert (of_nat (n + 1)) n (numbered n) = numbered n @ [(of_nat (n + 1), n)]"
    by (intro mm_insert_last) (auto simp: numbered_def simp del: of_nat_Suc of_nat_add)
  then show ?thesis by (simp add: numbered_def)
qed

lemma stored_all_snoc: "stored_all pos (fs @ [f]) c = stored (pos + length fs) f (stored_all pos fs c)"
  by (induction fs arbitrary: pos c) simp_all

text \<open>The object after the fields \<open>fs\<close>, in terms of what it was made from.\<close>

definition holds :: "fld list \<Rightarrow> core \<Rightarrow> core \<Rightarrow> bool" where
  "holds fs c0 c \<longleftrightarrow>
     m_objs c = fs \<and> m_pos c = numbered (length fs) \<and> om_ok (m_fields c) \<and> m_unknown c = m_unknown c0 \<and>
     (\<forall>i < length fs. m_find c (f_fnum (fs ! i)) = Some (Some i)) \<and>
     (\<forall>g. g \<notin> f_fnum ` set fs \<longrightarrow> m_find c g = None) \<and> pr_ok (m_fp c) \<and>
     (\<forall>g. pr_lookup (m_fp c) g =
        (if g \<in> f_fnum ` set fs then map_option (\<lambda>t. t_set t present) (pr_lookup (m_fp c0) g)
         else pr_lookup (m_fp c0) g))"

lemma stored_all_holds:
  assumes "m_objs c0 = []" "m_pos c0 = []" "m_fields c0 = []" "pr_ok (m_fp c0)"
    and "distinct (map f_fnum fs)" and "length fs < 65536"
  shows "holds fs c0 (stored_all 0 fs c0)"
  using assms(5,6)
proof (induction fs rule: rev_induct)
  case Nil
  then show ?case using assms(1-4) by (simp add: holds_def numbered_def m_find_def)
next
  case (snoc f fs)
  define c where "c = stored_all 0 fs c0"
  have h: "holds fs c0 c" using snoc by (simp add: c_def)
  have fresh: "f_fnum f \<notin> f_fnum ` set fs" using snoc.prems(1) by auto
  have s: "stored_all 0 (fs @ [f]) c0 = stored (length fs) f c" by (simp add: stored_all_snoc c_def)
  have "m_find (stored (length fs) f c) g =
      (if g = f_fnum f then Some (Some (length fs)) else m_find c g)" for g
    using h fresh by (auto simp: holds_def stored_def add_field_decoder_def m_find_def Let_def map_of_om_insert)
  moreover have "m_pos (stored (length fs) f c) = numbered (length (fs @ [f]))"
    using h numbered_Suc [of "length fs"] snoc.prems(2)
    by (simp add: holds_def stored_def add_field_decoder_def Let_def)
  moreover have "pr_lookup (m_fp (stored (length fs) f c)) g =
      (if g = f_fnum f then map_option (\<lambda>t. t_set t present) (pr_lookup (m_fp c) g) else pr_lookup (m_fp c) g)" for g
    using h by (simp add: holds_def stored_def pr_lookup_fp_set)
  moreover have "om_ok (m_fields (stored (length fs) f c))" "m_objs (stored (length fs) f c) = fs @ [f]"
    "m_unknown (stored (length fs) f c) = m_unknown c0" "pr_ok (m_fp (stored (length fs) f c))"
    using h by (auto simp: holds_def stored_def add_field_decoder_def Let_def)
  ultimately show ?case
    using h fresh unfolding s holds_def
    by (auto simp: nth_append less_Suc_eq image_iff)
qed


section \<open>Where \<open>decode\<close> stops, and what \<open>encode\<close> makes of the result\<close>

text \<open>The text behind the fields of a message body: nothing, or a field that is not one of them.\<close>

definition stops :: "field_trait list \<Rightarrow> string \<Rightarrow> bool" where
  "stops ts rest \<longleftrightarrow> rest = [] \<or>
     (\<exists>(k :: u16) v u. rest = dec_numeral (unat k) @ ''='' @ v @ SOH # u \<and> SOH \<notin> set v \<and>
        length v < FIX8_MAX_FLD_LENGTH \<and> k \<notin> t_fnum ` set ts)"

lemma dec_loop_stops:
  assumes "stops ts rest" and "take (d_fsize env - d_off st) (drop (d_off st) (d_from env)) = rest"
    and unknown: "\<And>g. g \<notin> t_fnum ` set ts \<Longrightarrow> pr_lookup (m_fp (mb (d_m st))) g = None"
  shows "dec_loop (Suc n) env False st = Inr st"
  using assms(1) unfolding stops_def
proof
  assume "rest = []"
  then have "elem_at env (d_off st) = Inr (0, [], [])"
    unfolding elem_at_def assms(2) by (simp add: extract_element_def FIX8_MAX_FLD_LENGTH_def)
  then show ?thesis by simp
next
  assume "\<exists>(k :: u16) v u. rest = dec_numeral (unat k) @ ''='' @ v @ SOH # u \<and> SOH \<notin> set v \<and>
      length v < FIX8_MAX_FLD_LENGTH \<and> k \<notin> t_fnum ` set ts"
  then obtain k :: u16 and v u where k: "rest = dec_numeral (unat k) @ ''='' @ v @ SOH # u" "SOH \<notin> set v"
    "length v < FIX8_MAX_FLD_LENGTH" "k \<notin> t_fnum ` set ts" by blast
  have "length (dec_numeral (unat k)) \<le> 5"
    using unsigned_less [of k, where ?'a = nat] by (intro length_dec_numeral) simp_all
  then have "length (dec_numeral (unat k)) < FIX8_MAX_FLD_LENGTH" by (simp add: FIX8_MAX_FLD_LENGTH_def)
  with k have e: "elem_at env (d_off st) = Inr (length (dec_numeral (unat k)) + length v + 2, dec_numeral (unat k), v)"
    unfolding elem_at_def assms(2) using dec_numeral_digits
    by (simp add: extract_element_parts [of "dec_numeral (unat k)" v _ _ u])
  have "pr_elem (m_fp (mb (d_m st))) (pr_find (m_fp (mb (d_m st))) k) = None"
    using unknown [OF k(4)] by (simp add: pr_elem_find)
  with e show ?thesis by (simp add: Let_def fast_atoi_tag dec_unknown_def)
qed

lemma expects_new:
  assumes "key_sorted t_fnum ts" and "mk_hash ts = Some h" and "\<forall>t \<in> set ts. \<not> t_has t present"
    and "\<forall>f \<in> set fs. flat ctx ts f"
  shows "expects (pr_ctor_hash ts h) fs"
proof -
  have ok: "pr_ok (pr_ctor_hash ts h)" using assms(1,2) by (simp add: pr_ok_def pr_ctor_hash_def)
  have "pr_lookup (pr_ctor_hash ts h) (t_fnum t) = Some t" if "t \<in> set ts" for t
    using that pr_lookup_Some [OF ok] by (simp add: pr_ctor_hash_def)
  with ok assms(3,4) show ?thesis by (fastforce simp: expects_def flat_def)
qed

lemma enc_fields_plain:
  assumes "\<forall>x \<in> set pos. \<exists>v t. fld_encode (m_objs c ! snd x) = Some v \<and>
      pr_lookup (m_fp c) (f_fnum (m_objs c ! snd x)) = Some t \<and> \<not> t_has t suppress \<and> \<not> t_has t group"
  shows "enc_fields c encs pos = Inr (concat (map (\<lambda>x. wire (m_objs c ! snd x)) pos))"
  using assms
proof (induction pos)
  case (Cons x pos)
  obtain k i where x: "x = (k, i)" by (cases x)
  with Cons.prems obtain v t where v: "fld_encode (m_objs c ! i) = Some v"
    "pr_lookup (m_fp c) (f_fnum (m_objs c ! i)) = Some t" "\<not> t_has t suppress" "\<not> t_has t group"
    by auto
  with Cons x show ?case
    by (simp add: hints fp_get_lookup pr_elem_find wire_def)
qed simp

lemma enc_base_holds:
  assumes "holds fs c0 c" and "m_unknown c0 = []" and "expects (m_fp c0) fs" and "\<forall>f \<in> set fs. fld_encode f \<noteq> None"
  shows "enc_base (MsgBase c []) = Inr (wires fs)"
proof -
  have "\<exists>v t. fld_encode (m_objs c ! snd x) = Some v \<and>
      pr_lookup (m_fp c) (f_fnum (m_objs c ! snd x)) = Some t \<and> \<not> t_has t suppress \<and> \<not> t_has t group"
    if "x \<in> set (m_pos c)" for x
  proof -
    from that assms(1) have i: "snd x < length fs" "m_objs c = fs" by (auto simp: holds_def numbered_def)
    then have m: "fs ! snd x \<in> set fs" by simp
    with assms(3) obtain t where t: "pr_lookup (m_fp c0) (f_fnum (fs ! snd x)) = Some t"
      "\<not> t_has t suppress" "\<not> t_has t group" by (auto simp: expects_def)
    then have "pr_lookup (m_fp c) (f_fnum (fs ! snd x)) = Some (t_set t present)"
      using assms(1) m by (simp add: holds_def)
    with t i m assms(4) show ?thesis by auto
  qed
  then have "enc_fields c [] (m_pos c) = Inr (concat (map (\<lambda>x. wire (m_objs c ! snd x)) (m_pos c)))"
    by (intro enc_fields_plain) blast
  also have "map (\<lambda>x. wire (m_objs c ! snd x)) (m_pos c) = map wire fs"
    using assms(1) by (auto simp: holds_def numbered_def intro!: nth_equalityI)
  finally show ?thesis using assms(1,2) by (simp add: holds_def)
qed

lemma fill_flu_nth:
  assumes "\<forall>x \<in> set be. unat (fst x) \<noteq> n"
  shows "fill_flu be flu ! n = flu ! n"
  using assms
proof (induction be arbitrary: flu)
  case (Cons x be)
  then show ?case by (cases x) (simp add: fill_flu_def)
qed (simp add: fill_flu_def)

lemma length_fill_flu [simp]: "length (fill_flu be flu) = length flu"
  by (induction be arbitrary: flu) (auto simp: fill_flu_def)

lemma find_be_filled:
  assumes "c_flu ctx = fill_flu be flu" and "distinct (map fst be)" and "map_of be k = Some e"
    and "unat k = unat g" and "unat k < length flu"
  shows "find_be ctx g = Some e"
proof -
  from assms(3) have "(k, e) \<in> set be" by (rule map_of_SomeD)
  then obtain be1 be2 where be: "be = be1 @ (k, e) # be2" by (auto simp: in_set_conv_decomp)
  with assms(2) have "\<forall>x \<in> set be2. unat (fst x) \<noteq> unat k"
    by (auto simp: be dest!: word_unat_eq_iff [THEN iffD2])
  then have "fill_flu be2 ((fill_flu be1 flu)[unat k := Some e]) ! unat k = Some e"
    using fill_flu_nth assms(5) by simp
  moreover have "fill_flu be flu = fill_flu be2 ((fill_flu be1 flu)[unat k := Some e])"
    by (simp add: fill_flu_def be)
  ultimately show ?thesis using assms(1,4,5) by (simp add: find_be_def)
qed

lemma holds_get:
  assumes "holds fs c0 c" and "f \<in> set fs" and "distinct (map f_fnum fs)"
  shows "get_field c (f_fnum f) = Some f"
proof -
  from assms(2) obtain i where "i < length fs" "fs ! i = f" by (auto simp: in_set_conv_nth)
  with assms(1) show ?thesis by (auto simp: holds_def get_field_def)
qed

lemma find_missing_from_0:
  "\<forall>t \<in> set ts. t_has t ty \<longrightarrow> t_has t present \<Longrightarrow> find_missing_from ts ty = 0"
  by (induction ts) auto

lemma check_missing_holds:
  assumes "holds fs c0 c" and "pr_ok (m_fp c0)" and "p_arr (m_fp c0) = ts"
    and "\<forall>t \<in> set ts. t_has t mandatory \<longrightarrow> t_fnum t \<in> f_fnum ` set fs"
  shows "check_missing ctx c = Inr ()"
proof -
  have ok: "pr_ok (m_fp c)" using assms(1) by (simp add: holds_def)
  have "t_has t present" if "t \<in> set (p_arr (m_fp c))" "t_has t mandatory" for t
  proof -
    from that(1) have l: "pr_lookup (m_fp c) (t_fnum t) = Some t" using pr_lookup_Some [OF ok] by blast
    show ?thesis
    proof (cases "t_fnum t \<in> f_fnum ` set fs")
      case True
      with l assms(1) show ?thesis by (auto simp: holds_def)
    next
      case False
      with l assms(1) have "pr_lookup (m_fp c0) (t_fnum t) = Some t" by (simp add: holds_def)
      then have "t \<in> set ts" using pr_lookup_Some [OF assms(2)] assms(3) by blast
      with assms(4) that(2) False show ?thesis by blast
    qed
  qed
  then have "find_missing_from (p_arr (m_fp c)) mandatory = 0"
    by (intro find_missing_from_0) blast
  then show ?thesis by (simp add: check_missing_def fp_find_missing_def)
qed


section \<open>Properties\<close>



end
