(* ===== verification/Framing.thy ===== *)
theory Framing
  imports RoundTrip
begin

text \<open>
  The frame that \<open>Message::encode\<close> puts around the fields of a message and \<open>Message::factory\<close>
  checks: begin string and body length in front, the check sum behind.
\<close>

section \<open>The frame\<close>

text \<open>A message as the generated classes make it, with the begin string of the metadata.\<close>

definition frame_ok :: "metactx \<Rightarrow> message \<Rightarrow> bool" where
  "frame_ok ctx msg \<longleftrightarrow>
     c_preamble_sz ctx = 6 + length (c_beginStr ctx) \<and> text_ok (c_beginStr ctx) \<and>
     (\<exists>n t rs. m_objs (mb (msg_header msg)) =
        new_fld Common_BeginString (V_string (c_beginStr ctx)) # new_fld Common_BodyLength (V_int n) #
        new_fld Common_MsgType t # rs) \<and>
     (\<exists>v rs. m_objs (mb (msg_trailer msg)) = new_fld Common_CheckSum v # rs)"

definition framed :: "metactx \<Rightarrow> string \<Rightarrow> string" where
  "framed ctx content =
     ''8='' @ c_beginStr ctx @ [SOH] @ ''9='' @ dec_numeral (length content) @ [SOH] @ content"

text \<open>The length of a decimal numeral, as the encoder counts it.\<close>

lemma length_dec: "length (dec_numeral n) = (if n < 10 then 1 else Suc (length (dec_numeral (n div 10))))"
  by (subst dec_numeral.simps) simp

lemma preamble_len_numeral:
  assumes "n < 10000000"
  shows "preamble_len ctx n = c_preamble_sz ctx + length (dec_numeral n)"
proof -
  have s: "length (dec_numeral (m div 10)) + 1 = length (dec_numeral m)" if "\<not> m < 10" for m
    using that by (simp add: length_dec [of m])
  have k: "length (dec_numeral m) = Suc k" if "10 ^ k \<le> m" "m < 10 ^ Suc k" "0 < m" for k m
    using that
  proof (induction k arbitrary: m)
    case (Suc k)
    then have "10 ^ k \<le> m div 10" "m div 10 < 10 ^ Suc k"
      by (simp_all add: less_eq_div_iff_mult_less_eq div_less_iff_less_mult)
    moreover have p: "0 < (10 :: nat) ^ k" by simp
    ultimately have d: "0 < m div 10" by linarith
    then have "\<not> m < 10" by auto
    note \<open>10 ^ k \<le> m div 10\<close> \<open>m div 10 < 10 ^ Suc k\<close> d this
    then show ?case using Suc.IH [of "m div 10"] by (simp add: length_dec [of m])
  qed (simp add: length_dec)
  have one: "length (dec_numeral n) = 1" if "n < 10" using that by (simp add: length_dec)
  consider "n < 10" | "10 ^ 1 \<le> n" "n < 10 ^ Suc 1" | "10 ^ 2 \<le> n" "n < 10 ^ Suc 2" | "10 ^ 3 \<le> n" "n < 10 ^ Suc 3"
    | "10 ^ 4 \<le> n" "n < 10 ^ Suc 4" | "10 ^ 5 \<le> n" "n < 10 ^ Suc 5" | "10 ^ 6 \<le> n" "n < 10 ^ Suc 6"
    using assms by (simp; linarith)
  then show ?thesis
    by cases (insert one k [of 1 n] k [of 2 n] k [of 3 n] k [of 4 n] k [of 5 n] k [of 6 n], simp_all add: preamble_len_def)
qed

lemma sint_of_nat_small: "n < 2 ^ 31 \<Longrightarrow> sint (of_nat n :: i32) = int n"
  by (simp add: sint_uint unsigned_of_nat take_bit_nat_eq_self signed_take_bit_int_eq_self)

lemma print_small: "n < 2 ^ 31 \<Longrightarrow> print_value (V_int (of_nat n)) = Some (dec_numeral n)"
  by (simp add: itoa_nonneg [symmetric] sint_of_nat_small)

lemma chk_sum_bytes_less: "unat (chk_sum_bytes bs) < 256"
proof -
  have "unat (ucast (x AND 0xff :: u64) :: u32) < 256" for x
  proof -
    have "unat (ucast (x AND 0xff) :: u32) \<le> unat (x AND 0xff)" by (simp add: unsigned_ucast_eq take_bit_nat_less_eq_self)
    also have "\<dots> \<le> unat (0xff :: u64)" by (rule word_le_nat_alt [THEN iffD1]) (rule word_and_le1)
    finally show ?thesis by simp
  qed
  then show ?thesis by (simp add: chk_sum_bytes_def split: prod.split)
qed

lemma fmt_chk_sum:
  "length (fmt_chksum (chk_sum_bytes bs)) = 3 \<and> fast_atoi (fmt_chksum (chk_sum_bytes bs)) = (chk_sum_bytes bs :: u32)"
  using fmt_chksum_spec [OF chk_sum_bytes_less [of bs]] by simp

lemma encode_frame:
  assumes "frame_ok ctx msg" and "msg_encode ctx msg = Inr (msg', s)"
  shows "\<exists>content chk. s = framed ctx content @ ''10='' @ chk @ [SOH] \<and> length chk = 3 \<and>
    calc_chksum (s @ [NUL]) (length s) 0 (int (length s - 7)) = Some (fast_atoi chk) \<and>
    (length s < 2063 \<longrightarrow> fast_atoi chk = (of_nat (byte_sum (framed ctx content)) :: u32))"
proof -
  obtain n t rs where h: "m_objs (mb (msg_header msg)) =
      new_fld Common_BeginString (V_string (c_beginStr ctx)) # new_fld Common_BodyLength (V_int n) #
      new_fld Common_MsgType t # rs"
    using assms(1) by (auto simp: frame_ok_def)
  obtain v rt where t: "m_objs (mb (msg_trailer msg)) = new_fld Common_CheckSum v # rt"
    using assms(1) by (auto simp: frame_ok_def)
  note tags = Common_BeginString_def Common_BodyLength_def Common_CheckSum_def
  have d: "dec_numeral 8 = ''8''" "dec_numeral 9 = ''9''" "dec_numeral 10 = ''10''" by code_simp+
  from assms(2) obtain hs bs ts where
    parts: "enc_base (on_core (set_value hdr_msg_type (V_string (m_msgType (mb (msg_body msg))))) (msg_header msg)) = Inr hs"
      "enc_base (msg_body msg) = Inr bs" "enc_base (msg_trailer msg) = Inr ts"
    unfolding msg_encode_def Let_def bind_Inr by blast
  define content where "content = hs @ bs @ ts"
  let ?pre = "''8='' @ c_beginStr ctx @ [SOH] @ ''9='' @ dec_numeral (length content) @ [SOH]"
  have s8: "enc_obj (mb (on_core (clear_flag Common_BeginString suppress)
      (on_core (set_value hdr_msg_type w) (msg_header msg)))) hdr_begin_string = Inr (''8='' @ c_beginStr ctx @ [SOH])" for w
    by (simp add: enc_obj_def clear_flag_def set_value_def h hdr_msg_type_def hdr_begin_string_def fld_encode_eq
        new_fld_def tags d)
  have s9: "enc_obj (mb (on_core (set_value hdr_body_length (V_int k) \<circ> clear_flag Common_BodyLength suppress)
      (on_core (clear_flag Common_BeginString suppress)
      (on_core (set_value hdr_msg_type w) (msg_header msg))))) hdr_body_length =
      Inr (''9='' @ itoa (sint k) 10 @ [SOH])" for w k
    by (simp add: enc_obj_def clear_flag_def set_value_def h hdr_msg_type_def hdr_body_length_def fld_encode_eq
        new_fld_def tags d)
  have s10: "enc_obj (mb (on_core (clear_flag Common_CheckSum suppress \<circ> set_value trl_check_sum (V_string w))
      (msg_trailer msg))) trl_check_sum = Inr (''10='' @ w @ [SOH])" for w
    by (simp add: enc_obj_def clear_flag_def set_value_def t trl_check_sum_def fld_encode_eq new_fld_def tags d)
  note e = assms(2) [unfolded msg_encode_def Let_def parts bind_simps content_def [symmetric] s8 s9 s10]
  from e have len: "length content + 8 \<le> FIX8_MAX_MSG_LENGTH" by (simp split: if_splits)
  then have small: "length content < 10000000" "length content < 2 ^ 31" by (simp_all add: FIX8_MAX_MSG_LENGTH_def)
  have it: "itoa (sint (of_nat (length content) :: i32)) 10 = dec_numeral (length content)"
    using sint_of_nat_small [OF small(2)] itoa_nonneg by simp
  have hl: "preamble_len ctx (length content) = length ?pre"
    using preamble_len_numeral [OF small(1), of ctx] assms(1) by (simp add: frame_ok_def)
  from e have "s = framed ctx content @ ''10='' @ fmt_chksum (chk_sum_bytes (framed ctx content)) @ [SOH]"
    unfolding it hl by (simp add: framed_def split: if_splits)
  moreover have "length (framed ctx content @ ''10='' @ chk @ [SOH]) - 7 = length (framed ctx content)"
    if "length chk = 3" for chk using that by simp
  ultimately show ?thesis
    using fmt_chk_sum [of "framed ctx content"] chk_sum_bytes_spec [of "framed ctx content"]
    by (intro exI [of _ content] exI [of _ "fmt_chksum (chk_sum_bytes (framed ctx content))"])
      (auto simp: calc_chksum_def Let_def)
qed

section \<open>Properties\<close>

text \<open>
  C5: an encoded message is framed: it starts with the begin string and a body length that counts
  exactly the bytes up to the check sum, and ends with a check sum of three digits, which is the
  one \<open>factory\<close> computes over the received bytes and, for fewer than 2056 bytes, the sum of all
  bytes before it modulo 256.
\<close>

theorem encode_framed:
  assumes "frame_ok ctx msg" and "msg_encode ctx msg = Inr (msg', s)"
  shows "\<exists>content chk. s = framed ctx content @ ''10='' @ chk @ [SOH] \<and> length chk = 3 \<and>
    calc_chksum (s @ [NUL]) (length s) 0 (int (length s - 7)) = Some (fast_atoi chk) \<and>
    (length s < 2063 \<longrightarrow> fast_atoi chk = (of_nat (byte_sum (framed ctx content)) :: u32))"
  using assms by (rule encode_frame)

text \<open>A heartbeat of the sample dictionary.\<close>

definition sample_heartbeat :: message where
  "sample_heartbeat = create_message (sample_meta True) (snd (sample_bme True ! 0)) False"

definition sample_text :: string where
  "sample_text = ''8=FIX.4.2'' @ SOH # ''9=5'' @ SOH # ''35=0'' @ SOH # ''10=161'' @ [SOH]"

lemma sample_frame_ok: "frame_ok (sample_meta True) sample_heartbeat"
proof -
  let ?ctx = "sample_meta True"
  have "m_objs (mb (msg_header sample_heartbeat)) =
      [new_fld Common_BeginString (V_string (c_beginStr ?ctx)), new_fld Common_BodyLength (V_int 0),
       new_fld Common_MsgType (V_string [])]"
    "m_objs (mb (msg_trailer sample_heartbeat)) = [new_fld Common_CheckSum (V_string [])]"
    by (simp_all add: sample_heartbeat_def create_message_def mk_hdr_def mk_trl_def add_field_pos_def
        add_field_itr_def new_core_def Let_def)
  then show ?thesis by (auto simp: frame_ok_def sample_meta_def)
qed

lemma sample_encode: "\<exists>msg'. msg_encode (sample_meta True) sample_heartbeat = Inr (msg', sample_text)"
proof -
  have "map_option snd (case msg_encode (sample_meta True) sample_heartbeat of Inr r \<Rightarrow> Some r | Inl _ \<Rightarrow> None) =
      Some sample_text" by code_simp
  then show ?thesis by (auto split: sum.splits)
qed

theorem encode_framed_witness:
  "\<exists>content chk. sample_text = framed (sample_meta True) content @ ''10='' @ chk @ [SOH] \<and> length chk = 3 \<and>
    calc_chksum (sample_text @ [NUL]) (length sample_text) 0 (int (length sample_text - 7)) = Some (fast_atoi chk)"
proof -
  obtain msg' where "msg_encode (sample_meta True) sample_heartbeat = Inr (msg', sample_text)"
    using sample_encode by blast
  from encode_framed [OF sample_frame_ok this] show ?thesis by blast
qed

end
