(* ===== verification/Reader.thy ===== *)
theory Reader
  imports Framing
begin

text \<open>
  Reading messages from a socket (\<^verbatim>\<open>FIXReader\<close> of \<^verbatim>\<open>include/fix8/connection.hpp\<close> and
  \<^verbatim>\<open>runtime/connection.cpp\<close>): \<open>sockRead\<close> with and without the read buffer, and \<open>read\<close>, which cuts the
  stream into messages. The socket is the list of the chunks it will deliver; when it is exhausted
  the peer has gone.
\<close>

section \<open>The socket\<close>

type_synonym socket = "string list"

text \<open>\<^verbatim>\<open>receiveBytes\<close>: at most \<open>n\<close> bytes of the first chunk, nothing at the end.\<close>

fun receiveBytes :: "nat \<Rightarrow> socket \<Rightarrow> string \<times> socket" where
  "receiveBytes n [] = ([], [])"
| "receiveBytes n (c # cs) = (take n c, if length c \<le> n then cs else drop n c # cs)"

definition connection_gone :: error where
  "connection_gone = PeerResetConnection ''sockRead: connection gone''"

function sockRead_loop :: "nat \<Rightarrow> string \<Rightarrow> socket \<Rightarrow> error + string \<times> socket" where
  "sockRead_loop remaining got sock =
     (if remaining = 0 then return (got, sock)
      else
        let (bs, sock') = receiveBytes remaining sock
        in if bs = [] then throw connection_gone
           else sockRead_loop (remaining - length bs) (got @ bs) sock')"
  by pat_completeness auto
termination
  by (relation "measure (\<lambda>(remaining, _, _). remaining)") auto

declare sockRead_loop.simps [simp del]

definition sockRead :: "nat \<Rightarrow> socket \<Rightarrow> error + string \<times> socket" where
  "sockRead sz sock = sockRead_loop sz [] sock"

section \<open>The buffered socket\<close>

text \<open>
  The buffer has room for two messages; \<open>rb_data\<close> is what has been written to it and \<open>rb_rptr\<close> how
  much of it has been read.
\<close>

record rbuf =
  rb_data :: string
  rb_rptr :: nat
  rb_sock :: socket

definition READ_BUFFER :: nat where "READ_BUFFER = 2 * FIX8_MAX_MSG_LENGTH"

function realSockRead :: "nat \<Rightarrow> nat \<Rightarrow> rbuf \<Rightarrow> error + rbuf" where
  "realSockRead remaining maxremaining rb =
     (if 0 < remaining \<and> length (rb_data rb) < READ_BUFFER
      then
        let (bs, sock') = receiveBytes maxremaining (rb_sock rb)
        in if bs = [] then throw connection_gone
           else realSockRead (remaining - length bs) (maxremaining - length bs)
                  (rb\<lparr>rb_data := rb_data rb @ bs, rb_sock := sock'\<rparr>)
      else return rb)"
  by pat_completeness auto
termination
  by (relation "measure (\<lambda>(remaining, _, _). remaining)") auto

declare realSockRead.simps [simp del]

definition sockRead_buffered :: "nat \<Rightarrow> rbuf \<Rightarrow> error + string \<times> rbuf" where
  "sockRead_buffered sz rb =
     (let available = length (rb_data rb) - rb_rptr rb
      in bind (if available < sz
               then let max_sz = READ_BUFFER - length (rb_data rb)
                    in realSockRead (min (sz - available) max_sz) (min FIX8_MAX_MSG_LENGTH max_sz) rb
               else return rb) (\<lambda>rb1.
         let n = min (length (rb_data rb1) - rb_rptr rb1) sz;
             where = take n (drop (rb_rptr rb1) (rb_data rb1));
             rptr = rb_rptr rb1 + n
         in return (where,
              if FIX8_MAX_MSG_LENGTH \<le> rptr
              then rb1\<lparr>rb_data := drop FIX8_MAX_MSG_LENGTH (rb_data rb1), rb_rptr := rptr - FIX8_MAX_MSG_LENGTH\<rparr>
              else rb1\<lparr>rb_rptr := rptr\<rparr>)))"

section \<open>Messages\<close>

text \<open>
  \<open>read\<close> over a way \<open>rd\<close> of reading bytes. The inner loop reads the rest of the body length; it ends
  at the separator or when the buffer is full. \<open>None\<close> is the result \<^verbatim>\<open>false\<close>.
\<close>

fun read_body_length ::
  "(nat \<Rightarrow> 's \<Rightarrow> error + string \<times> 's) \<Rightarrow> nat \<Rightarrow> string \<Rightarrow> 's \<Rightarrow> error + string option \<times> 's" where
  "read_body_length rd 0 msg_buf s = return (Some msg_buf, s)"
| "read_body_length rd (Suc k) msg_buf s =
     bind (rd 1 s) (\<lambda>(b, s').
     if length b \<noteq> 1 then return (None, s')
     else
       let bt = hd b
       in if \<not> isdigit bt \<and> bt \<noteq> SOH then throw (IllegalMessage (cstr msg_buf))
          else if bt = SOH then return (Some (msg_buf @ [bt]), s')
          else read_body_length rd k (msg_buf @ [bt]) s')"

definition CHKSUM_SZ :: nat where "CHKSUM_SZ = 7"

definition set_preamble_sz :: "metactx \<Rightarrow> nat" where
  "set_preamble_sz ctx = 2 + length (c_beginStr ctx) + 1 + 3"

definition FIXReader_read ::
  "(nat \<Rightarrow> 's \<Rightarrow> error + string \<times> 's) \<Rightarrow> metactx \<Rightarrow> 's \<Rightarrow> error + string option \<times> 's" where
  "FIXReader_read rd ctx s =
     (let bg_sz = set_preamble_sz ctx in
      bind (rd bg_sz s) (\<lambda>(pre, s1).
      if length pre \<noteq> bg_sz then return (None, s1)
      else
        bind (read_body_length rd (FIX8_MAX_MSG_LENGTH - bg_sz) pre s1) (\<lambda>(hd_opt, s2).
        case hd_opt of
          None \<Rightarrow> return (None, s2)
        | Some to \<Rightarrow>
            bind (extract_element MAX_MSGTYPE_FIELD_LEN FIX8_MAX_FLD_LENGTH to) (\<lambda>(r1, tag1, val1).
            if r1 = 0 then throw (IllegalMessage to)
            else if take 1 tag1 \<noteq> ''8'' then throw (IllegalMessage to)
            else if c_beginStr ctx \<noteq> cstr val1 then throw (InvalidVersion (cstr val1))
            else
              bind (extract_element MAX_MSGTYPE_FIELD_LEN FIX8_MAX_FLD_LENGTH (drop r1 to)) (\<lambda>(r2, tag2, val2).
              if r2 = 0 then throw (IllegalMessage to)
              else if take 1 tag2 \<noteq> ''9'' then throw (IllegalMessage to)
              else
                let mlen = (fast_atoi val2 :: u32)
                in if mlen = 0 \<or> FIX8_MAX_MSG_LENGTH - bg_sz - CHKSUM_SZ < unat mlen
                   then throw (InvalidBodyLength mlen)
                   else
                     bind (rd (unat mlen) s2) (\<lambda>(body, s3).
                     if length body \<noteq> unat mlen then return (None, s3)
                     else
                       bind (rd CHKSUM_SZ s3) (\<lambda>(chk, s4).
                       if length chk \<noteq> CHKSUM_SZ then return (None, s4)
                       else return (Some (to @ body @ chk), s4))))))))"

section \<open>What a source of bytes promises\<close>

locale byte_source =
  fixes rd :: "nat \<Rightarrow> 's \<Rightarrow> error + string \<times> 's"
    and pending :: "'s \<Rightarrow> string"
    and ok :: "'s \<Rightarrow> bool"
  assumes rd_bytes: "ok s \<Longrightarrow> n \<le> FIX8_MAX_MSG_LENGTH \<Longrightarrow> n \<le> length (pending s) \<Longrightarrow>
    \<exists>s'. rd n s = Inr (take n (pending s), s') \<and> pending s' = drop n (pending s) \<and> ok s'"
begin

lemma rd_append:
  assumes "ok s" and "pending s = bs @ rest" and "length bs \<le> FIX8_MAX_MSG_LENGTH"
  obtains s' where "rd (length bs) s = Inr (bs, s')" "pending s' = rest" "ok s'"
  using rd_bytes [of s "length bs"] assms by auto

lemma read_digits:
  assumes "\<forall>c \<in> set ds. isdigit c" and "ok s" and "pending s = ds @ SOH # rest" and "length ds < k"
  shows "\<exists>s'. read_body_length rd k buf s = Inr (Some (buf @ ds @ [SOH]), s') \<and> pending s' = rest \<and> ok s'"
  using assms
proof (induction ds arbitrary: k buf s)
  case Nil
  then obtain j where k: "k = Suc j" by (metis list.size(3) less_nat_zero_code not0_implies_Suc)
  obtain s' where "rd 1 s = Inr ([SOH], s')" "pending s' = rest" "ok s'"
    using rd_append [of s "[SOH]" rest] Nil by (auto simp: FIX8_MAX_MSG_LENGTH_def)
  with k show ?case by simp
next
  case (Cons c ds)
  then obtain j where k: "k = Suc j" by (cases k) auto
  obtain s' where s': "rd 1 s = Inr ([c], s')" "pending s' = ds @ SOH # rest" "ok s'"
    using rd_append [of s "[c]" "ds @ SOH # rest"] Cons.prems by (auto simp: FIX8_MAX_MSG_LENGTH_def)
  have "isdigit c" "c \<noteq> SOH" using Cons.prems(1) isdigit_neq by auto
  with Cons.IH [of s' j "buf @ [c]"] Cons.prems s' k show ?case by simp
qed

lemma read_message:
  assumes "text_ok (c_beginStr ctx)" and "length (c_beginStr ctx) < FIX8_MAX_FLD_LENGTH" and "content \<noteq> []"
    and "length tail = CHKSUM_SZ" and len: "length (framed ctx content @ tail) \<le> FIX8_MAX_MSG_LENGTH"
    and "ok s" and "pending s = framed ctx content @ tail @ rest"
  shows "\<exists>s'. FIXReader_read rd ctx s = Inr (Some (framed ctx content @ tail), s') \<and> pending s' = rest \<and> ok s'"
proof -
  let ?bstr = "c_beginStr ctx" and ?n = "length content"
  obtain d ds where D: "dec_numeral ?n = d # ds" using dec_numeral_nonempty [of ?n] by (cases "dec_numeral ?n") auto
  have digits: "\<forall>c \<in> set (dec_numeral ?n). isdigit c" using dec_numeral_digits by blast
  define pre where "pre = ''8='' @ ?bstr @ SOH # ''9='' @ [d]"
  define to where "to = pre @ ds @ [SOH]"
  have framed: "framed ctx content = to @ content" by (simp add: framed_def to_def pre_def D)
  have bg: "length pre = set_preamble_sz ctx" by (simp add: pre_def set_preamble_sz_def)
  have l: "length pre + length ds + 1 + ?n + 7 \<le> FIX8_MAX_MSG_LENGTH"
    using len assms(4) by (simp add: framed to_def CHKSUM_SZ_def)
  obtain s1 where s1: "rd (length pre) s = Inr (pre, s1)" "pending s1 = ds @ SOH # content @ tail @ rest" "ok s1"
    using rd_append [OF assms(6), of pre "ds @ SOH # content @ tail @ rest"] assms(7) l by (auto simp: framed to_def)
  have k: "length ds < FIX8_MAX_MSG_LENGTH - length pre" using l by linarith
  have ds: "\<forall>c \<in> set ds. isdigit c" using digits D by simp
  obtain s2 where s2: "read_body_length rd (FIX8_MAX_MSG_LENGTH - length pre) pre s1 = Inr (Some to, s2)"
    "pending s2 = content @ tail @ rest" "ok s2"
    using read_digits [OF ds s1(3,2) k, of pre] by (auto simp: to_def)
  obtain s3 where s3: "rd ?n s2 = Inr (content, s3)" "pending s3 = tail @ rest" "ok s3"
    using rd_append [OF s2(3), of content "tail @ rest"] s2(2) l by auto
  obtain s4 where s4: "rd (length tail) s3 = Inr (tail, s4)" "pending s4 = rest" "ok s4"
    using rd_append [OF s3(3), of tail rest] s3(2) l assms(4) by (auto simp: CHKSUM_SZ_def)
  have dig: "isdigit (CHR ''8'')" "isdigit (CHR ''9'')" by (simp_all add: isdigit_def uchar_def)
  have e1: "extract_element MAX_MSGTYPE_FIELD_LEN FIX8_MAX_FLD_LENGTH to =
      Inr (length ?bstr + 3, ''8'', ?bstr)"
    using extract_element_parts [of "''8''" ?bstr MAX_MSGTYPE_FIELD_LEN FIX8_MAX_FLD_LENGTH "''9='' @ dec_numeral ?n @ [SOH]"]
      assms(1,2) dig by (simp add: to_def pre_def D text_ok_def MAX_MSGTYPE_FIELD_LEN_def)
  have drop: "drop (length ?bstr + 3) to = ''9='' @ dec_numeral ?n @ [SOH]" by (simp add: to_def pre_def D eval_nat_numeral)
  have "SOH \<notin> set (dec_numeral ?n)" using digits isdigit_neq by blast
  moreover have "length (dec_numeral ?n) < FIX8_MAX_FLD_LENGTH"
    using l length_dec_numeral [of ?n 5] by (simp add: FIX8_MAX_FLD_LENGTH_def FIX8_MAX_MSG_LENGTH_def)
  ultimately have e2: "extract_element MAX_MSGTYPE_FIELD_LEN FIX8_MAX_FLD_LENGTH (''9='' @ dec_numeral ?n @ [SOH]) =
      Inr (length (dec_numeral ?n) + 3, ''9'', dec_numeral ?n)"
    using extract_element_parts [of "''9''" "dec_numeral ?n" MAX_MSGTYPE_FIELD_LEN FIX8_MAX_FLD_LENGTH "[]"] dig
    by (simp add: MAX_MSGTYPE_FIELD_LEN_def)
  have m: "fast_atoi (dec_numeral ?n) = (of_nat ?n :: u32)" using fast_atoi_digits [OF digits] by simp
  have u: "unat (of_nat ?n :: u32) = ?n" using l by (simp add: unat_of_nat take_bit_nat_eq_self FIX8_MAX_MSG_LENGTH_def)
  then have nz: "(of_nat ?n :: u32) \<noteq> 0" using assms(3) by (metis length_0_conv unat_0)
  have c: "cstr ?bstr = ?bstr" using assms(1) by (simp add: text_ok_def cstr_idem)
  have "\<not> FIX8_MAX_MSG_LENGTH - length pre - CHKSUM_SZ < ?n" using l by (simp add: CHKSUM_SZ_def)
  then show ?thesis
    using s1(1) s2(1) s3(1) s4 e1 e2 u nz assms(4)
    by (simp add: FIXReader_read_def Let_def bg [symmetric] drop c m framed)
qed

end

section \<open>The two sources\<close>

lemma receiveBytes_concat:
  assumes "receiveBytes n sock = (bs, sock')" and "[] \<notin> set sock" and "0 < n" and "concat sock \<noteq> []"
  shows "concat sock = bs @ concat sock' \<and> bs \<noteq> [] \<and> length bs \<le> n \<and> [] \<notin> set sock'"
  using assms by (cases sock) (auto split: if_splits)

lemma sockRead_loop_bytes:
  assumes "[] \<notin> set sock" and "n \<le> length (concat sock)"
  shows "\<exists>sock'. sockRead_loop n got sock = Inr (got @ take n (concat sock), sock') \<and>
    concat sock' = drop n (concat sock) \<and> [] \<notin> set sock'"
  using assms
proof (induction n got sock rule: sockRead_loop.induct)
  case (1 n got sock)
  show ?case
  proof (cases "n = 0")
    case True
    with 1 show ?thesis by (subst sockRead_loop.simps) simp
  next
    case False
    obtain bs sock' where r: "receiveBytes n sock = (bs, sock')" by (rule prod.exhaust)
    have ne: "concat sock \<noteq> []" using 1(3) False by (metis le_zero_eq list.size(3))
    with 1(2,3) False r receiveBytes_concat [of n sock bs sock', OF r 1(2) _ ne] have c: "concat sock = bs @ concat sock'"
      "bs \<noteq> []" "length bs \<le> n" "[] \<notin> set sock'" by auto
    have le: "n - length bs \<le> length (concat sock')" using 1(3) c(1) by simp
    obtain sock'' where
      "sockRead_loop (n - length bs) (got @ bs) sock' = Inr ((got @ bs) @ take (n - length bs) (concat sock'), sock'')"
      "concat sock'' = drop (n - length bs) (concat sock')" "[] \<notin> set sock''"
      using 1(1) [OF False r [symmetric] refl c(2) c(4) le] by auto
    with False r c show ?thesis by (subst sockRead_loop.simps) (auto simp: Let_def)
  qed
qed

interpretation sock: byte_source sockRead concat "\<lambda>sock. [] \<notin> set sock"
proof unfold_locales
  fix s :: socket and n
  assume "[] \<notin> set s" "n \<le> length (concat s)"
  then show "\<exists>s'. sockRead n s = Inr (take n (concat s), s') \<and> concat s' = drop n (concat s) \<and> [] \<notin> set s'"
    using sockRead_loop_bytes [of s n "[]"] by (auto simp: sockRead_def)
qed

definition rb_pending :: "rbuf \<Rightarrow> string" where
  "rb_pending rb = drop (rb_rptr rb) (rb_data rb) @ concat (rb_sock rb)"

definition rb_ok :: "rbuf \<Rightarrow> bool" where
  "rb_ok rb \<longleftrightarrow> rb_rptr rb \<le> length (rb_data rb) \<and> rb_rptr rb < FIX8_MAX_MSG_LENGTH \<and>
     length (rb_data rb) \<le> READ_BUFFER \<and> [] \<notin> set (rb_sock rb)"

lemma realSockRead_bytes:
  assumes "[] \<notin> set (rb_sock rb)" and "k \<le> m" and "length (rb_data rb) + m \<le> READ_BUFFER" and "k \<le> length (concat (rb_sock rb))"
  shows "\<exists>rb'. realSockRead k m rb = Inr rb' \<and> rb_rptr rb' = rb_rptr rb \<and>
    rb_data rb' @ concat (rb_sock rb') = rb_data rb @ concat (rb_sock rb) \<and>
    length (rb_data rb) + k \<le> length (rb_data rb') \<and> length (rb_data rb') \<le> READ_BUFFER \<and> [] \<notin> set (rb_sock rb')"
  using assms
proof (induction k m rb rule: realSockRead.induct)
  case (1 k m rb)
  show ?case
  proof (cases "k = 0")
    case True
    with 1 show ?thesis by (subst realSockRead.simps) simp
  next
    case False
    then have c: "0 < k \<and> length (rb_data rb) < READ_BUFFER" using 1(3,4) by linarith
    obtain bs sock' where r: "receiveBytes m (rb_sock rb) = (bs, sock')" by (rule prod.exhaust)
    have ne: "concat (rb_sock rb) \<noteq> []" using 1(5) False by (metis le_zero_eq list.size(3))
    have b: "concat (rb_sock rb) = bs @ concat sock'"
      "bs \<noteq> []" "length bs \<le> m" "[] \<notin> set sock'"
      using 1(3) False receiveBytes_concat [OF r 1(2) _ ne] by auto
    let ?rb = "rb\<lparr>rb_data := rb_data rb @ bs, rb_sock := sock'\<rparr>"
    have le: "k - length bs \<le> m - length bs" "length (rb_data ?rb) + (m - length bs) \<le> READ_BUFFER"
      "k - length bs \<le> length (concat (rb_sock ?rb))" using 1(3-5) b by auto
    obtain rb' where rb': "realSockRead (k - length bs) (m - length bs) ?rb = Inr rb'" "rb_rptr rb' = rb_rptr rb"
      "rb_data rb' @ concat (rb_sock rb') = rb_data ?rb @ concat (rb_sock ?rb)"
      "length (rb_data ?rb) + (k - length bs) \<le> length (rb_data rb')" "length (rb_data rb') \<le> READ_BUFFER"
      "[] \<notin> set (rb_sock rb')"
      using 1(1) [OF c r [symmetric] refl b(2)] b(4) le by auto
    from c r b(2) have "realSockRead k m rb = Inr rb'" by (subst realSockRead.simps) (simp add: rb'(1))
    with rb' b show ?thesis by auto
  qed
qed

interpretation rbuf: byte_source sockRead_buffered rb_pending rb_ok
proof unfold_locales
  fix rb n
  assume ok: "rb_ok rb" and n: "n \<le> FIX8_MAX_MSG_LENGTH" "n \<le> length (rb_pending rb)"
  let ?M = FIX8_MAX_MSG_LENGTH and ?av = "length (rb_data rb) - rb_rptr rb" and ?max = "READ_BUFFER - length (rb_data rb)"
  define r where "r = (if ?av < n then realSockRead (min (n - ?av) ?max) (min ?M ?max) rb else Inr rb)"
  have o: "rb_rptr rb \<le> length (rb_data rb)" "rb_rptr rb < ?M" "length (rb_data rb) \<le> READ_BUFFER" "[] \<notin> set (rb_sock rb)"
    using ok by (auto simp: rb_ok_def)
  have "\<exists>rb1. r = Inr rb1 \<and> rb_rptr rb1 = rb_rptr rb \<and>
      rb_data rb1 @ concat (rb_sock rb1) = rb_data rb @ concat (rb_sock rb) \<and>
      rb_rptr rb + n \<le> length (rb_data rb1) \<and> length (rb_data rb1) \<le> READ_BUFFER \<and> [] \<notin> set (rb_sock rb1)"
  proof (cases "?av < n")
    case True
    have e: "min (n - ?av) ?max = n - ?av" using n o by (simp add: READ_BUFFER_def)
    have "n - ?av \<le> length (concat (rb_sock rb))" using n(2) by (simp add: rb_pending_def)
    moreover have "n - ?av \<le> min ?M ?max" using n o by (auto simp: READ_BUFFER_def)
    moreover have "length (rb_data rb) + min ?M ?max \<le> READ_BUFFER" using o by simp
    ultimately obtain rb1 where rb1: "realSockRead (n - ?av) (min ?M ?max) rb = Inr rb1" "rb_rptr rb1 = rb_rptr rb"
      "rb_data rb1 @ concat (rb_sock rb1) = rb_data rb @ concat (rb_sock rb)"
      "length (rb_data rb) + (n - ?av) \<le> length (rb_data rb1)" "length (rb_data rb1) \<le> READ_BUFFER" "[] \<notin> set (rb_sock rb1)"
      using realSockRead_bytes [of rb "n - ?av" "min ?M ?max"] o(4) by blast
    have "r = Inr rb1" using True rb1(1) by (simp add: r_def e)
    moreover have "rb_rptr rb + n \<le> length (rb_data rb1)" using rb1(4) True o(1) by linarith
    ultimately show ?thesis using rb1 by blast
  next
    case False
    with o show ?thesis by (auto simp: r_def)
  qed
  then obtain rb1 where rb1: "r = Inr rb1" "rb_rptr rb1 = rb_rptr rb"
    "rb_data rb1 @ concat (rb_sock rb1) = rb_data rb @ concat (rb_sock rb)"
    "rb_rptr rb + n \<le> length (rb_data rb1)" "length (rb_data rb1) \<le> READ_BUFFER" "[] \<notin> set (rb_sock rb1)" by blast
  have p: "rb_pending rb = drop (rb_rptr rb) (rb_data rb1) @ concat (rb_sock rb1)"
  proof -
    have "rb_pending rb = drop (rb_rptr rb) (rb_data rb1 @ concat (rb_sock rb1))"
      using o(1) by (simp add: rb_pending_def rb1(3))
    then show ?thesis using rb1(4) by simp
  qed
  define rb2 where "rb2 = (if ?M \<le> rb_rptr rb + n
      then rb1\<lparr>rb_data := drop ?M (rb_data rb1), rb_rptr := rb_rptr rb + n - ?M\<rparr> else rb1\<lparr>rb_rptr := rb_rptr rb + n\<rparr>)"
  have "sockRead_buffered n rb = bind r (\<lambda>rb1. let k = min (length (rb_data rb1) - rb_rptr rb1) n in
      return (take k (drop (rb_rptr rb1) (rb_data rb1)), if ?M \<le> rb_rptr rb1 + k
      then rb1\<lparr>rb_data := drop ?M (rb_data rb1), rb_rptr := rb_rptr rb1 + k - ?M\<rparr> else rb1\<lparr>rb_rptr := rb_rptr rb1 + k\<rparr>))"
    by (simp add: sockRead_buffered_def r_def Let_def)
  also have "\<dots> = Inr (take n (rb_pending rb), rb2)"
  proof -
    have "min (length (rb_data rb1) - rb_rptr rb1) n = n" using rb1(2,4) by simp
    then show ?thesis using rb1 by (simp add: rb2_def p)
  qed
  finally have rd: "sockRead_buffered n rb = Inr (take n (rb_pending rb), rb2)" .
  have "rb_pending rb2 = drop n (rb_pending rb)"
    using rb1(2,4) by (simp add: rb2_def p) (simp add: rb_pending_def add.commute)
  moreover have "rb_ok rb2"
    using rb1 o n by (auto simp: rb2_def rb_ok_def READ_BUFFER_def)
  ultimately show "\<exists>s'. sockRead_buffered n rb = Inr (take n (rb_pending rb), s') \<and>
      rb_pending s' = drop n (rb_pending rb) \<and> rb_ok s'" using rd by blast
qed

section \<open>Properties\<close>

text \<open>
  C11: what one side encodes the other side reads back from the socket, whatever the chunks it comes
  in, with and without the read buffer: exactly the text of the message, with everything that
  follows left for the next call.
\<close>

theorem reader_reads_encoded:
  assumes "frame_ok ctx msg" and "msg_encode ctx msg = Inr (msg', txt)"
    and "length txt \<le> FIX8_MAX_MSG_LENGTH" and "length (c_beginStr ctx) < FIX8_MAX_FLD_LENGTH"
    and "\<nexists>chk. txt = framed ctx [] @ chk"
    and "concat sock = txt @ rest" and "[] \<notin> set sock"
    and "rb_pending rb = txt @ rest" and "rb_ok rb"
  shows "(\<exists>sock'. FIXReader_read sockRead ctx sock = Inr (Some txt, sock') \<and> concat sock' = rest \<and> [] \<notin> set sock') \<and>
    (\<exists>rb'. FIXReader_read sockRead_buffered ctx rb = Inr (Some txt, rb') \<and> rb_pending rb' = rest \<and> rb_ok rb')"
proof -
  obtain content chk where t: "txt = framed ctx content @ ''10='' @ chk @ [SOH]" "length chk = 3"
    using encode_frame [OF assms(1,2)] by blast
  have ne: "content \<noteq> []" using t assms(5) by blast
  have begn: "text_ok (c_beginStr ctx)" using assms(1) by (simp add: frame_ok_def)
  have sz: "length (''10='' @ chk @ [SOH]) = CHKSUM_SZ" using t(2) by (simp add: CHKSUM_SZ_def)
  note len = assms(3) [unfolded t(1)]
  show ?thesis
    using sock.read_message [OF begn assms(4) ne sz len assms(7), of rest]
      rbuf.read_message [OF begn assms(4) ne sz len assms(9), of rest] assms(6,8) by (simp add: t(1))
qed

theorem reader_reads_encoded_witness:
  "\<exists>sock'. FIXReader_read sockRead (sample_meta True) [take 11 sample_text, drop 11 sample_text @ ''8=FIX''] =
     Inr (Some sample_text, sock') \<and> concat sock' = ''8=FIX''"
proof -
  let ?ctx = "sample_meta True" and ?sock = "[take 11 sample_text, drop 11 sample_text @ ''8=FIX'']"
  let ?rb = "\<lparr>rb_data = [], rb_rptr = 0, rb_sock = ?sock\<rparr>"
  obtain msg' where e: "msg_encode ?ctx sample_heartbeat = Inr (msg', sample_text)"
    using sample_encode by blast
  have l: "length sample_text \<le> FIX8_MAX_MSG_LENGTH" "length (c_beginStr ?ctx) < FIX8_MAX_FLD_LENGTH"
    by (simp_all add: sample_text_def FIX8_MAX_MSG_LENGTH_def FIX8_MAX_FLD_LENGTH_def sample_meta_def)
  have "dec_numeral 0 = ''0''" by code_simp
  then have ne: "\<nexists>chk. sample_text = framed ?ctx [] @ chk"
    by (simp add: sample_text_def framed_def sample_meta_def)
  have c: "concat ?sock = sample_text @ ''8=FIX''" by simp
  have s: "[] \<notin> set ?sock" by (simp add: sample_text_def)
  have p: "rb_pending ?rb = sample_text @ ''8=FIX''" by (simp add: rb_pending_def)
  have o: "rb_ok ?rb" using s by (simp add: rb_ok_def FIX8_MAX_MSG_LENGTH_def)
  from reader_reads_encoded [OF sample_frame_ok e l ne c s p o] show ?thesis by blast
qed

text \<open>
  C16: the read buffer is transparent. While the stream has the bytes, a buffered read of at most one
  message returns exactly the bytes an unbuffered read returns, and the rest of the stream is the
  same; the buffer never overflows.
\<close>

theorem buffered_read_refines:
  assumes "rb_ok rb" and "rb_pending rb = concat sock" and "[] \<notin> set sock"
    and "n \<le> FIX8_MAX_MSG_LENGTH" and "n \<le> length (concat sock)"
  shows "\<exists>bs rb' sock'. sockRead_buffered n rb = Inr (bs, rb') \<and> sockRead n sock = Inr (bs, sock') \<and>
    length bs = n \<and> rb_pending rb' = concat sock' \<and> rb_ok rb' \<and> length (rb_data rb') \<le> READ_BUFFER"
  using rbuf.rd_bytes [OF assms(1,4)] sock.rd_bytes [OF assms(3-5)] assms(2,5)
  by (auto simp: rb_ok_def)

theorem buffered_read_refines_witness:
  "\<exists>bs rb' sock'. sockRead_buffered 3 \<lparr>rb_data = ''xya'', rb_rptr = 2, rb_sock = [''b'', ''cd'']\<rparr> = Inr (bs, rb') \<and>
     sockRead 3 [''ab'', ''cd''] = Inr (bs, sock') \<and> length bs = 3"
  using buffered_read_refines [of "\<lparr>rb_data = ''xya'', rb_rptr = 2, rb_sock = [''b'', ''cd'']\<rparr>" "[''ab'', ''cd'']" 3]
  by (auto simp: rb_ok_def rb_pending_def FIX8_MAX_MSG_LENGTH_def READ_BUFFER_def)

end
