(* ===== verification/Persist.thy ===== *)
theory Persist
  imports Checksum
begin

text \<open>
  Storage of sent messages (\<^verbatim>\<open>include/fix8/persist.hpp\<close>, \<^verbatim>\<open>runtime/persist.cpp\<close>,
  \<^verbatim>\<open>runtime/filepersist.cpp\<close>): the memory store and the file store with its index, written and read
  byte by byte, and their common interface as a locale.
\<close>

section \<open>Retransmission\<close>

text \<open>
  What a range query hands to the session: pairs of a sequence number and a message, and a context
  that the callback may change. A pair with number 0 ends the transmission. The callback takes the
  state \<open>'s\<close> of the session and returns whether to go on.
\<close>

type_synonym seq_pair = "u32 \<times> string"

record rctx =
  rc_begin :: u32
  rc_end :: u32
  rc_interrupted :: u32
  rc_last :: u32
  rc_no_more :: bool

definition new_rctx :: "u32 \<Rightarrow> u32 \<Rightarrow> u32 \<Rightarrow> rctx" where
  "new_rctx begn endd interrupted_seqnum =
     \<lparr>rc_begin = begn, rc_end = endd, rc_interrupted = interrupted_seqnum, rc_last = 0, rc_no_more = False\<rparr>"

type_synonym 's retrans_cb = "seq_pair \<Rightarrow> rctx \<Rightarrow> 's \<Rightarrow> error + bool \<times> rctx \<times> 's"

text \<open>
  The search for the first number that is stored counts up to \<open>last\<close> in 32 bits; \<open>None\<close> is a loop
  that does not end, which a \<open>last\<close> of all ones allows.
\<close>

partial_function (option) nearest_from :: "(u32 \<Rightarrow> bool) \<Rightarrow> u32 \<Rightarrow> u32 \<Rightarrow> u32 option" where
  "nearest_from has start lst =
     (if start \<le> lst then if has start then Some start else nearest_from has (start + 1) lst
      else Some 0)"

declare nearest_from.simps [code]

section \<open>The memory store\<close>

text \<open>A \<^verbatim>\<open>std::map\<close> from sequence numbers; number 0 is the control record.\<close>

type_synonym mem_store = "(u32 \<times> string) list"

fun le_bytes :: "nat \<Rightarrow> int \<Rightarrow> string" where
  "le_bytes 0 v = []"
| "le_bytes (Suc n) v = char_of (nat (v mod 256)) # le_bytes n (v div 256)"

definition mem_put_control :: "mem_store \<Rightarrow> u32 \<Rightarrow> u32 \<Rightarrow> mem_store \<times> bool" where
  "mem_put_control st sender_seqnum target_seqnum =
     (om_insert 0 (le_bytes 4 (uint sender_seqnum) @ le_bytes 4 (uint target_seqnum)) st, map_of st 0 = None)"

definition mem_put :: "mem_store \<Rightarrow> u32 \<Rightarrow> string \<Rightarrow> mem_store \<times> bool" where
  "mem_put st seqnum what =
     (if seqnum = 0 then (st, False) else (om_insert seqnum what st, map_of st seqnum = None))"

text \<open>
  The control record is read from the bytes of the \<^verbatim>\<open>std::string\<close> object, not from the characters
  it holds.
\<close>

definition mem_get_control :: "mem_store \<Rightarrow> error + (u32 \<times> u32) option" where
  "mem_get_control st =
     (case map_of st 0 of None \<Rightarrow> return None | Some _ \<Rightarrow> throw (Undefined BadConversion))"

definition mem_get :: "mem_store \<Rightarrow> u32 \<Rightarrow> string option" where
  "mem_get st seqnum = (if seqnum = 0 then None else map_of st seqnum)"

definition mem_find_nearest :: "mem_store \<Rightarrow> u32 \<Rightarrow> u32 \<Rightarrow> u32 option" where
  "mem_find_nearest st requested lst =
     (if lst \<noteq> 0 then nearest_from (\<lambda>n. map_of st n \<noteq> None) requested lst else Some 0)"

definition mem_get_last_seqnum :: "mem_store \<Rightarrow> u32" where
  "mem_get_last_seqnum st = (if st = [] then 0 else fst (last st))"

fun mem_send_records ::
  "'s retrans_cb \<Rightarrow> u32 \<Rightarrow> mem_store \<Rightarrow> rctx \<Rightarrow> 's \<Rightarrow> u32 \<Rightarrow> error + u32 \<times> rctx \<times> 's" where
  "mem_send_records cb finish [] rctx s recs_sent = return (recs_sent, rctx, s)"
| "mem_send_records cb finish ((k, v) # st) rctx s recs_sent =
     (if k = 0 \<or> finish < k then return (recs_sent, rctx, s)
      else
        bind (cb (k, v) rctx s) (\<lambda>(go_on, rctx', s').
        if go_on then mem_send_records cb finish st rctx' s' (recs_sent + 1)
        else return (recs_sent + 1, rctx', s')))"

definition mem_get_range ::
  "'s retrans_cb \<Rightarrow> mem_store \<Rightarrow> u32 \<Rightarrow> u32 \<Rightarrow> u32 \<Rightarrow> 's \<Rightarrow> error + u32 \<times> 's" where
  "mem_get_range cb st from to next_send s =
     (let last_seq = mem_get_last_seqnum st
      in case mem_find_nearest st from last_seq of
           None \<Rightarrow> throw OutOfFuel
         | Some startSeqNum \<Rightarrow>
             let finish = (if to = 0 then last_seq else to); rctx = new_rctx from to next_send
             in if startSeqNum = 0 \<or> finish < from
                then bind (cb (0, []) (rctx\<lparr>rc_no_more := True\<rparr>) s) (\<lambda>(_, _, s'). return (0, s'))
                else
                  (case dropWhile (\<lambda>x. fst x \<noteq> startSeqNum) st of
                     [] \<Rightarrow> return (0, s)
                   | itr \<Rightarrow>
                       bind (mem_send_records cb finish itr rctx s 0) (\<lambda>(n, rctx', s').
                       bind (cb (0, []) (rctx'\<lparr>rc_no_more := True\<rparr>) s') (\<lambda>(_, _, s''). return (n, s'')))))"

section \<open>The file store\<close>

text \<open>
  Files are byte strings. A write may be cut short when the file would grow past what the file
  system takes (\<open>limit\<close>); that files can be created and sought in is not in doubt. An index record
  has 16 packed bytes.
\<close>

record prec =
  ip_offset :: i64
  ip_size :: i32

definition IPrec_bytes :: "u32 \<Rightarrow> prec \<Rightarrow> string" where
  "IPrec_bytes seq p = le_bytes 4 (uint seq) @ le_bytes 8 (uint (ip_offset p)) @ le_bytes 4 (uint (ip_size p))"

definition IPrec_seq :: "string \<Rightarrow> u32" where
  "IPrec_seq bs = of_int (le_value (take 4 bs))"

definition IPrec_prec :: "string \<Rightarrow> prec" where
  "IPrec_prec bs =
     \<lparr>ip_offset = of_int (le_value (take 8 (drop 4 bs))), ip_size = of_int (le_value (take 4 (drop 12 bs)))\<rparr>"

text \<open>Writing at a position, which must not be behind the end: the new contents and the bytes written.\<close>

definition write_at :: "nat \<Rightarrow> nat \<Rightarrow> string \<Rightarrow> string \<Rightarrow> string \<times> nat" where
  "write_at limit pos bs file =
     (let n = min (length bs) (limit - pos)
      in (take pos file @ take n bs @ drop (pos + n) file, n))"

type_synonym file_system = "string \<Rightarrow> string option"

record file_persister =
  fs_files :: file_system
  fs_limit :: nat
  dbFname :: string
  dbIname :: string
  rotnum :: nat
  opened :: bool
  wasCreated :: bool
  fp_index :: "(u32 \<times> prec) list"

definition new_file_persister :: "file_system \<Rightarrow> nat \<Rightarrow> nat \<Rightarrow> file_persister" where
  "new_file_persister files limit rot =
     \<lparr>fs_files = files, fs_limit = limit, dbFname = [], dbIname = [], rotnum = rot, opened = False,
      wasCreated = False, fp_index = []\<rparr>"

definition contents :: "file_system \<Rightarrow> string \<Rightarrow> string" where
  "contents files name = (case files name of None \<Rightarrow> [] | Some s \<Rightarrow> s)"

definition data_of :: "file_persister \<Rightarrow> string" where
  "data_of p = contents (fs_files p) (dbFname p)"

definition index_of :: "file_persister \<Rightarrow> string" where
  "index_of p = contents (fs_files p) (dbIname p)"

subsection \<open>Opening\<close>

definition max_rotation :: nat where "max_rotation = 1024"

text \<open>
  Rotation renames the files from the oldest to the newest; errors of \<^verbatim>\<open>rename\<close> are ignored. The
  lists of names have no more than \<open>max_rotation\<close> entries besides the first, but the loop goes over
  all \<open>rotnum\<close>.
\<close>

definition rename_file :: "string \<Rightarrow> string \<Rightarrow> file_system \<Rightarrow> file_system" where
  "rename_file a b files = (case files a of None \<Rightarrow> files | Some s \<Rightarrow> files(a := None, b := Some s))"

definition rotated :: "string \<Rightarrow> nat \<Rightarrow> string" where
  "rotated name n = name @ ''.'' @ dec_numeral n"

fun rotate_files :: "nat \<Rightarrow> string list \<Rightarrow> string list \<Rightarrow> file_system \<Rightarrow> error + file_system" where
  "rotate_files 0 dblst idxlst files = return files"
| "rotate_files (Suc n) dblst idxlst files =
     (if Suc n < length dblst
      then rotate_files n dblst idxlst
             (rename_file (idxlst ! n) (idxlst ! Suc n) (rename_file (dblst ! n) (dblst ! Suc n) files))
      else throw (Undefined BufferOverflow))"

text \<open>
  The index file is read into a record that keeps its old bytes behind a short last read; the first
  record of a sequence number wins.
\<close>

fun read_index :: "string \<Rightarrow> string \<Rightarrow> (u32 \<times> prec) list \<Rightarrow> (u32 \<times> prec) list" where
  "read_index iprec file idx =
     (if file = [] then idx
      else let iprec' = take 16 file @ drop (length (take 16 file)) iprec
           in read_index iprec' (drop 16 file) (om_insert (IPrec_seq iprec') (IPrec_prec iprec') idx))"

declare read_index.simps [simp del]

definition file_initialise :: "string \<Rightarrow> string \<Rightarrow> bool \<Rightarrow> file_persister \<Rightarrow> error + file_persister \<times> bool" where
  "file_initialise dbDir fname purge p =
     (if opened p then return (p, True)
      else
        let db = CheckAddTrailingSlash dbDir @ fname; idx = db @ ''.idx'';
            p1 = p\<lparr>dbFname := db, dbIname := idx\<rparr>; files = fs_files p;
            m = min (rotnum p) max_rotation
        in if files db = None \<or> purge
           then bind (if purge \<and> 0 < rotnum p
                      then rotate_files (rotnum p) (db # map (rotated db) [1..<m + 1])
                             (idx # map (\<lambda>n. rotated db n @ ''.idx'') [1..<m + 1]) files
                      else return files) (\<lambda>files'.
                return (p1\<lparr>fs_files := files'(db := Some [], idx := Some []), wasCreated := True, opened := True\<rparr>, True))
           else if files idx = None then return (p1, False)
           else return (p1\<lparr>fp_index := read_index (replicate 16 NUL) (contents files idx) (fp_index p),
                           opened := True\<rparr>, True))"

subsection \<open>Writing and reading\<close>

definition file_put_control :: "file_persister \<Rightarrow> u32 \<Rightarrow> u32 \<Rightarrow> file_persister \<times> bool" where
  "file_put_control p sender_seqnum target_seqnum =
     (if \<not> opened p then (p, False)
      else
        let pr = \<lparr>ip_offset = ucast sender_seqnum, ip_size = target_seqnum\<rparr>;
            (idx, n) = write_at (fs_limit p) 0 (IPrec_bytes 0 pr) (index_of p)
        in (p\<lparr>fp_index := om_set 0 pr (fp_index p), fs_files := (fs_files p)(dbIname p \<mapsto> idx)\<rparr>, n = 16))"

definition file_put :: "file_persister \<Rightarrow> u32 \<Rightarrow> string \<Rightarrow> file_persister \<times> bool" where
  "file_put p seqnum what =
     (if \<not> opened p \<or> seqnum = 0 then (p, False)
      else if map_of (fp_index p) seqnum \<noteq> None then (p, False)
      else
        let pr = \<lparr>ip_offset = of_nat (length (data_of p)), ip_size = of_nat (length what)\<rparr>;
            (idx, n) = write_at (fs_limit p) (length (index_of p)) (IPrec_bytes seqnum pr) (index_of p);
            p1 = p\<lparr>fs_files := (fs_files p)(dbIname p \<mapsto> idx)\<rparr>
        in if n \<noteq> 16 then (p1, False)
           else
             let (dat, m) = write_at (fs_limit p) (length (data_of p)) what (data_of p);
                 p2 = p1\<lparr>fs_files := (fs_files p1)(dbFname p \<mapsto> dat)\<rparr>
             in if m \<noteq> length what then (p2, False)
                else (p2\<lparr>fp_index := om_insert seqnum pr (fp_index p)\<rparr>, True))"

definition file_get_control :: "file_persister \<Rightarrow> (u32 \<times> u32) option" where
  "file_get_control p =
     (if \<not> opened p \<or> fp_index p = [] then None
      else map_option (\<lambda>pr. (ucast (ip_offset pr), ip_size pr)) (map_of (fp_index p) 0))"

text \<open>
  A record is read into a buffer of \<open>FIX8_MAX_MSG_LENGTH\<close> bytes, whatever its size; a negative size
  is a huge one for \<^verbatim>\<open>read\<close>.
\<close>

definition read_record :: "string \<Rightarrow> prec \<Rightarrow> error + string option" where
  "read_record dat pr =
     (if sint (ip_offset pr) < 0 then return None
      else
        let got = take (nat (sint (ip_size pr) mod 2 ^ 64)) (drop (nat (sint (ip_offset pr))) dat)
        in if FIX8_MAX_MSG_LENGTH < length got then throw (Undefined BufferOverflow)
           else if int (length got) \<noteq> sint (ip_size pr) then return None
           else return (Some got))"

definition file_get :: "file_persister \<Rightarrow> u32 \<Rightarrow> error + string option" where
  "file_get p seqnum =
     (if \<not> opened p \<or> seqnum = 0 \<or> fp_index p = [] then return None
      else
        (case map_of (fp_index p) seqnum of
           None \<Rightarrow> return None
         | Some pr \<Rightarrow> read_record (data_of p) pr))"

definition file_find_nearest :: "file_persister \<Rightarrow> u32 \<Rightarrow> u32 \<Rightarrow> u32 option" where
  "file_find_nearest p requested lst =
     (if lst \<noteq> 0 then nearest_from (\<lambda>n. map_of (fp_index p) n \<noteq> None) requested lst else Some 0)"

definition file_get_last_seqnum :: "file_persister \<Rightarrow> u32" where
  "file_get_last_seqnum p = (if fp_index p = [] then 0 else fst (last (fp_index p)))"

fun file_send_records ::
  "'s retrans_cb \<Rightarrow> string \<Rightarrow> u32 \<Rightarrow> (u32 \<times> prec) list \<Rightarrow> rctx \<Rightarrow> 's \<Rightarrow> u32 \<Rightarrow> error + u32 \<times> rctx \<times> 's" where
  "file_send_records cb dat finish [] rctx s recs_sent = return (recs_sent, rctx, s)"
| "file_send_records cb dat finish ((k, pr) # idx) rctx s recs_sent =
     (if k = 0 \<or> finish < k then return (recs_sent, rctx, s)
      else
        bind (read_record dat pr) (\<lambda>r.
        case r of
          None \<Rightarrow> return (recs_sent, rctx, s)
        | Some txt \<Rightarrow>
            bind (cb (k, txt) rctx s) (\<lambda>(go_on, rctx', s').
            if go_on then file_send_records cb dat finish idx rctx' s' (recs_sent + 1)
            else return (recs_sent + 1, rctx', s'))))"

definition file_get_range ::
  "'s retrans_cb \<Rightarrow> file_persister \<Rightarrow> u32 \<Rightarrow> u32 \<Rightarrow> u32 \<Rightarrow> 's \<Rightarrow> error + u32 \<times> 's" where
  "file_get_range cb p from to next_send s =
     (let last_seq = file_get_last_seqnum p
      in case file_find_nearest p from last_seq of
           None \<Rightarrow> throw OutOfFuel
         | Some startSeqNum \<Rightarrow>
             let finish = (if to = 0 then last_seq else to); rctx = new_rctx from to next_send
             in if startSeqNum = 0 \<or> finish < from
                then bind (cb (0, []) (rctx\<lparr>rc_no_more := True\<rparr>) s) (\<lambda>(_, _, s'). return (0, s'))
                else
                  (case dropWhile (\<lambda>x. fst x \<noteq> startSeqNum) (fp_index p) of
                     [] \<Rightarrow> return (0, s)
                   | itr \<Rightarrow>
                       bind (file_send_records cb (data_of p) finish itr rctx s 0) (\<lambda>(n, rctx', s').
                       bind (cb (0, []) (rctx'\<lparr>rc_no_more := True\<rparr>) s') (\<lambda>(_, _, s''). return (n, s'')))))"

section \<open>The interface\<close>

text \<open>
  What the session relies on: a number is stored at most once and never changes, and the last
  number is the largest one stored. \<open>ok\<close> is the invariant of a store and \<open>fits\<close> the messages it
  takes; \<open>put\<close> may fail, and then the store keeps what it had.
\<close>

locale message_store =
  fixes put :: "'p \<Rightarrow> u32 \<Rightarrow> string \<Rightarrow> 'p \<times> bool"
    and get :: "'p \<Rightarrow> u32 \<Rightarrow> string option"
    and last_seqnum :: "'p \<Rightarrow> u32"
    and ok :: "'p \<Rightarrow> bool"
    and fits :: "string \<Rightarrow> bool"
  assumes put_ok: "ok p \<Longrightarrow> fits s \<Longrightarrow> ok (fst (put p n s))"
    and put_get: "ok p \<Longrightarrow> fits s \<Longrightarrow>
      get (fst (put p n s)) = (if snd (put p n s) then (get p)(n \<mapsto> s) else get p)"
    and put_new: "ok p \<Longrightarrow> snd (put p n s) \<Longrightarrow> n \<noteq> 0 \<and> get p n = None"
    and last_upper: "ok p \<Longrightarrow> get p n \<noteq> None \<Longrightarrow> n \<le> last_seqnum p"
    and last_stored: "ok p \<Longrightarrow> last_seqnum p \<noteq> 0 \<Longrightarrow> get p (last_seqnum p) \<noteq> None"
begin

lemma put_keeps: "ok p \<Longrightarrow> fits s \<Longrightarrow> get p m = Some t \<Longrightarrow> get (fst (put p n s)) m = Some t"
  using put_new [of p n s] by (auto simp: put_get)

lemma put_all_ok:
  "ok p \<Longrightarrow> \<forall>x \<in> set xs. fits (snd x) \<Longrightarrow> ok (fold (\<lambda>(n, s) p. fst (put p n s)) xs p)"
  by (induction xs arbitrary: p) (auto simp: put_ok)

lemma put_all_keeps:
  "ok p \<Longrightarrow> \<forall>x \<in> set xs. fits (snd x) \<Longrightarrow> get p m = Some t \<Longrightarrow>
    get (fold (\<lambda>(n, s) p. fst (put p n s)) xs p) m = Some t"
  by (induction xs arbitrary: p) (auto simp: put_ok put_keeps)

lemma put_all_only:
  "ok p \<Longrightarrow> \<forall>x \<in> set xs. fits (snd x) \<Longrightarrow>
    get (fold (\<lambda>(n, s) p. fst (put p n s)) xs p) m = Some t \<Longrightarrow> get p m = Some t \<or> (m, t) \<in> set xs"
proof (induction xs arbitrary: p)
  case (Cons x xs)
  obtain n s where x: "x = (n, s)" by (cases x)
  with Cons.prems have "get (fst (put p n s)) m = Some t \<or> (m, t) \<in> set xs"
    by (intro Cons.IH) (auto simp: put_ok)
  with Cons.prems x show ?case by (auto simp: put_get split: if_splits)
qed simp

lemma last_mono:
  assumes "ok p" and "fits s"
  shows "last_seqnum p \<le> last_seqnum (fst (put p n s))"
proof (cases "last_seqnum p = 0")
  case False
  with last_stored [OF assms(1)] obtain t where "get p (last_seqnum p) = Some t" by blast
  then have "get (fst (put p n s)) (last_seqnum p) = Some t" by (rule put_keeps [OF assms])
  then show ?thesis using last_upper [OF put_ok [OF assms]] by simp
qed simp

end

lemma om_last: "om_ok m \<Longrightarrow> x \<in> set m \<Longrightarrow> fst x \<le> fst (last m)"
  by (induction m) (auto simp: om_ok_Cons intro: less_imp_le)

interpretation mstore: message_store mem_put mem_get mem_get_last_seqnum om_ok "\<lambda>_. True"
proof unfold_locales
  fix p :: mem_store and n s
  assume ok: "om_ok p"
  then show "om_ok (fst (mem_put p n s))" by (auto simp: mem_put_def om_ok_insert)
  show "mem_get (fst (mem_put p n s)) = (if snd (mem_put p n s) then (mem_get p)(n \<mapsto> s) else mem_get p)"
    using ok by (auto simp: mem_put_def mem_get_def map_of_om_insert fun_eq_iff split: option.splits)
  show "snd (mem_put p n s) \<Longrightarrow> n \<noteq> 0 \<and> mem_get p n = None"
    by (auto simp: mem_put_def mem_get_def split: if_splits)
  show "mem_get p n \<noteq> None \<Longrightarrow> n \<le> mem_get_last_seqnum p"
    using ok by (auto simp: mem_get_def mem_get_last_seqnum_def dest: map_of_SomeD om_last split: if_splits)
  show "mem_get_last_seqnum p \<noteq> 0 \<Longrightarrow> mem_get p (mem_get_last_seqnum p) \<noteq> None"
    by (auto simp: mem_get_def mem_get_last_seqnum_def map_of_eq_None_iff split: if_splits)
qed

section \<open>The search for a stored number\<close>

lemma nearest_from_spec:
  assumes "lst < - 1 \<or> has lst"
  shows "\<exists>r. nearest_from has start lst = Some r \<and>
    (if \<exists>k \<ge> start. k \<le> lst \<and> has k then start \<le> r \<and> r \<le> lst \<and> has r \<and> (\<forall>k. start \<le> k \<and> k < r \<longrightarrow> \<not> has k)
     else r = 0)"
  using assms
proof (induction "unat lst - unat start" arbitrary: start rule: less_induct)
  case less
  show ?case
  proof (cases "start \<le> lst \<and> \<not> has start")
    case False
    then show ?thesis by (subst nearest_from.simps) (auto simp: not_le dest: leD)
  next
    case True
    have m: "start \<noteq> - 1"
    proof
      assume "start = - 1"
      with True have "lst = - 1" by (metis antisym word_order.extremum)
      with less.prems True \<open>start = - 1\<close> show False by simp
    qed
    then have "1 + start \<noteq> 0" by (simp add: eq_neg_iff_add_eq_0 add.commute)
    then have u: "unat (start + 1) = unat start + 1" using unatSuc [of start] by (simp add: add.commute)
    have s: "start + 1 \<le> k \<longleftrightarrow> start \<le> k \<and> k \<noteq> start" for k
      by (auto simp: word_le_nat_alt u word_unat_eq_iff)
    from True show ?thesis
    proof (cases "start = lst")
      case True
      then have "\<not> start + 1 \<le> lst" using s by blast
      with True \<open>start \<le> lst \<and> \<not> has start\<close> show ?thesis
        by (subst nearest_from.simps, subst nearest_from.simps) auto
    next
      case False
      with True have "unat lst - unat (start + 1) < unat lst - unat start"
        by (auto simp: u word_le_nat_alt word_unat_eq_iff)
      from less.hyps [OF this less.prems] True show ?thesis
        by (subst nearest_from.simps) (auto simp: s split: if_splits; metis)
    qed
  qed
qed

section \<open>The file store as a memory store\<close>

text \<open>The text an index entry stands for, and the memory store a file store implements.\<close>

definition slice :: "string \<Rightarrow> prec \<Rightarrow> string" where
  "slice dat pr = take (nat (sint (ip_size pr))) (drop (nat (sint (ip_offset pr))) dat)"

definition mem_of :: "file_persister \<Rightarrow> mem_store" where
  "mem_of p = map (\<lambda>(k, pr). (k, slice (data_of p) pr)) (filter (\<lambda>x. fst x \<noteq> 0) (fp_index p))"

definition in_data :: "string \<Rightarrow> prec \<Rightarrow> bool" where
  "in_data dat pr \<longleftrightarrow> 0 \<le> sint (ip_offset pr) \<and> 0 \<le> sint (ip_size pr) \<and>
     nat (sint (ip_size pr)) \<le> FIX8_MAX_MSG_LENGTH \<and>
     nat (sint (ip_offset pr)) + nat (sint (ip_size pr)) \<le> length dat"

definition file_ok :: "file_persister \<Rightarrow> bool" where
  "file_ok p \<longleftrightarrow> opened p \<and> dbFname p \<noteq> dbIname p \<and> om_ok (fp_index p) \<and>
     length (data_of p) < 2 ^ 63 \<and> fs_limit p < 2 ^ 63 \<and>
     (\<forall>x \<in> set (fp_index p). fst x \<noteq> 0 \<longrightarrow> in_data (data_of p) (snd x))"

lemma slice_append: "in_data dat pr \<Longrightarrow> slice (dat @ more_data) pr = slice dat pr"
  by (auto simp: slice_def in_data_def)

lemma in_data_append: "in_data dat pr \<Longrightarrow> in_data (dat @ more_data) pr"
  by (auto simp: in_data_def)

lemma read_record_slice: "in_data dat pr \<Longrightarrow> read_record dat pr = Inr (Some (slice dat pr))"
proof -
  assume i: "in_data dat pr"
  have "sint (ip_size pr) < 2 ^ 64" using sint_lt [of "ip_size pr"] by simp
  with i have "nat (sint (ip_size pr) mod 2 ^ 64) = nat (sint (ip_size pr))" by (simp add: in_data_def)
  with i show ?thesis by (auto simp: read_record_def slice_def in_data_def Let_def)
qed

text \<open>Facts about ordered maps: lookup, filtering and mapping, and the largest key.\<close>

lemma om_ok_filter: "om_ok m \<Longrightarrow> om_ok (filter P m)"
  by (induction m) (auto simp: om_ok_Cons)

lemma map_om_insert:
  "map (\<lambda>(k, v). (k, f k v)) (om_insert k v m) = om_insert k (f k v) (map (\<lambda>(k, v). (k, f k v)) m)"
  by (induction k v m rule: om_insert.induct) auto

lemma om_insert_below: "\<forall>x \<in> set m. k < fst x \<Longrightarrow> om_insert k v m = (k, v) # m"
  by (cases m) auto

lemma filter_om_insert:
  "om_ok m \<Longrightarrow> filter (\<lambda>x. P (fst x)) (om_insert k v m) =
    (if P k then om_insert k v (filter (\<lambda>x. P (fst x)) m) else filter (\<lambda>x. P (fst x)) m)"
  by (induction k v m rule: om_insert.induct) (auto simp: om_ok_Cons intro!: om_insert_below [symmetric] dest: less_trans)

lemma filter_om_set:
  "om_ok m \<Longrightarrow> \<not> P k \<Longrightarrow> filter (\<lambda>x. P (fst x)) (om_set k v m) = filter (\<lambda>x. P (fst x)) m"
  by (induction k v m rule: om_set.induct) (auto simp: om_ok_Cons)

lemma map_of_map_filter:
  "map_of (map (\<lambda>(k, v). (k, f k v)) (filter (\<lambda>x. P (fst x)) m)) k =
    (if P k then map_option (f k) (map_of m k) else None)"
  by (induction m) auto

lemma set_om_insert_sub: "set (om_insert k v m) \<subseteq> insert (k, v) (set m)"
  by (induction k v m rule: om_insert.induct) auto

lemma set_om_set_sub: "set (om_set k v m) \<subseteq> insert (k, v) (set m)"
  by (induction k v m rule: om_set.induct) auto

lemma map_of_mem_of: "map_of (mem_of p) n = (if n = 0 then None else map_option (slice (data_of p)) (map_of (fp_index p) n))"
  using map_of_map_filter [of "\<lambda>_. slice (data_of p)" "\<lambda>n. n \<noteq> 0" "fp_index p" n] by (simp add: mem_of_def)

lemma om_ok_mem_of: "om_ok (fp_index p) \<Longrightarrow> om_ok (mem_of p)"
  using om_ok_filter [of "fp_index p" "\<lambda>x. fst x \<noteq> 0"]
  by (simp add: mem_of_def om_ok_def comp_def case_prod_beta)

lemma write_at_end: "write_at limit (length file) bs file = (file @ take (limit - length file) bs, min (length bs) (limit - length file))"
  by (simp add: write_at_def Let_def min_def)

lemma file_get_mem: "file_ok p \<Longrightarrow> file_get p n = Inr (mem_get (mem_of p) n)"
proof -
  assume ok: "file_ok p"
  have "read_record (data_of p) pr = Inr (Some (slice (data_of p) pr))" if "map_of (fp_index p) n = Some pr" "n \<noteq> 0" for pr
    using ok that by (auto simp: file_ok_def dest!: map_of_SomeD intro!: read_record_slice)
  with ok show ?thesis
    by (auto simp: file_get_def mem_get_def map_of_mem_of file_ok_def split: option.splits)
qed

lemma file_last_mem: "file_ok p \<Longrightarrow> file_get_last_seqnum p = mem_get_last_seqnum (mem_of p)"
proof -
  assume ok: "file_ok p"
  let ?f = "filter (\<lambda>x. fst x \<noteq> 0) (fp_index p)"
  have l: "mem_get_last_seqnum (mem_of p) = (if ?f = [] then 0 else fst (last ?f))"
    by (auto simp: mem_get_last_seqnum_def mem_of_def last_map case_prod_beta)
  show ?thesis
  proof (cases "fp_index p = [] \<or> fst (last (fp_index p)) = 0")
    case True
    then have "?f = []"
    proof
      assume z: "fst (last (fp_index p)) = 0"
      have "fst x = 0" if "x \<in> set (fp_index p)" for x
        using om_last [of "fp_index p" x] that ok z by (simp add: file_ok_def)
      then show ?thesis by simp
    qed simp
    with True l show ?thesis by (auto simp: file_get_last_seqnum_def)
  next
    case False
    then obtain b x where i: "fp_index p = b @ [x]" by (metis rev_exhaust)
    with False have "?f = filter (\<lambda>x. fst x \<noteq> 0) b @ [x]" by simp
    with l False show ?thesis by (simp add: file_get_last_seqnum_def i)
  qed
qed


text \<open>Storing a message, and the control record.\<close>

definition room_for :: "file_persister \<Rightarrow> string \<Rightarrow> bool" where
  "room_for p what \<longleftrightarrow>
     16 \<le> fs_limit p - length (index_of p) \<and> length what \<le> fs_limit p - length (data_of p)"

lemma files_upd [simp]:
  "opened (p\<lparr>fs_files := fs\<rparr>) = opened p" by simp

lemma length_IPrec_bytes [simp]: "length (IPrec_bytes seq pr) = 16"
proof -
  have "length (le_bytes n v) = n" for n v by (induction n v rule: le_bytes.induct) auto
  then show ?thesis by (simp add: IPrec_bytes_def)
qed

lemma sint_small: "n < 2 ^ 63 \<Longrightarrow> sint (of_nat n :: i64) = int n" "n < 2 ^ 31 \<Longrightarrow> sint (of_nat n :: i32) = int n"
  by (simp_all add: sint_uint unsigned_of_nat take_bit_nat_eq_self signed_take_bit_int_eq_self)

lemma file_put_spec:
  assumes ok: "file_ok p" and fits: "length what \<le> FIX8_MAX_MSG_LENGTH"
  shows "file_ok (fst (file_put p n what)) \<and>
    mem_of (fst (file_put p n what)) = (if snd (file_put p n what) then fst (mem_put (mem_of p) n what) else mem_of p) \<and>
    snd (file_put p n what) = (snd (mem_put (mem_of p) n what) \<and> room_for p what)"
proof (cases "n = 0 \<or> map_of (fp_index p) n \<noteq> None")
  case True
  with ok show ?thesis by (auto simp: file_put_def mem_put_def map_of_mem_of file_ok_def)
next
  case False
  then have n: "n \<noteq> 0" "map_of (fp_index p) n = None" by auto
  let ?dat = "data_of p" and ?lim = "fs_limit p"
  define pr where "pr = \<lparr>ip_offset = (of_nat (length ?dat) :: i64), ip_size = (of_nat (length what) :: i32)\<rparr>"
  define x where "x = take (?lim - length ?dat) what"
  define i where "i = index_of p @ take (?lim - length (index_of p)) (IPrec_bytes n pr)"
  define p1 where "p1 = p\<lparr>fs_files := (fs_files p)(dbIname p \<mapsto> i)\<rparr>"
  define p2 where "p2 = p1\<lparr>fs_files := (fs_files p1)(dbFname p \<mapsto> ?dat @ x)\<rparr>"
  have ne: "dbFname p \<noteq> dbIname p" using ok by (simp add: file_ok_def)
  then have d1: "data_of p1 = ?dat" by (simp add: p1_def data_of_def contents_def)
  have d2: "data_of p2 = ?dat @ x" by (simp add: p2_def p1_def data_of_def contents_def)
  have ok1: "file_ok p1" using ok d1 by (simp add: file_ok_def p1_def)
  have len: "length (?dat @ x) < 2 ^ 63"
    using ok by (auto simp: file_ok_def x_def min_def)
  have ok2: "file_ok p2"
    using ok d2 len in_data_append [of ?dat _ x] by (simp add: file_ok_def p2_def p1_def)
  have m1: "mem_of p1 = mem_of p" by (simp add: mem_of_def d1) (simp add: p1_def)
  have m2: "mem_of p2 = mem_of p"
    using ok slice_append [of ?dat _ x] unfolding mem_of_def d2
    by (auto simp: p2_def p1_def file_ok_def intro!: map_cong)
  show ?thesis
  proof (cases "room_for p what")
    case False
    then have "file_put p n what = (p1, False) \<or> file_put p n what = (p2, False)"
      using n ok by (auto simp: file_put_def room_for_def write_at_end Let_def file_ok_def p1_def p2_def i_def x_def pr_def min_def)
    with ok1 ok2 m1 m2 False show ?thesis by auto
  next
    case True
    then have x: "x = what" by (simp add: x_def room_for_def)
    define p3 where "p3 = p2\<lparr>fp_index := om_insert n pr (fp_index p)\<rparr>"
    have put: "file_put p n what = (p3, True)"
      using n ok True by (simp add: file_put_def room_for_def write_at_end Let_def file_ok_def p1_def p2_def p3_def i_def x_def pr_def min_def)
    have d3: "data_of p3 = ?dat @ what" using d2 x by (simp add: p3_def data_of_def)
    have "length what < 2 ^ 31" using fits by (simp add: FIX8_MAX_MSG_LENGTH_def)
    moreover have "length ?dat < 2 ^ 63" using ok by (simp add: file_ok_def)
    ultimately have s: "sint (ip_size pr) = int (length what)" "sint (ip_offset pr) = int (length ?dat)"
      by (simp_all add: pr_def sint_small)
    have inn: "in_data (?dat @ what) pr" and sl: "slice (?dat @ what) pr = what"
      using fits by (simp_all add: in_data_def slice_def s)
    have ok3: "file_ok p3"
      using ok2 d2 x inn set_om_insert_sub [of n pr "fp_index p"] d3 n
      by (auto simp: file_ok_def p3_def p2_def p1_def om_ok_insert)
    have "mem_of p3 = om_insert n what (mem_of p2)"
      using ok n filter_om_insert [of "fp_index p" "\<lambda>n. n \<noteq> 0" n pr] map_om_insert [of "\<lambda>_. slice (?dat @ what)" n pr] sl
      by (simp add: mem_of_def d3 d2 x file_ok_def) (simp add: p3_def p2_def p1_def)
    with put ok3 m2 n True show ?thesis by (simp add: mem_put_def map_of_mem_of)
  qed
qed

lemma om_set_nonempty: "om_set k v m \<noteq> []"
  by (induction k v m rule: om_set.induct) auto

lemma ucast_back: "ucast (ucast (a :: u32) :: i64) = a"
  by (rule bit_word_eqI) (simp add: bit_ucast_iff)

lemma file_put_control_spec:
  assumes ok: "file_ok p"
  shows "file_ok (fst (file_put_control p a b)) \<and> mem_of (fst (file_put_control p a b)) = mem_of p \<and>
    file_get_control (fst (file_put_control p a b)) = Some (a, b)"
proof -
  let ?pr = "\<lparr>ip_offset = ucast a, ip_size = b\<rparr>" and ?p = "fst (file_put_control p a b)"
  obtain idx m where w: "write_at (fs_limit p) 0 (IPrec_bytes 0 ?pr) (index_of p) = (idx, m)" by (rule prod.exhaust)
  have p: "?p = p\<lparr>fp_index := om_set 0 ?pr (fp_index p), fs_files := (fs_files p)(dbIname p \<mapsto> idx)\<rparr>"
    using ok w by (simp add: file_put_control_def file_ok_def Let_def)
  then have i: "fp_index ?p = om_set 0 ?pr (fp_index p)" and o: "opened ?p"
    and d: "data_of ?p = data_of p" using ok by (simp_all add: file_ok_def data_of_def contents_def)
  have "file_ok ?p"
    using ok set_om_set_sub [of 0 ?pr "fp_index p"] d unfolding p by (auto simp: file_ok_def om_ok_set)
  moreover have "mem_of ?p = mem_of p"
    using ok filter_om_set [of "fp_index p" "\<lambda>n. n \<noteq> 0" 0 ?pr] by (simp add: mem_of_def d i file_ok_def)
  moreover have "file_get_control ?p = Some (a, b)"
    using om_set_nonempty [of 0 ?pr "fp_index p"] by (simp add: file_get_control_def o i map_of_om_set ucast_back)
  ultimately show ?thesis by blast
qed


interpretation fstore: message_store file_put "\<lambda>p n. case file_get p n of Inr r \<Rightarrow> r | Inl _ \<Rightarrow> None"
  file_get_last_seqnum file_ok "\<lambda>s. length s \<le> FIX8_MAX_MSG_LENGTH"
proof unfold_locales
  fix p :: file_persister and n s
  assume ok: "file_ok p"
  then have om: "om_ok (mem_of p)" by (simp add: file_ok_def om_ok_mem_of)
  show "snd (file_put p n s) \<Longrightarrow> n \<noteq> 0 \<and> (case file_get p n of Inr r \<Rightarrow> r | Inl _ \<Rightarrow> None) = None"
    using ok by (auto simp: file_put_def file_get_mem mem_get_def map_of_mem_of split: if_splits)
  show "(case file_get p n of Inr r \<Rightarrow> r | Inl _ \<Rightarrow> None) \<noteq> None \<Longrightarrow> n \<le> file_get_last_seqnum p"
    using mstore.last_upper [OF om, of n] ok by (simp add: file_get_mem file_last_mem)
  show "file_get_last_seqnum p \<noteq> 0 \<Longrightarrow>
      (case file_get p (file_get_last_seqnum p) of Inr r \<Rightarrow> r | Inl _ \<Rightarrow> None) \<noteq> None"
    using mstore.last_stored [OF om] ok by (simp add: file_get_mem file_last_mem)
  assume fits: "length s \<le> FIX8_MAX_MSG_LENGTH"
  show "file_ok (fst (file_put p n s))" using file_put_spec [OF ok fits] by blast
  then show "(\<lambda>m. case file_get (fst (file_put p n s)) m of Inr r \<Rightarrow> r | Inl _ \<Rightarrow> None) =
      (if snd (file_put p n s) then (\<lambda>m. case file_get p m of Inr r \<Rightarrow> r | Inl _ \<Rightarrow> None)(n \<mapsto> s)
       else (\<lambda>m. case file_get p m of Inr r \<Rightarrow> r | Inl _ \<Rightarrow> None))"
    using file_put_spec [OF ok fits, of n] mstore.put_get [where p = "mem_of p" and n = n and s = s, OF om] ok by (auto simp: file_get_mem)
qed

section \<open>Range queries\<close>

text \<open>The reference: the callback gets each record until it declines.\<close>

fun deliver :: "'s retrans_cb \<Rightarrow> seq_pair list \<Rightarrow> rctx \<Rightarrow> 's \<Rightarrow> u32 \<Rightarrow> error + u32 \<times> rctx \<times> 's" where
  "deliver cb [] rctx s n = return (n, rctx, s)"
| "deliver cb (x # xs) rctx s n =
     bind (cb x rctx s) (\<lambda>(go_on, rctx', s').
     if go_on then deliver cb xs rctx' s' (n + 1) else return (n + 1, rctx', s'))"

definition range_spec ::
  "'s retrans_cb \<Rightarrow> mem_store \<Rightarrow> u32 \<Rightarrow> u32 \<Rightarrow> u32 \<Rightarrow> 's \<Rightarrow> error + u32 \<times> 's" where
  "range_spec cb st from to next_send s =
     (let finish = (if to = 0 then mem_get_last_seqnum st else to);
          recs = filter (\<lambda>x. from \<le> fst x \<and> fst x \<le> finish) st
      in bind (deliver cb recs (new_rctx from to next_send) s 0) (\<lambda>(n, rctx, s').
         bind (cb (0, []) (rctx\<lparr>rc_no_more := True\<rparr>) s') (\<lambda>(_, _, s''). return (n, s''))))"

lemma mem_send_deliver:
  "om_ok st \<Longrightarrow> \<forall>x \<in> set st. fst x \<noteq> 0 \<Longrightarrow>
    mem_send_records cb finish st rctx s n = deliver cb (filter (\<lambda>x. fst x \<le> finish) st) rctx s n"
proof (induction cb finish st rctx s n rule: mem_send_records.induct)
  case (2 cb finish k v st rctx s n)
  show ?case
  proof (cases "finish < k")
    case True
    with 2(2) have "filter (\<lambda>x. fst x \<le> finish) ((k, v) # st) = []"
      by (auto simp: om_ok_Cons filter_empty_conv not_le dest: less_trans)
    with True show ?thesis by simp
  next
    case False
    with 2(3) have c: "\<not> (k = 0 \<or> finish < k)" by simp
    show ?thesis using 2(2,3) c 2(1) [OF c] by (auto simp: om_ok_Cons bind_def split: sum.splits)
  qed
qed simp

lemma dropWhile_om:
  "om_ok st \<Longrightarrow> start \<in> fst ` set st \<Longrightarrow> dropWhile (\<lambda>x. fst x \<noteq> start) st = filter (\<lambda>x. start \<le> fst x) st"
proof (induction st)
  case (Cons x st)
  obtain k v where x: "x = (k, v)" by (cases x)
  show ?case
  proof (cases "k = start")
    case True
    with Cons.prems(1) x show ?thesis by (auto simp: om_ok_Cons intro!: filter_True [symmetric] less_imp_le)
  next
    case False
    with Cons.prems x have "k < start" "start \<in> fst ` set st" by (auto simp: om_ok_Cons)
    with False Cons x show ?thesis by (auto simp: om_ok_Cons not_le)
  qed
qed simp

lemma om_last_mem: "om_ok st \<Longrightarrow> st \<noteq> [] \<Longrightarrow> mem_get_last_seqnum st \<in> fst ` set st"
  by (simp add: mem_get_last_seqnum_def)

lemma mem_nearest:
  assumes ok: "om_ok st" and "from \<noteq> 0"
  obtains r where "mem_find_nearest st from (mem_get_last_seqnum st) = Some r"
    "r = 0 \<longrightarrow> (\<forall>x \<in> set st. fst x < from)"
    "r \<noteq> 0 \<longrightarrow> from \<le> r \<and> r \<in> fst ` set st \<and> (\<forall>x \<in> set st. from \<le> fst x \<longrightarrow> r \<le> fst x)"
proof -
  let ?last = "mem_get_last_seqnum st" and ?has = "\<lambda>n. map_of st n \<noteq> None"
  have has: "?has n \<longleftrightarrow> n \<in> fst ` set st" for n by (simp add: map_of_eq_None_iff)
  have upper: "fst x \<le> ?last" if "x \<in> set st" for x
    using om_last [OF ok that] that by (auto simp: mem_get_last_seqnum_def)
  show ?thesis
  proof (cases "?last = 0")
    case True
    then have "\<forall>x \<in> set st. fst x < from" using upper assms(2) by (metis word_gt_0 word_le_0_iff)
    with True show ?thesis by (intro that [of 0]) (simp_all add: mem_find_nearest_def)
  next
    case False
    then have "st \<noteq> []" by (auto simp: mem_get_last_seqnum_def)
    with om_last_mem [OF ok] has have "?has ?last" by blast
    then obtain r where r: "nearest_from ?has from ?last = Some r"
      "if \<exists>k \<ge> from. k \<le> ?last \<and> ?has k then from \<le> r \<and> r \<le> ?last \<and> ?has r \<and> (\<forall>k. from \<le> k \<and> k < r \<longrightarrow> \<not> ?has k)
       else r = 0"
      using nearest_from_spec [of ?last ?has "from"] by blast
    show ?thesis
    proof (rule that [of r])
      show "mem_find_nearest st from ?last = Some r" using False r(1) by (simp add: mem_find_nearest_def)
      show "r = 0 \<longrightarrow> (\<forall>x \<in> set st. fst x < from)"
        using r(2) assms(2) upper unfolding has by (metis image_eqI linorder_not_less word_le_0_iff)
      show "r \<noteq> 0 \<longrightarrow> from \<le> r \<and> r \<in> fst ` set st \<and> (\<forall>x \<in> set st. from \<le> fst x \<longrightarrow> r \<le> fst x)"
        using r(2) unfolding has by (metis image_eqI linorder_not_less)
    qed
  qed
qed

lemma mem_range_delivers:
  assumes ok: "om_ok st" and "from": "from \<noteq> 0"
  shows "mem_get_range cb st from to next_send s = range_spec cb st from to next_send s"
proof -
  obtain r where r: "mem_find_nearest st from (mem_get_last_seqnum st) = Some r"
    "r = 0 \<longrightarrow> (\<forall>x \<in> set st. fst x < from)"
    "r \<noteq> 0 \<longrightarrow> from \<le> r \<and> r \<in> fst ` set st \<and> (\<forall>x \<in> set st. from \<le> fst x \<longrightarrow> r \<le> fst x)"
    by (rule mem_nearest [OF assms])
  define finish where "finish = (if to = 0 then mem_get_last_seqnum st else to)"
  define recs where "recs = filter (\<lambda>x. from \<le> fst x \<and> fst x \<le> finish) st"
  show ?thesis
  proof (cases "r = 0 \<or> finish < from")
    case True
    with r(2) have "recs = []" by (fastforce simp: recs_def filter_empty_conv)
    with True r(1) show ?thesis
      by (auto simp: mem_get_range_def range_spec_def Let_def finish_def [symmetric] recs_def [symmetric])
  next
    case False
    then have r0: "r \<noteq> 0" by simp
    with r(3) have rm: "from \<le> r" "r \<in> fst ` set st" "\<forall>x \<in> set st. from \<le> fst x \<longrightarrow> r \<le> fst x" by auto
    let ?itr = "dropWhile (\<lambda>x. fst x \<noteq> r) st"
    have d: "?itr = filter (\<lambda>x. from \<le> fst x) st"
      unfolding dropWhile_om [OF ok rm(2)] using rm(1,3) by (auto intro!: filter_cong)
    have "om_ok ?itr" "\<forall>x \<in> set ?itr. fst x \<noteq> 0" using ok "from" by (auto simp: d om_ok_filter)
    then have "mem_send_records cb finish ?itr rctx s n = deliver cb recs rctx s n" for rctx s n
      by (simp add: mem_send_deliver d recs_def conj_commute)
    moreover obtain y ys where "?itr = y # ys" using rm unfolding d
      by (cases "filter (\<lambda>x. from \<le> fst x) st") (fastforce simp: filter_empty_conv)+
    ultimately show ?thesis using False r(1)
      by (simp add: mem_get_range_def range_spec_def Let_def finish_def [symmetric] recs_def [symmetric])
  qed
qed


lemma file_send_mem:
  "\<forall>x \<in> set idx. fst x \<noteq> 0 \<longrightarrow> in_data dat (snd x) \<Longrightarrow>
    file_send_records cb dat finish idx rctx s n =
      mem_send_records cb finish (map (\<lambda>(k, pr). (k, slice dat pr)) idx) rctx s n"
proof (induction cb dat finish idx rctx s n rule: file_send_records.induct)
  case (2 cb dat finish k pr idx rctx s n)
  show ?case
  proof (cases "k = 0 \<or> finish < k")
    case False
    then have "read_record dat pr = Inr (Some (slice dat pr))" using 2(2) by (simp add: read_record_slice)
    with False 2 show ?thesis by (auto simp: bind_def split: sum.splits)
  qed simp
qed simp

lemma nearest_from_cong:
  assumes "lst < - 1 \<or> has lst" and "\<forall>k \<ge> start. has k = has' k" and "start \<le> lst"
  shows "nearest_from has start lst = nearest_from has' start lst"
proof -
  have l: "lst < - 1 \<or> has' lst" using assms by auto
  have eq: "has k = has' k" if "start \<le> k" for k using assms(2) that by blast
  obtain r where r: "nearest_from has start lst = Some r"
    "if \<exists>k \<ge> start. k \<le> lst \<and> has k then start \<le> r \<and> r \<le> lst \<and> has r \<and> (\<forall>k. start \<le> k \<and> k < r \<longrightarrow> \<not> has k) else r = 0"
    using nearest_from_spec [of lst has start] assms(1) by blast
  obtain r' where r': "nearest_from has' start lst = Some r'"
    "if \<exists>k \<ge> start. k \<le> lst \<and> has' k then start \<le> r' \<and> r' \<le> lst \<and> has' r' \<and> (\<forall>k. start \<le> k \<and> k < r' \<longrightarrow> \<not> has' k) else r' = 0"
    using nearest_from_spec [of lst has' start] l by blast
  have "r = r'"
  proof (cases "\<exists>k \<ge> start. k \<le> lst \<and> has k")
    case True
    moreover from this have "\<exists>k \<ge> start. k \<le> lst \<and> has' k" using eq by blast
    ultimately have "start \<le> r" "has r" "\<forall>k. start \<le> k \<and> k < r \<longrightarrow> \<not> has k"
      "start \<le> r'" "has' r'" "\<forall>k. start \<le> k \<and> k < r' \<longrightarrow> \<not> has' k"
      using r(2) r'(2) by (simp_all split: if_splits)
    then have "\<not> r < r'" "\<not> r' < r" using eq by blast+
    then show ?thesis by simp
  next
    case False
    moreover from this have "\<not> (\<exists>k \<ge> start. k \<le> lst \<and> has' k)" using eq by blast
    ultimately show ?thesis using r(2) r'(2) by argo
  qed
  with r r' show ?thesis by simp
qed

lemma file_range_mem:
  assumes ok: "file_ok p" and "from": "from \<noteq> 0"
  shows "file_get_range cb p from to next_send s = mem_get_range cb (mem_of p) from to next_send s"
proof -
  let ?last = "mem_get_last_seqnum (mem_of p)"
  have om: "om_ok (fp_index p)" using ok by (simp add: file_ok_def)
  have near: "file_find_nearest p from ?last = mem_find_nearest (mem_of p) from ?last"
  proof (cases "?last = 0 \<or> \<not> from \<le> ?last")
    case True
    then show ?thesis
      by (auto simp: file_find_nearest_def mem_find_nearest_def) (subst (1 2) nearest_from.simps; simp)
  next
    case False
    then have "mem_of p \<noteq> []" by (auto simp: mem_get_last_seqnum_def)
    with om_last_mem [OF om_ok_mem_of [OF om]] have "map_of (mem_of p) ?last \<noteq> None"
      by (simp add: map_of_eq_None_iff del: map_of_eq_Some_iff)
    then have "map_of (fp_index p) ?last \<noteq> None" by (auto simp: map_of_mem_of split: if_splits)
    with False show ?thesis
      unfolding file_find_nearest_def mem_find_nearest_def using "from"
      by (auto intro!: nearest_from_cong simp: map_of_mem_of)
  qed
  have itr: "map (\<lambda>(k, pr). (k, slice (data_of p) pr)) (dropWhile (\<lambda>x. fst x \<noteq> r) (fp_index p)) =
      dropWhile (\<lambda>x. fst x \<noteq> r) (mem_of p)" if "r \<noteq> 0" for r
  proof -
    have "dropWhile (\<lambda>x. fst x \<noteq> r) (filter (\<lambda>x. fst x \<noteq> 0) m) = dropWhile (\<lambda>x. fst x \<noteq> r) m" if "om_ok m" for m :: "(u32 \<times> prec) list"
      using that \<open>r \<noteq> 0\<close>
    proof (induction m)
      case (Cons x m)
      then have "\<forall>y \<in> set m. fst y \<noteq> 0" by (cases x) (auto simp: om_ok_Cons)
      then have "filter (\<lambda>x. fst x \<noteq> 0) m = m" by simp
      with Cons.prems show ?case by auto
    qed simp
    then show ?thesis unfolding mem_of_def dropWhile_map by (simp add: om comp_def case_prod_beta)
  qed
  have send: "file_send_records cb (data_of p) finish (dropWhile (\<lambda>x. fst x \<noteq> r) (fp_index p)) rctx s n =
      mem_send_records cb finish (dropWhile (\<lambda>x. fst x \<noteq> r) (mem_of p)) rctx s n" if "r \<noteq> 0" for r finish rctx s n
    unfolding itr [OF that, symmetric] using ok by (intro file_send_mem) (auto simp: file_ok_def dest: set_dropWhileD)
  show ?thesis
  proof (cases "mem_find_nearest (mem_of p) from ?last")
    case None
    then show ?thesis by (simp add: file_get_range_def mem_get_range_def file_last_mem [OF ok] near)
  next
    case (Some r)
    note found = this
    define finish where "finish = (if to = 0 then ?last else to)"
    show ?thesis
    proof (cases "r = 0 \<or> finish < from")
      case True
      with Some show ?thesis
        by (simp add: file_get_range_def mem_get_range_def file_last_mem [OF ok] near Let_def finish_def)
    next
      case False
      then have r: "r \<noteq> 0" by simp
      show ?thesis
      proof (cases "dropWhile (\<lambda>x. fst x \<noteq> r) (fp_index p)")
        case Nil
        have m: "dropWhile (\<lambda>x. fst x \<noteq> r) (mem_of p) = []" unfolding itr [OF r, symmetric] Nil by simp
        show ?thesis
          unfolding file_get_range_def mem_get_range_def file_last_mem [OF ok] near found Let_def option.case Nil m by simp
      next
        case (Cons y ys)
        have z: "dropWhile (\<lambda>x. fst x \<noteq> r) (mem_of p) =
            (\<lambda>(k, pr). (k, slice (data_of p) pr)) y # map (\<lambda>(k, pr). (k, slice (data_of p) pr)) ys"
          by (simp only: itr [OF r, symmetric] Cons list.map)
        show ?thesis
          using False send [OF r]
          unfolding file_get_range_def mem_get_range_def file_last_mem [OF ok] near found Let_def option.case
            finish_def Cons z list.case by simp
      qed
    qed
  qed
qed

section \<open>The index file\<close>

lemma le_value_le_bytes: "0 \<le> v \<Longrightarrow> le_value (le_bytes n v) = v mod 256 ^ n"
proof (induction n arbitrary: v)
  case (Suc n)
  have "uchar (char_of (nat (v mod 256))) = nat (v mod 256)" by (rule uchar_char_of) simp
  with Suc have "le_value (le_bytes (Suc n) v) = v mod 256 + 256 * (v div 256 mod 256 ^ n)" by simp
  also have "\<dots> = v mod (256 * 256 ^ n)" by (simp add: zmod_zmult2_eq)
  finally show ?case by simp
qed simp

lemma length_le_bytes [simp]: "length (le_bytes n v) = n"
  by (induction n v rule: le_bytes.induct) auto

lemma IPrec_roundtrip:
  "IPrec_seq (IPrec_bytes seq pr @ r) = seq" "IPrec_prec (IPrec_bytes seq pr @ r) = pr"
proof -
  have w: "of_int (le_value (le_bytes 4 (uint a))) = a" for a :: u32
    using unsigned_less [of a, where ?'a = int] by (simp add: le_value_le_bytes)
  have w8: "of_int (le_value (le_bytes 8 (uint a))) = a" for a :: u64
    using unsigned_less [of a, where ?'a = int] by (simp add: le_value_le_bytes)
  show "IPrec_seq (IPrec_bytes seq pr @ r) = seq" "IPrec_prec (IPrec_bytes seq pr @ r) = pr"
    by (simp_all add: IPrec_seq_def IPrec_prec_def IPrec_bytes_def w w8)
qed

abbreviation record_bytes :: "u32 \<times> prec \<Rightarrow> string" where
  "record_bytes x \<equiv> IPrec_bytes (fst x) (snd x)"

lemma read_index_records:
  "length iprec = 16 \<Longrightarrow>
    read_index iprec (concat (map record_bytes recs)) idx = fold (\<lambda>(k, pr). om_insert k pr) recs idx"
proof (induction recs arbitrary: iprec idx)
  case (Cons x recs)
  obtain k pr where x: "x = (k, pr)" by (cases x)
  have ne: "IPrec_bytes k pr \<noteq> []" using length_IPrec_bytes [of k pr] by (metis list.size(3) zero_neq_numeral)
  show ?case using Cons.prems
    by (subst read_index.simps) (simp add: x ne Let_def Cons.IH IPrec_roundtrip [of k pr "[]", simplified])
qed (simp add: read_index.simps)

lemma om_eqI:
  assumes "om_ok a" and "om_ok b" and "map_of a = map_of b"
  shows "a = b"
proof -
  have d: "distinct (map fst a)" "distinct (map fst b)" using assms(1,2) by (simp_all add: om_ok_distinct)
  then have e: "set a = set b" using assms(3) by (metis map_of_inject_set)
  have "inj_on fst (set a \<union> set b)" using d e by (simp add: distinct_map)
  moreover have "sorted (map fst a)" "sorted (map fst b)" using assms(1,2) by (auto simp: om_ok_def strict_sorted_iff)
  ultimately show ?thesis using d e by (intro map_sorted_distinct_set_unique [of fst])
qed

lemma fold_om_insert:
  "om_ok idx \<Longrightarrow> om_ok (fold (\<lambda>(k, pr). om_insert k pr) recs idx) \<and>
    map_of (fold (\<lambda>(k, pr). om_insert k pr) recs idx) = map_of recs ++ map_of idx"
proof (induction recs arbitrary: idx)
  case (Cons x recs)
  obtain k pr where x: "x = (k, pr)" by (cases x)
  have "map_of recs ++ map_of (om_insert k pr idx) = map_of ((k, pr) # recs) ++ map_of idx"
    using Cons.prems by (auto simp: fun_eq_iff map_of_om_insert map_add_def split: option.splits)
  with Cons.IH [of "om_insert k pr idx"] Cons.prems show ?case by (simp add: x om_ok_insert fun_upd_def)
qed simp


text \<open>
  The index file holds the records of the index, the control record first. \<open>stored\<close> runs a
  sequence of operations and gives up at the first one that fails.
\<close>

definition index_file_ok :: "file_persister \<Rightarrow> bool" where
  "index_file_ok p \<longleftrightarrow>
     (\<exists>recs. index_of p = concat (map record_bytes recs) \<and> recs \<noteq> [] \<and> fst (hd recs) = 0 \<and>
        distinct (map fst recs) \<and> map_of recs = map_of (fp_index p))"

datatype store_op = Put u32 string | Put_control u32 u32

fun do_op :: "store_op \<Rightarrow> file_persister \<Rightarrow> file_persister \<times> bool" where
  "do_op (Put n s) p = file_put p n s"
| "do_op (Put_control a b) p = file_put_control p a b"

fun store_ops :: "store_op list \<Rightarrow> file_persister \<Rightarrow> file_persister option" where
  "store_ops [] p = Some p"
| "store_ops (x # xs) p = (case do_op x p of (p', ok) \<Rightarrow> if ok then store_ops xs p' else None)"

fun op_fits :: "store_op \<Rightarrow> bool" where
  "op_fits (Put n s) \<longleftrightarrow> length s \<le> FIX8_MAX_MSG_LENGTH"
| "op_fits (Put_control a b) \<longleftrightarrow> True"

lemma index_file_put:
  assumes "index_file_ok p" and "om_ok (fp_index p)" and ne: "dbFname p \<noteq> dbIname p" and "file_put p n s = (p', True)"
  shows "index_file_ok p' \<and> dbFname p' = dbFname p \<and> dbIname p' = dbIname p"
proof -
  from assms(1) obtain recs where recs: "index_of p = concat (map record_bytes recs)" "recs \<noteq> []" "fst (hd recs) = 0"
    "distinct (map fst recs)" "map_of recs = map_of (fp_index p)" by (auto simp: index_file_ok_def)
  let ?pr = "\<lparr>ip_offset = (of_nat (length (data_of p)) :: i64), ip_size = (of_nat (length s) :: i32)\<rparr>"
  from assms(4) have n: "n \<noteq> 0" "map_of (fp_index p) n = None" and e: "16 \<le> fs_limit p - length (index_of p)"
    and p': "p' = p\<lparr>fp_index := om_insert n ?pr (fp_index p), fs_files := (fs_files p)
      (dbIname p \<mapsto> index_of p @ IPrec_bytes n ?pr, dbFname p \<mapsto> data_of p @ s)\<rparr>"
    by (auto simp: file_put_def write_at_end Let_def min_def split: if_splits)
  have i: "index_of p' = index_of p @ IPrec_bytes n ?pr" using ne by (simp add: p' index_of_def contents_def)
  have "map_of (recs @ [(n, ?pr)]) = map_of (om_insert n ?pr (fp_index p))"
    using recs(5) n(2) assms(2) by (auto simp: fun_eq_iff map_add_def map_of_om_insert split: option.splits)
  moreover have "n \<notin> fst ` set recs" using recs(5) n(2) by (metis map_of_eq_None_iff)
  ultimately have "index_file_ok p'"
    unfolding index_file_ok_def i using recs
    by (intro exI [of _ "recs @ [(n, ?pr)]"]) (auto simp: p')
  then show ?thesis by (simp add: p')
qed


lemma index_file_control:
  assumes "index_file_ok p" and ne: "dbFname p \<noteq> dbIname p" and "file_put_control p a b = (p', True)"
  shows "index_file_ok p' \<and> dbFname p' = dbFname p \<and> dbIname p' = dbIname p"
proof -
  let ?pr = "\<lparr>ip_offset = ucast a, ip_size = b\<rparr>"
  from assms(1) obtain recs where recs: "index_of p = concat (map record_bytes recs)" "recs \<noteq> []" "fst (hd recs) = 0"
    "distinct (map fst recs)" "map_of recs = map_of (fp_index p)" by (auto simp: index_file_ok_def)
  then obtain pr0 rest where r: "recs = (0, pr0) # rest" by (cases recs) auto
  have w: "write_at (fs_limit p) 0 (IPrec_bytes 0 ?pr) (index_of p) = (IPrec_bytes 0 ?pr @ drop 16 (index_of p), 16)"
    using assms(3) by (auto simp: file_put_control_def Let_def write_at_def min_def split: if_splits)
  with assms(3) have p': "p' = p\<lparr>fp_index := om_set 0 ?pr (fp_index p),
      fs_files := (fs_files p)(dbIname p \<mapsto> IPrec_bytes 0 ?pr @ drop 16 (index_of p))\<rparr>"
    by (auto simp: file_put_control_def Let_def split: if_splits)
  then have "index_of p' = IPrec_bytes 0 ?pr @ concat (map record_bytes rest)"
    using recs(1) r by (simp add: index_of_def contents_def)
  with recs r have "index_file_ok p'"
    unfolding index_file_ok_def
    by (intro exI [of _ "(0, ?pr) # rest"]) (auto simp: p' map_of_om_set fun_eq_iff split: if_splits)
  then show ?thesis by (simp add: p')
qed

lemma store_ops_ok:
  "file_ok p \<Longrightarrow> index_file_ok p \<Longrightarrow> \<forall>x \<in> set ops. op_fits x \<Longrightarrow> store_ops ops p = Some q \<Longrightarrow>
    file_ok q \<and> index_file_ok q \<and> dbFname q = dbFname p \<and> dbIname q = dbIname p"
proof (induction ops arbitrary: p)
  case (Cons x ops)
  obtain p' where x: "do_op x p = (p', True)" and r: "store_ops ops p' = Some q"
    using Cons.prems(4) by (auto split: prod.splits if_splits)
  have names: "dbFname p \<noteq> dbIname p" "om_ok (fp_index p)" using Cons.prems(1) by (simp_all add: file_ok_def)
  have "file_ok p' \<and> index_file_ok p' \<and> dbFname p' = dbFname p \<and> dbIname p' = dbIname p"
  proof (cases x)
    case (Put n s)
    then show ?thesis
      using x file_put_spec [OF Cons.prems(1), of s n] index_file_put [OF Cons.prems(2) names(2,1), of n s p'] Cons.prems(3)
      by simp
  next
    case (Put_control a b)
    then show ?thesis
      using x file_put_control_spec [OF Cons.prems(1), of a b] index_file_control [OF Cons.prems(2) names(1), of a b p']
      by simp
  qed
  with Cons.IH [of p'] Cons.prems(3) r show ?case by auto
qed simp

text \<open>Opening the files of a store gives its index again.\<close>

lemma reopen:
  assumes "index_file_ok p" and "om_ok (fp_index p)" and "dbFname p = CheckAddTrailingSlash dir @ fname"
    and "dbIname p = dbFname p @ ''.idx''" and "fs_files p (dbFname p) \<noteq> None"
  shows "file_initialise dir fname False (new_file_persister (fs_files p) limit rot) =
    Inr (p\<lparr>fs_limit := limit, rotnum := rot, opened := True, wasCreated := False\<rparr>, True)"
proof -
  from assms(1) obtain recs where recs: "index_of p = concat (map record_bytes recs)" "recs \<noteq> []"
    "map_of recs = map_of (fp_index p)" by (auto simp: index_file_ok_def)
  have "read_index (replicate 16 NUL) (index_of p) [] = fp_index p"
    using fold_om_insert [of "[]" recs] assms(2) recs by (intro om_eqI) (simp_all add: read_index_records)
  moreover have "fs_files p (dbIname p) \<noteq> None"
  proof
    assume "fs_files p (dbIname p) = None"
    then have "index_of p = []" by (simp add: index_of_def contents_def)
    with recs(1,2) show False using length_IPrec_bytes [of "fst (hd recs)" "snd (hd recs)"] by (cases recs) auto
  qed
  ultimately show ?thesis
    using assms(3-5) by (auto simp: file_initialise_def new_file_persister_def Let_def index_of_def)
qed

lemma initialise_fresh:
  assumes "file_initialise dir fname False (new_file_persister files limit rot) = Inr (p, True)"
    and "files (CheckAddTrailingSlash dir @ fname) = None" and "limit < 2 ^ 63"
  shows "file_ok p \<and> fp_index p = [] \<and> index_of p = [] \<and> dbFname p = CheckAddTrailingSlash dir @ fname \<and>
    dbIname p = dbFname p @ ''.idx'' \<and> fs_files p (dbFname p) \<noteq> None"
  using assms
  by (auto simp: file_initialise_def new_file_persister_def Let_def file_ok_def data_of_def index_of_def contents_def)

lemma first_control:
  assumes "file_ok p" and "fp_index p = []" and "index_of p = []" and "file_put_control p a b = (q, True)"
  shows "index_file_ok q"
proof -
  let ?pr = "\<lparr>ip_offset = ucast a, ip_size = b\<rparr>"
  have "write_at (fs_limit p) 0 (IPrec_bytes 0 ?pr) (index_of p) = (IPrec_bytes 0 ?pr, 16)"
    using assms by (auto simp: file_put_control_def Let_def write_at_def min_def file_ok_def split: if_splits)
  with assms have "q = p\<lparr>fp_index := [(0, ?pr)], fs_files := (fs_files p)(dbIname p \<mapsto> IPrec_bytes 0 ?pr)\<rparr>"
    by (simp add: file_put_control_def Let_def file_ok_def)
  then show ?thesis
    unfolding index_file_ok_def by (intro exI [of _ "[(0, ?pr)]"]) (simp add: index_of_def contents_def)
qed

lemma store_ops_files:
  "store_ops ops p = Some q \<Longrightarrow> fs_files p (dbFname p) \<noteq> None \<Longrightarrow> fs_files q (dbFname q) \<noteq> None"
proof (induction ops arbitrary: p)
  case (Cons x ops)
  obtain p' where x: "do_op x p = (p', True)" and r: "store_ops ops p' = Some q"
    using Cons.prems(1) by (auto split: prod.splits if_splits)
  have "fs_files p' (dbFname p') \<noteq> None"
    using x Cons.prems(2)
    by (cases x) (auto simp: file_put_def file_put_control_def Let_def split: if_splits prod.splits)
  with Cons.IH r show ?case by blast
qed simp

section \<open>Properties\<close>

text \<open>
  C12: the file store implements the memory store. A successful \<open>put\<close> does what it does in memory,
  a failing one changes nothing that can be read, and it fails only for a number that is 0 or
  taken, or when the files have no room. Reading a message, the last number, a range, and the
  control record, which the memory store cannot read back.
\<close>

theorem file_refines_memory:
  assumes "file_ok p" and "length s \<le> FIX8_MAX_MSG_LENGTH" and "from \<noteq> 0"
  shows "file_ok (fst (file_put p n s)) \<and>
    mem_of (fst (file_put p n s)) = (if snd (file_put p n s) then fst (mem_put (mem_of p) n s) else mem_of p) \<and>
    snd (file_put p n s) = (snd (mem_put (mem_of p) n s) \<and> room_for p s) \<and>
    file_get p m = Inr (mem_get (mem_of p) m) \<and>
    file_get_last_seqnum p = mem_get_last_seqnum (mem_of p) \<and>
    file_get_range cb p from to next_send st = mem_get_range cb (mem_of p) from to next_send st \<and>
    mem_of (fst (file_put_control p a b)) = mem_of p \<and>
    file_get_control (fst (file_put_control p a b)) = Some (a, b)"
  using file_put_spec [OF assms(1,2), of n] file_get_mem [OF assms(1), of m] file_last_mem [OF assms(1)]
    file_range_mem [OF assms(1,3), of cb to next_send st] file_put_control_spec [OF assms(1), of a b]
  by simp

definition sample_file :: file_persister where
  "sample_file =
     \<lparr>fs_files = [''d/x'' \<mapsto> [], ''d/x.idx'' \<mapsto> []], fs_limit = 1000, dbFname = ''d/x'', dbIname = ''d/x.idx'',
      rotnum = 0, opened = True, wasCreated = True, fp_index = []\<rparr>"

lemma sample_file_ok: "file_ok sample_file"
  by (simp add: file_ok_def data_of_def contents_def sample_file_def)

theorem file_refines_memory_witness:
  "mem_of (fst (file_put sample_file 7 ''msg'')) = fst (mem_put (mem_of sample_file) 7 ''msg'') \<and>
    snd (file_put sample_file 7 ''msg'')"
proof -
  have l: "length ''msg'' \<le> FIX8_MAX_MSG_LENGTH" by (simp add: FIX8_MAX_MSG_LENGTH_def)
  have "room_for sample_file ''msg''" "snd (mem_put (mem_of sample_file) 7 ''msg'')"
    by (simp_all add: room_for_def data_of_def index_of_def contents_def mem_put_def mem_of_def sample_file_def)
  with file_refines_memory [OF sample_file_ok l, of 1 7 0 "\<lambda>x r (u :: unit). Inr (True, r, u)"] show ?thesis by simp
qed

text \<open>
  C13: both stores keep what they were given. Whatever is put afterwards, a stored message stays
  what it was, nothing is found that was not put, and the last number never falls.
\<close>

theorem stores_keep_messages:
  assumes "om_ok st" and "file_ok p" and "\<forall>x \<in> set xs. length (snd x) \<le> FIX8_MAX_MSG_LENGTH"
    and st': "st' = fold (\<lambda>(n, s) st. fst (mem_put st n s)) xs st"
    and p': "p' = fold (\<lambda>(n, s) p. fst (file_put p n s)) xs p"
  shows "(mem_get st m = Some t \<longrightarrow> mem_get st' m = Some t) \<and>
    (mem_get st' m = Some t \<longrightarrow> mem_get st m = Some t \<or> (m, t) \<in> set xs) \<and>
    (file_get p m = Inr (Some t) \<longrightarrow> file_get p' m = Inr (Some t)) \<and>
    (file_get p' m = Inr (Some t) \<longrightarrow> file_get p m = Inr (Some t) \<or> (m, t) \<in> set xs) \<and>
    om_ok st' \<and> file_ok p'"
proof -
  have ok: "file_ok p'" unfolding p' by (rule fstore.put_all_ok [OF assms(2,3)])
  have e: "(case file_get q m of Inr r \<Rightarrow> r | Inl _ \<Rightarrow> None) = Some t \<longleftrightarrow> file_get q m = Inr (Some t)" if "file_ok q" for q
    using that by (simp add: file_get_mem)
  have "file_get p m = Inr (Some t) \<longrightarrow> file_get p' m = Inr (Some t)"
    using fstore.put_all_keeps [OF assms(2,3), of m t] e [OF assms(2)] e [OF ok] unfolding p' by blast
  moreover have "file_get p' m = Inr (Some t) \<longrightarrow> file_get p m = Inr (Some t) \<or> (m, t) \<in> set xs"
    using fstore.put_all_only [OF assms(2,3), of m t] e [OF assms(2)] e [OF ok] unfolding p' by blast
  moreover have "om_ok st'" unfolding st' by (rule mstore.put_all_ok [OF assms(1)]) simp
  ultimately show ?thesis
    using mstore.put_all_keeps [OF assms(1), of xs m t] mstore.put_all_only [OF assms(1), of xs m t] ok
    unfolding st' by simp
qed

theorem stores_keep_messages_witness:
  "mem_get (fold (\<lambda>(n, s) st. fst (mem_put st n s)) [(2, ''b''), (1, ''c'')] [(1, ''a'')]) 1 = Some ''a''"
  using stores_keep_messages [OF _ sample_file_ok _ refl refl, of "[(1, ''a'')]" "[(2, ''b''), (1, ''c'')]" 1 "''a''"]
  by (simp add: om_ok_def mem_get_def FIX8_MAX_MSG_LENGTH_def)

text \<open>
  C14: a range query hands the callback exactly the stored messages of the range, in ascending
  order, until it declines, and then a pair with number 0, whatever the callback does.
\<close>

theorem range_delivers:
  assumes "om_ok st" and "file_ok p" and "from \<noteq> 0"
  shows "mem_get_range cb st from to next_send s = range_spec cb st from to next_send s \<and>
    file_get_range cb p from to next_send s = range_spec cb (mem_of p) from to next_send s"
proof -
  have "om_ok (mem_of p)" using assms(2) by (simp add: file_ok_def om_ok_mem_of)
  then show ?thesis using assms by (simp add: mem_range_delivers file_range_mem)
qed

theorem range_delivers_witness:
  "mem_get_range (\<lambda>x r xs. Inr (True, r, xs @ [x])) [(1, ''a''), (2, ''b''), (4, ''d''), (5, ''e'')] 2 4 6 [] =
      Inr (2, [(2, ''b''), (4, ''d''), (0, [])]) \<and>
    file_get_range (\<lambda>x r xs. Inr (True, r, xs @ [x])) sample_file 1 0 1 [] = Inr (0, [(0, [])])"
proof -
  let ?st = "[(1, ''a''), (2, ''b''), (4, ''d''), (5, ''e'')] :: mem_store"
  have "om_ok ?st" by (simp add: om_ok_def)
  note r = range_delivers [OF this sample_file_ok]
  have "range_spec (\<lambda>x r xs. Inr (True, r, xs @ [x])) ?st 2 4 6 [] = Inr (2, [(2, ''b''), (4, ''d''), (0, [])])"
    "range_spec (\<lambda>x r xs. Inr (True, r, xs @ [x])) (mem_of sample_file) 1 0 1 [] = Inr (0, [(0, [])])"
    by (simp_all add: range_spec_def mem_of_def sample_file_def Let_def word_le_nat_alt)
  then show ?thesis by (simp add: r)
qed

text \<open>
  C15: a file store that was created by writing a control record first is found again when its
  files are opened by another object: the same messages, the same control record.
\<close>

theorem restart_recovers:
  assumes "file_initialise dir fname False (new_file_persister files limit rot) = Inr (p, True)"
    and "files (CheckAddTrailingSlash dir @ fname) = None" and "limit < 2 ^ 63"
    and "\<forall>x \<in> set ops. op_fits x" and "store_ops (Put_control a b # ops) p = Some q"
  shows "\<exists>q'. file_initialise dir fname False (new_file_persister (fs_files q) limit' rot') = Inr (q', True) \<and>
    mem_of q' = mem_of q \<and> file_get_control q' = file_get_control q \<and> (\<forall>n. file_get q' n = file_get q n) \<and>
    file_get_last_seqnum q' = file_get_last_seqnum q"
proof -
  note f = initialise_fresh [OF assms(1-3)]
  obtain p1 where p1: "file_put_control p a b = (p1, True)" and r: "store_ops ops p1 = Some q"
    using assms(5) by (auto split: prod.splits if_splits)
  have ok1: "file_ok p1" using file_put_control_spec [of p a b] f p1 by simp
  have names: "dbFname p1 = dbFname p" "dbIname p1 = dbIname p" "fs_files p1 (dbFname p1) \<noteq> None"
    using p1 f by (auto simp: file_put_control_def Let_def split: if_splits prod.splits)
  have "index_file_ok p1" using first_control [OF _ _ _ p1] f by blast
  note q = store_ops_ok [OF ok1 this assms(4) r]
  have "file_initialise dir fname False (new_file_persister (fs_files q) limit' rot') =
      Inr (q\<lparr>fs_limit := limit', rotnum := rot', opened := True, wasCreated := False\<rparr>, True)"
    using q f names store_ops_files [OF r names(3)] by (intro reopen) (auto simp: file_ok_def)
  moreover let ?q = "q\<lparr>fs_limit := limit', rotnum := rot', opened := True, wasCreated := False\<rparr>"
  have "data_of ?q = data_of q" "opened q" using q by (simp_all add: data_of_def file_ok_def)
  then have "mem_of ?q = mem_of q" "file_get_control ?q = file_get_control q" "file_get ?q n = file_get q n"
    "file_get_last_seqnum ?q = file_get_last_seqnum q" for n
    by (simp_all add: mem_of_def file_get_control_def file_get_def file_get_last_seqnum_def split: option.split)
  ultimately show ?thesis by blast
qed

theorem restart_recovers_witness:
  "\<exists>p q q'. file_initialise ''d'' ''x'' False (new_file_persister Map.empty 1000 0) = Inr (p, True) \<and>
     store_ops [Put_control 1 1, Put 1 ''a'', Put_control 2 1, Put 2 ''bc''] p = Some q \<and>
     file_initialise ''d'' ''x'' False (new_file_persister (fs_files q) 1000 0) = Inr (q', True) \<and>
     file_get q' 2 = file_get q 2 \<and> file_get_control q' = file_get_control q"
proof -
  let ?ops = "[Put 1 ''a'', Put_control 2 1, Put 2 ''bc'']"
  obtain p where p: "file_initialise ''d'' ''x'' False (new_file_persister Map.empty 1000 0) = Inr (p, True)"
    by (simp add: file_initialise_def new_file_persister_def Let_def)
  have "(case file_initialise ''d'' ''x'' False (new_file_persister Map.empty 1000 0) of
      Inr (p, _) \<Rightarrow> store_ops (Put_control 1 1 # ?ops) p \<noteq> None | Inl _ \<Rightarrow> False)" by code_simp
  with p obtain q where q: "store_ops (Put_control 1 1 # ?ops) p = Some q" by auto
  have "\<forall>x \<in> set ?ops. op_fits x" by (simp add: FIX8_MAX_MSG_LENGTH_def)
  from restart_recovers [OF p _ _ this q, of 1000 0] obtain q' where
    "file_initialise ''d'' ''x'' False (new_file_persister (fs_files q) 1000 0) = Inr (q', True)"
    "file_get q' 2 = file_get q 2" "file_get_control q' = file_get_control q" by auto
  with p q show ?thesis by blast
qed

text \<open>
  A control record that is not written first destroys the index record of the message at the
  start of the index file: after a restart the message is gone.
\<close>

definition reopened :: "file_persister \<Rightarrow> file_persister option" where
  "reopened p =
     (case file_initialise ''d'' ''x'' False (new_file_persister (fs_files p) 1000 0) of
        Inr (q, True) \<Rightarrow> Some q | _ \<Rightarrow> None)"

lemma late_control_loses_message:
  "map_option (\<lambda>q. (file_get q 1, file_get q 2)) (store_ops [Put 1 ''a'', Put 2 ''b'', Put_control 3 1] sample_file) =
      Some (Inr (Some ''a''), Inr (Some ''b'')) \<and>
    map_option (\<lambda>q. (file_get q 1, file_get q 2))
      (Option.bind (store_ops [Put 1 ''a'', Put 2 ''b'', Put_control 3 1] sample_file) reopened) =
      Some (Inr None, Inr (Some ''b''))"
  by code_simp

text \<open>In the memory store the first control record stays, and reading it back is not defined.\<close>

lemma mem_control_stuck:
  "mem_put_control (fst (mem_put_control [] 2 1)) 5 4 = (fst (mem_put_control [] 2 1), False)"
  "mem_get_control (fst (mem_put_control [] 2 1)) = Inl (Undefined BadConversion)"
  by (simp_all add: mem_put_control_def mem_get_control_def)

end
