(* ===== verification/Session.thy ===== *)
theory Session
  imports Reader Persist
begin

text \<open>
  The session layer (\<^verbatim>\<open>include/fix8/session.hpp\<close>, \<^verbatim>\<open>runtime/session.cpp\<close>): identities, schedules,
  the state of a session, the messages it generates, sending, and the handlers of inbound messages.
  What an application overrides (\<open>handle_application\<close>, \<open>handle_admin\<close>, \<open>authenticate\<close>, the modifiers) is a
  parameter, \<open>hooks\<close>, as is the text of the macro \<^verbatim>\<open>FILE_LINE\<close> at a throw. Logging is left out.
\<close>

section \<open>Identities, states, schedules\<close>

record session_id =
  id_begin :: string
  id_sender :: string
  id_target :: string
  id_id :: string

definition make_id :: "session_id \<Rightarrow> session_id" where
  "make_id i = i\<lparr>id_id := id_begin i @ '':'' @ id_sender i @ ''->'' @ id_target i\<rparr>"

definition mk_session_id :: "string \<Rightarrow> string \<Rightarrow> string \<Rightarrow> session_id" where
  "mk_session_id begn sender target =
     make_id \<lparr>id_begin = begn, id_sender = sender, id_target = target, id_id = []\<rparr>"

definition make_reverse_id :: "session_id \<Rightarrow> session_id" where
  "make_reverse_id i = mk_session_id (id_begin i) (id_target i) (id_sender i)"

text \<open>
  The search for the expression \<^verbatim>\<open>([^:]+):([^-]+)->(.+)\<close>: at a given start the first group ends at
  the first colon and the second at the first dash, which must begin an arrow; the third is the
  rest. The leftmost start wins.
\<close>

definition sid_match :: "string \<Rightarrow> (string \<times> string \<times> string) option" where
  "sid_match s =
     (let a = takeWhile (\<lambda>c. c \<noteq> CHR '':'') s; r1 = drop (length a + 1) s;
          b = takeWhile (\<lambda>c. c \<noteq> CHR ''-'') r1; r2 = drop (length b) r1
      in if a \<noteq> [] \<and> length a < length s \<and> b \<noteq> [] \<and> take 2 r2 = ''->'' \<and> drop 2 r2 \<noteq> []
         then Some (a, b, drop 2 r2) else None)"

fun sid_search :: "string \<Rightarrow> (string \<times> string \<times> string) option" where
  "sid_search [] = None"
| "sid_search (c # s) = (case sid_match (c # s) of Some m \<Rightarrow> Some m | None \<Rightarrow> sid_search s)"

definition sid_from_string :: "string \<Rightarrow> session_id \<Rightarrow> session_id" where
  "sid_from_string s i =
     (case sid_search s of None \<Rightarrow> i | Some (a, b, c) \<Rightarrow> mk_session_id a b c)"

definition same_sender_comp_id :: "session_id \<Rightarrow> string \<Rightarrow> bool" where
  "same_sender_comp_id i target = (target = id_sender i)"
definition same_target_comp_id :: "session_id \<Rightarrow> string \<Rightarrow> bool" where
  "same_target_comp_id i sender = (sender = id_target i)"
definition same_side_target_comp_id :: "session_id \<Rightarrow> string \<Rightarrow> bool" where
  "same_side_target_comp_id i target = (target = id_target i)"
definition same_side_sender_comp_id :: "session_id \<Rightarrow> string \<Rightarrow> bool" where
  "same_side_sender_comp_id i sender = (sender = id_sender i)"

definition sid_eq :: "session_id \<Rightarrow> session_id \<Rightarrow> bool" where
  "sid_eq a b = (id_sender b = id_sender a \<and> id_target b = id_target a)"

text \<open>The inequality is not the negation: it needs both parts to differ.\<close>

definition sid_neq :: "session_id \<Rightarrow> session_id \<Rightarrow> bool" where
  "sid_neq a b = (id_sender b \<noteq> id_sender a \<and> id_target b \<noteq> id_target a)"

datatype session_state =
  st_none | st_continuous | st_session_terminated | st_wait_for_logon | st_not_logged_in | st_logon_sent
| st_logon_received | st_logoff_sent | st_logoff_received | st_test_request_sent | st_sequence_reset_sent
| st_sequence_reset_received | st_resend_request_sent | st_resend_request_received

definition is_live :: "session_state \<Rightarrow> bool" where
  "is_live ss = (ss \<noteq> st_none \<and> ss \<noteq> st_session_terminated)"

definition is_established :: "session_state \<Rightarrow> bool" where
  "is_established ss =
     (ss \<noteq> st_wait_for_logon \<and> ss \<noteq> st_not_logged_in \<and> ss \<noteq> st_logon_sent \<and> is_live ss)"

record schedule =
  sc_start :: ticks
  sc_end :: ticks
  sc_start_day :: int
  sc_end_day :: int
  sc_toffset :: ticks

definition schedule_valid :: "schedule \<Rightarrow> bool" where
  "schedule_valid sc = (\<not> is_errorval (sc_start sc))"

definition schedule_test :: "ticks \<Rightarrow> schedule \<Rightarrow> bool \<Rightarrow> bool" where
  "schedule_test clock sc prev =
     (let now = clock + sc_toffset sc; today = now - Prelude.cmod now tv_day;
          inside = in_range now (today + sc_start sc) (today + sc_end sc)
      in if sc_start_day sc < 0
         then if inside then (if \<not> prev then True else prev) else if prev then False else prev
         else
           let wday = tm_wday (get_tm now)
           in if \<not> prev
              then if (sc_end_day sc < sc_start_day sc \<and> (sc_start_day sc \<le> wday \<or> wday \<le> sc_end_day sc)
                       \<or> sc_start_day sc < sc_end_day sc \<and> sc_start_day sc \<le> wday \<and> wday \<le> sc_end_day sc) \<and> inside
                   then True else prev
              else if (sc_end_day sc < sc_start_day sc \<and> (wday < sc_start_day sc \<and> sc_end_day sc < wday)
                       \<or> sc_start_day sc < sc_end_day sc \<and> sc_end_day sc \<le> wday) \<and> today + sc_end sc < now
                   then False else prev)"

record login_params =
  lp_reset_sequence_numbers :: bool
  lp_always_seqnum_assign :: bool
  lp_silent_disconnect :: bool
  lp_no_chksum_flag :: bool
  lp_permissive_mode_flag :: bool
  lp_reliable :: bool
  lp_enforce_compids :: bool
  lp_login_schedule :: schedule
  lp_clients :: "(string \<times> string \<times> string) list"

section \<open>The state of a session\<close>

text \<open>The persister is one of the two stores, behind the virtual functions of \<^verbatim>\<open>Persister\<close>.\<close>

datatype persister = Memory mem_store | File file_persister

fun pers_put :: "persister \<Rightarrow> u32 \<Rightarrow> string \<Rightarrow> persister" where
  "pers_put (Memory st) n s = Memory (fst (mem_put st n s))"
| "pers_put (File p) n s = File (fst (file_put p n s))"

fun pers_put_control :: "persister \<Rightarrow> u32 \<Rightarrow> u32 \<Rightarrow> persister" where
  "pers_put_control (Memory st) a b = Memory (fst (mem_put_control st a b))"
| "pers_put_control (File p) a b = File (fst (file_put_control p a b))"

fun pers_get_control :: "persister \<Rightarrow> error + (u32 \<times> u32) option" where
  "pers_get_control (Memory st) = mem_get_control st"
| "pers_get_control (File p) = return (file_get_control p)"

fun pers_get_range :: "'s retrans_cb \<Rightarrow> persister \<Rightarrow> u32 \<Rightarrow> u32 \<Rightarrow> u32 \<Rightarrow> 's \<Rightarrow> error + u32 \<times> 's" where
  "pers_get_range cb (Memory st) a b n s = mem_get_range cb st a b n s"
| "pers_get_range cb (File p) a b n s = file_get_range cb p a b n s"

text \<open>
  A connection: what has been written to the socket, write by write, and in the pipelined model the
  queue of messages for the writer thread. \<open>cn_up\<close> says whether the socket still takes bytes.
\<close>

datatype process_model = pm_thread | pm_pipeline | pm_coro

record conn =
  cn_acceptor :: bool
  cn_pmodel :: process_model
  cn_hb_interval :: u32
  cn_hb_interval20pc :: u32
  cn_connected :: bool
  cn_running :: bool
  cn_peer :: string
  cn_up :: bool
  cn_out :: "string list"
  cn_queue :: "message list"

definition set_hb_interval :: "u32 \<Rightarrow> conn \<Rightarrow> conn" where
  "set_hb_interval hb c = c\<lparr>cn_hb_interval := hb, cn_hb_interval20pc := hb + hb div 5\<rparr>"

record sess_config =
  sf_ignore_logon_sequence_check :: bool
  sf_create_persister :: "session_id \<Rightarrow> bool \<Rightarrow> persister option"

record session =
  s_ctx :: metactx
  s_now :: ticks
  s_shutdown :: bool
  s_next_send :: u32
  s_next_receive :: u32
  s_state :: session_state
  s_active :: bool
  s_last_sent :: ticks
  s_last_received :: ticks
  s_sci :: string
  s_conn :: "conn option"
  s_req_next_send :: u32
  s_req_next_receive :: u32
  s_sid :: session_id
  s_sf :: "sess_config option"
  s_login :: login_params
  s_persist :: "persister option"
  s_hb_timer :: bool
  s_act_timer :: bool
  s_timer_locked :: bool
  s_schedule :: "schedule option"
  s_batch :: string

text \<open>
  A computation on a session may throw and leave what it has done so far in the state.
\<close>

type_synonym 'a sm = "session \<Rightarrow> (error + 'a) \<times> session"

definition sret :: "'a \<Rightarrow> 'a sm" where "sret x s = (Inr x, s)"
definition sthrow :: "error \<Rightarrow> 'a sm" where "sthrow e s = (Inl e, s)"
definition slift :: "error + 'a \<Rightarrow> 'a sm" where "slift r s = (r, s)"
definition sget :: "(session \<Rightarrow> 'a) \<Rightarrow> 'a sm" where "sget f s = (Inr (f s), s)"
definition supd :: "(session \<Rightarrow> session) \<Rightarrow> unit sm" where "supd f s = (Inr (), f s)"

definition sbind :: "'a sm \<Rightarrow> ('a \<Rightarrow> 'b sm) \<Rightarrow> 'b sm" where
  "sbind m f s = (case m s of (Inl e, s') \<Rightarrow> (Inl e, s') | (Inr x, s') \<Rightarrow> f x s')"

record hooks =
  h_application :: "u32 \<Rightarrow> message \<Rightarrow> bool sm"
  h_admin :: "u32 \<Rightarrow> message \<Rightarrow> bool sm"
  h_authenticate :: "session_id \<Rightarrow> message \<Rightarrow> bool"
  h_modify_header :: "msgbase \<Rightarrow> msgbase"
  h_modify_outbound :: "message \<Rightarrow> message"
  h_file_line :: string

definition do_state_change :: "session_state \<Rightarrow> unit sm" where
  "do_state_change st = supd (\<lambda>s. s\<lparr>s_state := st\<rparr>)"

definition atomic_init :: "session_state \<Rightarrow> unit sm" where
  "atomic_init st = supd (\<lambda>s. s\<lparr>s_state := st, s_next_send := 1, s_next_receive := 1, s_active := True\<rparr>)"

definition is_shutdown :: "session \<Rightarrow> bool" where
  "is_shutdown s = (s_shutdown s \<or> s_state s = st_session_terminated)"

text \<open>
  \<open>stop\<close>. An initiator clears the queue of its timer, whose lock is not recursive: the timer holds
  it while it runs a callback, so a callback that stops an initiator waits for itself.
\<close>

definition session_stop :: "unit sm" where
  "session_stop s =
     (if s_shutdown s then (Inr (), s)
      else
        let s1 = s\<lparr>s_shutdown := True\<rparr> in
        (case s_conn s of
           None \<Rightarrow> (Inr (), s1)
         | Some c \<Rightarrow>
             if cn_acceptor c then (Inr (), s1\<lparr>s_conn := Some (c\<lparr>cn_running := False\<rparr>)\<rparr>)
             else if s_timer_locked s then (Inl (Undefined Deadlock), s1)
             else (Inr (), s1\<lparr>s_hb_timer := False, s_act_timer := False, s_conn := Some (c\<lparr>cn_running := False\<rparr>)\<rparr>)))"

definition update_persist_seqnums :: "unit sm" where
  "update_persist_seqnums = supd (\<lambda>s.
     s\<lparr>s_persist := map_option (\<lambda>p. pers_put_control p (s_next_send s) (s_next_receive s)) (s_persist s)\<rparr>)"

definition recover_seqnums :: "unit sm" where
  "recover_seqnums s =
     (case s_persist s of
        None \<Rightarrow> (Inr (), s)
      | Some p \<Rightarrow>
          (case pers_get_control p of
             Inl e \<Rightarrow> (Inl e, s)
           | Inr None \<Rightarrow> (Inr (), s)
           | Inr (Some (a, b)) \<Rightarrow> (Inr (), s\<lparr>s_next_send := a, s_next_receive := b\<rparr>)))"

section \<open>Messages of the session\<close>

definition create_session_msg :: "metactx \<Rightarrow> string \<Rightarrow> error + message" where
  "create_session_msg ctx msg_type =
     (case find_bme ctx msg_type of
        None \<Rightarrow> throw (InvalidMetadata msg_type)
      | Some bme \<Rightarrow> return (create_message ctx bme True))"

definition add_body :: "fld \<Rightarrow> message \<Rightarrow> error + message" where
  "add_body f msg = bind (add_field f (mb (msg_body msg))) (\<lambda>c. return (msg\<lparr>msg_body := on_core (\<lambda>_. c) (msg_body msg)\<rparr>))"

definition add_hdr :: "fld \<Rightarrow> message \<Rightarrow> error + message" where
  "add_hdr f msg =
     bind (add_field f (mb (msg_header msg))) (\<lambda>c. return (msg\<lparr>msg_header := on_core (\<lambda>_. c) (msg_header msg)\<rparr>))"

definition generate_heartbeat :: "metactx \<Rightarrow> string \<Rightarrow> error + message" where
  "generate_heartbeat ctx testReqID =
     bind (create_session_msg ctx Common_MsgType_HEARTBEAT) (\<lambda>msg.
     if testReqID \<noteq> [] then add_body (new_fld Common_TestReqID (V_string testReqID)) msg else return msg)"

definition generate_reject :: "metactx \<Rightarrow> u32 \<Rightarrow> string option \<Rightarrow> string option \<Rightarrow> error + message" where
  "generate_reject ctx seqnum what msgtype =
     bind (create_session_msg ctx Common_MsgType_REJECT) (\<lambda>msg.
     bind (add_body (new_fld Common_RefSeqNum (V_int seqnum)) msg) (\<lambda>msg.
     bind (case what of None \<Rightarrow> return msg | Some w \<Rightarrow> add_body (new_fld Common_Text (V_string w)) msg) (\<lambda>msg.
     case msgtype of None \<Rightarrow> return msg | Some t \<Rightarrow> add_body (new_fld Common_RefMsgType (V_string t)) msg)))"

definition generate_business_reject ::
  "metactx \<Rightarrow> u32 \<Rightarrow> message \<Rightarrow> i32 \<Rightarrow> string option \<Rightarrow> error + message option" where
  "generate_business_reject ctx seqnum imsg reason what =
     (case create_session_msg ctx Common_MsgType_BUSINESS_REJECT of
        Inl _ \<Rightarrow> return None
      | Inr msg \<Rightarrow>
          bind (add_body (new_fld Common_RefSeqNum (V_int seqnum)) msg) (\<lambda>msg.
          bind (add_body (new_fld Common_RefMsgType (V_string (m_msgType (mb (msg_body imsg))))) msg) (\<lambda>msg.
          bind (add_body (new_fld Common_BusinessRejectReason (V_int reason)) msg) (\<lambda>msg.
          bind (case what of None \<Rightarrow> return msg | Some w \<Rightarrow> add_body (new_fld Common_Text (V_string w)) msg) (\<lambda>msg.
          return (Some msg))))))"

definition generate_test_request :: "metactx \<Rightarrow> string \<Rightarrow> error + message" where
  "generate_test_request ctx testReqID =
     bind (create_session_msg ctx Common_MsgType_TEST_REQUEST) (add_body (new_fld Common_TestReqID (V_string testReqID)))"

definition generate_logon :: "metactx \<Rightarrow> login_params \<Rightarrow> u32 \<Rightarrow> string \<Rightarrow> error + message" where
  "generate_logon ctx lp heartbtint davi =
     bind (create_session_msg ctx Common_MsgType_LOGON) (\<lambda>msg.
     bind (add_body (new_fld Common_HeartBtInt (V_int heartbtint)) msg) (\<lambda>msg.
     bind (add_body (new_fld Common_EncryptMethod (V_int 0)) msg) (\<lambda>msg.
     bind (if davi \<noteq> [] \<and> is_legal (mb (msg_body msg)) Common_DefaultApplVerID
           then add_body (new_fld Common_DefaultApplVerID (V_string davi)) msg else return msg) (\<lambda>msg.
     if lp_reset_sequence_numbers lp then add_body (new_fld Common_ResetSeqNumFlag (V_bool True)) msg
     else return msg))))"

definition generate_logout :: "metactx \<Rightarrow> string option \<Rightarrow> error + message" where
  "generate_logout ctx msgstr =
     bind (create_session_msg ctx Common_MsgType_LOGOUT) (\<lambda>msg.
     case msgstr of None \<Rightarrow> return msg | Some t \<Rightarrow> add_body (new_fld Common_Text (V_string t)) msg)"

definition generate_resend_request :: "metactx \<Rightarrow> u32 \<Rightarrow> u32 \<Rightarrow> error + message" where
  "generate_resend_request ctx begn endd =
     bind (create_session_msg ctx Common_MsgType_RESEND_REQUEST) (\<lambda>msg.
     bind (add_body (new_fld Common_BeginSeqNo (V_int begn)) msg) (add_body (new_fld Common_EndSeqNo (V_int endd))))"

definition generate_sequence_reset :: "metactx \<Rightarrow> u32 \<Rightarrow> bool \<Rightarrow> error + message" where
  "generate_sequence_reset ctx newseqnum gapfillflag =
     bind (create_session_msg ctx Common_MsgType_SEQUENCE_RESET) (\<lambda>msg.
     bind (add_body (new_fld Common_NewSeqNo (V_int newseqnum)) msg) (\<lambda>msg.
     if gapfillflag then add_body (new_fld Common_GapFillFlag (V_bool True)) msg else return msg))"

section \<open>Sending\<close>

text \<open>
  The header fields \<open>send_process\<close> puts into a message: the identities when they are missing, the
  sequence number, the times. A message that has a number is a resent one. The result tells
  whether it counts as a duplicate.
\<close>

definition get_time :: "core \<Rightarrow> u16 \<Rightarrow> ticks \<Rightarrow> ticks" where
  "get_time c fnum d = (case get_field c fnum of Some f \<Rightarrow> (case f_val f of V_timestamp t \<Rightarrow> t | _ \<Rightarrow> d) | None \<Rightarrow> d)"

definition seqnum_for :: "session \<Rightarrow> message \<Rightarrow> u32" where
  "seqnum_for s msg = (if msg_custom_seqnum msg \<noteq> 0 then msg_custom_seqnum msg else s_next_send s)"

definition header_has :: "message \<Rightarrow> u16 \<Rightarrow> bool" where
  "header_has msg fnum = have_field (mb (msg_header msg)) fnum"

definition prepare_header :: "session \<Rightarrow> message \<Rightarrow> error + message \<times> bool" where
  "prepare_header s msg0 =
     (let is_dup = header_has msg0 Common_PossDupFlag; always = lp_always_seqnum_assign (s_login s);
          number = (\<lambda>msg. add_hdr (new_fld Common_MsgSeqNum (V_int (seqnum_for s msg))) msg)
      in
      bind (if header_has msg0 Common_SenderCompID then return msg0
            else add_hdr (new_fld Common_SenderCompID (V_string (id_sender (s_sid s)))) msg0) (\<lambda>msg1.
      bind (if header_has msg1 Common_TargetCompID then return msg1
            else add_hdr (new_fld Common_TargetCompID (V_string (id_target (s_sid s)))) msg1) (\<lambda>msg2.
      bind (if header_has msg2 Common_MsgSeqNum
            then
              bind (if is_dup
                    then return (if always
                                 then (msg2\<lparr>msg_header := on_core (\<lambda>c. fst (remove_field Common_PossDupFlag c)) (msg_header msg2)\<rparr>, True)
                                 else (msg2, True))
                    else if \<not> always
                    then bind (add_hdr (new_fld Common_PossDupFlag (V_bool True)) msg2) (\<lambda>m. return (m, True))
                    else return (msg2, False)) (\<lambda>(msg3, dup).
              bind (add_hdr (new_fld Common_OrigSendingTime
                      (V_timestamp (get_time (mb (msg_header msg3)) Common_SendingTime (s_now s)))) msg3) (\<lambda>msg4.
              bind (if always then number msg4 else return msg4) (\<lambda>msg5. return (msg5, dup))))
            else bind (number msg2) (\<lambda>m. return (m, is_dup))) (\<lambda>(msg6, dup).
      bind (add_hdr (new_fld Common_SendingTime (V_timestamp (s_now s))) msg6) (\<lambda>msg7. return (msg7, dup))))))"

definition is_admin :: "metactx \<Rightarrow> message \<Rightarrow> bool" where
  "is_admin ctx msg = (case find_bme ctx (m_msgType (mb (msg_body msg))) of Some e \<Rightarrow> me_admin e | None \<Rightarrow> False)"

text \<open>What \<^verbatim>\<open>catch (f8Exception&)\<close> catches: everything that is not a defect of the run.\<close>

fun catchable :: "error \<Rightarrow> bool" where
  "catchable (Undefined _) = False"
| "catchable OutOfFuel = False"
| "catchable _ = True"

text \<open>
  After the encoding: a message that ends its batch is written together with the batch; the socket
  takes all or throws, and the exception is caught with the batch still in place. The pointer to
  the text that is stored afterwards points into the batch buffer, which has been cleared by then.
\<close>

definition write_out :: "session \<Rightarrow> message \<Rightarrow> string \<Rightarrow> (session \<times> string) option" where
  "write_out s msg text =
     (if msg_end_of_batch msg
      then
        (case s_conn s of
           Some c \<Rightarrow>
             if cn_up c
             then Some (s\<lparr>s_conn := Some (c\<lparr>cn_out := cn_out c @ [if s_batch s = [] then text else s_batch s @ cstr text]\<rparr>),
                          s_last_sent := s_now s, s_batch := []\<rparr>,
                        if s_batch s = [] then cstr text else [])
             else None
         | None \<Rightarrow> None)
      else Some (s\<lparr>s_batch := s_batch s @ cstr text\<rparr>, cstr text))"

definition after_send :: "message \<Rightarrow> bool \<Rightarrow> string \<Rightarrow> session \<Rightarrow> session" where
  "after_send msg is_dup text s =
     (if is_dup then s
      else
        let s1 = s\<lparr>s_persist := map_option (\<lambda>p.
                     pers_put_control (if is_admin (s_ctx s) msg then p else pers_put p (s_next_send s) text)
                       (s_next_send s + 1) (s_next_receive s)) (s_persist s)\<rparr>
        in if msg_custom_seqnum msg = 0 \<and> \<not> msg_no_increment msg
              \<and> m_msgType (mb (msg_body msg)) \<noteq> Common_MsgType_SEQUENCE_RESET
           then s1\<lparr>s_next_send := s_next_send s1 + 1\<rparr> else s1)"

definition send_process :: "hooks \<Rightarrow> message \<Rightarrow> bool sm" where
  "send_process h msg s =
     (case prepare_header s msg of
        Inl e \<Rightarrow> (Inl e, s)
      | Inr (msg1, is_dup) \<Rightarrow>
          let msg2 = h_modify_outbound h (msg1\<lparr>msg_header := h_modify_header h (msg_header msg1)\<rparr>)
          in (case msg_encode (s_ctx s) msg2 of
                Inl e \<Rightarrow> if catchable e then (Inr False, s) else (Inl e, s)
              | Inr (msg3, text) \<Rightarrow>
                  (case write_out s msg3 text of
                     None \<Rightarrow> (Inr False, s)
                   | Some (s1, kept) \<Rightarrow> (Inr True, after_send msg3 is_dup kept s1))))"

text \<open>
  \<^verbatim>\<open>FIXWriter::write\<close> and \<^verbatim>\<open>write_batch\<close>: in the pipelined model the message waits for the writer
  thread, whose turn is \<open>writer_step\<close>.
\<close>

definition conn_write :: "hooks \<Rightarrow> message \<Rightarrow> bool sm" where
  "conn_write h msg s =
     (case s_conn s of
        None \<Rightarrow> (Inr False, s)
      | Some c \<Rightarrow>
          if cn_pmodel c = pm_pipeline
          then (Inr True, s\<lparr>s_conn := Some (c\<lparr>cn_queue := cn_queue c @ [msg]\<rparr>)\<rparr>)
          else send_process h msg s)"

definition writer_step :: "hooks \<Rightarrow> bool sm" where
  "writer_step h s =
     (case s_conn s of
        None \<Rightarrow> (Inr False, s)
      | Some c \<Rightarrow>
          (case cn_queue c of
             [] \<Rightarrow> (Inr False, s)
           | msg # q \<Rightarrow> send_process h msg (s\<lparr>s_conn := Some (c\<lparr>cn_queue := q\<rparr>)\<rparr>)))"

definition session_send :: "hooks \<Rightarrow> message \<Rightarrow> u32 \<Rightarrow> bool \<Rightarrow> bool sm" where
  "session_send h msg custom_seqnum no_increment =
     conn_write h
       ((if no_increment then (\<lambda>m. m\<lparr>msg_no_increment := True\<rparr>) else id)
         ((if custom_seqnum \<noteq> 0 then (\<lambda>m. m\<lparr>msg_custom_seqnum := custom_seqnum\<rparr>) else id) msg))"

text \<open>Generating a message and sending it.\<close>

definition send_new :: "hooks \<Rightarrow> (metactx \<Rightarrow> error + message) \<Rightarrow> u32 \<Rightarrow> bool \<Rightarrow> bool sm" where
  "send_new h gen custom_seqnum no_increment =
     sbind (sget s_ctx) (\<lambda>ctx. sbind (slift (gen ctx)) (\<lambda>msg. session_send h msg custom_seqnum no_increment))"

fun write_batch_loop :: "hooks \<Rightarrow> message list \<Rightarrow> nat \<Rightarrow> nat sm" where
  "write_batch_loop h [] n = sret n"
| "write_batch_loop h (msg # msgs) n =
     sbind (conn_write h (msg\<lparr>msg_end_of_batch := (msgs = [])\<rparr>)) (\<lambda>ok. write_batch_loop h msgs (if ok then n + 1 else n))"

definition send_batch :: "hooks \<Rightarrow> message list \<Rightarrow> nat sm" where
  "send_batch h msgs =
     (case msgs of
        [] \<Rightarrow> sret 0
      | [msg] \<Rightarrow> sbind (conn_write h msg) (\<lambda>ok. sret (if ok then 1 else 0))
      | _ \<Rightarrow> write_batch_loop h msgs 0)"

section \<open>Checks\<close>

text \<open>Reading fields of a message: a pointer to a missing field is null.\<close>

definition string_of :: "core \<Rightarrow> u16 \<Rightarrow> error + string" where
  "string_of c fnum =
     (case get_field c fnum of
        None \<Rightarrow> throw (Undefined NullDeref)
      | Some f \<Rightarrow> (case f_val f of V_string v \<Rightarrow> return v | _ \<Rightarrow> throw (Undefined BadConversion)))"

definition get_str :: "core \<Rightarrow> u16 \<Rightarrow> string" where
  "get_str c fnum = (case get_field c fnum of Some f \<Rightarrow> (case f_val f of V_string v \<Rightarrow> v | _ \<Rightarrow> []) | None \<Rightarrow> [])"

definition get_int :: "core \<Rightarrow> u16 \<Rightarrow> i32 option" where
  "get_int c fnum = (case get_field c fnum of Some f \<Rightarrow> (case f_val f of V_int v \<Rightarrow> Some v | _ \<Rightarrow> None) | None \<Rightarrow> None)"

definition get_flag :: "core \<Rightarrow> u16 \<Rightarrow> bool" where
  "get_flag c fnum = (case get_field c fnum of Some f \<Rightarrow> f_val f = V_bool True | None \<Rightarrow> False)"

definition msg_type_of :: "message \<Rightarrow> string" where
  "msg_type_of msg = m_msgType (mb (msg_body msg))"

definition compid_check :: "message \<Rightarrow> session_id \<Rightarrow> unit sm" where
  "compid_check msg i =
     sbind (sget (\<lambda>s. lp_enforce_compids (s_login s))) (\<lambda>enforced.
     if \<not> enforced then sret ()
     else
       sbind (slift (string_of (mb (msg_header msg)) Common_TargetCompID)) (\<lambda>target.
       if \<not> same_sender_comp_id i target then sthrow (BadCompidId target)
       else
         sbind (slift (string_of (mb (msg_header msg)) Common_SenderCompID)) (\<lambda>sender.
         if \<not> same_target_comp_id i sender then sthrow (BadCompidId sender) else sret ())))"

definition sequence_check :: "hooks \<Rightarrow> u32 \<Rightarrow> message \<Rightarrow> bool sm" where
  "sequence_check h seqnum msg =
     sbind (sget id) (\<lambda>s.
     if s_next_receive s < seqnum
     then
       if s_state s = st_continuous
       then
         sbind (send_new h (\<lambda>ctx. generate_resend_request ctx (s_next_receive s) 0) 0 False) (\<lambda>_.
         sbind (do_state_change st_resend_request_sent) (\<lambda>_. sret False))
       else if (case s_sf s of None \<Rightarrow> True | Some sf \<Rightarrow> \<not> sf_ignore_logon_sequence_check sf)
       then sthrow (InvalidMsgSequence seqnum (s_next_receive s))
       else sret False
     else if seqnum < s_next_receive s
     then
       let hd = mb (msg_header msg); st = get_time hd Common_SendingTime (s_now s)
       in if \<not> get_flag hd Common_PossDupFlag then sthrow (MsgSequenceTooLow seqnum (s_next_receive s))
          else if get_field hd Common_OrigSendingTime \<noteq> None \<and> st < get_time hd Common_OrigSendingTime (s_now s)
          then sthrow (BadSendingTime (date_time_format (get_time hd Common_OrigSendingTime (s_now s)) with_ms))
          else sret True
     else sret True)"

definition enforce :: "hooks \<Rightarrow> u32 \<Rightarrow> message \<Rightarrow> bool sm" where
  "enforce h seqnum msg =
     sbind (sget id) (\<lambda>s.
     if is_established (s_state s)
     then
       sbind (if s_state s \<noteq> st_logon_received then compid_check msg (s_sid s) else sret ()) (\<lambda>_.
       if msg_type_of msg \<noteq> Common_MsgType_SEQUENCE_RESET
       then sbind (sequence_check h seqnum msg) (\<lambda>r. sret (\<not> r))
       else sret True)
     else sret True)"

definition activation_check :: "session \<Rightarrow> bool" where
  "activation_check s = s_active s"

section \<open>Handlers\<close>

definition logon_refused :: "bool sm" where
  "logon_refused =
     sbind session_stop (\<lambda>_. sbind (do_state_change st_session_terminated) (\<lambda>_. sret False))"

text \<open>The client list: the remote must be in it, with its address unless that is left open.\<close>

definition client_error :: "login_params \<Rightarrow> string \<Rightarrow> string \<Rightarrow> bool" where
  "client_error lp sci peer =
     (lp_clients lp \<noteq> [] \<and>
      (case map_of (lp_clients lp) sci of None \<Rightarrow> True | Some (_, ip) \<Rightarrow> ip \<noteq> [] \<and> ip \<noteq> peer))"

definition logon_initiator :: "hooks \<Rightarrow> u32 \<Rightarrow> message \<Rightarrow> session_id \<Rightarrow> bool sm" where
  "logon_initiator h seqnum msg i =
     sbind (sget id) (\<lambda>s.
     if sid_neq i (s_sid s) \<and> lp_enforce_compids (s_login s) then logon_refused
     else sbind (enforce h seqnum msg) (\<lambda>_. sbind (do_state_change st_continuous) (\<lambda>_. sret True)))"

definition logon_reply :: "hooks \<Rightarrow> u32 \<Rightarrow> message \<Rightarrow> session_id \<Rightarrow> bool sm" where
  "logon_reply h seqnum msg i =
     sbind (supd (\<lambda>s. s\<lparr>s_sid := i\<rparr>)) (\<lambda>_.
     sbind (enforce h seqnum msg) (\<lambda>_.
     let body = mb (msg_body msg); hbi = (case get_int body Common_HeartBtInt of Some v \<Rightarrow> v | None \<Rightarrow> 0);
         davi = get_str body Common_DefaultApplVerID
     in
     sbind (supd (\<lambda>s. s\<lparr>s_conn := map_option (set_hb_interval hbi) (s_conn s)\<rparr>)) (\<lambda>_.
     sbind (sget s_login) (\<lambda>lp.
     sbind (send_new h (\<lambda>ctx. generate_logon ctx lp hbi davi) 0 False) (\<lambda>_.
     sbind (do_state_change st_continuous) (\<lambda>_.
     sbind (sget s_now) (\<lambda>now.
     if schedule_valid (lp_login_schedule lp) \<and> \<not> schedule_test now (lp_login_schedule lp) False
     then logon_refused else sret True)))))))"

definition logon_acceptor :: "hooks \<Rightarrow> u32 \<Rightarrow> message \<Rightarrow> session_id \<Rightarrow> string \<Rightarrow> string \<Rightarrow> bool \<Rightarrow> bool sm" where
  "logon_acceptor h seqnum msg i sci tci reset_given =
     sbind (sget id) (\<lambda>s.
     if s_sci s \<noteq> tci \<and> lp_enforce_compids (s_login s) then logon_refused
     else if client_error (s_login s) sci (case s_conn s of Some c \<Rightarrow> cn_peer c | None \<Rightarrow> []) then logon_refused
     else
       sbind (supd (\<lambda>s. case s_sf s of
                Some sf \<Rightarrow> (if s_persist s = None then s\<lparr>s_persist := sf_create_persister sf i reset_given\<rparr> else s)
              | None \<Rightarrow> s)) (\<lambda>_.
       sbind (if reset_given then supd (\<lambda>s. s\<lparr>s_next_send := 1, s_next_receive := 1\<rparr>)
              else
                sbind recover_seqnums (\<lambda>_.
                supd (\<lambda>s. s\<lparr>s_next_send := (if s_req_next_send s \<noteq> 0 then s_req_next_send s else s_next_send s),
                             s_next_receive := (if s_req_next_receive s \<noteq> 0 then s_req_next_receive s else s_next_receive s)\<rparr>))) (\<lambda>_.
       if h_authenticate h i msg then logon_reply h seqnum msg i else logon_refused)))"

definition handle_logon :: "hooks \<Rightarrow> u32 \<Rightarrow> message \<Rightarrow> bool sm" where
  "handle_logon h seqnum msg =
     sbind (sget id) (\<lambda>s.
     if s_state s = st_continuous
     then
       sbind (send_new h (\<lambda>ctx. generate_reject ctx seqnum (Some ''Already logged on'') None) 0 False) (\<lambda>_. sret True)
     else
       sbind (do_state_change st_logon_received) (\<lambda>_.
       let body = mb (msg_body msg);
           reset_given = (have_field body Common_ResetSeqNumFlag \<and> get_flag body Common_ResetSeqNumFlag);
           sci = get_str (mb (msg_header msg)) Common_SenderCompID;
           tci = get_str (mb (msg_header msg)) Common_TargetCompID;
           i = mk_session_id (c_beginStr (s_ctx s)) tci sci
       in
       case s_conn s of
         None \<Rightarrow> sthrow (Undefined NullDeref)
       | Some c \<Rightarrow>
           sbind (if cn_acceptor c then logon_acceptor h seqnum msg i sci tci reset_given
                  else logon_initiator h seqnum msg i) (\<lambda>ok.
           if ok then sbind (supd (\<lambda>s. s\<lparr>s_hb_timer := True\<rparr>)) (\<lambda>_. sret True) else sret False)))"

definition handle_logout :: "hooks \<Rightarrow> u32 \<Rightarrow> message \<Rightarrow> bool sm" where
  "handle_logout h seqnum msg = sbind (enforce h seqnum msg) (\<lambda>_. sret True)"

text \<open>The new number and the expected one are compared as signed integers.\<close>

definition handle_sequence_reset :: "hooks \<Rightarrow> u32 \<Rightarrow> message \<Rightarrow> bool sm" where
  "handle_sequence_reset h seqnum msg =
     sbind (enforce h seqnum msg) (\<lambda>_.
     sbind (sget s_next_receive) (\<lambda>nr.
     sbind (case get_int (mb (msg_body msg)) Common_NewSeqNo of
              None \<Rightarrow> sret ()
            | Some nsn \<Rightarrow>
                if sint nr \<le> sint nsn then supd (\<lambda>s. s\<lparr>s_next_receive := nsn - 1\<rparr>)
                else sthrow (MsgSequenceTooLow nsn nr)) (\<lambda>_.
     sbind (sget s_state) (\<lambda>st.
     sbind (if st = st_resend_request_sent then do_state_change st_continuous else sret ()) (\<lambda>_.
     sret True)))))"

definition handle_test_request :: "hooks \<Rightarrow> u32 \<Rightarrow> message \<Rightarrow> bool sm" where
  "handle_test_request h seqnum msg =
     sbind (enforce h seqnum msg) (\<lambda>_.
     sbind (send_new h (\<lambda>ctx. generate_heartbeat ctx (get_str (mb (msg_body msg)) Common_TestReqID)) 0 False) (\<lambda>_.
     sret True))"

definition handle_heartbeat :: "hooks \<Rightarrow> u32 \<Rightarrow> message \<Rightarrow> bool sm" where
  "handle_heartbeat h seqnum msg =
     sbind (enforce h seqnum msg) (\<lambda>_.
     sbind (sget s_state) (\<lambda>st.
     sbind (if st = st_test_request_sent then do_state_change st_continuous else sret ()) (\<lambda>_.
     sret True)))"

definition handle_reject :: "u32 \<Rightarrow> message \<Rightarrow> bool sm" where
  "handle_reject seqnum msg = sret False"

definition handle_outbound_reject :: "hooks \<Rightarrow> u32 \<Rightarrow> message option \<Rightarrow> string \<Rightarrow> bool sm" where
  "handle_outbound_reject h seqnum msg errstr =
     send_new h (\<lambda>ctx. generate_reject ctx seqnum (Some errstr)
       (case msg of Some m \<Rightarrow> (if msg_type_of m \<noteq> [] then Some (msg_type_of m) else None) | None \<Rightarrow> None)) 0 False"

subsection \<open>Retransmission\<close>

definition retrans_callback :: "hooks \<Rightarrow> seq_pair \<Rightarrow> rctx \<Rightarrow> (bool \<times> rctx) sm" where
  "retrans_callback h w rctx =
     (if rc_no_more rctx
      then
        let lst = (if rc_last rctx = 0 then rc_begin rctx else rc_last rctx + 1);
            nseq = (if rc_interrupted rctx \<le> lst then lst + 1 else rc_interrupted rctx)
        in
        sbind (send_new h (\<lambda>ctx. generate_sequence_reset ctx nseq True) lst False) (\<lambda>_.
        sbind (supd (\<lambda>s. s\<lparr>s_next_send := nseq\<rparr>)) (\<lambda>_.
        sbind (do_state_change st_continuous) (\<lambda>_. sret (True, rctx))))
      else
        sbind (sget id) (\<lambda>s.
        sbind (if rc_last rctx \<noteq> 0
               then
                 if rc_last rctx + 1 < fst w
                 then send_new h (\<lambda>ctx. generate_sequence_reset ctx (fst w) True) (s_next_send s) False
                 else sret True
               else
                 if rc_begin rctx < fst w
                 then send_new h (\<lambda>ctx. generate_sequence_reset ctx (fst w) True) 0 False
                 else sret True) (\<lambda>_.
        sbind (slift (factory (s_ctx s) (s_now s) (snd w) False False)) (\<lambda>msg.
        sbind (session_send h msg 0 False) (\<lambda>ok. sret (ok, rctx\<lparr>rc_last := fst w\<rparr>))))))"

text \<open>
  The callback as the stores call it. An exception leaves the query at once: it is kept beside the
  state, the query is told to stop, and nothing more is done.
\<close>

definition retrans_cb_of :: "hooks \<Rightarrow> (session \<times> error option) retrans_cb" where
  "retrans_cb_of h w rctx st =
     (case snd st of
        Some e \<Rightarrow> return (False, rctx, st)
      | None \<Rightarrow>
          (case retrans_callback h w rctx (fst st) of
             (Inr (ok, rctx'), s') \<Rightarrow> return (ok, rctx', (s', None))
           | (Inl e, s') \<Rightarrow> return (False, rctx, (s', Some e))))"

definition retransmit :: "hooks \<Rightarrow> persister \<Rightarrow> u32 \<Rightarrow> u32 \<Rightarrow> unit sm" where
  "retransmit h p begn endd s =
     (case pers_get_range (retrans_cb_of h) p begn endd (s_next_send s) (s, None) of
        Inl e \<Rightarrow> (Inl e, s)
      | Inr (_, s', None) \<Rightarrow> (Inr (), s')
      | Inr (_, s', Some e) \<Rightarrow> (Inl e, s'))"

definition handle_resend_request :: "hooks \<Rightarrow> u32 \<Rightarrow> message \<Rightarrow> bool sm" where
  "handle_resend_request h seqnum msg =
     sbind (enforce h seqnum msg) (\<lambda>_.
     sbind (sget id) (\<lambda>s.
     if s_state s = st_resend_request_received then sret True
     else
       let field = (\<lambda>fnum. case get_int (mb (msg_body msg)) fnum of Some v \<Rightarrow> v | None \<Rightarrow> 0);
           begn = field Common_BeginSeqNo; endd = field Common_EndSeqNo
       in if (sint endd < sint begn \<and> endd \<noteq> 0) \<or> begn = 0
          then
            sbind (handle_outbound_reject h seqnum (Some msg) ''Invalid resend range: Begin > End or Begin = 0'') (\<lambda>_.
            sret True)
          else
            (case s_persist s of
               None \<Rightarrow>
                 let nxt = s_next_send s; nseq = (if sint nxt \<le> sint begn then begn + 1 else nxt) in
                 sbind (send_new h (\<lambda>ctx. generate_sequence_reset ctx nseq True) begn False) (\<lambda>_.
                 sbind (supd (\<lambda>s. s\<lparr>s_next_send := nseq\<rparr>)) (\<lambda>_. sret True))
             | Some p \<Rightarrow>
                 sbind (do_state_change st_resend_request_received) (\<lambda>_.
                 sbind (retransmit h p begn endd) (\<lambda>_. sret True)))))"

section \<open>Timers\<close>

definition activation_service :: "bool sm" where
  "activation_service s =
     (if is_shutdown s then (Inr False, s)
      else
        (case s_conn s of
           Some c \<Rightarrow>
             if cn_connected c
             then (case s_schedule s of
                     None \<Rightarrow> (Inl (Undefined NullDeref), s)
                   | Some sch \<Rightarrow> (Inr True, s\<lparr>s_active := schedule_test (s_now s) sch (s_active s)\<rparr>))
             else (Inr True, s)
         | None \<Rightarrow> (Inr True, s)))"

definition ignored_text :: string where
  "ignored_text = ''Remote has ignored my test request. Aborting session...''"

definition heartbeat_service :: "hooks \<Rightarrow> bool sm" where
  "heartbeat_service h =
     sbind (sget id) (\<lambda>s0.
     if is_shutdown s0 then sret False
     else
       (case s_conn s0 of
          None \<Rightarrow> sret True
        | Some c \<Rightarrow>
            if \<not> cn_connected c then sret True
            else
              sbind (if uint (cn_hb_interval c) \<le> tv_secs (s_now s0 - s_last_sent s0)
                     then send_new h (\<lambda>ctx. generate_heartbeat ctx []) 0 False else sret True) (\<lambda>_.
              sbind (sget id) (\<lambda>s.
              if uint (cn_hb_interval20pc c) < tv_secs (s_now s - s_last_received s)
              then
                if s_state s = st_test_request_sent
                then
                  sbind (send_new h (\<lambda>ctx. generate_logout ctx (if lp_silent_disconnect (s_login s) then None else Some ignored_text)) 0 True) (\<lambda>_.
                  sbind (do_state_change st_logoff_sent) (\<lambda>_.
                  sbind session_stop (\<lambda>_. sret True)))
                else if s_state s \<noteq> st_session_terminated
                then
                  sbind (send_new h (\<lambda>ctx. generate_test_request ctx ''TEST'') 0 False) (\<lambda>_.
                  sbind (do_state_change st_test_request_sent) (\<lambda>_. sret True))
                else sret True
              else sret True))))"

text \<open>
  One turn of the timer thread with the event of the given callback at the top of its queue: the
  event is taken off, the callback runs under the lock, and the event is put back when the callback
  returns true. Only a deadlock keeps the lock.
\<close>

datatype timer_event = hb_processor | session_scheduler

definition timer_turn :: "hooks \<Rightarrow> timer_event \<Rightarrow> unit sm" where
  "timer_turn h ev s =
     (let set_timer = (\<lambda>b s. case ev of hb_processor \<Rightarrow> s\<lparr>s_hb_timer := b\<rparr> | session_scheduler \<Rightarrow> s\<lparr>s_act_timer := b\<rparr>);
          s1 = (set_timer False s)\<lparr>s_timer_locked := True\<rparr>
      in case (case ev of hb_processor \<Rightarrow> heartbeat_service h | session_scheduler \<Rightarrow> activation_service) s1 of
           (Inl (Undefined Deadlock), s2) \<Rightarrow> (Inl (Undefined Deadlock), s2)
         | (Inl e, s2) \<Rightarrow> (Inl e, s2\<lparr>s_timer_locked := False\<rparr>)
         | (Inr result, s2) \<Rightarrow>
             (Inr (), (if result then set_timer True s2 else s2)\<lparr>s_timer_locked := False\<rparr>))"

section \<open>Processing a message\<close>

text \<open>The text of an exception.\<close>

definition fmt1 :: "string \<Rightarrow> string \<Rightarrow> string" where
  "fmt1 msg what = msg @ '': '' @ what"

definition fmt2 :: "string \<Rightarrow> string \<Rightarrow> string \<Rightarrow> string \<Rightarrow> string" where
  "fmt2 msg what msg2 what2 = msg @ '': '' @ what @ msg2 @ '': '' @ what2"

abbreviation num :: "'a::len word \<Rightarrow> string" where "num w \<equiv> dec_numeral (unat w)"

fun what :: "metactx \<Rightarrow> string \<Rightarrow> error \<Rightarrow> string" where
  "what ctx loc (F8Exception r _) = r"
| "what ctx loc (InvalidMetadata t) = fmt1 ''Invalid Metadata'' t"
| "what ctx loc (DuplicateField f) = fmt1 ''Duplicate Field'' (num f)"
| "what ctx loc (InvalidDomainValue t) = fmt1 ''Invalid Domain Value'' t"
| "what ctx loc (InvalidField f) = fmt1 ''Invalid Field Added'' (num f)"
| "what ctx loc (UnknownField f) = fmt1 ''Unknown Field Decoded'' (num f)"
| "what ctx loc (InvalidMsgSequence r e) = fmt2 ''Invalid Sequence number, received'' (num r) '' expected'' (num e)"
| "what ctx loc (MsgSequenceTooLow r e) = fmt2 ''Message Sequence too low, received'' (num r) '' expected'' (num e)"
| "what ctx loc (InvalidBodyLength n) = fmt1 ''Invalid BodyLength'' (num n)"
| "what ctx loc (InvalidMessage t) = fmt2 ''Invalid FIX Message'' t '' at'' loc"
| "what ctx loc (IllegalMessage t) = fmt2 ''Illegal FIX Message'' t '' at'' loc"
| "what ctx loc (InvalidVersion t) = fmt1 ''Invalid FIX Version'' t"
| "what ctx loc (BadSendingTime t) = fmt1 ''Bad Sending Time'' t"
| "what ctx loc (BadCompidId t) = fmt1 ''Invalid CompId'' t"
| "what ctx loc (InvalidRepeatingGroup f) = fmt2 ''Invalid Repeating Group'' (num f) '' in'' loc"
| "what ctx loc (MissingRepeatingGroupField f) = fmt1 ''First Field in a Repeating Group is Mandatory'' (num f)"
| "what ctx loc (MissingMessageComponent t) = fmt1 ''Missing Message Component'' t"
| "what ctx loc (MissingMandatoryField f) =
     fmt1 ''Missing Mandatory Field'' ((case find_be ctx f of Some be \<Rightarrow> be_name be @ '' ('' @ num f @ '')'' | None \<Rightarrow> []))"
| "what ctx loc MissingFixedWidthField = fmt1 ''Missing Mandatory Field'' ''Unable to extract fixed width field''"
| "what ctx loc (BadCheckSum n) = fmt1 ''Checksum failure'' (num n)"
| "what ctx loc (f8_threadException t) = fmt1 ''Thread error'' t"
| "what ctx loc (PeerResetConnection t) = fmt1 ''Peer reset connection'' t"
| "what ctx loc (InvalidConfiguration t) =
     fmt1 ''Invalid configuration setting in'' (if t = [] then ''unknown'' else t)"
| "what ctx loc (ConfigurationError t) = fmt1 ''Configuration error'' t"
| "what ctx loc (LogfileException t) = fmt1 ''Error opening logfile'' t"
| "what ctx loc (XMLError t) = fmt1 ''XML parsing error'' t"
| "what ctx loc (Undefined _) = []"
| "what ctx loc OutOfFuel = []"

text \<open>The handler of a message: the types of one character that the session knows, else the application.\<close>

definition dispatch_handler :: "hooks \<Rightarrow> u32 \<Rightarrow> message \<Rightarrow> bool sm" where
  "dispatch_handler h seqnum msg =
     (let t = msg_type_of msg in
      if t = Common_MsgType_HEARTBEAT then handle_heartbeat h seqnum msg
      else if t = Common_MsgType_TEST_REQUEST then handle_test_request h seqnum msg
      else if t = Common_MsgType_RESEND_REQUEST then handle_resend_request h seqnum msg
      else if t = Common_MsgType_REJECT then handle_reject seqnum msg
      else if t = Common_MsgType_SEQUENCE_RESET then handle_sequence_reset h seqnum msg
      else if t = Common_MsgType_LOGOUT then handle_logout h seqnum msg
      else if t = Common_MsgType_LOGON then handle_logon h seqnum msg
      else sbind (sget activation_check) (\<lambda>active. if active then h_application h seqnum msg else sret False))"

definition dispatch :: "hooks \<Rightarrow> u32 \<Rightarrow> message \<Rightarrow> bool sm" where
  "dispatch h seqnum msg =
     sbind (sget s_ctx) (\<lambda>ctx.
     sbind (if is_admin ctx msg then h_admin h seqnum msg else sret True) (\<lambda>admin_result.
     sbind (dispatch_handler h seqnum msg) (\<lambda>result.
     sbind (supd (\<lambda>s. s\<lparr>s_next_receive := s_next_receive s + 1\<rparr>)) (\<lambda>_.
     sbind update_persist_seqnums (\<lambda>_.
     sbind (if msg_type_of msg = Common_MsgType_LOGOUT then session_stop else sret ()) (\<lambda>_.
     sret (result \<and> admin_result)))))))"

text \<open>
  The exception handlers of \<open>process\<close>. Exceptions that force a logoff end the session, all others
  are answered with a reject, even when no message could be made.
\<close>

definition process_error :: "hooks \<Rightarrow> u32 \<Rightarrow> message option \<Rightarrow> error \<Rightarrow> bool sm" where
  "process_error h seqnum msg e =
     sbind (sget id) (\<lambda>s.
     if \<not> catchable e then sthrow e
     else if (case e of LogfileException _ \<Rightarrow> True | _ \<Rightarrow> False) then sret False
     else if force_logoff e
     then
       sbind (if s_state s = st_logon_received \<and> \<not> lp_silent_disconnect (s_login s)
              then
                sbind (do_state_change st_session_terminated) (\<lambda>_.
                sbind (send_new h (\<lambda>ctx. generate_logout ctx (Some (what ctx (h_file_line h) e))) 0 True) (\<lambda>_.
                do_state_change st_logoff_sent))
              else sret ()) (\<lambda>_.
       if lp_reliable (s_login s) then sthrow e
       else sbind session_stop (\<lambda>_. sret False))
     else
       sbind (handle_outbound_reject h seqnum msg (what (s_ctx s) (h_file_line h) e)) (\<lambda>_.
       sbind (supd (\<lambda>s. s\<lparr>s_next_receive := s_next_receive s + 1\<rparr>)) (\<lambda>_. sret True)))"

fun find_sub :: "string \<Rightarrow> string \<Rightarrow> nat option" where
  "find_sub pat [] = (if pat = [] then Some 0 else None)"
| "find_sub pat (c # s) =
     (if take (length pat) (c # s) = pat then Some 0 else map_option Suc (find_sub pat s))"

definition process_message :: "hooks \<Rightarrow> u32 \<Rightarrow> message \<Rightarrow> bool sm" where
  "process_message h seqnum msg s =
     (case dispatch h seqnum msg s of
        (Inl e, s') \<Rightarrow> process_error h seqnum (Some msg) e s'
      | (Inr result, s') \<Rightarrow> (Inr result, s'))"

definition process :: "hooks \<Rightarrow> string \<Rightarrow> bool sm" where
  "process h from s =
     (case find_sub ''34='' from of
        None \<Rightarrow> process_error h 0 None (InvalidMessage from) s
      | Some fpos \<Rightarrow>
          (case fast_atoi_term (drop (fpos + 3) from) SOH of
             None \<Rightarrow> (Inl (Undefined BufferOverflow), s)
           | Some seqnum \<Rightarrow>
               (case factory (s_ctx s) (s_now s) from (lp_no_chksum_flag (s_login s)) (lp_permissive_mode_flag (s_login s)) of
                  Inl e \<Rightarrow> process_error h seqnum None e s
                | Inr msg \<Rightarrow> process_message h seqnum msg s)))"

text \<open>
  One turn of the reader thread, for the outcome of \<open>read\<close>: the message is processed at once, and
  an exception ends the loop and the session.
\<close>

definition reader_turn :: "hooks \<Rightarrow> error + string option \<Rightarrow> bool sm" where
  "reader_turn h r s =
     (let fail = (\<lambda>e s. if catchable e
                         then (Inr False, if is_shutdown s then s else s\<lparr>s_state := st_session_terminated\<rparr>)
                         else (Inl e, s))
      in case r of
           Inl e \<Rightarrow> fail e s
         | Inr None \<Rightarrow> (Inr True, s)
         | Inr (Some msg) \<Rightarrow>
             (case process h msg (s\<lparr>s_last_received := s_now s\<rparr>) of
                (Inl e, s') \<Rightarrow> fail e s'
              | (Inr _, s') \<Rightarrow> (Inr True, s')))"

text \<open>\<open>start\<close> with a connection; \<open>cn_connected\<close> is the outcome of \<^verbatim>\<open>connect\<close>.\<close>

definition session_start :: "hooks \<Rightarrow> conn \<Rightarrow> u32 \<Rightarrow> u32 \<Rightarrow> string \<Rightarrow> schedule option \<Rightarrow> int sm" where
  "session_start h c send_seqnum recv_seqnum davi sched =
     sbind (supd (\<lambda>s. s\<lparr>s_shutdown := False, s_conn := Some c\<rparr>)) (\<lambda>_.
     if \<not> cn_connected c then sret (-1)
     else
       sbind (if cn_acceptor c then atomic_init st_wait_for_logon else sret ()) (\<lambda>_.
       sbind (supd (\<lambda>s. s\<lparr>s_conn := Some (c\<lparr>cn_running := True\<rparr>)\<rparr>)) (\<lambda>_.
       sbind (if \<not> cn_acceptor c
              then
                sbind (atomic_init st_not_logged_in) (\<lambda>_.
                sbind (sget s_login) (\<lambda>lp.
                sbind (if lp_reset_sequence_numbers lp then supd (\<lambda>s. s\<lparr>s_next_send := 1, s_next_receive := 1\<rparr>)
                       else
                         sbind recover_seqnums (\<lambda>_.
                         supd (\<lambda>s. s\<lparr>s_next_send := (if send_seqnum \<noteq> 0 then send_seqnum else s_next_send s),
                                      s_next_receive := (if recv_seqnum \<noteq> 0 then recv_seqnum else s_next_receive s)\<rparr>))) (\<lambda>_.
                sbind (send_new h (\<lambda>ctx. generate_logon ctx lp (cn_hb_interval c) davi) 0 False) (\<lambda>_.
                do_state_change st_logon_sent))))
              else
                supd (\<lambda>s. s\<lparr>s_req_next_send := (if send_seqnum \<noteq> 0 then send_seqnum else s_req_next_send s),
                             s_req_next_receive := (if recv_seqnum \<noteq> 0 then recv_seqnum else s_req_next_receive s)\<rparr>)) (\<lambda>_.
       sbind (supd (\<lambda>s. let sc = (if s_sf s \<noteq> None then sched else None)
              in s\<lparr>s_schedule := sc, s_act_timer := (s_act_timer s \<or> sc \<noteq> None)\<rparr>)) (\<lambda>_. sret 0)))))"

end
