(* ===== verification/SessionInv.thy ===== *)
theory SessionInv
  imports Session
begin

text \<open>
  Invariants of a session. A computation \<open>keeps\<close> a predicate when it holds afterwards, however the
  computation ends; the locale \<open>session_invariant\<close> says what an invariant has to survive for every
  handler, timer and step of a session to keep it.
\<close>

section \<open>Computations that keep a predicate\<close>

definition keeps :: "(session \<Rightarrow> bool) \<Rightarrow> 'a sm \<Rightarrow> bool" where
  "keeps I m \<longleftrightarrow> (\<forall>s. I s \<longrightarrow> I (snd (m s)))"

lemma keepsI: "(\<And>s. I s \<Longrightarrow> I (snd (m s))) \<Longrightarrow> keeps I m"
  by (simp add: keeps_def)

lemma keepsD: "keeps I m \<Longrightarrow> I s \<Longrightarrow> m s = (r, s') \<Longrightarrow> I s'"
  by (metis keeps_def snd_conv)

named_theorems keep \<open>computations that keep an invariant\<close>

lemma keeps_simple [keep]: "keeps I (sret x)" "keeps I (sthrow e)" "keeps I (slift r)" "keeps I (sget f)"
  by (simp_all add: keeps_def sret_def sthrow_def slift_def sget_def)

lemma keeps_bind [keep]: "keeps I m \<Longrightarrow> (\<And>x. keeps I (f x)) \<Longrightarrow> keeps I (sbind m f)"
  by (auto simp: keeps_def sbind_def split: prod.splits sum.splits)

lemma keeps_get: "(\<And>s. I s \<Longrightarrow> keeps I (g (f s))) \<Longrightarrow> keeps I (sbind (sget f) g)"
  by (auto simp: keeps_def sbind_def sget_def)

lemma keeps_lift: "(\<And>x. r = Inr x \<Longrightarrow> keeps I (g x)) \<Longrightarrow> keeps I (sbind (slift r) g)"
  by (cases r) (auto simp: keeps_def sbind_def slift_def)

lemma keeps_upd: "(\<And>s. I s \<Longrightarrow> I (f s)) \<Longrightarrow> keeps I (supd f)"
  by (simp add: keeps_def supd_def)

lemma keeps_if [keep]: "(b \<Longrightarrow> keeps I m) \<Longrightarrow> (\<not> b \<Longrightarrow> keeps I n) \<Longrightarrow> keeps I (if b then m else n)"
  by simp

text \<open>Results that satisfy a predicate, when there is one.\<close>

definition yields :: "('a \<Rightarrow> bool) \<Rightarrow> error + 'a \<Rightarrow> bool" where
  "yields P r \<longleftrightarrow> (\<forall>x. r = Inr x \<longrightarrow> P x)"

named_theorems yield \<open>results that satisfy a predicate\<close>

lemma yieldsD: "yields P r \<Longrightarrow> r = Inr x \<Longrightarrow> P x"
  by (simp add: yields_def)

lemma yields_throw [yield]: "yields P (Inl e)"
  by (simp add: yields_def)

lemma yields_return [yield]: "P x \<Longrightarrow> yields P (Inr x)"
  by (simp add: yields_def)

lemma yields_bind: "yields P r \<Longrightarrow> (\<And>x. P x \<Longrightarrow> yields Q (f x)) \<Longrightarrow> yields Q (bind r f)"
  by (auto simp: yields_def bind_Inr)

lemma yields_if [yield]: "(b \<Longrightarrow> yields P r) \<Longrightarrow> (\<not> b \<Longrightarrow> yields P r') \<Longrightarrow> yields P (if b then r else r')"
  by simp

lemma yields_option [yield]:
  "(x = None \<Longrightarrow> yields P r) \<Longrightarrow> (\<And>y. x = Some y \<Longrightarrow> yields P (f y)) \<Longrightarrow>
   yields P (case x of None \<Rightarrow> r | Some y \<Rightarrow> f y)"
  by (cases x) auto

lemma keeps_option [keep]:
  "(x = None \<Longrightarrow> keeps I m) \<Longrightarrow> (\<And>y. x = Some y \<Longrightarrow> keeps I (f y)) \<Longrightarrow>
   keeps I (case x of None \<Rightarrow> m | Some y \<Rightarrow> f y)"
  by (cases x) auto

section \<open>The range query keeps what the callback keeps\<close>

definition cb_keeps :: "('s \<Rightarrow> bool) \<Rightarrow> 's retrans_cb \<Rightarrow> bool" where
  "cb_keeps P cb \<longleftrightarrow> (\<forall>w rctx st ok rctx' st'. P st \<longrightarrow> cb w rctx st = Inr (ok, rctx', st') \<longrightarrow> P st')"

lemma cb_keepsD: "cb_keeps P cb \<Longrightarrow> P st \<Longrightarrow> cb w rctx st = Inr (ok, rctx', st') \<Longrightarrow> P st'"
  unfolding cb_keeps_def by blast

lemma mem_send_inv:
  "cb_keeps P cb \<Longrightarrow> mem_send_records cb finish itr rctx s n = Inr (k, rctx', s') \<Longrightarrow> P s \<Longrightarrow> P s'"
proof (induction itr arbitrary: rctx s n)
  case (Cons x itr)
  then show ?case by (cases x) (auto simp: bind_Inr dest: cb_keepsD split: if_splits)
qed simp

lemma file_send_inv:
  "cb_keeps P cb \<Longrightarrow> file_send_records cb dat finish itr rctx s n = Inr (k, rctx', s') \<Longrightarrow> P s \<Longrightarrow> P s'"
proof (induction itr arbitrary: rctx s n)
  case (Cons x itr)
  then show ?case
    by (cases x) (auto simp: bind_Inr split: if_splits option.splits, (metis cb_keepsD)+)
qed simp

lemma range_inv:
  assumes cb: "cb_keeps P cb" and r: "pers_get_range cb p a b n s = Inr (k, s')" and "P s"
  shows "P s'"
proof (cases p)
  case (Memory st)
  with r assms(3) show ?thesis
    by (auto simp: mem_get_range_def Let_def bind_Inr split: option.splits if_splits list.splits
        dest!: mem_send_inv [OF cb] cb_keepsD [OF cb, rotated])
next
  case (File q)
  with r assms(3) show ?thesis
    by (auto simp: file_get_range_def Let_def bind_Inr split: option.splits if_splits list.splits
        dest!: file_send_inv [OF cb] cb_keepsD [OF cb, rotated])
qed

section \<open>What an invariant must survive\<close>

text \<open>
  \<open>good\<close> is what the invariant asks of messages given to \<open>send\<close>. Besides sending, which is the hard
  part, an invariant survives the changes of the numbers, the state, the identity, the store and
  the timers, which only few invariants speak about.
\<close>

locale session_invariant =
  fixes I :: "session \<Rightarrow> bool" and h :: hooks and ctx :: metactx and good :: "message \<Rightarrow> bool"
  assumes ctx: "I s \<Longrightarrow> s_ctx s = ctx"
    and state: "I s \<Longrightarrow> I (s\<lparr>s_state := st\<rparr>)"
    and numbers: "I s \<Longrightarrow> I (s\<lparr>s_next_send := a, s_next_receive := b\<rparr>)"
    and identity: "I s \<Longrightarrow> I (s\<lparr>s_sid := i\<rparr>)"
    and store: "I s \<Longrightarrow> I (s\<lparr>s_persist := p\<rparr>)"
    and timers: "I s \<Longrightarrow> I (s\<lparr>s_hb_timer := t, s_act_timer := u, s_timer_locked := l\<rparr>)"
    and activity: "I s \<Longrightarrow> I (s\<lparr>s_active := act\<rparr>)"
    and clock: "I s \<Longrightarrow> I (s\<lparr>s_now := tk, s_last_received := lr\<rparr>)"
    and shutdown: "I s \<Longrightarrow> I (s\<lparr>s_shutdown := True\<rparr>)"
    and running: "I s \<Longrightarrow> s_conn s = Some c \<Longrightarrow> I (s\<lparr>s_conn := Some (c\<lparr>cn_running := False\<rparr>)\<rparr>)"
    and interval: "I s \<Longrightarrow> I (s\<lparr>s_conn := map_option (set_hb_interval hb) (s_conn s)\<rparr>)"
    and socket_gone: "I s \<Longrightarrow> I (s\<lparr>s_conn := map_option (\<lambda>c. c\<lparr>cn_up := False\<rparr>) (s_conn s)\<rparr>)"
    and good_new: "create_session_msg ctx ty = Inr msg \<Longrightarrow> good msg"
    and good_body: "good msg \<Longrightarrow> add_body f msg = Inr msg' \<Longrightarrow> good msg'"
    and good_made: "factory ctx now txt no_chksum permissive = Inr msg \<Longrightarrow> good msg"
    and good_flags: "good msg \<Longrightarrow> good (msg\<lparr>msg_custom_seqnum := cn\<rparr>)" "good msg \<Longrightarrow> good (msg\<lparr>msg_no_increment := ni\<rparr>)"
      "good msg \<Longrightarrow> good (msg\<lparr>msg_end_of_batch := eob\<rparr>)"
    and writes: "good msg \<Longrightarrow> keeps I (conn_write h msg)"
    and turn: "keeps I (writer_step h)"
    and application: "good msg \<Longrightarrow> keeps I (h_application h n msg)" "good msg \<Longrightarrow> keeps I (h_admin h n msg)"
begin

lemma next_send: "I s \<Longrightarrow> I (s\<lparr>s_next_send := a\<rparr>)"
  using numbers [of s "s_next_receive s" a] by simp

lemma next_receive: "I s \<Longrightarrow> I (s\<lparr>s_next_receive := b\<rparr>)"
  using numbers [of s b "s_next_send s"] by simp

lemma hb_timer: "I s \<Longrightarrow> I (s\<lparr>s_hb_timer := t\<rparr>)"
  using timers [of s "s_timer_locked s" "s_act_timer s" t] by simp

lemma act_timer: "I s \<Longrightarrow> I (s\<lparr>s_act_timer := u\<rparr>)"
  using timers [of s "s_timer_locked s" u "s_hb_timer s"] by simp

lemma timer_lock: "I s \<Longrightarrow> I (s\<lparr>s_timer_locked := l\<rparr>)"
  using timers [of s l "s_act_timer s" "s_hb_timer s"] by simp

lemma keeps_state [keep]: "keeps I (do_state_change st)"
  unfolding do_state_change_def by (rule keeps_upd) (rule state)

lemma keeps_stop [keep]: "keeps I session_stop"
proof (rule keepsI)
  fix s assume s: "I s"
  note stopped = shutdown [OF s]
  have "I (s\<lparr>s_shutdown := True, s_conn := Some (c\<lparr>cn_running := False\<rparr>)\<rparr>)" if "s_conn s = Some c" for c
    using running [OF stopped, of c] that by simp
  moreover have "I (s\<lparr>s_shutdown := True, s_hb_timer := False, s_act_timer := False, s_conn := Some (c\<lparr>cn_running := False\<rparr>)\<rparr>)"
    if "s_conn s = Some c" for c
    using running [OF act_timer [OF hb_timer [OF stopped, of False], of False], of c] that by simp
  ultimately show "I (snd (session_stop s))"
    using s stopped by (auto simp: session_stop_def Let_def split: option.splits)
qed

lemma keeps_persist [keep]: "keeps I update_persist_seqnums"
  unfolding update_persist_seqnums_def by (rule keeps_upd) (rule store)

lemma keeps_recover [keep]: "keeps I recover_seqnums"
  by (auto simp: keeps_def recover_seqnums_def numbers split: option.splits sum.splits)

lemma keeps_send [keep]: "good msg \<Longrightarrow> keeps I (session_send h msg n b)"
  unfolding session_send_def by (intro writes) (simp add: good_flags)

lemma keeps_send_new [keep]:
  assumes "yields good (gen ctx)"
  shows "keeps I (send_new h gen n b)"
  unfolding send_new_def using assms by (auto intro!: keeps_get keeps_lift keeps_send dest: ctx yieldsD)

lemma yields_new [yield]: "yields good (create_session_msg ctx ty)"
  by (simp add: yields_def good_new)

lemma yields_body [yield]: "good msg \<Longrightarrow> yields good (add_body f msg)"
  by (simp add: yields_def good_body)

lemma yields_generated [yield]:
  "yields good (generate_heartbeat ctx r)" "yields good (generate_reject ctx k w mt)"
  "yields good (generate_test_request ctx r)" "yields good (generate_logon ctx lp hb davi)"
  "yields good (generate_logout ctx w)" "yields good (generate_resend_request ctx k l)"
  "yields good (generate_sequence_reset ctx k g)"
  unfolding generate_heartbeat_def generate_reject_def generate_test_request_def generate_logon_def
    generate_logout_def generate_resend_request_def generate_sequence_reset_def
  by (intro yields_bind [where P = good] yield; assumption)+

lemma keeps_numbers [keep]:
  "keeps I (supd (\<lambda>s. s\<lparr>s_next_send := f s\<rparr>))" "keeps I (supd (\<lambda>s. s\<lparr>s_next_receive := f s\<rparr>))"
  "keeps I (supd (\<lambda>s. s\<lparr>s_next_send := f s, s_next_receive := g s\<rparr>))"
  by (auto intro: keeps_upd next_send next_receive numbers)

lemma keeps_fields [keep]:
  "keeps I (supd (\<lambda>s. s\<lparr>s_sid := f s\<rparr>))" "keeps I (supd (\<lambda>s. s\<lparr>s_hb_timer := g s\<rparr>))"
  "keeps I (supd (\<lambda>s. s\<lparr>s_conn := map_option (set_hb_interval hb) (s_conn s)\<rparr>))"
  by (auto intro: keeps_upd identity hb_timer interval)

lemma keeps_create_persister [keep]:
  "keeps I (supd (\<lambda>s. case s_sf s of
     Some sf \<Rightarrow> (if s_persist s = None then s\<lparr>s_persist := p s sf\<rparr> else s) | None \<Rightarrow> s))"
  by (auto intro!: keeps_upd store split: option.splits)

subsection \<open>Handlers\<close>

lemma keeps_checks [keep]: "keeps I (compid_check msg i)" "keeps I (sequence_check h seqnum msg)" "keeps I (enforce h seqnum msg)"
proof -
  have c: "keeps I (compid_check msg i)" for i unfolding compid_check_def by (intro keep)
  then show "keeps I (compid_check msg i)" .
  show q: "keeps I (sequence_check h seqnum msg)"
    unfolding sequence_check_def Let_def by (intro keep yield)
  show "keeps I (enforce h seqnum msg)" unfolding enforce_def by (intro keep c q)
qed

lemma keeps_refused [keep]: "keeps I logon_refused"
  unfolding logon_refused_def by (intro keep)

lemma keeps_logon [keep]:
  "keeps I (logon_initiator h seqnum msg i)" "keeps I (logon_reply h seqnum msg i)"
  "keeps I (logon_acceptor h seqnum msg i sci tci reset)" "keeps I (handle_logon h seqnum msg)"
proof -
  show i: "keeps I (logon_initiator h seqnum msg i)" for i unfolding logon_initiator_def by (intro keep)
  have r: "keeps I (logon_reply h seqnum msg i)" for i
    unfolding logon_reply_def Let_def by (intro keep yield)
  then show "keeps I (logon_reply h seqnum msg i)" .
  have a: "keeps I (logon_acceptor h seqnum msg i sci tci reset)" for i sci tci reset
    unfolding logon_acceptor_def by (intro keep r)
  then show "keeps I (logon_acceptor h seqnum msg i sci tci reset)" .
  show "keeps I (handle_logon h seqnum msg)" unfolding handle_logon_def Let_def by (intro keep yield i a)
qed

lemma keeps_handlers [keep]:
  "keeps I (handle_logout h seqnum msg)" "keeps I (handle_sequence_reset h seqnum msg)"
  "keeps I (handle_test_request h seqnum msg)" "keeps I (handle_heartbeat h seqnum msg)"
  "keeps I (handle_reject seqnum msg)" "keeps I (handle_outbound_reject h seqnum what_msg errstr)"
  unfolding handle_logout_def handle_sequence_reset_def handle_test_request_def handle_heartbeat_def
    handle_reject_def handle_outbound_reject_def
  by (intro keep yield)+

subsection \<open>Retransmission\<close>

lemma keeps_retrans_callback [keep]: "keeps I (retrans_callback h w rctx)"
proof (cases "rc_no_more rctx")
  case True
  then show ?thesis unfolding retrans_callback_def Let_def if_P [OF True] by (intro keep yield)
next
  case False
  have resent: "keeps I (sbind (slift (factory (s_ctx s) (s_now s) (snd w) False False)) (\<lambda>msg. sbind (session_send h msg 0 False) k))"
    if "I s" "\<And>ok. keeps I (k ok)" for s k
    using that ctx [OF that(1)] by (auto intro!: keeps_lift keep good_made)
  show ?thesis
    unfolding retrans_callback_def if_not_P [OF False] id_def
    by (rule keeps_get, rule keeps_bind, (intro keep yield) [1], erule resent, intro keep)
qed

lemma retrans_cb_keeps: "cb_keeps (\<lambda>(s, e). I s) (retrans_cb_of h)"
  unfolding cb_keeps_def retrans_cb_of_def
  by (auto split: option.splits prod.splits sum.splits dest: keepsD [OF keeps_retrans_callback, rotated])

lemma keeps_retransmit [keep]: "keeps I (retransmit h p begn endd)"
proof (rule keepsI)
  fix s assume "I s"
  then show "I (snd (retransmit h p begn endd s))"
    by (auto simp: retransmit_def split: sum.splits prod.splits option.splits
        dest: range_inv [OF retrans_cb_keeps])
qed

lemma keeps_resend_request [keep]: "keeps I (handle_resend_request h seqnum msg)"
  unfolding handle_resend_request_def Let_def by (intro keep yield)

subsection \<open>Processing, timers, batches\<close>

lemma keeps_dispatch [keep]:
  assumes "good msg"
  shows "keeps I (dispatch h seqnum msg)"
proof -
  note app = application [OF assms]
  have "keeps I (dispatch_handler h seqnum msg)"
    unfolding dispatch_handler_def Let_def by (intro keep app)
  then show ?thesis unfolding dispatch_def by (intro keep app)
qed

lemma keeps_process_error [keep]: "keeps I (process_error h seqnum msg e)"
  unfolding process_error_def by (intro keep yield)

lemma keeps_process_message [keep]:
  assumes "good msg"
  shows "keeps I (process_message h seqnum msg)"
proof (rule keepsI)
  fix s assume "I s"
  moreover have "I (snd (process_error h k m e s'))" if "I s'" for k m e s'
    using keeps_process_error that by (simp add: keeps_def)
  ultimately show "I (snd (process_message h seqnum msg s))"
    using keepsD [OF keeps_dispatch [OF assms]]
    by (auto simp: process_message_def split: prod.splits sum.splits)
qed

lemma keeps_process [keep]: "keeps I (process h from)"
proof (rule keepsI)
  fix s assume s: "I s"
  have err: "I (snd (process_error h k m e s))" for k m e
    using keeps_process_error s by (simp add: keeps_def)
  have msg: "I (snd (process_message h k msg s))" if "factory (s_ctx s) (s_now s) from a b = Inr msg" for k msg a b
    using that ctx [OF s] good_made keeps_process_message s by (fastforce simp: keeps_def)
  show "I (snd (process h from s))"
    unfolding process_def using s err msg by (auto split: option.splits sum.splits)
qed

lemma keeps_heartbeat [keep]: "keeps I (heartbeat_service h)"
  unfolding heartbeat_service_def by (intro keep yield)

lemma keeps_activation [keep]: "keeps I activation_service"
  by (rule keepsI) (simp add: activation_service_def activity split: option.splits)

lemma keeps_timer_turn [keep]: "keeps I (timer_turn h ev)"
proof -
  have callback: "keeps I (case ev of hb_processor \<Rightarrow> heartbeat_service h | session_scheduler \<Rightarrow> activation_service)"
    by (cases ev) (simp_all add: keeps_heartbeat keeps_activation)
  show ?thesis
  proof (rule keepsI)
    fix s assume s: "I s"
    define s1 where "s1 = (case ev of hb_processor \<Rightarrow> s\<lparr>s_hb_timer := False\<rparr> | session_scheduler \<Rightarrow> s\<lparr>s_act_timer := False\<rparr>)
      \<lparr>s_timer_locked := True\<rparr>"
    obtain r s2 where r: "(case ev of hb_processor \<Rightarrow> heartbeat_service h | session_scheduler \<Rightarrow> activation_service) s1 = (r, s2)"
      by (rule prod.exhaust)
    have "I s1" using s by (auto simp: s1_def hb_timer act_timer timer_lock split: timer_event.split)
    then have s2: "I s2" using callback r by (auto dest: keepsD)
    have "I (s2\<lparr>s_hb_timer := True, s_timer_locked := False\<rparr>)" "I (s2\<lparr>s_act_timer := True, s_timer_locked := False\<rparr>)"
      using timer_lock [OF hb_timer [OF s2]] timer_lock [OF act_timer [OF s2]] by auto
    with s2 timer_lock [OF s2, of False] r show "I (snd (timer_turn h ev s))"
      unfolding timer_turn_def Let_def s1_def
      by (auto split: sum.splits error.splits ub.splits timer_event.splits)
  qed
qed

lemma keeps_received: "I s \<Longrightarrow> I (s\<lparr>s_last_received := s_now s\<rparr>)"
  using clock [of s "s_now s" "s_now s"] by simp

lemma keeps_reader_turn [keep]: "keeps I (reader_turn h r)"
proof (rule keepsI)
  fix s assume s: "I s"
  have "I s'" if "process h msg (s\<lparr>s_last_received := s_now s\<rparr>) = (r, s')" for msg r s'
    using keepsD [OF keeps_process keeps_received [OF s] that] .
  with s show "I (snd (reader_turn h r s))"
    unfolding reader_turn_def Let_def by (auto simp: state split: sum.splits option.splits prod.splits)
qed

lemma keeps_batch_loop [keep]: "\<forall>msg \<in> set msgs. good msg \<Longrightarrow> keeps I (write_batch_loop h msgs n)"
  by (induction msgs arbitrary: n) (auto intro!: keep writes good_flags)

lemma keeps_batch [keep]: "\<forall>msg \<in> set msgs. good msg \<Longrightarrow> keeps I (send_batch h msgs)"
  unfolding send_batch_def by (cases msgs rule: remdups_adj.cases) (auto intro!: keep writes simp del: write_batch_loop.simps)

end

section \<open>Runs of a session\<close>

text \<open>
  What happens to a session once it has been started: the reader has read something, a timer
  callback is due, the application sends a message or a batch, the writer thread takes a message
  from its queue, time passes, the socket breaks, the application stops the session.
\<close>

datatype event =
  Received "error + string option"
| Timer timer_event
| Sent message u32 bool
| SentBatch "message list"
| WriterTurn
| Tick ticks
| SocketGone
| Stopped

inductive session_step :: "hooks \<Rightarrow> session \<Rightarrow> event \<Rightarrow> session \<Rightarrow> bool" for h where
  received: "\<not> is_shutdown s \<Longrightarrow> reader_turn h r s = (res, s') \<Longrightarrow> session_step h s (Received r) s'"
| heartbeat: "s_hb_timer s \<Longrightarrow> \<not> s_timer_locked s \<Longrightarrow> timer_turn h hb_processor s = (res, s') \<Longrightarrow>
    session_step h s (Timer hb_processor) s'"
| scheduler: "s_act_timer s \<Longrightarrow> \<not> s_timer_locked s \<Longrightarrow> timer_turn h session_scheduler s = (res, s') \<Longrightarrow>
    session_step h s (Timer session_scheduler) s'"
| sent: "session_send h msg n ni s = (res, s') \<Longrightarrow> session_step h s (Sent msg n ni) s'"
| batch: "send_batch h msgs s = (res, s') \<Longrightarrow> session_step h s (SentBatch msgs) s'"
| writer: "\<not> is_shutdown s \<Longrightarrow> writer_step h s = (res, s') \<Longrightarrow> session_step h s WriterTurn s'"
| tick: "s_now s \<le> t \<Longrightarrow> session_step h s (Tick t) (s\<lparr>s_now := t\<rparr>)"
| gone: "session_step h s SocketGone (s\<lparr>s_conn := map_option (\<lambda>c. c\<lparr>cn_up := False\<rparr>) (s_conn s)\<rparr>)"
| stopped: "session_stop s = (res, s') \<Longrightarrow> session_step h s Stopped s'"

inductive session_run :: "hooks \<Rightarrow> session \<Rightarrow> event list \<Rightarrow> session \<Rightarrow> bool" for h where
  run_start: "session_run h s [] s"
| run_step: "session_run h s evs s' \<Longrightarrow> session_step h s' ev s'' \<Longrightarrow> session_run h s (evs @ [ev]) s''"

inductive_cases session_stepE: "session_step h s ev s'"
inductive_simps session_step_simps [simp]:
  "session_step h s (Received r) s'" "session_step h s (Timer ev) s'" "session_step h s (Sent msg n ni) s'"
  "session_step h s (SentBatch msgs) s'" "session_step h s WriterTurn s'" "session_step h s (Tick t) s'"
  "session_step h s SocketGone s'" "session_step h s Stopped s'"

text \<open>The messages the application hands over.\<close>

fun event_messages :: "event \<Rightarrow> message list" where
  "event_messages (Sent msg _ _) = [msg]"
| "event_messages (SentBatch msgs) = msgs"
| "event_messages _ = []"

context session_invariant
begin

lemma step_keeps:
  assumes "session_step h s ev s'" and "I s" and "\<forall>msg \<in> set (event_messages ev). good msg"
  shows "I s'"
  using assms
proof (cases rule: session_step.cases)
  case (tick t)
  then show ?thesis using clock [OF assms(2), of "s_last_received s" t] by simp
next
  case gone
  then show ?thesis using socket_gone [OF assms(2)] by simp
qed (auto dest: keepsD [OF keeps_reader_turn] keepsD [OF keeps_timer_turn] keepsD [OF keeps_send]
    keepsD [OF keeps_batch] keepsD [OF turn] keepsD [OF keeps_stop])

lemma run_keeps:
  "session_run h s evs s' \<Longrightarrow> I s \<Longrightarrow> \<forall>ev \<in> set evs. \<forall>msg \<in> set (event_messages ev). good msg \<Longrightarrow> I s'"
  by (induction rule: session_run.induct) (auto intro: step_keeps)

end

section \<open>Starting a session\<close>

text \<open>
  An invariant that also survives the start on a \<open>fresh\<close> connection holds through the whole life of
  a session.
\<close>

locale session_lifetime = session_invariant +
  fixes fresh :: "conn \<Rightarrow> bool"
  assumes connected: "I s \<Longrightarrow> fresh c \<Longrightarrow> I (s\<lparr>s_shutdown := False, s_conn := Some c\<rparr>)"
    and started: "I s \<Longrightarrow> fresh c \<Longrightarrow> I (s\<lparr>s_conn := Some (c\<lparr>cn_running := True\<rparr>)\<rparr>)"
    and requested: "I s \<Longrightarrow> I (s\<lparr>s_req_next_send := a, s_req_next_receive := b\<rparr>)"
    and scheduled: "I s \<Longrightarrow> I (s\<lparr>s_schedule := sc\<rparr>)"
begin

lemma keeps_start:
  assumes "fresh c"
  shows "keeps I (session_start h c send_seqnum recv_seqnum davi sched)"
proof -
  have conn: "keeps I (supd (\<lambda>s. s\<lparr>s_shutdown := False, s_conn := Some c\<rparr>))"
    "keeps I (supd (\<lambda>s. s\<lparr>s_conn := Some (c\<lparr>cn_running := True\<rparr>)\<rparr>))"
    using assms by (auto intro: keeps_upd connected started)
  have init: "keeps I (atomic_init st)" for st
    unfolding atomic_init_def
  proof (rule keeps_upd)
    fix s assume "I s"
    from activity [OF numbers [OF state [OF this]]]
    show "I (s\<lparr>s_state := st, s_next_send := 1, s_next_receive := 1, s_active := True\<rparr>)" by simp
  qed
  have req: "keeps I (supd (\<lambda>s. s\<lparr>s_req_next_send := f s, s_req_next_receive := g s\<rparr>))" for f g
    by (rule keeps_upd) (rule requested)
  have sch: "keeps I (supd (\<lambda>s. let sc = f s in s\<lparr>s_schedule := sc, s_act_timer := g s sc\<rparr>))" for f g
  proof (rule keeps_upd)
    fix s assume "I s"
    from act_timer [OF scheduled [OF this]]
    show "I (let sc = f s in s\<lparr>s_schedule := sc, s_act_timer := g s sc\<rparr>)" by (simp add: Let_def)
  qed
  show ?thesis unfolding session_start_def by (intro keep conn init req sch yield)
qed

lemma lifetime_keeps:
  assumes "fresh c" and "I s0" and "session_start h c send_seqnum recv_seqnum davi sched s0 = (r, s1)"
    and "session_run h s1 evs s" and "\<forall>ev \<in> set evs. \<forall>msg \<in> set (event_messages ev). good msg"
  shows "I s"
  using run_keeps [OF assms(4) keepsD [OF keeps_start [OF assms(1)] assms(2,3)] assms(5)] .

end

end
