(* ===== verification/SessionSamples.thy ===== *)
theory SessionSamples
  imports Session
begin

text \<open>
  A dictionary with the session messages, an application that adds nothing, and sessions in several
  states, for the concrete inputs of the witnesses.
\<close>

text \<open>What has gone out to the socket, write by write.\<close>

definition written :: "session \<Rightarrow> string list" where
  "written s = (case s_conn s of Some c \<Rightarrow> cn_out c | None \<Rightarrow> [])"

definition session_hdr_traits :: "field_trait list" where
  "session_hdr_traits =
     [sample_flag [suppress, automatic] (mk_trait 8 ft_string 1 False False 0 False),
      sample_flag [suppress, automatic] (mk_trait 9 ft_Length 2 False False 0 False),
      mk_trait 34 ft_SeqNum 6 True False 0 False,
      sample_flag [automatic] (mk_trait 35 ft_string 3 False False 0 False),
      mk_trait 43 ft_Boolean 7 False False 0 False,
      mk_trait 49 ft_string 4 True False 0 False,
      mk_trait 52 ft_UTCTimestamp 8 True False 0 False,
      mk_trait 56 ft_string 5 True False 0 False,
      mk_trait 122 ft_UTCTimestamp 9 False False 0 False]"

definition session_bme :: "(string, msg_entry) gtable" where
  "session_bme =
     [sample_entry ''0'' ''Heartbeat'' [mk_trait 112 ft_string 1 False False 0 False] [] True,
      sample_entry ''1'' ''TestRequest'' [mk_trait 112 ft_string 1 True False 0 False] [] True,
      sample_entry ''2'' ''ResendRequest''
        [mk_trait 7 ft_SeqNum 1 True False 0 False, mk_trait 16 ft_SeqNum 2 True False 0 False] [] True,
      sample_entry ''3'' ''Reject''
        [mk_trait 45 ft_SeqNum 1 True False 0 False, mk_trait 58 ft_string 3 False False 0 False,
         mk_trait 372 ft_string 2 False False 0 False] [] True,
      sample_entry ''4'' ''SequenceReset''
        [mk_trait 36 ft_SeqNum 2 True False 0 False, mk_trait 123 ft_Boolean 1 False False 0 False] [] True,
      sample_entry ''5'' ''Logout'' [mk_trait 58 ft_string 1 False False 0 False] [] True,
      sample_entry ''A'' ''Logon''
        [mk_trait 98 ft_int 1 True False 0 False, mk_trait 108 ft_int 2 True False 0 False,
         mk_trait 141 ft_Boolean 3 False False 0 False] [] True,
      sample_entry ''D'' ''NewOrderSingle'' [mk_trait 11 ft_string 1 True False 0 False] [] False,
      sample_entry ''header'' ''header'' session_hdr_traits [] False,
      sample_entry ''trailer'' ''trailer'' sample_trl_traits [] False]"

definition session_be :: "(u32, base_entry) gtable" where
  "session_be = map (\<lambda>(k, n, c). (k, \<lparr>be_class = c, be_name = n, be_fnum = ucast k, be_rlm = None\<rparr>))
     [(7, ''BeginSeqNo'', C_int), (8, ''BeginString'', C_string), (9, ''BodyLength'', C_int),
      (10, ''CheckSum'', C_string), (11, ''ClOrdID'', C_string), (16, ''EndSeqNo'', C_int),
      (34, ''MsgSeqNum'', C_int), (35, ''MsgType'', C_string), (36, ''NewSeqNo'', C_int),
      (43, ''PossDupFlag'', C_bool), (45, ''RefSeqNum'', C_int), (49, ''SenderCompID'', C_string),
      (52, ''SendingTime'', C_timestamp), (56, ''TargetCompID'', C_string), (58, ''Text'', C_string),
      (98, ''EncryptMethod'', C_int), (108, ''HeartBtInt'', C_int), (112, ''TestReqID'', C_string),
      (122, ''OrigSendingTime'', C_timestamp), (123, ''GapFillFlag'', C_bool),
      (141, ''ResetSeqNumFlag'', C_bool), (372, ''RefMsgType'', C_string)]"

definition session_ctx :: metactx where
  "session_ctx =
     \<lparr>c_version = 4200, c_bme = session_bme, c_be = session_be,
      c_flu = fill_flu session_be (replicate 373 None),
      c_hdr = snd (session_bme ! 8), c_trl = snd (session_bme ! 9),
      c_beginStr = ''FIX.4.2'', c_preamble_sz = 13, c_reverse_msgtable = [], c_reverse_fieldtable = []\<rparr>"

definition default_hooks :: hooks where
  "default_hooks =
     \<lparr>h_application = (\<lambda>n msg. sret True), h_admin = (\<lambda>n msg. sret True), h_authenticate = (\<lambda>i msg. True),
      h_modify_header = id, h_modify_outbound = id, h_file_line = ''''\<rparr>"

definition sample_login :: login_params where
  "sample_login =
     \<lparr>lp_reset_sequence_numbers = False, lp_always_seqnum_assign = False, lp_silent_disconnect = False,
      lp_no_chksum_flag = False, lp_permissive_mode_flag = False, lp_reliable = False,
      lp_enforce_compids = True,
      lp_login_schedule = \<lparr>sc_start = errorticks, sc_end = errorticks, sc_start_day = -1, sc_end_day = -1, sc_toffset = 0\<rparr>,
      lp_clients = []\<rparr>"

definition sample_conn :: "bool \<Rightarrow> conn" where
  "sample_conn acceptor =
     \<lparr>cn_acceptor = acceptor, cn_pmodel = pm_thread, cn_hb_interval = 30, cn_hb_interval20pc = 36,
      cn_connected = True, cn_running = False, cn_peer = ''10.0.0.1'', cn_up = True, cn_out = [], cn_queue = []\<rparr>"

definition sample_session :: "session_state \<Rightarrow> bool \<Rightarrow> session" where
  "sample_session st acceptor =
     \<lparr>s_ctx = session_ctx, s_now = 1000000000, s_shutdown = False, s_next_send = 1, s_next_receive = 1,
      s_state = st, s_active = True, s_last_sent = 0, s_last_received = 0, s_sci = ''SRV'',
      s_conn = Some (sample_conn acceptor), s_req_next_send = 0, s_req_next_receive = 0,
      s_sid = mk_session_id ''FIX.4.2'' ''SRV'' ''CLI'', s_sf = None, s_login = sample_login,
      s_persist = Some (Memory []), s_hb_timer = True, s_act_timer = False, s_timer_locked = False,
      s_schedule = None, s_batch = []\<rparr>"

end
