(* ===== verification/Wire.thy ===== *)
theory Wire
  imports SessionInv SessionSamples
begin

text \<open>
  What a session puts on the wire: the objects the generated classes put in front of a header and a
  trailer stay where they are, so that every message a session encodes is framed, and with it
  everything it ever writes to its socket.
\<close>

section \<open>The objects of a message are only added to\<close>

definition grows :: "core \<Rightarrow> core \<Rightarrow> bool" where
  "grows c c' \<longleftrightarrow> (\<exists>fs. m_objs c' = m_objs c @ fs)"

lemma grows_refl [simp]: "grows c c"
  by (simp add: grows_def)

lemma grows_trans: "grows a b \<Longrightarrow> grows b c \<Longrightarrow> grows a c"
  by (auto simp: grows_def)

lemma grows_add: "m_objs c' = m_objs c @ [f] \<Longrightarrow> grows c c'"
  by (auto simp: grows_def)

lemma grows_same: "m_objs c' = m_objs c \<Longrightarrow> grows c c'"
  by (auto simp: grows_def)

lemma grows_replace_at: "replace_at fnum pos f c = (c', old) \<Longrightarrow> grows c c'"
  by (auto simp: replace_at_def Let_def grows_def split: option.splits)

lemma grows_replace_itr: "grows c (fst (replace_field_itr fnum itr f c))"
  by (auto simp: replace_field_itr_def grows_def split: prod.splits dest!: grows_replace_at)

lemma grows_add_itr: "grows c (add_field_itr fnum itr pos f check c)"
  by (auto simp: add_field_itr_def Let_def grows_replace_itr grows_add split: prod.splits)

lemma grows_add_field: "add_field f c = Inr c' \<Longrightarrow> grows c c'"
  by (auto simp: add_field_def Let_def grows_add_itr split: prod.splits if_splits)

lemma grows_remove: "grows c (fst (remove_field fnum c))"
  by (simp add: remove_field_def grows_def split: option.splits)

section \<open>Decoding\<close>

lemma dec_group_core: "dec_group n env gb fnum s m = Inr (m', s') \<Longrightarrow> mb m' = mb m"
  by (cases n) (auto simp: find_add_group_def add_group_def put_group_def split: option.splits sum.splits prod.splits)

lemma dec_store_grows: "yields (\<lambda>st'. grows (mb (d_m st)) (mb (d_m st'))) (dec_store n env tv itr val st)"
  by (auto simp: yields_def dec_store_def Let_def bind_Inr add_field_decoder_def grows_def
      dest!: dec_group_core split: option.splits if_splits)

lemma dec_unknown_grows: "dec_unknown env permissive result st = (st', go_on) \<Longrightarrow> grows (mb (d_m st)) (mb (d_m st'))"
  by (auto simp: dec_unknown_def Let_def intro: grows_same split: if_splits)

lemma dec_data_grows:
  "yields (\<lambda>(st', _). grows (mb (d_m st)) (mb (d_m st'))) (dec_data n env permissive ltv tag val st)"
  unfolding dec_data_def Let_def
  by (auto simp: yields_def bind_Inr dest: dec_unknown_grows dest!: yieldsD [OF dec_store_grows]
      split: if_split_asm option.split_asm)

lemma dec_loop_grows: "dec_loop n env permissive st = Inr st' \<Longrightarrow> grows (mb (d_m st)) (mb (d_m st'))"
proof (induction n arbitrary: st)
  case (Suc n)
  have store: "grows (mb (d_m st)) (mb (d_m st2))" if "dec_store n env tv itr val (st\<lparr>d_off := k\<rparr>) = Inr st2" for tv itr val k st2
    using yieldsD [OF dec_store_grows that] by simp
  have data: "grows (mb (d_m st2)) (mb (d_m st3))" if "dec_data n env permissive tv tag val st2 = Inr (st3, b)" for tv tag val st2 st3 b
    using yieldsD [OF dec_data_grows that] by simp
  from Suc.prems show ?case
    by (auto simp: Let_def bind_Inr split: if_splits option.splits prod.splits
        dest!: Suc.IH dec_unknown_grows store data intro: grows_trans)
qed simp

lemma decode_grows: "decode n ctx now from off ign permissive m = Inr (m', k) \<Longrightarrow> grows (mb m) (mb m')"
  by (auto simp: decode_def Let_def bind_Inr dest!: dec_loop_grows split: if_splits)

section \<open>Messages with a frame\<close>

definition meta_frame :: "metactx \<Rightarrow> bool" where
  "meta_frame ctx \<longleftrightarrow> c_preamble_sz ctx = 6 + length (c_beginStr ctx) \<and> text_ok (c_beginStr ctx)"

lemma frame_ok_grows:
  assumes "frame_ok ctx msg" and "grows (mb (msg_header msg)) (mb (msg_header msg'))"
    and "grows (mb (msg_trailer msg)) (mb (msg_trailer msg'))"
  shows "frame_ok ctx msg'"
  using assms unfolding frame_ok_def grows_def by fastforce

lemma frame_ok_created: "meta_frame ctx \<Longrightarrow> frame_ok ctx (create_message ctx bme deep)"
  by (auto simp: frame_ok_def meta_frame_def create_message_def mk_hdr_def mk_trl_def add_field_pos_def
      add_field_itr_def new_core_def Let_def)

lemma frame_ok_created_msg: "meta_frame ctx \<Longrightarrow> create_session_msg ctx ty = Inr msg \<Longrightarrow> frame_ok ctx msg"
  by (auto simp: create_session_msg_def frame_ok_created split: option.splits)

lemma frame_ok_body: "frame_ok ctx msg \<Longrightarrow> add_body f msg = Inr msg' \<Longrightarrow> frame_ok ctx msg'"
  by (rule frame_ok_grows) (auto simp: add_body_def bind_Inr)

lemma frame_ok_hdr: "frame_ok ctx msg \<Longrightarrow> add_hdr f msg = Inr msg' \<Longrightarrow> frame_ok ctx msg'"
  by (rule frame_ok_grows) (auto simp: add_hdr_def bind_Inr dest: grows_add_field)

lemma frame_ok_decoded:
  "frame_ok ctx msg \<Longrightarrow> msg_decode n ctx now from off ign permissive msg = Inr (msg', k) \<Longrightarrow> frame_ok ctx msg'"
  by (rule frame_ok_grows) (auto simp: msg_decode_def bind_Inr dest!: decode_grows)

lemma frame_ok_values:
  assumes "frame_ok ctx msg"
  shows "frame_ok ctx (msg\<lparr>msg_header := on_core (set_value hdr_msg_type v \<circ> set_value hdr_body_length (V_int k)) (msg_header msg)\<rparr>)"
    "frame_ok ctx (msg\<lparr>msg_trailer := on_core (set_value trl_check_sum w) (msg_trailer msg)\<rparr>)"
    "frame_ok ctx (msg\<lparr>msg_header := on_core (set_value hdr_msg_type v \<circ> set_value hdr_body_length (V_int k)) (msg_header msg),
       msg_trailer := on_core (set_value trl_check_sum w) (msg_trailer msg)\<rparr>)"
  using assms
  by (auto simp: frame_ok_def set_value_def hdr_msg_type_def hdr_body_length_def trl_check_sum_def new_fld_def)

lemma frame_ok_made:
  assumes "meta_frame ctx" and "factory ctx now from no_chksum permissive = Inr msg"
  shows "frame_ok ctx msg"
  using assms(2) unfolding factory_def Let_def
  by (auto simp: bind_Inr split: if_splits option.splits prod.splits
      intro!: frame_ok_values dest!: frame_ok_decoded [OF frame_ok_created [OF assms(1)]])

lemma frame_ok_prepared: "frame_ok ctx msg \<Longrightarrow> prepare_header s msg = Inr (msg', dup) \<Longrightarrow> frame_ok ctx msg'"
proof -
  assume f: "frame_ok ctx msg" and p: "prepare_header s msg = Inr (msg', dup)"
  let ?P = "frame_ok ctx" and ?Q = "\<lambda>(m, _ :: bool). frame_ok ctx m"
  have removed: "frame_ok ctx (m\<lparr>msg_header := on_core (\<lambda>c. fst (remove_field k c)) (msg_header m)\<rparr>)" if "frame_ok ctx m" for m k
    using that by (rule frame_ok_grows) (simp_all add: grows_remove)
  have hdr [yield]: "yields ?P (add_hdr f m)" if "frame_ok ctx m" for f m
    using that by (auto simp: yields_def frame_ok_hdr)
  have "yields ?Q (prepare_header s msg)"
    unfolding prepare_header_def Let_def
    by (rule yields_bind [where P = ?P], (intro yield f) [1], rule yields_bind [where P = ?P], (intro yield; assumption) [1],
      rule yields_bind [where P = ?Q])
      (auto intro!: yield yields_bind [where P = ?P] yields_bind [where P = ?Q] removed hdr split: prod.split)
  then show ?thesis using p by (auto simp: yields_def)
qed

section \<open>Frames on the wire\<close>

definition is_frame :: "metactx \<Rightarrow> string \<Rightarrow> bool" where
  "is_frame ctx f \<longleftrightarrow> (\<exists>content chk. f = framed ctx content @ ''10='' @ chk @ [SOH] \<and> length chk = 3 \<and>
     calc_chksum (f @ [NUL]) (length f) 0 (int (length f - 7)) = Some (fast_atoi chk))"

lemma encoded_is_frame: "frame_ok ctx msg \<Longrightarrow> msg_encode ctx msg = Inr (msg', f) \<Longrightarrow> is_frame ctx f"
  using encode_frame [of ctx msg msg' f] by (auto simp: is_frame_def)

text \<open>
  A batch is collected as C strings: a frame that has a null byte in it is cut there, any other is
  complete.
\<close>

definition frames :: "metactx \<Rightarrow> string \<Rightarrow> bool" where
  "frames ctx t \<longleftrightarrow> (\<exists>fs. t = concat fs \<and> (\<forall>g \<in> set fs. \<exists>f. is_frame ctx f \<and> (g = f \<or> NUL \<in> set f \<and> g = cstr f)))"

lemma cstr_frame: "NUL \<notin> set f \<Longrightarrow> cstr f = f"
  by (simp add: cstr_idem)

lemma frames_nil [simp]: "frames ctx []"
  unfolding frames_def by (rule exI [of _ "[]"]) simp

lemma frames_append: "frames ctx t \<Longrightarrow> frames ctx u \<Longrightarrow> frames ctx (t @ u)"
  unfolding frames_def by (elim exE conjE, rule_tac x = "fs @ fsa" in exI) auto

lemma frames_single: "is_frame ctx f \<Longrightarrow> frames ctx f" "is_frame ctx f \<Longrightarrow> frames ctx (cstr f)"
proof -
  assume f: "is_frame ctx f"
  show "frames ctx f" unfolding frames_def using f by (intro exI [of _ "[f]"]) auto
  show "frames ctx (cstr f)"
    unfolding frames_def using f cstr_frame by (intro exI [of _ "[cstr f]"]) (cases "NUL \<in> set f", auto)
qed

section \<open>The invariant\<close>

definition conn_wire :: "metactx \<Rightarrow> conn \<Rightarrow> bool" where
  "conn_wire ctx c \<longleftrightarrow> (\<forall>t \<in> set (cn_out c). frames ctx t) \<and> (\<forall>msg \<in> set (cn_queue c). frame_ok ctx msg)"

definition wire_ok :: "metactx \<Rightarrow> session \<Rightarrow> bool" where
  "wire_ok ctx s \<longleftrightarrow> s_ctx s = ctx \<and> frames ctx (s_batch s) \<and> (\<forall>c. s_conn s = Some c \<longrightarrow> conn_wire ctx c)"

text \<open>
  What is asked of an application: its modifiers leave the objects of the frame alone, and its
  handlers act on the session in ways that keep the wire, as the operations of the session do.
\<close>

definition hooks_wire :: "metactx \<Rightarrow> hooks \<Rightarrow> bool" where
  "hooks_wire ctx h \<longleftrightarrow>
     (\<forall>msg. frame_ok ctx msg \<longrightarrow>
        frame_ok ctx (h_modify_outbound h (msg\<lparr>msg_header := h_modify_header h (msg_header msg)\<rparr>)) \<and>
        (\<forall>n. keeps (wire_ok ctx) (h_application h n msg) \<and> keeps (wire_ok ctx) (h_admin h n msg)))"

lemma wire_after_send: "wire_ok ctx s \<Longrightarrow> wire_ok ctx (after_send msg is_dup text s)"
  by (simp add: wire_ok_def after_send_def Let_def)

lemma wire_write_out:
  assumes "wire_ok ctx s" and "is_frame ctx f" and "write_out s msg f = Some (s', kept)"
  shows "wire_ok ctx s'"
  using assms(1,3) frames_single [OF assms(2)]
  by (auto simp: write_out_def wire_ok_def conn_wire_def frames_append split: if_splits option.splits)

lemma wire_send_process:
  assumes h: "hooks_wire ctx h" and "frame_ok ctx msg"
  shows "keeps (wire_ok ctx) (send_process h msg)"
proof (rule keepsI)
  fix s assume s: "wire_ok ctx s"
  then have c: "s_ctx s = ctx" by (simp add: wire_ok_def)
  show "wire_ok ctx (snd (send_process h msg s))"
  proof (cases "prepare_header s msg")
    case (Inr r)
    obtain msg1 dup where r: "r = (msg1, dup)" by (rule prod.exhaust)
    let ?msg2 = "h_modify_outbound h (msg1\<lparr>msg_header := h_modify_header h (msg_header msg1)\<rparr>)"
    have ok: "frame_ok ctx ?msg2"
      using h frame_ok_prepared [OF assms(2)] Inr r by (simp add: hooks_wire_def)
    have "wire_ok ctx s'" if "msg_encode ctx ?msg2 = Inr (msg3, f)" "write_out s msg3 f = Some (s', kept)" for msg3 f s' kept
      using wire_write_out [OF s encoded_is_frame [OF ok that(1)] that(2)] .
    with s Inr r c show ?thesis
      by (auto simp: send_process_def Let_def wire_after_send split: sum.splits prod.splits option.splits)
  qed (simp add: send_process_def s)
qed

lemma wire_conn_write:
  assumes "hooks_wire ctx h" and "frame_ok ctx msg"
  shows "keeps (wire_ok ctx) (conn_write h msg)"
proof (rule keepsI)
  fix s assume "wire_ok ctx s"
  moreover from this have "wire_ok ctx (snd (send_process h msg s))"
    using wire_send_process [OF assms] by (simp add: keeps_def)
  ultimately show "wire_ok ctx (snd (conn_write h msg s))"
    using assms(2) by (auto simp: conn_write_def wire_ok_def conn_wire_def split: option.splits)
qed

lemma wire_writer_step: "hooks_wire ctx h \<Longrightarrow> keeps (wire_ok ctx) (writer_step h)"
proof (rule keepsI)
  fix s assume h: "hooks_wire ctx h" and s: "wire_ok ctx s"
  have "wire_ok ctx (snd (send_process h msg (s\<lparr>s_conn := Some (c\<lparr>cn_queue := q\<rparr>)\<rparr>)))"
    if "s_conn s = Some c" "cn_queue c = msg # q" for c msg q
  proof -
    have "frame_ok ctx msg" "wire_ok ctx (s\<lparr>s_conn := Some (c\<lparr>cn_queue := q\<rparr>)\<rparr>)"
      using s that by (auto simp: wire_ok_def conn_wire_def)
    then show ?thesis using wire_send_process [OF h] by (simp add: keeps_def)
  qed
  with s show "wire_ok ctx (snd (writer_step h s))"
    by (auto simp: writer_step_def split: option.splits list.splits)
qed

definition wire_inv :: "metactx \<Rightarrow> hooks \<Rightarrow> session \<Rightarrow> bool" where
  "wire_inv ctx h s \<longleftrightarrow> meta_frame ctx \<and> hooks_wire ctx h \<and> wire_ok ctx s"

lemma keeps_wire_inv:
  "(meta_frame ctx \<Longrightarrow> hooks_wire ctx h \<Longrightarrow> keeps (wire_ok ctx) m) \<Longrightarrow> keeps (wire_inv ctx h) m"
  by (auto simp: keeps_def wire_inv_def)

definition fresh_conn :: "conn \<Rightarrow> bool" where
  "fresh_conn c \<longleftrightarrow> cn_out c = [] \<and> cn_queue c = []"

interpretation wire: session_lifetime "wire_inv ctx h" h ctx "\<lambda>msg. meta_frame ctx \<longrightarrow> frame_ok ctx msg" fresh_conn
  for ctx h
proof
  let ?good = "\<lambda>msg. meta_frame ctx \<longrightarrow> frame_ok ctx msg"
  show "keeps (wire_inv ctx h) (conn_write h msg)" "keeps (wire_inv ctx h) (h_application h n msg)"
    "keeps (wire_inv ctx h) (h_admin h n msg)" if "?good msg" for msg n
    using that by (auto intro!: keeps_wire_inv wire_conn_write) (simp_all add: hooks_wire_def)
  show "keeps (wire_inv ctx h) (writer_step h)" by (rule keeps_wire_inv) (rule wire_writer_step)
  show "?good msg'" if "?good msg" "add_body f msg = Inr msg'" for msg f msg'
    using that frame_ok_body by blast
  show "?good msg" if "create_session_msg ctx ty = Inr msg" for ty msg
    using that frame_ok_created_msg by blast
  show "?good msg" if "factory ctx now f no_chksum permissive = Inr msg" for now f no_chksum permissive msg
    using that frame_ok_made by blast
  show "?good (msg\<lparr>msg_custom_seqnum := cn\<rparr>)" "?good (msg\<lparr>msg_no_increment := ni\<rparr>)"
    "?good (msg\<lparr>msg_end_of_batch := eob\<rparr>)" if "?good msg" for msg cn ni eob
    using that by (simp_all add: frame_ok_def)
qed (auto simp: wire_inv_def wire_ok_def conn_wire_def set_hb_interval_def fresh_conn_def)

section \<open>Properties\<close>

text \<open>
  C6: everything a session ever writes to its socket is a sequence of framed messages. From the start
  on a fresh connection, whatever bytes come in, however the timers, the writer thread and the
  application act, each write is a concatenation of messages with begin string, exact body length
  and the check sum over the bytes; only a message with a null byte sent in a batch is cut there.
\<close>

theorem session_writes_frames:
  assumes "meta_frame ctx" and "hooks_wire ctx h" and "s_ctx s0 = ctx" and "s_batch s0 = []" and "s_conn s0 = None"
    and "fresh_conn c" and "session_start h c send_seqnum recv_seqnum davi sched s0 = (r, s1)"
    and "session_run h s1 evs s" and "\<forall>ev \<in> set evs. \<forall>msg \<in> set (event_messages ev). frame_ok ctx msg"
  shows "list_all (frames ctx) (written s)"
proof -
  have "wire_inv ctx h s0" using assms(1-5) by (simp add: wire_inv_def wire_ok_def)
  from wire.lifetime_keeps [OF assms(6) this assms(7,8)] assms(9) have "wire_inv ctx h s" by blast
  then show ?thesis
    by (cases "s_conn s") (simp_all add: wire_inv_def wire_ok_def conn_wire_def written_def list_all_iff)
qed

lemma default_hooks_wire: "hooks_wire ctx default_hooks"
  by (auto simp: hooks_wire_def default_hooks_def sret_def keeps_def)

lemma session_meta_frame: "meta_frame session_ctx"
  by (simp add: meta_frame_def session_ctx_def text_ok_def)

text \<open>A session that logs on and sends a heart beat of the application.\<close>

theorem session_writes_frames_witness:
  "list_all (frames session_ctx) (written (snd (session_send default_hooks (create_message session_ctx (snd (session_bme ! 0)) True) 0 False
     (snd (session_start default_hooks (sample_conn False) 0 0 [] None ((sample_session st_none False)\<lparr>s_conn := None\<rparr>))))))"
proof -
  let ?s0 = "(sample_session st_none False)\<lparr>s_conn := None\<rparr>" and ?msg = "create_message session_ctx (snd (session_bme ! 0)) True"
  obtain r s1 where start: "session_start default_hooks (sample_conn False) 0 0 [] None ?s0 = (r, s1)" by (rule prod.exhaust)
  obtain r' s where send: "session_send default_hooks ?msg 0 False s1 = (r', s)" by (rule prod.exhaust)
  from run_step [OF run_start session_step.sent [OF send]]
  have run: "session_run default_hooks s1 [Sent ?msg 0 False] s" by simp
  from session_writes_frames [OF session_meta_frame default_hooks_wire _ _ _ _ start run]
  show ?thesis
    using start send frame_ok_created [OF session_meta_frame]
    by (simp add: sample_session_def fresh_conn_def sample_conn_def)
qed

end
