(* ===== verification/Copying.thy ===== *)
theory Copying
  imports DecodeLoops
begin

text \<open>
  Copying and moving fields between messages: \<open>copy_legal\<close>, \<open>move_legal\<close> and \<open>clone\<close> of
  \<^verbatim>\<open>runtime/message.cpp\<close>. The loops run over the traits of the source; the element of a nested
  group is copied by a recursive call, so the copier of a message is a function of the flag and of
  the target, built along its structure. \<open>Undefined NullDeref\<close> is a null pointer or an end
  iterator that the code dereferences.
\<close>

section \<open>\<^verbatim>\<open>copy_legal\<close>\<close>

definition wants_copy :: "bool \<Rightarrow> core \<Rightarrow> field_trait \<Rightarrow> bool" where
  "wants_copy force to t \<longleftrightarrow>
     t_has t present \<and> (force \<or> (is_legal to (t_fnum t) \<and> \<not> have_field to (t_fnum t)))"

definition put_field :: "bool \<Rightarrow> u16 \<Rightarrow> fld \<Rightarrow> core \<Rightarrow> error + core" where
  "put_field force fnum nf to =
     (let (there, itr) = (if force then fp_get_itr (m_fp to) fnum End present else (False, End))
      in if force \<and> there then return (fst (replace_field_itr fnum itr nf to)) else add_field nf to)"

definition copy_field :: "core \<Rightarrow> bool \<Rightarrow> u16 \<Rightarrow> core \<Rightarrow> error + core" where
  "copy_field c force fnum to =
     (case get_field c fnum of
        None \<Rightarrow> throw (Undefined NullDeref)
      | Some f \<Rightarrow> put_field force fnum (fld_copy f) to)"

type_synonym copier = "bool \<Rightarrow> msgbase \<Rightarrow> error + msgbase \<times> nat"
type_synonym grp_copier = "bool \<Rightarrow> grp option \<Rightarrow> error + grp option \<times> nat"

fun copy_elements :: "copier list \<Rightarrow> grp_copier" where
  "copy_elements [] force g = return (g, 0)"
| "copy_elements (r # rs) force g =
     (case g of
        None \<Rightarrow> throw (Undefined NullDeref)
      | Some gb \<Rightarrow>
          bind (r force (create_group (g_schema gb) True)) (\<lambda>(grc, n).
          bind (copy_elements rs force (Some (g_add gb grc))) (\<lambda>(g', k). return (g', n + k))))"

definition copy_group :: "grp_copier option \<Rightarrow> bool \<Rightarrow> u16 \<Rightarrow> msgbase \<Rightarrow> error + msgbase \<times> nat" where
  "copy_group cp force fnum to =
     (case cp of
        None \<Rightarrow> return (to, 0)
      | Some f \<Rightarrow>
          bind (f force (find_group to fnum)) (\<lambda>(g', n).
            return (if find_group to fnum = None then to else put_group fnum g' to, n)))"

fun copy_traits ::
  "core \<Rightarrow> (u16 \<times> grp_copier option) list \<Rightarrow> bool \<Rightarrow> field_trait list \<Rightarrow> msgbase \<Rightarrow> error + msgbase \<times> nat" where
  "copy_traits c gs force [] to = return (to, 0)"
| "copy_traits c gs force (t # ts) to =
     (if \<not> wants_copy force (mb to) t then copy_traits c gs force ts to
      else
        let fnum = t_fnum t;
            cp = (if t_has t group then (case map_of gs fnum of Some g \<Rightarrow> g | None \<Rightarrow> None) else None)
        in bind (copy_group cp force fnum to) (\<lambda>(to1, n).
           bind (copy_field c force fnum (mb to1)) (\<lambda>c1.
           bind (copy_traits c gs force ts (on_core (\<lambda>_. c1) to1)) (\<lambda>(to2, k).
             return (to2, n + 1 + k)))))"

primrec copy_base :: "msgbase \<Rightarrow> copier" and copy_grp :: "grp \<Rightarrow> grp_copier" where
  "copy_base (MsgBase c gs) =
     (\<lambda>force to. copy_traits c (map (map_prod (\<lambda>k. k) (map_option copy_grp)) gs) force (p_arr (m_fp c)) to)"
| "copy_grp (Grp f sch ms) = copy_elements (map copy_base ms)"

definition copy_legal :: "msgbase \<Rightarrow> msgbase \<Rightarrow> bool \<Rightarrow> error + msgbase \<times> nat" where
  "copy_legal m to force = copy_base m force to"

section \<open>\<^verbatim>\<open>move_legal\<close>\<close>

text \<open>The groups and field objects change hands; the source keeps null pointers.\<close>

definition move_group :: "u16 \<Rightarrow> msgbase \<Rightarrow> msgbase \<Rightarrow> error + msgbase \<times> msgbase" where
  "move_group fnum m to =
     (case map_of (mb_groups m) fnum of
        None \<Rightarrow> throw (Undefined NullDeref)
      | Some gp \<Rightarrow>
          bind (case find_group to fnum of
                  Some _ \<Rightarrow> return (fst (replace_group fnum gp to))
                | None \<Rightarrow> (case gp of None \<Rightarrow> throw (Undefined NullDeref) | Some g \<Rightarrow> return (add_group g to)))
            (\<lambda>to1. return (put_group fnum None m, to1)))"

text \<open>
  With \<open>force\<close> the presence of the target is asked with the end iterator of the source, which is not
  its own end: the code then reads the element past the end of the source's array.
\<close>

definition move_field :: "bool \<Rightarrow> u16 \<Rightarrow> msgbase \<Rightarrow> msgbase \<Rightarrow> error + msgbase \<times> msgbase" where
  "move_field force fnum m to =
     (if force then throw (Undefined BufferOverflow)
      else
        (case m_find (mb m) fnum of
           Some (Some p) \<Rightarrow>
             bind (add_field (m_objs (mb m) ! p) (mb to)) (\<lambda>c1.
               return (on_core (\<lambda>c. c\<lparr>m_fields := om_set fnum None (m_fields c)\<rparr>) m, on_core (\<lambda>_. c1) to))
         | _ \<Rightarrow> throw (Undefined NullDeref)))"

fun move_traits :: "bool \<Rightarrow> field_trait list \<Rightarrow> msgbase \<Rightarrow> msgbase \<Rightarrow> error + msgbase \<times> msgbase \<times> nat" where
  "move_traits force [] m to = return (m, to, 0)"
| "move_traits force (t # ts) m to =
     (if \<not> wants_copy force (mb to) t then move_traits force ts m to
      else
        bind (if t_has t group then move_group (t_fnum t) m to else return (m, to)) (\<lambda>(m1, to1).
        bind (move_field force (t_fnum t) m1 to1) (\<lambda>(m2, to2).
        bind (move_traits force ts m2 to2) (\<lambda>(m3, to3, k). return (m3, to3, 1 + k)))))"

definition move_legal :: "msgbase \<Rightarrow> msgbase \<Rightarrow> bool \<Rightarrow> error + msgbase \<times> msgbase \<times> nat" where
  "move_legal m to force =
     bind (move_traits force (p_arr (m_fp (mb m))) m to)
       (\<lambda>(m1, to1, k). return (on_core clear_positions m1, to1, k))"

section \<open>\<^verbatim>\<open>clone\<close>\<close>

definition clone :: "metactx \<Rightarrow> message \<Rightarrow> error + message" where
  "clone ctx msg =
     (case gt_find_ref (c_bme ctx) (cstr (m_msgType (mb (msg_body msg)))) of
        Inl k \<Rightarrow> throw (InvalidMetadata k)
      | Inr bme \<Rightarrow>
          let new = create_message ctx bme True
          in bind (copy_legal (msg_body msg) (msg_body new) False) (\<lambda>(b, _).
             bind (copy_legal (msg_header msg) (msg_header new) False) (\<lambda>(h, _).
             bind (copy_legal (msg_trailer msg) (msg_trailer new) False) (\<lambda>(t, _).
               return (new\<lparr>msg_body := b, msg_header := h, msg_trailer := t\<rparr>)))))"

section \<open>One field\<close>

lemma put_field_False: "put_field False fnum nf to = add_field nf to"
  by (simp add: put_field_def)

lemma fld_copy_fnum [simp]: "f_fnum (fld_copy f) = f_fnum f"
  by (simp add: fld_copy_def)

lemma get_field_fnum: "core_ok c \<Longrightarrow> get_field c k = Some f \<Longrightarrow> f_fnum f = k \<and> have_field c k"
proof -
  assume ok: "core_ok c" and get: "get_field c k = Some f"
  then obtain p where p: "m_find c k = Some (Some p)" "f = m_objs c ! p"
    by (auto simp: get_field_def split: option.splits)
  have "om_ok (m_fields c)" using ok by (simp add: core_ok_def)
  then have q: "(k, Some p) \<in> set (m_fields c)" using p(1) m_find_Some by blast
  then have "k \<in> fst ` set (m_fields c)" by force
  moreover have "\<forall>k. have_field c k \<longleftrightarrow> k \<in> fst ` set (m_fields c)" using ok by (simp add: core_ok_def)
  ultimately have "have_field c k" by blast
  moreover have "\<forall>x \<in> set (m_fields c). \<exists>i. snd x = Some i \<and> i < length (m_objs c) \<and> f_fnum (m_objs c ! i) = fst x"
    using ok by (simp add: core_ok_def)
  from bspec [OF this q] have "f_fnum f = k" using p(2) by auto
  ultimately show ?thesis by blast
qed

lemma have_get: "core_ok c \<Longrightarrow> have_field c k \<Longrightarrow> \<exists>f. get_field c k = Some f"
  by (rule core_ok_find [of c k]) auto

lemma have_iff: "core_ok c \<Longrightarrow> have_field c k \<longleftrightarrow> get_field c k \<noteq> None"
  using have_get get_field_fnum by (metis not_Some_eq)

lemma trait_present:
  assumes "core_ok c" and "t \<in> set (p_arr (m_fp c))"
  shows "t_has t ty \<longleftrightarrow> fp_get (m_fp c) (t_fnum t) ty"
proof -
  have "pr_ok (m_fp c)" using assms(1) by (simp add: core_ok_def)
  then have "pr_lookup (m_fp c) (t_fnum t) = Some t" using assms(2) pr_lookup_Some by blast
  then show ?thesis by (simp add: fp_get_lookup)
qed

text \<open>Copying one field into a message where it is legal and not there yet.\<close>

lemma copy_field_spec:
  assumes "core_ok c" and "core_ok to" and "have_field c k" and "is_legal to k" and "\<not> have_field to k"
  obtains c1 where "copy_field c False k to = Inr c1" "core_ok c1"
    "\<And>g. get_field c1 g = (if g = k then map_option fld_copy (get_field c k) else get_field to g)"
    "\<And>g. is_legal c1 g \<longleftrightarrow> is_legal to g" "\<And>g ty. ty \<noteq> present \<Longrightarrow> fp_get (m_fp c1) g ty = fp_get (m_fp to) g ty"
proof -
  obtain f where f: "get_field c k = Some f" using have_get [OF assms(1,3)] by blast
  then have k: "f_fnum f = k" using get_field_fnum [OF assms(1)] by blast
  have legal: "is_legal to (f_fnum (fld_copy f))" using assms(4) k by simp
  obtain c1 where c1: "add_field (fld_copy f) to = Inr c1" using add_field_cases [OF assms(2) legal] by blast
  have fp: "m_fp c1 = fp_set (m_fp to) k present" using add_field_fp [OF assms(2) c1] k by simp
  have ok: "pr_ok (m_fp to)" using assms(2) by (simp add: core_ok_def)
  show thesis
  proof (rule that [of c1])
    show "copy_field c False k to = Inr c1" using f c1 by (simp add: copy_field_def put_field_False)
    show "core_ok c1" by (rule core_ok_add [OF assms(2) c1])
    show "get_field c1 g = (if g = k then map_option fld_copy (get_field c k) else get_field to g)" for g
      using add_field_get [OF assms(2) c1] k f by simp
    show "is_legal c1 g \<longleftrightarrow> is_legal to g" for g
      using ok by (auto simp: is_legal_def fp fp_lookups pr_lookup_fp_set split: option.splits)
    show "fp_get (m_fp c1) g ty = fp_get (m_fp to) g ty" if "ty \<noteq> present" for g ty
      using ok that by (auto simp: fp fp_lookups pr_lookup_fp_set t_has_set split: option.splits)
  qed
qed

section \<open>A message\<close>

text \<open>A field of the message that counts a repeating group.\<close>

definition carries :: "core \<Rightarrow> u16 \<Rightarrow> bool" where
  "carries c k \<longleftrightarrow> have_field c k \<and> fp_get (m_fp c) k group"

definition empty_core :: "core \<Rightarrow> bool" where
  "empty_core c \<longleftrightarrow> core_ok c \<and> (\<forall>k. \<not> have_field c k)"

text \<open>The target has the same fields, and recursively the same elements in its groups.\<close>

primrec same_message :: "msgbase \<Rightarrow> msgbase \<Rightarrow> bool" and same_grp :: "grp \<Rightarrow> grp \<Rightarrow> bool" where
  "same_message (MsgBase c gs) = (\<lambda>m'.
     (\<forall>k. get_field (mb m') k = map_option fld_copy (get_field c k)) \<and>
     (\<forall>k f. map_of (map (map_prod (\<lambda>k. k) (map_option same_grp)) gs) k = Some (Some f) \<and> carries c k \<longrightarrow>
        (\<exists>g'. find_group m' k = Some g' \<and> f g')))"
| "same_grp (Grp n sch ms) = (\<lambda>g'. list_all2 (\<lambda>f m'. f m') (map same_message ms) (g_msgs g'))"

text \<open>The message has only fields of the traits, and its groups are those of the schema.\<close>

primrec fits_base :: "msgbase \<Rightarrow> field_trait list \<Rightarrow> (u16 \<times> gschema) list \<Rightarrow> bool"
  and fits_grp :: "grp \<Rightarrow> gschema \<Rightarrow> bool" where
  "fits_base (MsgBase c gs) = (\<lambda>ts ss. core_ok c \<and> (\<forall>k. have_field c k \<longrightarrow> k \<in> t_fnum ` set ts) \<and>
     (\<forall>k f. map_of (map (map_prod (\<lambda>k. k) (map_option fits_grp)) gs) k = Some (Some f) \<and> carries c k \<longrightarrow>
        (\<exists>s. map_of ss k = Some s \<and> f s)))"
| "fits_grp (Grp n sch ms) = (\<lambda>s. empty_core (new_core (gs_msgtype s) (gs_traits s) (gs_ftha s) []) \<and>
     om_ok (gs_groups s) \<and> (\<forall>f \<in> set (map fits_base ms). f (gs_traits s) (gs_groups s)))"

lemma find_put_group: "find_group (put_group k g m) j = (if j = k then g else find_group m j)"
  by (auto simp: find_group_def put_group_def map_of_om_set split: option.split)

lemma find_on_core [simp]: "find_group (on_core f m) k = find_group m k"
  by (simp add: find_group_def)

lemma put_group_mb [simp]: "mb (put_group k g m) = mb m"
  by (simp add: put_group_def)

text \<open>What the loop over the traits leaves in the target.\<close>

definition copied ::
  "core \<Rightarrow> (u16 \<times> grp_copier option) list \<Rightarrow> (u16 \<Rightarrow> grp \<Rightarrow> bool) \<Rightarrow> u16 set \<Rightarrow> msgbase \<Rightarrow> msgbase \<Rightarrow> bool" where
  "copied c gs R ks to to' \<longleftrightarrow> core_ok (mb to') \<and>
     (\<forall>k. get_field (mb to') k =
        (if k \<in> ks \<and> \<not> have_field (mb to) k \<and> have_field c k then map_option fld_copy (get_field c k)
         else get_field (mb to) k)) \<and>
     (\<forall>k. k \<notin> ks \<longrightarrow> find_group to' k = find_group to k) \<and>
     (\<forall>k f. k \<in> ks \<and> map_of gs k = Some (Some f) \<and> carries c k \<and> \<not> have_field (mb to) k \<longrightarrow>
        (\<exists>g'. find_group to' k = Some g' \<and> R k g'))"

text \<open>The groups of the target take the copies of the groups of the source.\<close>

definition takes_groups ::
  "core \<Rightarrow> (u16 \<times> grp_copier option) list \<Rightarrow> (u16 \<Rightarrow> grp \<Rightarrow> bool) \<Rightarrow> msgbase \<Rightarrow> bool" where
  "takes_groups c gs R to \<longleftrightarrow>
     (\<forall>k f. map_of gs k = Some (Some f) \<and> carries c k \<and> \<not> have_field (mb to) k \<longrightarrow>
        (\<exists>g0 g' n. find_group to k = Some g0 \<and> f False (Some g0) = Inr (Some g', n) \<and> R k g'))"

lemma copy_group_spec:
  assumes "takes_groups c gs R to" and "have_field c k" and "\<not> have_field (mb to) k"
    and "cp = (if fp_get (m_fp c) k group then (case map_of gs k of Some g \<Rightarrow> g | None \<Rightarrow> None) else None)"
  obtains to1 n where "copy_group cp False k to = Inr (to1, n)" "mb to1 = mb to"
    "\<And>j. j \<noteq> k \<Longrightarrow> find_group to1 j = find_group to j"
    "\<And>f. map_of gs k = Some (Some f) \<Longrightarrow> carries c k \<Longrightarrow> \<exists>g'. find_group to1 k = Some g' \<and> R k g'"
proof (cases cp)
  case None
  then have "\<not> (map_of gs k = Some (Some f) \<and> carries c k)" for f using assms(4) by (auto simp: carries_def)
  then show thesis using None by (intro that [of to 0]) (auto simp: copy_group_def)
next
  case (Some f)
  then have f: "map_of gs k = Some (Some f)" "carries c k"
    using assms(2,4) by (auto simp: carries_def split: if_splits option.splits)
  then obtain g0 g' n where g: "find_group to k = Some g0" "f False (Some g0) = Inr (Some g', n)" "R k g'"
    using assms(1,3) unfolding takes_groups_def by blast
  show thesis
    by (rule that [of "put_group k (Some g') to" n]) (use Some g in \<open>auto simp: copy_group_def find_put_group\<close>)
qed

lemma copy_traits_spec:
  assumes ok: "core_ok c"
  shows "distinct (map t_fnum ts) \<Longrightarrow> set ts \<subseteq> set (p_arr (m_fp c)) \<Longrightarrow> core_ok (mb to) \<Longrightarrow>
    \<forall>t \<in> set ts. have_field c (t_fnum t) \<longrightarrow> is_legal (mb to) (t_fnum t) \<Longrightarrow> takes_groups c gs R to \<Longrightarrow>
    \<exists>to' n. copy_traits c gs False ts to = Inr (to', n) \<and> copied c gs R (t_fnum ` set ts) to to'"
proof (induction ts arbitrary: to)
  case Nil
  then show ?case by (simp add: copied_def)
next
  case (Cons t ts)
  let ?k = "t_fnum t" and ?ks = "t_fnum ` set ts"
  have t: "t_has t ty \<longleftrightarrow> fp_get (m_fp c) ?k ty" for ty using trait_present [OF ok] Cons.prems(2) by simp
  have new: "?k \<notin> ?ks" and dist: "distinct (map t_fnum ts)" and sub: "set ts \<subseteq> set (p_arr (m_fp c))"
    using Cons.prems(1,2) by auto
  show ?case
  proof (cases "have_field c ?k \<and> \<not> have_field (mb to) ?k")
    case False
    then have "\<not> wants_copy False (mb to) t" by (auto simp: wants_copy_def t have_field_def)
    moreover obtain to' n where "copy_traits c gs False ts to = Inr (to', n)" "copied c gs R ?ks to to'"
      using Cons.IH [OF dist sub Cons.prems(3) _ Cons.prems(5)] Cons.prems(4) by auto
    moreover have "copied c gs R (insert ?k ?ks) to to'"
      using \<open>copied c gs R ?ks to to'\<close> False unfolding copied_def carries_def by auto
    ultimately show ?thesis by simp
  next
    case True
    then have legal: "is_legal (mb to) ?k" using Cons.prems(4) by simp
    have want: "wants_copy False (mb to) t" using True legal by (simp add: wants_copy_def t have_field_def)
    let ?cp = "if t_has t group then (case map_of gs ?k of Some g \<Rightarrow> g | None \<Rightarrow> None) else None"
    obtain to1 n where g: "copy_group ?cp False ?k to = Inr (to1, n)" "mb to1 = mb to"
      "\<And>j. j \<noteq> ?k \<Longrightarrow> find_group to1 j = find_group to j"
      "\<And>f. map_of gs ?k = Some (Some f) \<Longrightarrow> carries c ?k \<Longrightarrow> \<exists>g'. find_group to1 ?k = Some g' \<and> R ?k g'"
      by (rule copy_group_spec [OF Cons.prems(5), of ?k ?cp]) (use True in \<open>auto simp: t\<close>)
    obtain c1 where c1: "copy_field c False ?k (mb to) = Inr c1" "core_ok c1"
      "\<And>j. get_field c1 j = (if j = ?k then map_option fld_copy (get_field c ?k) else get_field (mb to) j)"
      "\<And>j. is_legal c1 j \<longleftrightarrow> is_legal (mb to) j"
      using copy_field_spec [OF ok Cons.prems(3) _ legal] True by metis
    let ?to = "on_core (\<lambda>_. c1) to1"
    have had: "have_field c1 j \<longleftrightarrow> j = ?k \<or> have_field (mb to) j" for j
      using have_iff [OF c1(2), of j] have_iff [OF Cons.prems(3), of j] have_iff [OF ok, of ?k] True c1(3) by auto
    have "takes_groups c gs R ?to"
      using Cons.prems(5) g(3) had unfolding takes_groups_def by auto
    then obtain to' m where rest: "copy_traits c gs False ts ?to = Inr (to', m)" "copied c gs R ?ks ?to to'"
      using Cons.IH [OF dist sub, of ?to] Cons.prems(4) c1(2,4) by auto
    have "copied c gs R (insert ?k ?ks) to to'"
      unfolding copied_def
    proof (intro conjI allI impI)
      show "core_ok (mb to')" using rest(2) by (simp add: copied_def)
      show "get_field (mb to') j =
        (if j \<in> insert ?k ?ks \<and> \<not> have_field (mb to) j \<and> have_field c j then map_option fld_copy (get_field c j)
         else get_field (mb to) j)" for j
        using rest(2) had True new by (auto simp: copied_def c1(3))
      show "find_group to' j = find_group to j" if "j \<notin> insert ?k ?ks" for j
        using rest(2) g(3) that by (auto simp: copied_def)
      show "\<exists>g'. find_group to' j = Some g' \<and> R j g'"
        if "j \<in> insert ?k ?ks \<and> map_of gs j = Some (Some f) \<and> carries c j \<and> \<not> have_field (mb to) j" for j f
        using rest(2) g(4) that new had by (cases "j = ?k") (auto simp: copied_def)
    qed
    then show ?thesis using want g(1,2) c1(1) rest(1) by (simp add: Let_def)
  qed
qed

section \<open>Groups in groups\<close>

lemma map_of_deep:
  "om_ok acc \<Longrightarrow> map_of (fold (\<lambda>(k, s). om_insert k (Some (new_group s))) gs acc) k =
    (case map_of acc k of Some v \<Rightarrow> Some v | None \<Rightarrow> map_option (\<lambda>s. Some (new_group s)) (map_of gs k))"
proof (induction gs arbitrary: acc)
  case (Cons p gs)
  then show ?case by (cases p) (auto simp: om_ok_insert map_of_om_insert split: option.splits)
qed (simp split: option.split)

lemma find_deep_group: "find_group (MsgBase c (deep_groups True ss)) k = map_option new_group (map_of ss k)"
  by (auto simp: find_group_def deep_groups_def map_of_deep split: option.split)

lemma legal_new_core:
  assumes "core_ok (new_core ty ts h ss)"
  shows "is_legal (new_core ty ts h ss) k \<longleftrightarrow> k \<in> t_fnum ` set ts"
proof -
  have "pr_ok (m_fp (new_core ty ts h ss))" using assms by (simp add: core_ok_def)
  then show ?thesis
    using pr_lookup_None [of "m_fp (new_core ty ts h ss)" k]
    by (auto simp: is_legal_def fp_has_lookup) (auto simp: new_core_def pr_ctor_hash_def)
qed

lemma distinct_traits: "core_ok c \<Longrightarrow> distinct (map t_fnum (p_arr (m_fp c)))"
  by (simp add: core_ok_def pr_ok_def key_sorted_fnum_distinct)

lemma have_trait: "core_ok c \<Longrightarrow> have_field c k \<Longrightarrow> k \<in> t_fnum ` set (p_arr (m_fp c))"
  using have_legal [of c k] pr_lookup_None [of "m_fp c" k] by (auto simp: core_ok_def is_legal_def fp_has_lookup)

text \<open>The groups of a message that fits its schema are copied into a fresh target.\<close>

definition copies_groups :: "(u16 \<times> grp option) list \<Rightarrow> bool" where
  "copies_groups gs \<longleftrightarrow>
     (\<forall>k g s. map_of gs k = Some (Some g) \<and> fits_grp g s \<longrightarrow>
        (\<exists>g' n. copy_grp g False (Some (new_group s)) = Inr (Some g', n) \<and> same_grp g g'))"

definition fits_groups :: "core \<Rightarrow> (u16 \<times> grp option) list \<Rightarrow> (u16 \<times> gschema) list \<Rightarrow> bool" where
  "fits_groups c gs ss \<longleftrightarrow>
     (\<forall>k g. map_of gs k = Some (Some g) \<and> carries c k \<longrightarrow> (\<exists>s. map_of ss k = Some s \<and> fits_grp g s))"

lemma map_of_mapped: "map_of (map (map_prod (\<lambda>k. k) f) gs) k = map_option f (map_of gs k)"
  by (induction gs) (auto split: if_splits)

lemma fits_base_iff:
  "fits_base (MsgBase c gs) ts ss \<longleftrightarrow>
    core_ok c \<and> (\<forall>k. have_field c k \<longrightarrow> k \<in> t_fnum ` set ts) \<and> fits_groups c gs ss"
  by (auto simp: fits_groups_def map_of_mapped)

lemma same_message_iff:
  "same_message (MsgBase c gs) m' \<longleftrightarrow>
    (\<forall>k. get_field (mb m') k = map_option fld_copy (get_field c k)) \<and>
    (\<forall>k g. map_of gs k = Some (Some g) \<and> carries c k \<longrightarrow> (\<exists>g'. find_group m' k = Some g' \<and> same_grp g g'))"
  by (auto simp: map_of_mapped)

lemma same_message_group:
  "same_message m m' \<Longrightarrow> map_of (mb_groups m) k = Some (Some g) \<Longrightarrow> carries (mb m) k \<Longrightarrow>
    \<exists>g'. find_group m' k = Some g' \<and> same_grp g g'"
  by (cases m) (auto simp: same_message_iff simp del: same_message.simps)

lemma same_message_field: "same_message m m' \<Longrightarrow> get_field (mb m') k = map_option fld_copy (get_field (mb m) k)"
  by (cases m) (simp add: same_message_iff del: same_message.simps)

lemma copy_base_step:
  assumes "copies_groups gs" and "core_ok c" and "fits_groups c gs ss" and "core_ok (mb to)"
    and "\<forall>k. have_field c k \<longrightarrow> is_legal (mb to) k"
    and "\<forall>k s. map_of ss k = Some s \<longrightarrow> find_group to k = Some (new_group s)"
  obtains to' n where "copy_base (MsgBase c gs) False to = Inr (to', n)" "core_ok (mb to')"
    "\<And>k. get_field (mb to') k =
      (if have_field (mb to) k then get_field (mb to) k else map_option fld_copy (get_field c k))"
    "\<And>k g. map_of gs k = Some (Some g) \<Longrightarrow> carries c k \<Longrightarrow> \<not> have_field (mb to) k \<Longrightarrow>
      \<exists>g'. find_group to' k = Some g' \<and> same_grp g g'"
proof -
  let ?gs = "map (map_prod (\<lambda>k. k) (map_option copy_grp)) gs"
  let ?R = "\<lambda>k g'. \<exists>g. map_of gs k = Some (Some g) \<and> same_grp g g'"
  have "takes_groups c ?gs ?R to"
    using assms(1,3,6) unfolding takes_groups_def copies_groups_def fits_groups_def map_of_mapped by fastforce
  then have "\<exists>to' n. copy_traits c ?gs False (p_arr (m_fp c)) to = Inr (to', n) \<and>
      copied c ?gs ?R (t_fnum ` set (p_arr (m_fp c))) to to'"
    using assms(5) by (intro copy_traits_spec [OF assms(2) distinct_traits [OF assms(2)] subset_refl assms(4)]) blast
  then obtain to' n where run: "copy_base (MsgBase c gs) False to = Inr (to', n)"
    and made: "copied c ?gs ?R (t_fnum ` set (p_arr (m_fp c))) to to'"
    by auto
  show thesis
  proof (rule that [OF run])
    show "core_ok (mb to')" using made by (simp add: copied_def)
    show "get_field (mb to') k =
      (if have_field (mb to) k then get_field (mb to) k else map_option fld_copy (get_field c k))" for k
      using made have_trait [OF assms(2), of k] have_iff [OF assms(2), of k] have_iff [OF assms(4), of k]
      by (auto simp: copied_def)
    show "\<exists>g'. find_group to' k = Some g' \<and> same_grp g g'"
      if "map_of gs k = Some (Some g)" "carries c k" "\<not> have_field (mb to) k" for k g
      using made that have_trait [OF assms(2), of k] unfolding copied_def map_of_mapped by (fastforce simp: carries_def)
  qed
qed

lemma copy_grp_spec:
  assumes "\<And>m ts ss to. m \<in> set ms \<Longrightarrow> fits_base m ts ss \<Longrightarrow> empty_core (mb to) \<Longrightarrow>
      \<forall>k \<in> t_fnum ` set ts. is_legal (mb to) k \<Longrightarrow>
      \<forall>k s. map_of ss k = Some s \<longrightarrow> find_group to k = Some (new_group s) \<Longrightarrow>
      \<exists>m' n. copy_base m False to = Inr (m', n) \<and> same_message m m'"
    and "fits_grp (Grp f sch ms) s"
  shows "\<exists>ms' n. copy_elements (map copy_base ms) False (Some (Grp (gs_fnum s) s acc)) =
      Inr (Some (Grp (gs_fnum s) s (acc @ ms')), n) \<and> list_all2 same_message ms ms'"
  using assms
proof (induction ms arbitrary: acc)
  case (Cons m ms)
  let ?to = "create_group s True"
  have s: "empty_core (new_core (gs_msgtype s) (gs_traits s) (gs_ftha s) [])" "fits_base m (gs_traits s) (gs_groups s)"
    using Cons.prems(2) by auto
  have e: "empty_core (mb ?to)" using s(1) by (simp add: create_group_def)
  have l: "\<forall>k \<in> t_fnum ` set (gs_traits s). is_legal (mb ?to) k"
    using s(1) legal_new_core by (simp add: create_group_def empty_core_def)
  have g: "\<forall>k t. map_of (gs_groups s) k = Some t \<longrightarrow> find_group ?to k = Some (new_group t)"
    by (simp add: create_group_def find_deep_group)
  obtain m' n where m': "copy_base m False ?to = Inr (m', n)" "same_message m m'"
    using Cons.prems(1) [OF _ s(2) e l g] by auto
  have rest: "fits_grp (Grp f sch ms) s" using Cons.prems(2) by simp
  have "\<exists>ms' k. copy_elements (map copy_base ms) False (Some (Grp (gs_fnum s) s (acc @ [m']))) =
      Inr (Some (Grp (gs_fnum s) s ((acc @ [m']) @ ms')), k) \<and> list_all2 same_message ms ms'"
    by (rule Cons.IH [OF _ rest]) (rule Cons.prems(1), auto)
  then obtain ms' k where "copy_elements (map copy_base ms) False (Some (Grp (gs_fnum s) s (acc @ [m']))) =
      Inr (Some (Grp (gs_fnum s) s ((acc @ [m']) @ ms')), k)" "list_all2 same_message ms ms'"
    by blast
  then show ?case using m' by (intro exI [of _ "m' # ms'"] exI [of _ "n + k"]) (simp add: g_add_def)
qed simp

lemma copy_base_spec:
  "fits_base m ts ss \<Longrightarrow> empty_core (mb to) \<Longrightarrow> \<forall>k \<in> t_fnum ` set ts. is_legal (mb to) k \<Longrightarrow>
    \<forall>k s. map_of ss k = Some s \<longrightarrow> find_group to k = Some (new_group s) \<Longrightarrow>
    \<exists>m' n. copy_base m False to = Inr (m', n) \<and> same_message m m'"
  and copy_grp_new:
  "fits_grp g s \<Longrightarrow> \<exists>g' n. copy_grp g False (Some (new_group s)) = Inr (Some g', n) \<and> same_grp g g'"
proof (induction m and g arbitrary: ts ss to and s)
  case (MsgBase c gs)
  have groups: "copies_groups gs"
    unfolding copies_groups_def
  proof (intro allI impI)
    fix k g s
    assume "map_of gs k = Some (Some g) \<and> fits_grp g s"
    then show "\<exists>g' n. copy_grp g False (Some (new_group s)) = Inr (Some g', n) \<and> same_grp g g'"
      using MsgBase.IH [of "(k, Some g)" "Some g" g s] by (auto dest: map_of_SomeD)
  qed
  have fit: "\<forall>k. have_field c k \<longrightarrow> is_legal (mb to) k" "core_ok c" "fits_groups c gs ss"
    using MsgBase.prems(1,3) unfolding fits_base_iff by blast+
  have to: "core_ok (mb to)" using MsgBase.prems(2) by (simp add: empty_core_def)
  obtain to' n where made: "copy_base (MsgBase c gs) False to = Inr (to', n)"
    "\<And>k. get_field (mb to') k =
      (if have_field (mb to) k then get_field (mb to) k else map_option fld_copy (get_field c k))"
    "\<And>k g. map_of gs k = Some (Some g) \<Longrightarrow> carries c k \<Longrightarrow> \<not> have_field (mb to) k \<Longrightarrow>
      \<exists>g'. find_group to' k = Some g' \<and> same_grp g g'"
    by (rule copy_base_step [OF groups fit(2,3) to fit(1) MsgBase.prems(4)]) (rule that)
  show ?case
    by (rule exI [of _ to'], rule exI [of _ n], unfold same_message_iff)
      (use made MsgBase.prems(2) in \<open>simp add: empty_core_def\<close>)
next
  case (Grp n sch ms)
  have all: "list_all2 same_message xs ys \<Longrightarrow> list_all2 (\<lambda>f m'. f m') (map same_message xs) ys" for xs ys
    by (simp add: list_all2_map1)
  show ?case using copy_grp_spec [of ms n sch s "[]"] Grp by (fastforce simp: new_group_def intro: all)
qed

section \<open>The header and the trailer of a clone\<close>

lemma add_pos_fp: "m_fp (add_field_pos k pos f False c) = fp_set (m_fp c) k present"
  by (simp add: add_field_pos_def add_field_itr_def hints Let_def)

lemma add_pos_flags:
  assumes "core_ok c"
  shows "is_legal (add_field_pos k pos f False c) j = is_legal c j"
    "is_legal c k \<Longrightarrow> have_field (add_field_pos k pos f False c) j \<longleftrightarrow> j = k \<or> have_field c j"
  using assms present_after_set [of "m_fp c" k j]
  by (auto simp: is_legal_def have_field_def add_pos_fp core_ok_def fp_has_lookup pr_lookup_fp_set split: option.splits)

lemma add_pos_trait:
  "core_ok c \<Longrightarrow> ty \<noteq> present \<Longrightarrow> fp_get (m_fp (add_field_pos k pos f False c)) g ty = fp_get (m_fp c) g ty"
  by (auto simp: add_pos_fp core_ok_def fp_lookups pr_lookup_fp_set t_has_set split: option.splits)

definition entry_core :: "msg_entry \<Rightarrow> core" where
  "entry_core e = new_core (me_msgtype e) (me_traits e) (me_ftha e) (me_groups e)"

lemma empty_new_core: "core_ok (new_core ty ts h ss) \<Longrightarrow> empty_core (new_core ty ts h ss)"
  by (simp add: empty_core_def core_ok_def) (simp add: new_core_def)

lemma mk_hdr_ok:
  assumes "core_ok (entry_core (c_hdr ctx))" and "{8, 9, 35} \<subseteq> t_fnum ` set (me_traits (c_hdr ctx))"
  shows "core_ok (mb (mk_hdr ctx))"
    and "is_legal (mb (mk_hdr ctx)) k \<longleftrightarrow> k \<in> t_fnum ` set (me_traits (c_hdr ctx))"
    and "have_field (mb (mk_hdr ctx)) k \<longleftrightarrow> k \<in> {8, 9, 35}"
proof -
  let ?c0 = "entry_core (c_hdr ctx)"
  let ?f8 = "new_fld Common_BeginString (V_string (c_beginStr ctx))" and ?f9 = "new_fld Common_BodyLength (V_int 0)"
    and ?f35 = "new_fld Common_MsgType (V_string [])"
  let ?c1 = "add_field_pos Common_BeginString 1 ?f8 False ?c0"
  let ?c2 = "add_field_pos Common_BodyLength 2 ?f9 False ?c1"
  have legal: "is_legal ?c0 k \<longleftrightarrow> k \<in> t_fnum ` set (me_traits (c_hdr ctx))" for k
    using legal_new_core assms(1) by (simp add: entry_core_def)
  have none: "\<not> have_field ?c0 k" for k
    using empty_new_core assms(1) by (simp add: entry_core_def empty_core_def)
  have l: "is_legal ?c0 8" "is_legal ?c0 9" "is_legal ?c0 35" using assms(2) legal by blast+
  have f: "f_fnum ?f8 = Common_BeginString" "f_fnum ?f9 = Common_BodyLength" "f_fnum ?f35 = Common_MsgType"
    by (simp_all add: new_fld_def)
  have c1: "core_ok ?c1" using core_ok_add_pos [OF assms(1), of ?f8 1] l none f by (simp add: common_tags)
  note flags1 = add_pos_flags [OF assms(1), of Common_BeginString 1 ?f8]
  have c2: "core_ok ?c2" using core_ok_add_pos [OF c1, of ?f9 2] flags1 l none f by (simp add: common_tags)
  note flags2 = add_pos_flags [OF c1, of Common_BodyLength 2 ?f9]
  have c3: "core_ok (add_field_pos Common_MsgType 3 ?f35 False ?c2)"
    using core_ok_add_pos [OF c2, of ?f35 3] flags1 flags2 l none f by (simp add: common_tags)
  note flags3 = add_pos_flags [OF c2, of Common_MsgType 3 ?f35]
  have hdr: "mb (mk_hdr ctx) = add_field_pos Common_MsgType 3 ?f35 False ?c2"
    by (simp add: mk_hdr_def entry_core_def Let_def)
  show "core_ok (mb (mk_hdr ctx))" unfolding hdr by (rule c3)
  show "is_legal (mb (mk_hdr ctx)) k \<longleftrightarrow> k \<in> t_fnum ` set (me_traits (c_hdr ctx))"
    unfolding hdr using flags1 flags2 flags3 legal by simp
  show "have_field (mb (mk_hdr ctx)) k \<longleftrightarrow> k \<in> {8, 9, 35}"
    unfolding hdr using flags1 flags2 flags3 l none by (auto simp: common_tags)
qed

lemma mk_trl_ok:
  assumes "core_ok (entry_core (c_trl ctx))" and "10 \<in> t_fnum ` set (me_traits (c_trl ctx))"
  shows "core_ok (mb (mk_trl ctx))"
    and "is_legal (mb (mk_trl ctx)) k \<longleftrightarrow> k \<in> t_fnum ` set (me_traits (c_trl ctx))"
    and "have_field (mb (mk_trl ctx)) k \<longleftrightarrow> k = 10"
proof -
  let ?c0 = "entry_core (c_trl ctx)" and ?f = "new_fld Common_CheckSum (V_string [])"
  have legal: "is_legal ?c0 k \<longleftrightarrow> k \<in> t_fnum ` set (me_traits (c_trl ctx))" for k
    using legal_new_core assms(1) by (simp add: entry_core_def)
  have none: "\<not> have_field ?c0 k" for k
    using empty_new_core assms(1) by (simp add: entry_core_def empty_core_def)
  have l: "is_legal ?c0 10" using assms(2) legal by blast
  have trl: "mb (mk_trl ctx) = add_field_pos Common_CheckSum 3 ?f False ?c0"
    by (simp add: mk_trl_def entry_core_def Let_def)
  note flags = add_pos_flags [OF assms(1), of Common_CheckSum 3 ?f]
  show "core_ok (mb (mk_trl ctx))"
    unfolding trl using core_ok_add_pos [OF assms(1), of ?f 3] l none by (simp add: common_tags new_fld_def)
  show "is_legal (mb (mk_trl ctx)) k \<longleftrightarrow> k \<in> t_fnum ` set (me_traits (c_trl ctx))"
    unfolding trl using flags legal by simp
  show "have_field (mb (mk_trl ctx)) k \<longleftrightarrow> k = 10"
    unfolding trl using flags l none by (auto simp: common_tags)
qed

text \<open>A header or trailer without elements of repeating groups is copied whatever groups the clone has.\<close>

lemma copy_groupless:
  assumes "core_ok (mb m)" and "core_ok (mb to)" and "\<forall>k. have_field (mb m) k \<longrightarrow> is_legal (mb to) k"
    and "\<forall>k g. map_of (mb_groups m) k = Some (Some g) \<longrightarrow> \<not> carries (mb m) k"
  obtains m' n where "copy_legal m to False = Inr (m', n)"
    "\<And>k. get_field (mb m') k =
      (if have_field (mb to) k then get_field (mb to) k else map_option fld_copy (get_field (mb m) k))"
proof (cases m)
  case (MsgBase c gs)
  have "takes_groups c (map (map_prod (\<lambda>k. k) (map_option copy_grp)) gs) (\<lambda>k g'. True) to"
    using assms(4) MsgBase by (auto simp: takes_groups_def map_of_mapped)
  then have "\<exists>to' n. copy_traits c (map (map_prod (\<lambda>k. k) (map_option copy_grp)) gs) False (p_arr (m_fp c)) to = Inr (to', n) \<and>
      copied c (map (map_prod (\<lambda>k. k) (map_option copy_grp)) gs) (\<lambda>k g'. True) (t_fnum ` set (p_arr (m_fp c))) to to'"
    using assms(1-3) MsgBase by (intro copy_traits_spec distinct_traits) auto
  then obtain to' n where r: "copy_legal m to False = Inr (to', n)"
    and made: "copied c (map (map_prod (\<lambda>k. k) (map_option copy_grp)) gs) (\<lambda>k g'. True) (t_fnum ` set (p_arr (m_fp c))) to to'"
    using MsgBase by (auto simp: copy_legal_def)
  show thesis
    by (rule that [OF r])
      (use made have_trait [of c] have_iff [of c] have_iff [OF assms(2)] assms(1) MsgBase in \<open>auto simp: copied_def\<close>)
qed

lemma fits_nothing:
  assumes "fits_base m ts []"
  shows "core_ok (mb m)" and "\<forall>k. have_field (mb m) k \<longrightarrow> k \<in> t_fnum ` set ts"
    and "\<forall>k g. map_of (mb_groups m) k = Some (Some g) \<longrightarrow> \<not> carries (mb m) k"
  using assms by (cases m; auto simp: fits_base_iff fits_groups_def simp del: fits_base.simps)+

text \<open>The generated constructor of a header makes no groups, so an element in a header group has no place.\<close>

lemma copy_elements_no_group: "copy_elements (r # rs) force None = Inl (Undefined NullDeref)"
  by simp

lemma clone_header_group:
  assumes "core_ok c" and "have_field c k" and "fp_get (m_fp c) k group"
    and "map_of gs k = Some (Some (Grp n sch (el # els)))"
    and "gs' = map (map_prod (\<lambda>k. k) (map_option copy_grp)) gs" and "t_has t group" and "t_fnum t = k"
    and "wants_copy False (mb (mk_hdr ctx)) t"
  shows "copy_traits c gs' False (t # ts) (mk_hdr ctx) = Inl (Undefined NullDeref)"
proof -
  have "find_group (mk_hdr ctx) k = None" by (simp add: find_group_def mk_hdr_def Let_def)
  then show ?thesis using assms by (simp add: copy_group_def map_of_mapped)
qed

text \<open>Moving a group that was never made: the count is there and no element, as after decoding 78=0.\<close>

lemma move_group_count_zero:
  assumes "map_of (mb_groups m) (t_fnum t) = None" and "t_has t group" and "wants_copy force (mb to) t"
  shows "move_traits force (t # ts) m to = Inl (Undefined NullDeref)"
  using assms by (simp add: move_group_def)

lemma move_forced:
  assumes "wants_copy True (mb to) t" and "\<not> t_has t group"
  shows "move_traits True (t # ts) m to = Inl (Undefined BufferOverflow)"
  using assms by (simp add: move_field_def)

section \<open>Properties\<close>

text \<open>
  C20: \<open>clone\<close> of a message that fits its metadata succeeds: the body of the clone has exactly the
  fields of the message and, to any depth, the elements of its repeating groups; header and trailer
  have the fields of the message, and their own where a fresh header or trailer has one.
\<close>

theorem clone_copies:
  assumes "gt_find_ref (c_bme ctx) (cstr (m_msgType (mb (msg_body msg)))) = Inr e"
    and "core_ok (entry_core e)" and "om_ok (me_groups e)"
    and "fits_base (msg_body msg) (me_traits e) (me_groups e)"
    and "core_ok (entry_core (c_hdr ctx))" and "{8, 9, 35} \<subseteq> t_fnum ` set (me_traits (c_hdr ctx))"
    and "fits_base (msg_header msg) (me_traits (c_hdr ctx)) []"
    and "core_ok (entry_core (c_trl ctx))" and "10 \<in> t_fnum ` set (me_traits (c_trl ctx))"
    and "fits_base (msg_trailer msg) (me_traits (c_trl ctx)) []"
  shows "\<exists>new. clone ctx msg = Inr new \<and> same_message (msg_body msg) (msg_body new) \<and>
    (\<forall>k. get_field (mb (msg_header new)) k =
      (if k \<in> {8, 9, 35} then get_field (mb (mk_hdr ctx)) k
       else map_option fld_copy (get_field (mb (msg_header msg)) k))) \<and>
    (\<forall>k. get_field (mb (msg_trailer new)) k =
      (if k = 10 then get_field (mb (mk_trl ctx)) k
       else map_option fld_copy (get_field (mb (msg_trailer msg)) k)))"
proof -
  let ?new = "create_message ctx e True"
  have body: "mb (msg_body ?new) = entry_core e" "\<And>k. find_group (msg_body ?new) k = map_option new_group (map_of (me_groups e) k)"
    by (simp_all add: create_message_def entry_core_def find_deep_group)
  have legal: "\<forall>k \<in> t_fnum ` set (me_traits e). is_legal (mb (msg_body ?new)) k"
    using body(1) legal_new_core assms(2) by (simp add: entry_core_def)
  have "empty_core (mb (msg_body ?new))"
    using empty_new_core assms(2) by (simp add: body(1) entry_core_def)
  then obtain b n where b: "copy_legal (msg_body msg) (msg_body ?new) False = Inr (b, n)" "same_message (msg_body msg) b"
    using copy_base_spec [OF assms(4) _ legal] body(2) by (auto simp: copy_legal_def)
  have h0: "\<forall>k. have_field (mb (msg_header msg)) k \<longrightarrow> is_legal (mb (mk_hdr ctx)) k"
    using fits_nothing(2) [OF assms(7)] mk_hdr_ok(2) [OF assms(5,6)] by blast
  obtain h i where h: "copy_legal (msg_header msg) (mk_hdr ctx) False = Inr (h, i)"
    "\<And>k. get_field (mb h) k = (if have_field (mb (mk_hdr ctx)) k then get_field (mb (mk_hdr ctx)) k
      else map_option fld_copy (get_field (mb (msg_header msg)) k))"
    by (rule copy_groupless [OF fits_nothing(1) [OF assms(7)] mk_hdr_ok(1) [OF assms(5,6)] h0 fits_nothing(3) [OF assms(7)]])
      (rule that)
  have t0: "\<forall>k. have_field (mb (msg_trailer msg)) k \<longrightarrow> is_legal (mb (mk_trl ctx)) k"
    using fits_nothing(2) [OF assms(10)] mk_trl_ok(2) [OF assms(8,9)] by blast
  obtain t j where t: "copy_legal (msg_trailer msg) (mk_trl ctx) False = Inr (t, j)"
    "\<And>k. get_field (mb t) k = (if have_field (mb (mk_trl ctx)) k then get_field (mb (mk_trl ctx)) k
      else map_option fld_copy (get_field (mb (msg_trailer msg)) k))"
    by (rule copy_groupless [OF fits_nothing(1) [OF assms(10)] mk_trl_ok(1) [OF assms(8,9)] t0 fits_nothing(3) [OF assms(10)]])
      (rule that)
  have "msg_header ?new = mk_hdr ctx" "msg_trailer ?new = mk_trl ctx" by (simp_all add: create_message_def)
  then have "clone ctx msg = Inr (?new\<lparr>msg_body := b, msg_header := h, msg_trailer := t\<rparr>)"
    using assms(1) b(1) h(1) t(1) by (simp add: clone_def Let_def)
  then show ?thesis
    using b(2) h(2) t(2) mk_hdr_ok(3) [OF assms(5,6)] mk_trl_ok(3) [OF assms(8,9)] by auto
qed

definition sample_element :: msgbase where
  "sample_element =
     MsgBase (add_field_pos 79 1 (new_fld 79 (V_string ''fund'')) False
                (new_core ''NoAllocs'' (sample_alloc_traits True) (sample_hash (sample_alloc_traits True)) [])) []"

definition sample_grouped :: message where
  "sample_grouped =
     (let e = snd (sample_bme True ! 1)
      in (create_message (sample_meta True) e True)
           \<lparr>msg_body := MsgBase (add_field_pos 78 5 (new_fld 78 (V_int 1)) False (entry_core e))
              [(78, Some (Grp 78 (sample_alloc True) [sample_element]))]\<rparr>)"

lemma sample_core_ok:
  assumes "key_sorted t_fnum ts" and "list_all (\<lambda>t. \<not> t_has t present) ts" and "ts \<noteq> []"
  shows "core_ok (new_core ty ts (sample_hash ts) gs)"
proof -
  obtain h where "mk_hash ts = Some h" using mk_hash_sorted [OF assms(1,3)] by blast
  then show ?thesis using assms(2) by (intro core_ok_new [OF assms(1)]) (simp_all add: sample_hash_def list_all_iff)
qed

lemma sample_fresh:
  "list_all (\<lambda>t. \<not> t_has t present) sample_hdr_traits" "list_all (\<lambda>t. \<not> t_has t present) sample_trl_traits"
  "list_all (\<lambda>t. \<not> t_has t present) sample_order_traits" "list_all (\<lambda>t. \<not> t_has t present) (sample_alloc_traits True)"
  by code_simp+

lemmas sample_traits_defs = sample_hdr_traits_def sample_trl_traits_def sample_order_traits_def sample_alloc_traits_def
  mk_trait_def sample_flag_def t_set_def

lemma sample_cores_ok:
  "core_ok (new_core ty sample_hdr_traits (sample_hash sample_hdr_traits) gs)"
  "core_ok (new_core ty sample_trl_traits (sample_hash sample_trl_traits) gs)"
  "core_ok (new_core ty sample_order_traits (sample_hash sample_order_traits) gs)"
  "core_ok (new_core ty (sample_alloc_traits True) (sample_hash (sample_alloc_traits True)) gs)"
  by (rule sample_core_ok [OF _ sample_fresh(1)] sample_core_ok [OF _ sample_fresh(2)]
      sample_core_ok [OF _ sample_fresh(3)] sample_core_ok [OF _ sample_fresh(4)];
      simp add: key_sorted_def sample_traits_defs)+

lemma sample_nums:
  "t_fnum ` set sample_hdr_traits = {8, 9, 34, 35, 43, 49, 52, 56}" "t_fnum ` set sample_trl_traits = {10}"
  "t_fnum ` set sample_order_traits = {11, 38, 54, 60, 78, 354, 355}"
  "t_fnum ` set (sample_alloc_traits True) = {79, 80}"
  by (auto simp: sample_traits_defs)

text \<open>A fresh message with one field put in place.\<close>

lemma one_field:
  assumes "core_ok (new_core ty ts h gs)" and "f_fnum f \<in> t_fnum ` set ts"
  shows "core_ok (add_field_pos (f_fnum f) pos f False (new_core ty ts h gs))"
    and "have_field (add_field_pos (f_fnum f) pos f False (new_core ty ts h gs)) k \<longleftrightarrow> k = f_fnum f"
  using core_ok_add_pos [OF assms(1), of f pos] add_pos_flags [OF assms(1), of "f_fnum f" pos f]
    legal_new_core [OF assms(1)] empty_new_core [OF assms(1)] assms(2) by (auto simp: empty_core_def)

lemma sample_element_fits: "fits_base sample_element (sample_alloc_traits True) []"
  using one_field [OF sample_cores_ok(4), where f = "new_fld 79 (V_string ''fund'')" and pos = 1]
  by (simp add: sample_element_def fits_base_iff fits_groups_def sample_nums new_fld_def del: fits_base.simps)

lemma sample_body_fits:
  "fits_base (msg_body sample_grouped) sample_order_traits [(78, sample_alloc True)]"
proof -
  have c: "entry_core (snd (sample_bme True ! 1)) =
      new_core ''D'' sample_order_traits (sample_hash sample_order_traits) [(78, sample_alloc True)]"
    by (simp add: entry_core_def sample_bme_def sample_entry_def)
  note c = c c [unfolded One_nat_def]
  have "fits_grp (Grp 78 (sample_alloc True) [sample_element]) (sample_alloc True)"
    using sample_element_fits empty_new_core [OF sample_cores_ok(4)] by (simp add: sample_alloc_def)
  then show ?thesis
    using one_field [OF sample_cores_ok(3), where f = "new_fld 78 (V_int 1)" and pos = 5]
    by (auto simp: sample_grouped_def fits_base_iff fits_groups_def sample_nums new_fld_def c Let_def
        simp del: fits_base.simps fits_grp.simps)
qed

theorem clone_copies_witness:
  "\<exists>new g'. clone (sample_meta True) sample_grouped = Inr new \<and>
    find_group (msg_body new) 78 = Some g' \<and> length (g_msgs g') = 1 \<and>
    get_field (mb (hd (g_msgs g'))) 79 = map_option fld_copy (get_field (mb sample_element) 79)"
proof -
  let ?ctx = "sample_meta True" and ?e = "snd (sample_bme True ! 1)"
  have e: "?e = snd (sample_entry ''D'' ''NewOrderSingle'' sample_order_traits [(78, sample_alloc True)] False)"
    by (simp add: sample_bme_def)
  note e = e e [unfolded One_nat_def]
  have ty: "m_msgType (mb (msg_body sample_grouped)) = ''D''"
    by (simp add: sample_grouped_def Let_def entry_core_def new_core_def add_field_pos_def add_field_itr_def e sample_entry_def)
  have ref: "gt_find_ref (c_bme ?ctx) (cstr (m_msgType (mb (msg_body sample_grouped)))) = Inr ?e"
    by (rule find_ref_Inr)
      (simp_all add: sample_meta_def sample_bme_sorted ty cstr_def, simp add: sample_bme_def sample_entry_def)
  have cores: "core_ok (entry_core ?e)" "core_ok (entry_core (c_hdr ?ctx))" "core_ok (entry_core (c_trl ?ctx))"
    using sample_cores_ok by (simp_all add: entry_core_def e sample_entry_def sample_meta_def)
  have nums: "{8, 9, 35} \<subseteq> t_fnum ` set (me_traits (c_hdr ?ctx))" "10 \<in> t_fnum ` set (me_traits (c_trl ?ctx))"
    using sample_nums by (simp_all add: sample_entry_def sample_meta_def)
  have "fits_base (mk_hdr ?ctx) (me_traits (c_hdr ?ctx)) []" "fits_base (mk_trl ?ctx) (me_traits (c_trl ?ctx)) []"
    using mk_hdr_ok [OF cores(2) nums(1)] mk_trl_ok [OF cores(3) nums(2)] nums
    by (simp_all add: mk_hdr_def mk_trl_def Let_def fits_base_iff fits_groups_def del: fits_base.simps)
  then have frame: "fits_base (msg_header sample_grouped) (me_traits (c_hdr ?ctx)) []"
      "fits_base (msg_trailer sample_grouped) (me_traits (c_trl ?ctx)) []"
    by (simp_all add: sample_grouped_def create_message_def Let_def)
  have body: "fits_base (msg_body sample_grouped) (me_traits ?e) (me_groups ?e)" "om_ok (me_groups ?e)"
    using sample_body_fits by (simp_all add: e sample_entry_def om_ok_def)
  have c: "entry_core ?e = new_core ''D'' sample_order_traits (sample_hash sample_order_traits) [(78, sample_alloc True)]"
    by (simp add: entry_core_def e sample_entry_def)
  note c = c c [unfolded One_nat_def]
  have "fp_get (pr_ctor_hash sample_order_traits (sample_hash sample_order_traits)) 78 group" by code_simp
  then have "fp_get (m_fp (entry_core ?e)) 78 group" by (simp add: c new_core_def)
  moreover have "mb (msg_body sample_grouped) = add_field_pos 78 5 (new_fld 78 (V_int 1)) False (entry_core ?e)"
    by (simp add: sample_grouped_def Let_def)
  ultimately have held: "carries (mb (msg_body sample_grouped)) 78"
    using add_pos_trait [OF cores(1), of group] one_field [OF sample_cores_ok(3), where f = "new_fld 78 (V_int 1)" and pos = 5]
    by (simp add: carries_def c sample_nums new_fld_def)
  obtain new where new: "clone ?ctx sample_grouped = Inr new" "same_message (msg_body sample_grouped) (msg_body new)"
    using clone_copies [OF ref cores(1) body(2,1) cores(2) nums(1) frame(1) cores(3) nums(2) frame(2)] by blast
  have "map_of (mb_groups (msg_body sample_grouped)) 78 = Some (Some (Grp 78 (sample_alloc True) [sample_element]))"
    by (simp add: sample_grouped_def Let_def)
  then obtain g' where g': "find_group (msg_body new) 78 = Some g'"
      "same_grp (Grp 78 (sample_alloc True) [sample_element]) g'"
    using same_message_group [OF new(2) _ held] by blast
  then obtain m' where "g_msgs g' = [m']" "same_message sample_element m'" by (auto simp: list_all2_Cons1)
  then have "length (g_msgs g') = 1 \<and>
      get_field (mb (hd (g_msgs g'))) 79 = map_option fld_copy (get_field (mb sample_element) 79)"
    by (simp add: same_message_field)
  with new(1) g'(1) show ?thesis by blast
qed

end
