(* ===== verification/SessionRules.thy ===== *)
theory SessionRules
  imports SessionInv SessionSamples Copying
begin

text \<open>
  What the session layer does on the important branches: numbering of sent messages, wrong inbound
  numbers, logons, silence of the peer, resending.
\<close>

section \<open>Running computations\<close>

lemma sm_run [simp]:
  "sret x s = (Inr x, s)" "sthrow e s = (Inl e, s)" "slift r s = (r, s)" "sget f s = (Inr (f s), s)"
  "supd g s = (Inr (), g s)" "do_state_change st s = (Inr (), s\<lparr>s_state := st\<rparr>)"
  by (simp_all add: sret_def sthrow_def slift_def sget_def supd_def do_state_change_def)

lemma sbind_run:
  "m s = (Inr x, s') \<Longrightarrow> sbind m f s = f x s'" "m s = (Inl e, s') \<Longrightarrow> sbind m f s = (Inl e, s')"
  by (simp_all add: sbind_def)

lemma sbind_simple [simp]:
  "sbind (sret x) f s = f x s" "sbind (sthrow e) k s = (Inl e, s)" "sbind (sget g) f s = f (g s) s"
  "sbind (supd u) g' s = g' () (u s)" "sbind (do_state_change st) g' s = g' () (s\<lparr>s_state := st\<rparr>)"
  "sbind (slift (Inr x)) f s = f x s" "sbind (slift (Inl e)) f s = (Inl e, s)"
  by (simp_all add: sbind_def)

lemma sbind_assoc: "sbind (sbind m f) g = sbind m (\<lambda>x. sbind (f x) g)"
  by (rule ext) (simp add: sbind_def split: prod.splits sum.splits)

lemma sbind_Inr: "sbind m f s = (Inr y, s') \<longleftrightarrow> (\<exists>x s1. m s = (Inr x, s1) \<and> f x s1 = (Inr y, s'))"
  by (auto simp: sbind_def split: prod.splits sum.splits)

section \<open>Numbering\<close>

abbreviation hdr_field :: "message \<Rightarrow> u16 \<Rightarrow> fld option" where
  "hdr_field msg fnum \<equiv> get_field (mb (msg_header msg)) fnum"

abbreviation hdr_ok :: "message \<Rightarrow> bool" where
  "hdr_ok msg \<equiv> core_ok (mb (msg_header msg))"

lemma add_hdr_spec:
  assumes "hdr_ok msg" and "is_legal (mb (msg_header msg)) k"
  obtains msg' where "add_hdr (new_fld k v) msg = Inr msg'" "hdr_ok msg'"
    "\<And>j. hdr_field msg' j = (if j = k then Some (new_fld k v) else hdr_field msg j)"
    "\<And>j. header_has msg' j \<longleftrightarrow> j = k \<or> header_has msg j"
    "\<And>j. is_legal (mb (msg_header msg')) j \<longleftrightarrow> is_legal (mb (msg_header msg)) j"
    "msg' = msg\<lparr>msg_header := msg_header msg'\<rparr>"
proof -
  have k: "f_fnum (new_fld k v) = k" by (simp add: new_fld_def)
  obtain c where c: "add_field (new_fld k v) (mb (msg_header msg)) = Inr c"
    using add_field_cases [of "mb (msg_header msg)" "new_fld k v"] assms k by simp
  have fp: "m_fp c = fp_set (m_fp (mb (msg_header msg))) k present" using add_field_fp [OF assms(1) c] k by simp
  have ok: "pr_ok (m_fp (mb (msg_header msg)))" using assms(1) by (simp add: core_ok_def)
  let ?m = "msg\<lparr>msg_header := on_core (\<lambda>_. c) (msg_header msg)\<rparr>"
  show ?thesis
  proof (rule that)
    show "add_hdr (new_fld k v) msg = Inr ?m" by (simp add: add_hdr_def c)
    show "hdr_ok ?m" using core_ok_add [OF assms(1) c] by simp
    show "hdr_field ?m j = (if j = k then Some (new_fld k v) else hdr_field msg j)" for j
      using add_field_get [OF assms(1) c] k by simp
    show "header_has ?m j \<longleftrightarrow> j = k \<or> header_has msg j" for j
      using present_after_set [OF ok] assms(2) by (simp add: header_has_def have_field_def fp is_legal_def)
    show "is_legal (mb (msg_header ?m)) j \<longleftrightarrow> is_legal (mb (msg_header msg)) j" for j
      using ok by (auto simp: is_legal_def fp fp_has_lookup pr_lookup_fp_set split: option.splits)
  qed simp
qed

text \<open>A message that has no number yet, of a dictionary whose header knows the session fields.\<close>

definition unsent :: "message \<Rightarrow> bool" where
  "unsent msg \<longleftrightarrow> hdr_ok msg \<and> \<not> header_has msg Common_MsgSeqNum \<and> \<not> header_has msg Common_PossDupFlag \<and>
     (\<forall>k \<in> {Common_SenderCompID, Common_TargetCompID, Common_MsgSeqNum, Common_SendingTime}. is_legal (mb (msg_header msg)) k)"

lemma prepare_unsent:
  assumes "unsent msg"
  obtains msg' where "prepare_header s msg = Inr (msg', False)" "hdr_ok msg'"
    "hdr_field msg' Common_MsgSeqNum = Some (new_fld Common_MsgSeqNum (V_int (seqnum_for s msg)))"
    "hdr_field msg' Common_SendingTime = Some (new_fld Common_SendingTime (V_timestamp (s_now s)))"
    "\<not> header_has msg Common_SenderCompID \<Longrightarrow>
      hdr_field msg' Common_SenderCompID = Some (new_fld Common_SenderCompID (V_string (id_sender (s_sid s))))"
    "\<not> header_has msg Common_TargetCompID \<Longrightarrow>
      hdr_field msg' Common_TargetCompID = Some (new_fld Common_TargetCompID (V_string (id_target (s_sid s))))"
    "msg' = msg\<lparr>msg_header := msg_header msg'\<rparr>"
proof -
  let ?new = "\<lambda>k v msg. if header_has msg k then Inr msg else add_hdr (new_fld k (V_string v)) msg"
  have id_step: "\<exists>m. ?new k v msg = Inr m \<and> hdr_ok m \<and>
      (\<not> header_has msg k \<longrightarrow> hdr_field m k = Some (new_fld k (V_string v))) \<and>
      (\<forall>j. j \<noteq> k \<longrightarrow> hdr_field m j = hdr_field msg j \<and> header_has m j = header_has msg j) \<and>
      (\<forall>j. is_legal (mb (msg_header m)) j = is_legal (mb (msg_header msg)) j) \<and> m = msg\<lparr>msg_header := msg_header m\<rparr>"
    if ok: "hdr_ok msg" and legal: "is_legal (mb (msg_header msg)) k" for k v msg
  proof (cases "header_has msg k")
    case False
    obtain m where "add_hdr (new_fld k (V_string v)) msg = Inr m" "hdr_ok m"
      "\<And>j. hdr_field m j = (if j = k then Some (new_fld k (V_string v)) else hdr_field msg j)"
      "\<And>j. header_has m j \<longleftrightarrow> j = k \<or> header_has msg j"
      "\<And>j. is_legal (mb (msg_header m)) j \<longleftrightarrow> is_legal (mb (msg_header msg)) j" "m = msg\<lparr>msg_header := msg_header m\<rparr>"
      by (rule add_hdr_spec [OF ok legal, where v = "V_string v"]) (rule that)
    with False show ?thesis by auto
  qed (use ok in auto)
  note tags = common_tags
  have u: "hdr_ok msg" "\<not> header_has msg Common_MsgSeqNum" "\<not> header_has msg Common_PossDupFlag"
    "\<And>k. k \<in> {Common_SenderCompID, Common_TargetCompID, Common_MsgSeqNum, Common_SendingTime} \<Longrightarrow> is_legal (mb (msg_header msg)) k"
    using assms unfolding unsent_def by blast+
  obtain m1 where m1: "?new Common_SenderCompID (id_sender (s_sid s)) msg = Inr m1" "hdr_ok m1"
    "\<not> header_has msg Common_SenderCompID \<longrightarrow> hdr_field m1 Common_SenderCompID = Some (new_fld Common_SenderCompID (V_string (id_sender (s_sid s))))"
    "\<forall>j. j \<noteq> Common_SenderCompID \<longrightarrow> hdr_field m1 j = hdr_field msg j \<and> header_has m1 j = header_has msg j"
    "\<forall>j. is_legal (mb (msg_header m1)) j = is_legal (mb (msg_header msg)) j" "m1 = msg\<lparr>msg_header := msg_header m1\<rparr>"
    using id_step [of msg Common_SenderCompID "id_sender (s_sid s)"] u by auto
  obtain m2 where m2: "?new Common_TargetCompID (id_target (s_sid s)) m1 = Inr m2" "hdr_ok m2"
    "\<not> header_has m1 Common_TargetCompID \<longrightarrow> hdr_field m2 Common_TargetCompID = Some (new_fld Common_TargetCompID (V_string (id_target (s_sid s))))"
    "\<forall>j. j \<noteq> Common_TargetCompID \<longrightarrow> hdr_field m2 j = hdr_field m1 j \<and> header_has m2 j = header_has m1 j"
    "\<forall>j. is_legal (mb (msg_header m2)) j = is_legal (mb (msg_header m1)) j" "m2 = m1\<lparr>msg_header := msg_header m2\<rparr>"
    using id_step [of m1 Common_TargetCompID "id_target (s_sid s)"] u m1(2,5) by auto
  let ?num = "new_fld Common_MsgSeqNum (V_int (seqnum_for s m2))" and ?time = "new_fld Common_SendingTime (V_timestamp (s_now s))"
  have l2: "is_legal (mb (msg_header m2)) Common_MsgSeqNum" using m2(5) m1(5) u(4) by blast
  obtain m3 where m3: "add_hdr ?num m2 = Inr m3" "hdr_ok m3"
    "\<And>j. hdr_field m3 j = (if j = Common_MsgSeqNum then Some ?num else hdr_field m2 j)"
    "\<And>j. header_has m3 j \<longleftrightarrow> j = Common_MsgSeqNum \<or> header_has m2 j"
    "\<And>j. is_legal (mb (msg_header m3)) j \<longleftrightarrow> is_legal (mb (msg_header m2)) j" "m3 = m2\<lparr>msg_header := msg_header m3\<rparr>"
    by (rule add_hdr_spec [OF m2(2) l2, where v = "V_int (seqnum_for s m2)"]) (rule that)
  have l3: "is_legal (mb (msg_header m3)) Common_SendingTime" using m3(5) m2(5) m1(5) u(4) by blast
  obtain m4 where m4: "add_hdr ?time m3 = Inr m4" "hdr_ok m4"
    "\<And>j. hdr_field m4 j = (if j = Common_SendingTime then Some ?time else hdr_field m3 j)"
    "\<And>j. header_has m4 j \<longleftrightarrow> j = Common_SendingTime \<or> header_has m3 j"
    "\<And>j. is_legal (mb (msg_header m4)) j \<longleftrightarrow> is_legal (mb (msg_header m3)) j" "m4 = m3\<lparr>msg_header := msg_header m4\<rparr>"
    by (rule add_hdr_spec [OF m3(2) l3, where v = "V_timestamp (s_now s)"]) (rule that)
  have same: "seqnum_for s m2 = seqnum_for s msg"
    by (subst m2(6), subst m1(6)) (simp add: seqnum_for_def)
  show ?thesis
  proof (rule that)
    have "\<not> header_has m2 Common_MsgSeqNum" using m2(4) m1(4) u(2) by (simp add: tags)
    then show "prepare_header s msg = Inr (m4, False)"
      using m1(1) m2(1) m3(1) m4(1) u(3) by (simp add: prepare_header_def Let_def)
    show "hdr_ok m4" by (rule m4(2))
    show "hdr_field m4 Common_MsgSeqNum = Some (new_fld Common_MsgSeqNum (V_int (seqnum_for s msg)))"
      using m4(3) m3(3) same by (simp add: tags)
    show "hdr_field m4 Common_SendingTime = Some ?time" using m4(3) by simp
    show "hdr_field m4 Common_SenderCompID = Some (new_fld Common_SenderCompID (V_string (id_sender (s_sid s))))"
      if "\<not> header_has msg Common_SenderCompID"
      using that m4(3) m3(3) m2(4) m1(3) by (simp add: tags)
    show "hdr_field m4 Common_TargetCompID = Some (new_fld Common_TargetCompID (V_string (id_target (s_sid s))))"
      if "\<not> header_has msg Common_TargetCompID"
      using that m4(3) m3(3) m2(3) m1(4) by (simp add: tags)
    show "m4 = msg\<lparr>msg_header := msg_header m4\<rparr>"
      by (subst m4(6), subst m3(6), subst m2(6), subst m1(6)) simp
  qed
qed

text \<open>An application that leaves outbound messages as they are.\<close>

definition plain_modifiers :: "hooks \<Rightarrow> bool" where
  "plain_modifiers h \<longleftrightarrow> h_modify_header h = id \<and> h_modify_outbound h = id"

lemma encode_keeps:
  "msg_encode ctx msg = Inr (msg', out) \<Longrightarrow> msg_body msg' = msg_body msg \<and> msg_custom_seqnum msg' = msg_custom_seqnum msg \<and>
    msg_no_increment msg' = msg_no_increment msg \<and> msg_end_of_batch msg' = msg_end_of_batch msg"
  by (auto simp: msg_encode_def Let_def bind_Inr split: if_splits)

lemma send_unsent:
  assumes u: "unsent msg" and h: "plain_modifiers h"
    and sent: "send_process h msg s = (Inr True, s')"
  shows "\<exists>msg1 msg2 out kept s1. hdr_field msg1 Common_MsgSeqNum = Some (new_fld Common_MsgSeqNum (V_int (seqnum_for s msg))) \<and>
    msg_encode (s_ctx s) msg1 = Inr (msg2, out) \<and> msg_body msg1 = msg_body msg \<and>
    write_out s msg2 out = Some (s1, kept) \<and> s' = after_send msg2 False kept s1 \<and>
    msg_custom_seqnum msg2 = msg_custom_seqnum msg \<and> msg_no_increment msg2 = msg_no_increment msg \<and>
    msg_end_of_batch msg2 = msg_end_of_batch msg \<and> msg_body msg2 = msg_body msg"
proof -
  obtain msg1 where p: "prepare_header s msg = Inr (msg1, False)"
    "hdr_field msg1 Common_MsgSeqNum = Some (new_fld Common_MsgSeqNum (V_int (seqnum_for s msg)))"
    "msg1 = msg\<lparr>msg_header := msg_header msg1\<rparr>"
    using prepare_unsent [OF u, of s] by metis
  have "msg1\<lparr>msg_header := msg_header msg1\<rparr> = msg1" by simp
  with sent p(1) h obtain msg2 out kept s1 where e: "msg_encode (s_ctx s) msg1 = Inr (msg2, out)"
    "write_out s msg2 out = Some (s1, kept)" "s' = after_send msg2 False kept s1"
    by (auto simp: send_process_def plain_modifiers_def Let_def split: sum.splits prod.splits option.splits if_splits)
  have "msg_body msg1 = msg_body msg \<and> msg_custom_seqnum msg1 = msg_custom_seqnum msg \<and>
      msg_no_increment msg1 = msg_no_increment msg \<and> msg_end_of_batch msg1 = msg_end_of_batch msg"
    by (subst (1 2 3 4) p(3)) simp
  with p(2) e encode_keeps [OF e(1)] show ?thesis
    by (intro exI [of _ msg1] exI [of _ msg2] exI [of _ out] exI [of _ kept] exI [of _ s1]) simp
qed

lemma send_outcome:
  assumes "send_process h msg s = (r, s')"
  shows "r = Inr True \<or> s' = s"
  using assms by (auto simp: send_process_def Let_def split: sum.splits prod.splits option.splits if_splits)


subsection \<open>A concrete order\<close>

definition sample_order :: message where
  "sample_order = create_message session_ctx (snd (session_bme ! 7)) True"

lemma sample_header:
  "core_ok (mb (mk_hdr session_ctx)) \<and>
   (\<forall>k \<in> {34, 43, 49, 52, 56}. is_legal (mb (mk_hdr session_ctx)) k \<and> \<not> have_field (mb (mk_hdr session_ctx)) k)"
proof -
  let ?e = "c_hdr session_ctx"
  have e: "me_traits ?e = session_hdr_traits" "me_ftha ?e = sample_hash session_hdr_traits"
    by (simp_all add: session_ctx_def session_bme_def sample_entry_def)
  have nums: "{8, 9, 35, 34, 43, 49, 52, 56} \<subseteq> t_fnum ` set session_hdr_traits"
    by (auto simp: session_hdr_traits_def mk_trait_def sample_flag_def t_set_def)
  have "list_all (\<lambda>t. \<not> t_has t present) session_hdr_traits" by code_simp
  then have "core_ok (entry_core ?e)"
    unfolding entry_core_def e
    by (rule sample_core_ok [rotated]) (simp_all add: key_sorted_def session_hdr_traits_def mk_trait_def sample_flag_def t_set_def)
  then show ?thesis using mk_hdr_ok [of session_ctx] nums e(1) by auto
qed

lemma sample_order_unsent: "unsent sample_order"
  using sample_header by (simp add: unsent_def sample_order_def create_message_def header_has_def common_tags)


section \<open>Inbound numbers\<close>

text \<open>An application whose admin handler does not act on the session.\<close>

definition quiet_admin :: "hooks \<Rightarrow> bool" where
  "quiet_admin h \<longleftrightarrow> (\<forall>n msg s. \<exists>b. h_admin h n msg s = (Inr b, s))"

definition ids_match :: "session \<Rightarrow> message \<Rightarrow> bool" where
  "ids_match s msg \<longleftrightarrow> lp_enforce_compids (s_login s) \<longrightarrow>
     string_of (mb (msg_header msg)) Common_TargetCompID = Inr (id_sender (s_sid s)) \<and>
     string_of (mb (msg_header msg)) Common_SenderCompID = Inr (id_target (s_sid s))"

definition checked_types :: "string set" where
  "checked_types = {Common_MsgType_HEARTBEAT, Common_MsgType_TEST_REQUEST, Common_MsgType_RESEND_REQUEST, Common_MsgType_LOGOUT}"

lemmas msg_types = Common_MsgType_HEARTBEAT_def Common_MsgType_TEST_REQUEST_def Common_MsgType_RESEND_REQUEST_def
  Common_MsgType_REJECT_def Common_MsgType_SEQUENCE_RESET_def Common_MsgType_LOGOUT_def Common_MsgType_LOGON_def

lemma ids_check: "ids_match s msg \<Longrightarrow> compid_check msg (s_sid s) s = (Inr (), s)"
  by (auto simp: ids_match_def compid_check_def same_sender_comp_id_def same_target_comp_id_def)

lemma enforce_checks:
  assumes "is_established (s_state s)" and "s_state s \<noteq> st_logon_received" and "ids_match s msg"
    and "msg_type_of msg \<noteq> Common_MsgType_SEQUENCE_RESET"
  shows "enforce h n msg s = sbind (sequence_check h n msg) (\<lambda>r. sret (\<not> r)) s"
  using assms(1,2,4) ids_check [OF assms(3)] by (simp add: enforce_def sbind_def)

lemma admin_quiet:
  assumes "quiet_admin h"
  obtains b where "(if is_admin ctx msg then h_admin h n msg else sret True) s = (Inr b, s)"
proof -
  obtain b where "h_admin h n msg s = (Inr b, s)" using assms unfolding quiet_admin_def by blast
  then show ?thesis by (cases "is_admin ctx msg") (auto intro: that)
qed

lemma dispatch_throws:
  assumes "quiet_admin h" and "msg_type_of msg \<in> checked_types" and "enforce h n msg s = (Inl e, s')"
  shows "dispatch h n msg s = (Inl e, s')"
proof -
  have "dispatch_handler h n msg s = (Inl e, s')"
    using assms(2,3)
    by (auto simp: sbind_def dispatch_handler_def Let_def checked_types_def handle_heartbeat_def handle_test_request_def
        handle_resend_request_def handle_logout_def msg_types)
  moreover obtain b where "(if is_admin (s_ctx s) msg then h_admin h n msg else sret True) s = (Inr b, s)"
    using assms(1) by (rule admin_quiet)
  ultimately show ?thesis by (simp add: dispatch_def sbind_def)
qed

text \<open>The end of a session by an exception that forces a logoff, after the logon.\<close>

lemma logoff_stops:
  assumes "force_logoff e" and "s_state s \<noteq> st_logon_received" and "\<not> lp_reliable (s_login s)"
    and "s_conn s = Some c" and "cn_acceptor c \<or> \<not> s_timer_locked s" and "\<not> s_shutdown s"
  shows "\<exists>s'. process_error h n msg e s = (Inr False, s') \<and> s_shutdown s' \<and> written s' = written s \<and>
    s_next_receive s' = s_next_receive s \<and> s_next_send s' = s_next_send s \<and> s_persist s' = s_persist s"
proof -
  have e: "catchable e" "\<not> (case e of LogfileException _ \<Rightarrow> True | _ \<Rightarrow> False)" using assms(1) by (cases e; simp)+
  obtain s' where s': "session_stop s = (Inr (), s')" "s_shutdown s'" "written s' = written s"
    "s_next_receive s' = s_next_receive s" "s_next_send s' = s_next_send s" "s_persist s' = s_persist s"
    using assms(4-6)
    by (cases "cn_acceptor c") (simp_all add: session_stop_def Let_def written_def)
  have "process_error h n msg e s = (Inr False, s')"
    using assms(1-3) e s'(1) by (simp add: process_error_def sbind_def)
  with s' show ?thesis by blast
qed

lemma low_number_throws:
  assumes "n < s_next_receive s" and "\<not> get_flag (mb (msg_header msg)) Common_PossDupFlag"
  shows "sequence_check h n msg s = (Inl (MsgSequenceTooLow n (s_next_receive s)), s)"
proof -
  have "\<not> s_next_receive s < n" using assms(1) by auto
  with assms show ?thesis by (simp add: sequence_check_def Let_def)
qed


lemma generated_type:
  "msg_type_of (create_message ctx e deep) = me_msgtype e" "mb (msg_header (create_message ctx e deep)) = mb (mk_hdr ctx)"
  by (simp_all add: msg_type_of_def create_message_def new_core_def)

text \<open>A heart beat as the generated class makes it, and what its header says.\<close>

definition sample_beat :: message where
  "sample_beat = create_message session_ctx (snd (session_bme ! 0)) True"

lemma sample_beat_simps:
  "msg_type_of sample_beat = Common_MsgType_HEARTBEAT" "\<not> get_flag (mb (msg_header sample_beat)) Common_PossDupFlag"
proof -
  show "msg_type_of sample_beat = Common_MsgType_HEARTBEAT"
    by (simp add: sample_beat_def generated_type session_bme_def sample_entry_def Common_MsgType_HEARTBEAT_def)
  have "core_ok (mb (mk_hdr session_ctx))" "\<not> have_field (mb (mk_hdr session_ctx)) 43" using sample_header by auto
  then have "m_find (mb (mk_hdr session_ctx)) 43 = None" by (simp add: core_ok_def m_find_None)
  then show "\<not> get_flag (mb (msg_header sample_beat)) Common_PossDupFlag"
    by (simp add: sample_beat_def generated_type get_flag_def get_field_def common_tags)
qed

definition open_session :: "session_state \<Rightarrow> session" where
  "open_session st = (sample_session st True)\<lparr>s_next_receive := 5, s_login := sample_login\<lparr>lp_enforce_compids := False\<rparr>\<rparr>"

lemma default_quiet: "quiet_admin default_hooks"
  by (auto simp: quiet_admin_def default_hooks_def)

lemmas sample_defs = open_session_def sample_session_def sample_login_def sample_conn_def


section \<open>Gaps\<close>

lemma number_Suc_less: assumes "(a :: u32) < n" and "n < - 1" shows "a + 1 < n + 1"
proof -
  have "unat n < unat (- 1 :: u32)" using assms(2) by (simp add: word_less_nat_alt)
  also have "unat (- 1 :: u32) = 2 ^ 32 - 1" by (simp add: unsigned_minus_1_eq_mask mask_eq_exp_minus_1)
  finally have n: "unat n + 1 < 2 ^ 32" by simp
  moreover have "unat a < unat n" using assms(1) by (simp add: word_less_nat_alt)
  ultimately show ?thesis by (simp add: word_less_nat_alt unat_word_ariths)
qed

lemma gap_throws:
  assumes "s_next_receive s < n" and "s_state s \<noteq> st_continuous"
    and "\<forall>sf. s_sf s = Some sf \<longrightarrow> \<not> sf_ignore_logon_sequence_check sf"
  shows "sequence_check h n msg s = (Inl (InvalidMsgSequence n (s_next_receive s)), s)"
  using assms by (auto simp: sequence_check_def Let_def split: option.splits)

text \<open>In the pipelined model a message is handed to the queue of the writer thread.\<close>

lemma send_new_queues:
  assumes "s_conn s = Some c" and "cn_pmodel c = pm_pipeline" and "gen (s_ctx s) = Inr msg"
  shows "send_new h gen 0 False s = (Inr True, s\<lparr>s_conn := Some (c\<lparr>cn_queue := cn_queue c @ [msg]\<rparr>)\<rparr>)"
  using assms by (simp add: send_new_def session_send_def conn_write_def)

lemma send_new_last:
  assumes "s_conn s = Some c" and "cn_pmodel c = pm_pipeline" and "gen (s_ctx s) = Inr msg"
  shows "send_new h gen 0 True s = (Inr True, s\<lparr>s_conn := Some (c\<lparr>cn_queue := cn_queue c @ [msg\<lparr>msg_no_increment := True\<rparr>]\<rparr>)\<rparr>)"
  using assms by (simp add: send_new_def session_send_def conn_write_def)


lemma request_generated: "\<exists>request. generate_resend_request session_ctx 5 0 = Inr request"
proof -
  have "(case generate_resend_request session_ctx 5 0 of Inr _ \<Rightarrow> True | Inl _ \<Rightarrow> False)" by code_simp
  then show ?thesis by (auto split: sum.splits)
qed

definition piped :: "session \<Rightarrow> bool \<Rightarrow> session" where
  "piped s acceptor = s\<lparr>s_conn := Some ((sample_conn acceptor)\<lparr>cn_pmodel := pm_pipeline\<rparr>)\<rparr>"


section \<open>Silence of the peer\<close>

definition silent :: "session \<Rightarrow> conn \<Rightarrow> bool" where
  "silent s c \<longleftrightarrow> s_conn s = Some c \<and> cn_connected c \<and> cn_pmodel c = pm_pipeline \<and>
     tv_secs (s_now s - s_last_sent s) < uint (cn_hb_interval c) \<and>
     uint (cn_hb_interval20pc c) < tv_secs (s_now s - s_last_received s)"

lemma heartbeat_asks:
  assumes "silent s c" and "\<not> is_shutdown s" and "s_state s \<noteq> st_test_request_sent"
    and "generate_test_request (s_ctx s) ''TEST'' = Inr test"
  shows "heartbeat_service h s =
    (Inr True, s\<lparr>s_conn := Some (c\<lparr>cn_queue := cn_queue c @ [test]\<rparr>), s_state := st_test_request_sent\<rparr>)"
  using assms send_new_queues [of s c "\<lambda>ctx. generate_test_request ctx ''TEST''" test h]
  by (simp add: heartbeat_service_def silent_def not_le is_shutdown_def sbind_def)

lemma heartbeat_gives_up:
  assumes "silent s c" and "\<not> is_shutdown s" and "s_state s = st_test_request_sent"
    and "generate_logout (s_ctx s) (if lp_silent_disconnect (s_login s) then None else Some ignored_text) = Inr bye"
  shows "heartbeat_service h s =
    sbind session_stop (\<lambda>_. sret True)
      (s\<lparr>s_conn := Some (c\<lparr>cn_queue := cn_queue c @ [bye\<lparr>msg_no_increment := True\<rparr>]\<rparr>), s_state := st_logoff_sent\<rparr>)"
  using assms send_new_last [of s c "\<lambda>ctx. generate_logout ctx (if lp_silent_disconnect (s_login s) then None else Some ignored_text)" bye h]
  by (simp add: heartbeat_service_def silent_def not_le is_shutdown_def sbind_def)


lemma supervision_generated:
  "\<exists>test bye. generate_test_request session_ctx ''TEST'' = Inr test \<and> generate_logout session_ctx (Some ignored_text) = Inr bye"
proof -
  have "(case generate_test_request session_ctx ''TEST'' of Inr _ \<Rightarrow> True | Inl _ \<Rightarrow> False)"
    "(case generate_logout session_ctx (Some ignored_text) of Inr _ \<Rightarrow> True | Inl _ \<Rightarrow> False)" by code_simp+
  then show ?thesis by (auto split: sum.splits)
qed


end
