(* ===== verification/XmlText.thy ===== *)
theory XmlText
  imports Elements
begin

text \<open>
  The text level of \<^verbatim>\<open>XmlElement\<close> (\<^verbatim>\<open>runtime/xml.cpp\<close>): the five regular expressions of
  the class, \<open>InplaceXlate\<close> with its entities, character references, environment variables and
  shell commands, and the attribute parser \<open>ParseAttrs\<close>.

  The patterns are searched with \<^verbatim>\<open>regexec\<close>: the leftmost match of the C string. Each of
  them can match at one place in one way only, so a pattern is a function from the text behind a
  position to the length of the match there and the ends of its sub-expression.

  The environment of the process is a parameter: its variables, its files, the output of shell
  commands. \<open>xe_junk\<close> is the character variable that \<^verbatim>\<open>>>\<close> leaves unassigned at the end of
  a stream: its value is indeterminate, and the theorems hold for every value.
\<close>

record xenv =
  xe_files :: "string \<Rightarrow> string option"
  xe_getenv :: "string \<Rightarrow> string option"
  xe_popen :: "string \<Rightarrow> string option"
  xe_flags :: u32
  xe_junk :: char

definition noextensions :: nat where "noextensions = 0"
definition nocase :: nat where "nocase = 1"

section \<open>The patterns\<close>

type_synonym pattern = "string \<Rightarrow> (nat \<times> nat \<times> nat) option"

fun re_search :: "pattern \<Rightarrow> nat \<Rightarrow> string \<Rightarrow> reg_match" where
  "re_search m i [] = []"
| "re_search m i (c # s) =
     (case m (c # s) of
        Some (n, so, eo) \<Rightarrow> [(i, i + n), (i + so, i + eo)]
      | None \<Rightarrow> re_search m (Suc i) s)"

definition SearchString :: "pattern \<Rightarrow> string \<Rightarrow> nat \<Rightarrow> reg_match" where
  "SearchString m source subExpr = take (min subExpr 32) (re_search m 0 (cstr source))"

definition ishex :: "char \<Rightarrow> bool" where
  "ishex c \<longleftrightarrow> isdigit c \<or> (65 \<le> uchar c \<and> uchar c \<le> 70) \<or> (97 \<le> uchar c \<and> uchar c \<le> 102)"

text \<open>\<^verbatim>\<open>&([a-z]{2,}[1-4]{0,});\<close>\<close>

definition rCX :: pattern where
  "rCX s =
     (case s of
        c # t \<Rightarrow>
          if c \<noteq> CHR ''&'' then None
          else
            let a = takeWhile islower t;
                b = takeWhile (\<lambda>c. c \<in> set ''1234'') (drop (length a) t);
                n = length a + length b
            in if 2 \<le> length a \<and> n < length t \<and> t ! n = CHR '';'' then Some (n + 2, 1, n + 1) else None
      | [] \<Rightarrow> None)"

text \<open>\<^verbatim>\<open>&#(x[A-Fa-f0-9]+|[0-9]+);\<close>\<close>

definition rCE :: pattern where
  "rCE s =
     (case s of
        c # d # t \<Rightarrow>
          if c \<noteq> CHR ''&'' \<or> d \<noteq> CHR ''#'' then None
          else
            let x = (t \<noteq> [] \<and> hd t = CHR ''x'');
                ds = (if x then takeWhile ishex (tl t) else takeWhile isdigit t);
                n = (if x then 1 else 0) + length ds
            in if ds \<noteq> [] \<and> n < length t \<and> t ! n = CHR '';'' then Some (n + 3, 2, n + 2) else None
      | _ \<Rightarrow> None)"

text \<open>A prefix, a non-empty text without the closing character, the closing character: the
  patterns \<^verbatim>\<open>href="([^"]+)"\<close>, \<^verbatim>\<open>\$\{([^}]+)\}\<close> and \<^verbatim>\<open>!\{([^}]+)\}\<close>.\<close>

definition bracketed :: "string \<Rightarrow> char \<Rightarrow> pattern" where
  "bracketed pre close s =
     (let k = length pre; a = takeWhile (\<lambda>c. c \<noteq> close) (drop k s)
      in if take k s = pre \<and> a \<noteq> [] \<and> k + length a < length s
         then Some (k + length a + 1, k, k + length a) else None)"

definition rIn :: pattern where "rIn = bracketed ''href=\"'' (CHR 0x22)"
definition rEn :: pattern where "rEn = bracketed ''${'' (CHR ''}'')"
definition rEv :: pattern where "rEv = bracketed ''!{'' (CHR ''}'')"

section \<open>\<^verbatim>\<open>InplaceXlate\<close>\<close>

definition stringtochar :: "(string \<times> nat) list" where
  "stringtochar =
     [(''amp'', 38), (''lt'', 60), (''gt'', 62), (''apos'', 39), (''quot'', 34), (''nbsp'', 160),
      (''iexcl'', 161), (''cent'', 162), (''pound'', 163), (''curren'', 164), (''yen'', 165),
      (''brvbar'', 166), (''sect'', 167), (''uml'', 168), (''copy'', 169), (''ordf'', 170),
      (''laquo'', 171), (''not'', 172), (''shy'', 173), (''reg'', 174), (''macr'', 175),
      (''deg'', 176), (''plusmn'', 177), (''sup2'', 178), (''sup3'', 179), (''acute'', 180),
      (''micro'', 181), (''para'', 182), (''middot'', 183), (''cedil'', 184), (''sup1'', 185),
      (''ordm'', 186), (''raquo'', 187), (''frac14'', 188), (''frac12'', 189), (''frac34'', 190),
      (''iquest'', 191)]"

definition entity_char :: "string \<Rightarrow> char" where
  "entity_char name = (case map_of stringtochar name of None \<Rightarrow> CHR ''?'' | Some n \<Rightarrow> char_of n)"

text \<open>The number of a character reference as \<^verbatim>\<open>istringstream\<close> reads it into an \<^verbatim>\<open>int\<close>, and the
  bytes that replace it: one, or two when the second byte is not zero.\<close>

definition hex_val :: "char \<Rightarrow> nat" where
  "hex_val c =
     (if isdigit c then digit_val c else if 97 \<le> uchar c then uchar c - 87 else uchar c - 55)"

definition ref_value :: "string \<Rightarrow> nat" where
  "ref_value what =
     min (2147483647)
       (if what \<noteq> [] \<and> hd what = CHR ''x'' then foldl (\<lambda>n c. 16 * n + hex_val c) 0 (tl what)
        else dec_value what)"

definition ref_bytes :: "nat \<Rightarrow> string" where
  "ref_bytes v =
     (if v div 256 mod 256 \<noteq> 0 then [char_of (v div 256 mod 256)] else []) @ [char_of (v mod 256)]"

definition fits :: "pattern \<Rightarrow> nat \<Rightarrow> bool" where
  "fits m k \<longleftrightarrow> (\<forall>t n so eo. m t = Some (n, so, eo) \<longrightarrow> k \<le> n \<and> n \<le> length t \<and> so \<le> eo \<and> eo \<le> n)"

lemma re_search_fits:
  assumes "fits m k" and "re_search m i s \<noteq> []"
  shows "\<exists>b e so eo. re_search m i s = [(b, e), (so, eo)] \<and> i \<le> b \<and> b + k \<le> e \<and> e \<le> i + length s"
  using assms(2)
proof (induction s arbitrary: i)
  case (Cons c s)
  show ?case
  proof (cases "m (c # s)")
    case None
    with Cons.IH [of "Suc i"] Cons.prems show ?thesis by fastforce
  next
    case (Some p)
    then obtain n so eo where "m (c # s) = Some (n, so, eo)" by (cases p) auto
    moreover from this have "k \<le> n \<and> n \<le> length (c # s)" using assms(1) unfolding fits_def by blast
    ultimately show ?thesis by simp
  qed
qed simp

lemma rCX_fits: "fits rCX 4"
  by (auto simp: fits_def rCX_def Let_def split: list.splits if_splits)

lemma rCE_fits: "fits rCE 4"
  by (auto simp: fits_def rCE_def Let_def split: list.splits if_splits)
    (metis One_nat_def Suc_leI add_2_eq_Suc' length_greater_0_conv numeral_2_eq_2 trans_le_add2)+

lemma bracketed_fits: "fits (bracketed pre close) (Suc (length pre))"
  by (auto simp: fits_def bracketed_def Let_def split: if_splits)

lemma length_cstr: "length (cstr s) \<le> length s"
  by (simp add: cstr_def length_takeWhile_le)

lemma replace_shrinks:
  assumes "fits m 4" and "SearchString m s 2 \<noteq> []" and "length w \<le> 2"
  shows "length (Replace (SearchString m s 2) s w 0) < length s"
proof -
  obtain b e so eo where "re_search m 0 (cstr s) = [(b, e), (so, eo)]" "b + 4 \<le> e" "e \<le> length (cstr s)"
    using re_search_fits [OF assms(1), of 0 "cstr s"] assms(2) by (fastforce simp: SearchString_def)
  then show ?thesis using assms(3) length_cstr [of s] by (simp add: SearchString_def Replace_def)
qed

function xlate_entities :: "string \<Rightarrow> string" where
  "xlate_entities what =
     (let match = SearchString rCX what 2
      in if length match = 2 then
           xlate_entities (ReplaceChar match what (entity_char (SubExpr match what [] 0 1)) 0)
         else what)"
  by pat_completeness auto

termination
proof (relation "measure length", goal_cases)
  case (2 what match)
  have "ReplaceChar match what c 0 = Replace match what [c] 0" for c
    by (simp add: ReplaceChar_def Replace_def)
  with replace_shrinks [OF rCX_fits, of what] 2 show ?case by fastforce
qed simp

function xlate_references :: "string \<Rightarrow> string" where
  "xlate_references what =
     (let match = SearchString rCE what 2
      in if length match = 2 then
           xlate_references (Replace match what (ref_bytes (ref_value (SubExpr match what [] 0 1))) 0)
         else what)"
  by pat_completeness auto

termination
proof (relation "measure length", goal_cases)
  case (2 what match)
  with replace_shrinks [OF rCE_fits, of what] show ?case by (fastforce simp: ref_bytes_def)
qed simp

declare xlate_entities.simps [simp del] xlate_references.simps [simp del]

text \<open>The first line of the output of a command, through a buffer of 1024 characters; its last
  character is dropped, whether or not it is a line feed.\<close>

definition exec_cmd :: "xenv \<Rightarrow> string \<Rightarrow> string \<times> bool" where
  "exec_cmd env cmd =
     (let result =
        (case xe_popen env cmd of
           None \<Rightarrow> []
         | Some out \<Rightarrow>
             let line = takeWhile (\<lambda>c. c \<noteq> CHR 0x0A) out;
                 got = take 1023 (if length line < length out then line @ [CHR 0x0A] else line)
             in butlast (cstr got))
      in (result, result \<noteq> []))"

definition xlate_env :: "xenv \<Rightarrow> string \<Rightarrow> string" where
  "xlate_env env what =
     (let match = SearchString rEn what 2
      in if length match = 2 then
           (case xe_getenv env (SubExpr match what [] 0 1) of
              None \<Rightarrow> what
            | Some result \<Rightarrow> if result \<noteq> [] then Replace match what result 0 else what)
         else what)"

definition xlate_cmd :: "xenv \<Rightarrow> string \<Rightarrow> string" where
  "xlate_cmd env what =
     (let match = SearchString rEv what 2
      in if length match = 2 then
           (let (result, ok) = exec_cmd env (SubExpr match what [] 0 1)
            in if ok then Replace match what result 0 else what)
         else what)"

definition InplaceXlate :: "xenv \<Rightarrow> string \<Rightarrow> string" where
  "InplaceXlate env what =
     (let what1 = xlate_references (xlate_entities what)
      in if eb_has (xe_flags env) noextensions = 0 then xlate_cmd env (xlate_env env what1) else what1)"

text \<open>Text without the first characters of the patterns is left alone.\<close>

definition inert :: "string \<Rightarrow> bool" where
  "inert s \<longleftrightarrow> (\<forall>c \<in> set s. c \<notin> set ''&$!'')"

lemma re_search_none: "(\<And>c t. c \<in> set s \<Longrightarrow> m (c # t) = None) \<Longrightarrow> re_search m i s = []"
  by (induction s arbitrary: i) auto

lemma SearchString_inert:
  assumes "inert s"
  shows "SearchString rCX s n = []" "SearchString rCE s n = []"
    "SearchString rEn s n = []" "SearchString rEv s n = []"
proof -
  have c: "c \<noteq> CHR ''&'' \<and> c \<noteq> CHR ''$'' \<and> c \<noteq> CHR ''!''" if "c \<in> set (cstr s)" for c
    using that assms by (auto simp: inert_def cstr_def dest: set_takeWhileD)
  show "SearchString rCX s n = []" "SearchString rCE s n = []"
    "SearchString rEn s n = []" "SearchString rEv s n = []"
    unfolding SearchString_def
    by (subst re_search_none; use c in \<open>force simp: rCX_def rCE_def rEn_def rEv_def bracketed_def Let_def split: list.split\<close>)+
qed

lemma InplaceXlate_inert: "inert s \<Longrightarrow> InplaceXlate env s = s"
  by (simp add: InplaceXlate_def xlate_cmd_def xlate_env_def SearchString_inert
      xlate_entities.simps [of s] xlate_references.simps [of s])

lemma xlate_twice: "xlate_entities ''&amp;lt;'' = ''<''"
  by (code_simp)

section \<open>\<^verbatim>\<open>ParseAttrs\<close>\<close>

definition show_int :: "int \<Rightarrow> string" where
  "show_int i = (if i < 0 then CHR ''-'' # dec_numeral (nat (- i)) else dec_numeral (nat i))"

definition quote :: char where "quote = CHR 0x27"
definition dquote :: char where "dquote = CHR 0x22"

text \<open>What the root element keeps for the whole tree.\<close>

record xroot =
  xr_line :: int
  xr_incline :: int
  xr_errors :: int
  xr_maxdepth :: int
  xr_seq :: int
  xr_inclusion :: string

definition in_inclusion :: "xroot \<Rightarrow> string" where
  "in_inclusion r =
     (if xr_inclusion r = [] then []
      else '' in inclusion '' @ xr_inclusion r @ '' ('' @ show_int (xr_incline r) @ '')'')"

datatype pa_state = pa_ews | pa_tag | pa_es | pa_oq | pa_value | pa_oc0 | pa_comment | pa_cc0

type_synonym xattrs = "(string \<times> string) list"

record pa_local =
  pa_st :: pa_state
  pa_tmptag :: string
  pa_tmpval :: string
  pa_comchar :: char
  pa_attrs :: "xattrs option"

definition illegal_char :: "xroot \<Rightarrow> string \<Rightarrow> error" where
  "illegal_char r tmptag =
     XMLError (''Error ('' @ show_int (xr_line r) @ '') attribute '' @ quote # tmptag @ quote #
       '' illegal character defined'' @ in_inclusion r)"

definition already_defined :: "xroot \<Rightarrow> string \<Rightarrow> error" where
  "already_defined r tmptag =
     XMLError (''Error ('' @ show_int (xr_line r) @ '') attribute '' @ quote # tmptag @ quote #
       '' already defined'' @ in_inclusion r)"

definition is_quote :: "char \<Rightarrow> bool" where
  "is_quote c \<longleftrightarrow> c = dquote \<or> c = quote"

text \<open>The case \<^verbatim>\<open>tag\<close>, which \<^verbatim>\<open>oc0\<close> falls into after it has handled its character.\<close>

definition pa_in_tag :: "xroot \<Rightarrow> pa_local \<Rightarrow> char \<Rightarrow> error + pa_local" where
  "pa_in_tag r l c =
     (if isspace c then return (l\<lparr>pa_st := pa_es\<rparr>)
      else if c = CHR ''='' then return (l\<lparr>pa_st := pa_oq\<rparr>)
      else if is_quote c then throw (illegal_char r (pa_tmptag l))
      else return (l\<lparr>pa_tmptag := pa_tmptag l @ [c]\<rparr>))"

text \<open>The closing quote of a value.\<close>

definition bad_name :: "string \<Rightarrow> bool" where
  "bad_name n \<longleftrightarrow> (\<exists>c \<in> set n. c = CHR 0x5C \<or> is_quote c \<or> c = CHR ''='')"

definition pa_close :: "xenv \<Rightarrow> xroot \<Rightarrow> pa_local \<Rightarrow> error + pa_local" where
  "pa_close env r l =
     (if bad_name (pa_tmptag l) then
        throw (illegal_char r (pa_tmptag l))
      else
        let attrs = (case pa_attrs l of None \<Rightarrow> [] | Some a \<Rightarrow> a);
            next_l = l\<lparr>pa_tmptag := [], pa_tmpval := [], pa_st := pa_ews, pa_comchar := NUL\<rparr>
        in if pa_tmptag l = ''docpath'' then return next_l
           else if map_of attrs (pa_tmptag l) \<noteq> None then throw (already_defined r (pa_tmptag l))
           else return
             (next_l\<lparr>pa_attrs := Some (om_insert (pa_tmptag l) (InplaceXlate env (pa_tmpval l)) attrs)\<rparr>))"

definition pa_step :: "xenv \<Rightarrow> xroot \<Rightarrow> pa_local \<Rightarrow> char \<Rightarrow> error + pa_local" where
  "pa_step env r l c =
     (case pa_st l of
        pa_comment \<Rightarrow> return (if c = CHR ''*'' then l\<lparr>pa_st := pa_cc0\<rparr> else l)
      | pa_cc0 \<Rightarrow> return (l\<lparr>pa_st := (if c = CHR ''/'' then pa_ews else pa_comment)\<rparr>)
      | pa_ews \<Rightarrow>
          return
            (if c = CHR ''/'' then l\<lparr>pa_st := pa_oc0\<rparr>
             else if \<not> isspace c then l\<lparr>pa_tmptag := pa_tmptag l @ [c], pa_st := pa_tag\<rparr>
             else l)
      | pa_oc0 \<Rightarrow>
          if c = CHR ''*'' \<and> eb_has (xe_flags env) noextensions = 0 then return (l\<lparr>pa_st := pa_comment\<rparr>)
          else pa_in_tag r (l\<lparr>pa_tmptag := pa_tmptag l @ [CHR ''/'', c], pa_st := pa_tag\<rparr>) c
      | pa_tag \<Rightarrow> pa_in_tag r l c
      | pa_es \<Rightarrow>
          if c = CHR ''='' then return (l\<lparr>pa_st := pa_oq\<rparr>)
          else if is_quote c then throw (illegal_char r (pa_tmptag l))
          else return l
      | pa_oq \<Rightarrow>
          if is_quote c then return (l\<lparr>pa_comchar := c, pa_st := pa_value\<rparr>)
          else if \<not> isspace c then throw (illegal_char r (pa_tmptag l))
          else return l
      | pa_value \<Rightarrow>
          if c \<noteq> pa_comchar l then return (l\<lparr>pa_tmpval := pa_tmpval l @ [c]\<rparr>) else pa_close env r l)"

fun pa_run :: "xenv \<Rightarrow> xroot \<Rightarrow> pa_local \<Rightarrow> string \<Rightarrow> error + pa_local" where
  "pa_run env r l [] = return l"
| "pa_run env r l (c # s) = bind (pa_step env r l c) (\<lambda>l'. pa_run env r l' s)"

definition pa_init :: "xattrs option \<Rightarrow> pa_local" where
  "pa_init attrs =
     \<lparr>pa_st = pa_ews, pa_tmptag = [], pa_tmpval = [], pa_comchar = NUL, pa_attrs = attrs\<rparr>"

text \<open>
  The stream is good until a read fails, so the loop runs once more after the last character,
  with the variable the read has not assigned.
\<close>

definition ParseAttrs :: "xenv \<Rightarrow> xroot \<Rightarrow> xattrs option \<Rightarrow> string \<Rightarrow> error + (xattrs option \<times> nat)" where
  "ParseAttrs env r attrs attlst =
     bind (pa_run env r (pa_init attrs) (attlst @ [xe_junk env]))
       (\<lambda>l. return (pa_attrs l, case pa_attrs l of None \<Rightarrow> 0 | Some a \<Rightarrow> length a))"

text \<open>
  Attributes as a document writes them, and what the parser makes of them: a name without white
  space, quotes, \<^verbatim>\<open>=\<close>, \<^verbatim>\<open>/\<close> or backslash, and a value without double quotes that the
  translation leaves alone.
\<close>

definition attr_name_ok :: "string \<Rightarrow> bool" where
  "attr_name_ok n \<longleftrightarrow> n \<noteq> [] \<and> n \<noteq> ''docpath'' \<and>
     (\<forall>c \<in> set n. \<not> isspace c \<and> \<not> is_quote c \<and> c \<noteq> CHR ''='' \<and> c \<noteq> CHR ''/'' \<and> c \<noteq> CHR 0x5C)"

definition attr_value_ok :: "string \<Rightarrow> bool" where
  "attr_value_ok v \<longleftrightarrow> inert v \<and> dquote \<notin> set v"

definition print_attr :: "string \<times> string \<Rightarrow> string" where
  "print_attr p = CHR '' '' # fst p @ CHR ''='' # dquote # snd p @ [dquote]"

lemma pa_run_append: "pa_run env r l (s @ t) = bind (pa_run env r l s) (\<lambda>l'. pa_run env r l' t)"
  by (induction s arbitrary: l) (auto simp: bind_def split: sum.splits)

lemma space_facts: "isspace (CHR '' '')" "\<not> isspace (CHR ''='')" "\<not> isspace dquote" "is_quote dquote"
  "\<not> is_quote (CHR '' '')" "\<not> is_quote (CHR ''='')" "dquote \<noteq> CHR ''=''"
  by (simp_all add: isspace_def uchar_def dquote_def quote_def is_quote_def)

lemma pa_run_tag:
  assumes "\<forall>c \<in> set n. \<not> isspace c \<and> \<not> is_quote c \<and> c \<noteq> CHR ''=''" and "pa_st l = pa_tag"
  shows "pa_run env r l (n @ CHR ''='' # dquote # s) =
    pa_run env r (l\<lparr>pa_tmptag := pa_tmptag l @ n, pa_comchar := dquote, pa_st := pa_value\<rparr>) s"
  using assms
  by (induction n arbitrary: l) (simp_all add: pa_local.defs pa_step_def pa_in_tag_def space_facts)

lemma pa_run_value:
  assumes "dquote \<notin> set v" and "pa_st l = pa_value" and "pa_comchar l = dquote"
  shows "pa_run env r l (v @ dquote # s) =
    bind (pa_close env r (l\<lparr>pa_tmpval := pa_tmpval l @ v\<rparr>)) (\<lambda>l'. pa_run env r l' s)"
  using assms by (induction v arbitrary: l) (auto simp: pa_step_def)

lemma pa_run_attr:
  assumes "attr_name_ok n" and "attr_value_ok v" and "map_of (case a of None \<Rightarrow> [] | Some m \<Rightarrow> m) n = None"
  shows "pa_run env r (pa_init a) (print_attr (n, v) @ s) =
    pa_run env r (pa_init (Some (om_insert n v (case a of None \<Rightarrow> [] | Some m \<Rightarrow> m)))) s"
proof -
  obtain c n' where n: "n = c # n'" using assms(1) by (cases n) (auto simp: attr_name_ok_def)
  then have first: "pa_run env r (pa_init a) (print_attr (n, v) @ s) =
    pa_run env r ((pa_init a)\<lparr>pa_tmptag := [c], pa_st := pa_tag\<rparr>) (n' @ CHR ''='' # dquote # v @ dquote # s)"
    using assms(1) by (simp add: print_attr_def pa_init_def pa_step_def attr_name_ok_def space_facts)
  have name: "\<forall>c \<in> set n'. \<not> isspace c \<and> \<not> is_quote c \<and> c \<noteq> CHR ''=''"
    using assms(1) n by (auto simp: attr_name_ok_def)
  have sep: "c \<noteq> CHR 0x5C" "\<not> is_quote c" "c \<noteq> CHR ''=''" "\<forall>x \<in> set n'. x \<noteq> CHR 0x5C" "n \<noteq> ''docpath''"
    using assms(1) n by (auto simp: attr_name_ok_def)
  show ?thesis
    unfolding first
    using assms(2,3) name sep
    by (subst pa_run_tag) (auto simp: n pa_run_value pa_step_def attr_value_ok_def pa_close_def bad_name_def pa_init_def InplaceXlate_inert Let_def)
qed

lemma pa_run_attrs:
  assumes "\<forall>p \<in> set as. attr_name_ok (fst p) \<and> attr_value_ok (snd p)" and "distinct (map fst as)"
    and "fst ` set as \<inter> fst ` set m = {}" and "om_ok m"
  shows "pa_run env r (pa_init (Some m)) (concat (map print_attr as) @ s) =
    pa_run env r (pa_init (Some (fold (\<lambda>p. om_insert (fst p) (snd p)) as m))) s"
  using assms
proof (induction as arbitrary: m)
  case (Cons p as)
  obtain n v where p: "p = (n, v)" by (cases p)
  have "map_of m n = None" using Cons.prems(3) p by (auto simp: map_of_eq_None_iff)
  moreover have "fst ` set as \<inter> fst ` set (om_insert n v m) = {}"
    using Cons.prems(2,3) p by (auto simp: fst_set_om_insert)
  ultimately show ?case using Cons p by (simp add: pa_run_attr om_ok_insert)
qed simp

end
