(* ===== verification/XmlTree.thy ===== *)
theory XmlTree
  imports XmlText
begin

text \<open>
  \<^verbatim>\<open>XmlElement\<close> (\<^verbatim>\<open>runtime/xml.cpp\<close>, \<^verbatim>\<open>include/fix8/xml.hpp\<close>): the constructor, which
  is a character state machine that calls itself for the child elements, and the searches in the
  tree.

  An element owns its children. \<^verbatim>\<open>children_\<close>, a multimap by tag, and \<^verbatim>\<open>ordchildren_\<close>, a set
  by sequence number, hold the same elements; \<open>x_children\<close> lists them in the order of insertion.
  A multimap keeps equal keys in this order, so a range of it is a filter of the list, and a null
  pointer is the empty list. Line numbers and counters are unbounded.
\<close>

section \<open>The tree\<close>

datatype xel =
  Xel (x_tag: string) (x_value: "string option") (x_decl: "string option") (x_depth: int)
    (x_sequence: int) (x_txtline: int) (x_chldcnt: int) (x_subidx: int)
    (x_attrs: "xattrs option") (x_was_include: bool) (x_children: "xel list")

definition children_range :: "xel \<Rightarrow> string \<Rightarrow> xel list" where
  "children_range x key = filter (\<lambda>c. x_tag c = key) (x_children x)"

text \<open>The multimap in its order, and its first element.\<close>

definition children_sorted :: "xel \<Rightarrow> xel list" where
  "children_sorted x = sort_key x_tag (x_children x)"

definition ordchildren :: "xel \<Rightarrow> xel list" where
  "ordchildren x = map snd (fold (\<lambda>c. om_insert (x_sequence c) c) (x_children x) [])"

definition set_depth :: "int \<Rightarrow> xel \<Rightarrow> xel" where
  "set_depth d x =
     Xel (x_tag x) (x_value x) (x_decl x) d (x_sequence x) (x_txtline x) (x_chldcnt x) (x_subidx x)
       (x_attrs x) (x_was_include x) (x_children x)"

definition MaxDepth :: int where "MaxDepth = 128"

text \<open>\<^verbatim>\<open>Insert\<close> appends an element.\<close>

definition x_insert :: "xel \<Rightarrow> xel \<Rightarrow> xel" where
  "x_insert x what =
     Xel (x_tag x) (x_value x) (x_decl x) (x_depth x) (x_sequence x) (x_txtline x) (x_chldcnt x + 1)
       (x_subidx x) (x_attrs x) (x_was_include x) (x_children x @ [what])"

section \<open>Streams\<close>

record istream =
  is_rest :: string
  is_eof :: bool
  is_fail :: bool

definition stream_of :: "string \<Rightarrow> istream" where
  "stream_of s = \<lparr>is_rest = s, is_eof = False, is_fail = False\<rparr>"

definition is_good :: "istream \<Rightarrow> bool" where
  "is_good i \<longleftrightarrow> \<not> is_eof i \<and> \<not> is_fail i"

text \<open>\<^verbatim>\<open>>> noskipws >> c\<close> on a good stream; at its end \<open>c\<close> stays as it was.\<close>

definition is_read :: "istream \<Rightarrow> char \<Rightarrow> char \<times> istream" where
  "is_read i junk =
     (case is_rest i of
        [] \<Rightarrow> (junk, i\<lparr>is_eof := True, is_fail := True\<rparr>)
      | c # s \<Rightarrow> (c, i\<lparr>is_rest := s\<rparr>))"

definition is_peek :: "istream \<Rightarrow> char option \<times> istream" where
  "is_peek i =
     (if \<not> is_good i then (None, i\<lparr>is_fail := True\<rparr>)
      else case is_rest i of [] \<Rightarrow> (None, i\<lparr>is_eof := True\<rparr>) | c # s \<Rightarrow> (Some c, i))"

text \<open>\<^verbatim>\<open>putback\<close> clears the end-of-file flag first, and fails on a stream that has failed.\<close>

definition is_putback :: "char \<Rightarrow> istream \<Rightarrow> istream" where
  "is_putback c i =
     (if is_fail i then i\<lparr>is_eof := False\<rparr> else i\<lparr>is_eof := False, is_rest := c # is_rest i\<rparr>)"

section \<open>The state machine\<close>

datatype x_state =
  olb | otag | ocom0 | ocom1 | comment | ccom0 | ccom1 | ccomment
| oattr | odec | cdec | vvalue | cls | ctag
| cdata0 | cdata1 | cdata2 | cdata3 | cdata4 | cdata5 | cdata6 | cdata7
| vcdata | ecdata0 | ecdata1 | finished

text \<open>The variables of the constructor: its own, the members of the element, and the two streams:
  the one it reads from and, after an inclusion, the one of its parent.\<close>

record xlocal =
  xl_state :: x_state
  xl_otag :: string
  xl_ctag :: string
  xl_val :: string
  xl_attr :: string
  xl_dec :: string
  xl_start :: int
  xl_tag :: string
  xl_value :: "string option"
  xl_decl :: "string option"
  xl_attrs :: "xattrs option"
  xl_chldcnt :: int
  xl_children :: "xel list"
  xl_was_include :: bool
  xl_in :: istream
  xl_outer :: "istream option"

record xctx =
  xc_depth :: int
  xc_sequence :: int
  xc_txtline :: int
  xc_subidx :: int

definition unmatched :: "xroot \<Rightarrow> xlocal \<Rightarrow> error" where
  "unmatched r l =
     XMLError (''Error ('' @ show_int (xr_line r) @ ''): unmatched tag '' @ quote # xl_otag l @ quote #
       '' ('' @ show_int (xl_start l) @ '') does not close with '' @ quote # xl_ctag l @ quote #
       in_inclusion r)"

definition not_included :: "xroot \<Rightarrow> string \<Rightarrow> error" where
  "not_included r what =
     XMLError (''Error ('' @ show_int (xr_line r) @ ''): could not process include '' @ quote # what @ [quote])"

definition bad_include :: "xroot \<Rightarrow> string \<Rightarrow> error" where
  "bad_include r attr =
     XMLError (''Error ('' @ show_int (xr_line r) @ ''): invalid xml include specification '' @ quote # attr @ [quote])"

definition too_deep :: "xroot \<Rightarrow> error" where
  "too_deep r =
     XMLError (''Error ('' @ show_int (xr_line r) @ ''): maximum depth exceeded ('' @ show_int MaxDepth @ '')'')"

text \<open>\<^verbatim>\<open>/\<close> followed by \<^verbatim>\<open>>\<close>, which is left in the stream.\<close>

definition empty_close :: "char \<Rightarrow> xlocal \<Rightarrow> bool \<times> xlocal" where
  "empty_close c l =
     (if c = CHR ''/'' then
        (let (p, i) = is_peek (xl_in l)
         in (p = Some (CHR ''>''), l\<lparr>xl_in := i\<rparr>))
      else (False, l))"

definition to_value :: "string \<Rightarrow> char \<Rightarrow> xlocal \<Rightarrow> xlocal" where
  "to_value pre c l = l\<lparr>xl_state := vvalue, xl_val := xl_val l @ pre @ [c]\<rparr>"

definition in_otag :: "xroot \<Rightarrow> xlocal \<Rightarrow> char \<Rightarrow> error + xlocal" where
  "in_otag r l c =
     (if c = CHR ''>'' then return (l\<lparr>xl_state := vvalue\<rparr>)
      else
        let (e, l1) = empty_close c l
        in if e then return (l1\<lparr>xl_state := ctag, xl_ctag := xl_otag l1\<rparr>)
           else if isspace c \<and> xl_otag l1 \<noteq> [] then return (l1\<lparr>xl_state := oattr\<rparr>)
           else if c = CHR ''?'' \<and> xl_otag l1 = [] then return (l1\<lparr>xl_state := odec\<rparr>)
           else if c = CHR ''!'' \<and> xl_otag l1 = [] then return (l1\<lparr>xl_state := ocom0\<rparr>)
           else if c = CHR ''='' \<or> c = CHR 0x5C \<or> is_quote c then throw (unmatched r l1)
           else if \<not> isspace c then
             return (l1\<lparr>xl_start := (if xl_start l1 = 0 then xr_line r else xl_start l1),
               xl_otag := xl_otag l1 @ [c]\<rparr>)
           else return l1)"

definition in_oattr :: "xlocal \<Rightarrow> char \<Rightarrow> xlocal" where
  "in_oattr l c =
     (let (e, l1) = empty_close c l
      in if e then l1\<lparr>xl_state := ctag, xl_ctag := xl_otag l1\<rparr>
         else if c = CHR ''>'' then l1\<lparr>xl_state := vvalue\<rparr>
         else l1\<lparr>xl_attr := xl_attr l1 @ [c]\<rparr>)"

text \<open>The end of the element: the tags are compared, an inclusion switches the stream.\<close>

definition include_file :: "xenv \<Rightarrow> xroot \<Rightarrow> xlocal \<Rightarrow> error + (xlocal \<times> xroot)" where
  "include_file env r l =
     (let match = SearchString rIn (xl_attr l) 2
      in if length match = 2 then
           let whatv = InplaceXlate env (SubExpr match (xl_attr l) [] 0 1)
           in (case xe_files env (cstr whatv) of
                 None \<Rightarrow> throw (not_included r whatv)
               | Some text \<Rightarrow>
                   return (l\<lparr>xl_tag := xl_otag l, xl_in := stream_of text,
                       xl_outer := (case xl_outer l of None \<Rightarrow> Some (xl_in l) | Some i \<Rightarrow> Some i),
                       xl_state := olb, xl_ctag := [], xl_val := [], xl_attr := [], xl_dec := [],
                       xl_was_include := True\<rparr>,
                     r\<lparr>xr_inclusion := whatv, xr_incline := 1\<rparr>))
         else throw (bad_include r (xl_attr l)))"

definition is_blank :: "string \<Rightarrow> bool" where
  "is_blank s \<longleftrightarrow> (\<forall>c \<in> set s. c \<in> set [CHR '' '', CHR 0x09, CHR 0x0A, CHR 0x0D])"

definition closed_value :: "xenv \<Rightarrow> xlocal \<Rightarrow> string option" where
  "closed_value env l = (if is_blank (xl_val l) then xl_value l else Some (InplaceXlate env (xl_val l)))"

definition close_tag :: "xenv \<Rightarrow> xroot \<Rightarrow> xlocal \<Rightarrow> error + (xlocal \<times> xroot)" where
  "close_tag env r l =
     (if xl_otag l \<noteq> xl_ctag l then throw (unmatched r l)
      else if xl_otag l = ''xi:include'' then include_file env r l
      else return (l\<lparr>xl_state := finished, xl_tag := xl_otag l, xl_value := closed_value env l\<rparr>, r))"

text \<open>
  One character. The flag of the result tells that a child element starts here: the character
  \<^verbatim>\<open><\<close> has been put back.
\<close>

definition after_markup :: "xctx \<Rightarrow> x_state" where
  "after_markup x = (if xc_depth x \<noteq> 0 then finished else olb)"

definition in_value :: "xctx \<Rightarrow> xroot \<Rightarrow> xlocal \<Rightarrow> char \<Rightarrow> error + (xlocal \<times> bool)" where
  "in_value x r l c =
     (if c = CHR ''<'' then
        let (p, i) = is_peek (xl_in l)
        in if p \<noteq> Some (CHR ''/'') then
             if xc_depth x + 1 > MaxDepth then throw (too_deep r)
             else return (l\<lparr>xl_in := is_putback c i\<rparr>, True)
           else return (l\<lparr>xl_in := i, xl_state := cls\<rparr>, False)
      else return (l\<lparr>xl_val := xl_val l @ [c]\<rparr>, False))"

definition x_step :: "xenv \<Rightarrow> xctx \<Rightarrow> xroot \<Rightarrow> xlocal \<Rightarrow> char \<Rightarrow> error + (xlocal \<times> xroot \<times> bool)" where
  "x_step env x r l c =
     (let go = (\<lambda>l'. return (l', r, False))
      in case xl_state l of
        olb \<Rightarrow> go (if c = CHR ''<'' then l\<lparr>xl_state := otag\<rparr> else l)
      | otag \<Rightarrow> bind (in_otag r l c) go
      | ocom0 \<Rightarrow>
          go (if c = CHR ''-'' then l\<lparr>xl_state := ocom1\<rparr>
              else l\<lparr>xl_otag := xl_otag l @ ''!'', xl_state := otag\<rparr>)
      | ocom1 \<Rightarrow>
          go (if c = CHR ''-'' then l\<lparr>xl_state := comment\<rparr>
              else l\<lparr>xl_otag := xl_otag l @ ''!-'', xl_state := otag\<rparr>)
      | odec \<Rightarrow>
          go (if c = CHR ''?'' then
                l\<lparr>xl_state := cdec, xl_decl := (if xl_dec l \<noteq> [] then Some (xl_dec l) else xl_decl l)\<rparr>
              else l\<lparr>xl_dec := xl_dec l @ [c]\<rparr>)
      | oattr \<Rightarrow> go (in_oattr l c)
      | comment \<Rightarrow> go (if c = CHR ''-'' then l\<lparr>xl_state := ccom0\<rparr> else l)
      | ccom0 \<Rightarrow> go (l\<lparr>xl_state := (if c = CHR ''-'' then ccomment else comment)\<rparr>)
      | ccomment \<Rightarrow> go (l\<lparr>xl_state := (if c = CHR ''>'' then after_markup x else comment)\<rparr>)
      | cdec \<Rightarrow> go (if c = CHR ''>'' then l\<lparr>xl_state := after_markup x\<rparr> else l)
      | cdata0 \<Rightarrow> go (l\<lparr>xl_state := cdata1\<rparr>)
      | cdata1 \<Rightarrow> go (if c = CHR ''['' then l\<lparr>xl_state := cdata2\<rparr> else to_value ''!['' c l)
      | cdata2 \<Rightarrow> go (if c = CHR ''C'' then l\<lparr>xl_state := cdata3\<rparr> else to_value ''!['' c l)
      | cdata3 \<Rightarrow> go (if c = CHR ''D'' then l\<lparr>xl_state := cdata4\<rparr> else to_value ''![C'' c l)
      | cdata4 \<Rightarrow> go (if c = CHR ''A'' then l\<lparr>xl_state := cdata5\<rparr> else to_value ''![CD'' c l)
      | cdata5 \<Rightarrow> go (if c = CHR ''T'' then l\<lparr>xl_state := cdata6\<rparr> else to_value ''![CDA'' c l)
      | cdata6 \<Rightarrow> go (if c = CHR ''A'' then l\<lparr>xl_state := cdata7\<rparr> else to_value ''![CDAT'' c l)
      | cdata7 \<Rightarrow> go (if c = CHR ''['' then l\<lparr>xl_state := vcdata\<rparr> else to_value ''![CDATA'' c l)
      | vcdata \<Rightarrow> go (if c = CHR '']'' then l\<lparr>xl_state := ecdata0\<rparr> else l\<lparr>xl_val := xl_val l @ [c]\<rparr>)
      | ecdata0 \<Rightarrow>
          go (if c = CHR '']'' then l\<lparr>xl_state := ecdata1\<rparr>
              else l\<lparr>xl_val := xl_val l @ [CHR '']'', c], xl_state := vcdata\<rparr>)
      | ecdata1 \<Rightarrow>
          go (if c = CHR ''>'' then l\<lparr>xl_state := vvalue\<rparr>
              else l\<lparr>xl_val := xl_val l @ '']]'', xl_state := vcdata\<rparr>)
      | vvalue \<Rightarrow> bind (in_value x r l c) (\<lambda>(l', child). return (l', r, child))
      | cls \<Rightarrow> go (if c = CHR ''/'' then l\<lparr>xl_state := ctag\<rparr> else l)
      | ctag \<Rightarrow>
          if c = CHR ''>'' then bind (close_tag env r l) (\<lambda>(l', r'). return (l', r', False))
          else go (if \<not> isspace c then l\<lparr>xl_ctag := xl_ctag l @ [c]\<rparr> else l)
      | _ \<Rightarrow> go l)"

section \<open>The constructor\<close>

definition new_local :: "istream \<Rightarrow> string option \<Rightarrow> xlocal" where
  "new_local i rootAttr =
     \<lparr>xl_state = olb, xl_otag = [], xl_ctag = [], xl_val = [], xl_attr = [], xl_dec = [], xl_start = 0,
      xl_tag = [], xl_value = None, xl_decl = None,
      xl_attrs = (case rootAttr of None \<Rightarrow> None | Some a \<Rightarrow> Some [(''docpath'', a)]),
      xl_chldcnt = 0, xl_children = [], xl_was_include = False, xl_in = i, xl_outer = None\<rparr>"

definition enter_elem :: "int \<Rightarrow> xroot \<Rightarrow> xroot" where
  "enter_elem depth r =
     r\<lparr>xr_seq := xr_seq r + 1, xr_maxdepth := (if xr_maxdepth r < depth then depth else xr_maxdepth r)\<rparr>"

text \<open>Line feeds are counted, and dropped together with carriage returns.\<close>

definition count_line :: "char \<Rightarrow> xroot \<Rightarrow> xroot" where
  "count_line c r =
     (if c \<noteq> CHR 0x0A then r
      else if xr_inclusion r \<noteq> [] then r\<lparr>xr_incline := xr_incline r + 1\<rparr>
      else r\<lparr>xr_line := xr_line r + 1\<rparr>)"

definition dropped :: "char \<Rightarrow> bool" where
  "dropped c \<longleftrightarrow> c = CHR 0x0A \<or> c = CHR 0x0D"

text \<open>
  What becomes of a child: one without a tag (a comment) or an empty inclusion is deleted; of an
  inclusion the children of the first element of the file are taken over, one level up.
\<close>

definition empty_child :: "xel \<Rightarrow> bool" where
  "empty_child c \<longleftrightarrow>
     x_tag c = [] \<or>
     x_was_include c \<and> (x_children c = [] \<or> x_children (hd (children_sorted c)) = [])"

definition adopt :: "xel \<Rightarrow> xlocal \<Rightarrow> xroot \<Rightarrow> xlocal \<times> xroot" where
  "adopt c l r =
     (if empty_child c then (l, r\<lparr>xr_seq := xr_seq r - 1\<rparr>)
      else if x_was_include c then
        (l\<lparr>xl_children := xl_children l @
             map (\<lambda>g. set_depth (x_depth g - 1) g) (children_sorted (hd (children_sorted c)))\<rparr>,
         r\<lparr>xr_inclusion := []\<rparr>)
      else (l\<lparr>xl_chldcnt := xl_chldcnt l + 1, xl_children := xl_children l @ [c]\<rparr>, r))"

definition x_result :: "xctx \<Rightarrow> xlocal \<Rightarrow> xattrs option \<Rightarrow> xel" where
  "x_result x l attrs =
     Xel (xl_tag l) (xl_value l) (xl_decl l) (xc_depth x) (xc_sequence x) (xc_txtline x)
       (xl_chldcnt l) (xc_subidx x) attrs (xl_was_include l) (xl_children l)"

definition x_finish :: "xenv \<Rightarrow> xctx \<Rightarrow> xlocal \<Rightarrow> xroot \<Rightarrow> error + (xel \<times> istream \<times> xroot)" where
  "x_finish env x l r =
     bind (if xl_attr l \<noteq> [] then ParseAttrs env r (xl_attrs l) (xl_attr l) else return (xl_attrs l, 0))
       (\<lambda>(attrs, _). return (x_result x l attrs, case xl_outer l of None \<Rightarrow> xl_in l | Some i \<Rightarrow> i, r))"

definition child_ctx :: "xctx \<Rightarrow> xlocal \<Rightarrow> xroot \<Rightarrow> xctx" where
  "child_ctx x l r =
     \<lparr>xc_depth = xc_depth x + 1, xc_sequence = xr_seq r + 1, xc_txtline = xr_line r,
      xc_subidx = xl_chldcnt l + 1\<rparr>"

fun xml_loop :: "nat \<Rightarrow> xenv \<Rightarrow> xctx \<Rightarrow> xlocal \<Rightarrow> xroot \<Rightarrow> error + (xel \<times> istream \<times> xroot)" where
  "xml_loop 0 env x l r = throw OutOfFuel"
| "xml_loop (Suc n) env x l r =
     (if \<not> is_good (xl_in l) \<or> xl_state l = finished then x_finish env x l r
      else
        let (c, i) = is_read (xl_in l) (xe_junk env);
            l1 = l\<lparr>xl_in := i\<rparr>
        in if dropped c then xml_loop n env x l1 (count_line c r)
           else
             bind (x_step env x r l1 c) (\<lambda>(l2, r2, child).
               if \<not> child then xml_loop n env x l2 r2
               else
                 bind (xml_loop n env (child_ctx x l2 r2) (new_local (xl_in l2) None)
                        (enter_elem (xc_depth x + 1) r2))
                   (\<lambda>(el, i', r3). case adopt el (l2\<lparr>xl_in := i'\<rparr>) r3 of (l4, r4) \<Rightarrow> xml_loop n env x l4 r4)))"

definition new_root :: xroot where
  "new_root =
     \<lparr>xr_line = 1, xr_incline = 1, xr_errors = 0, xr_maxdepth = 0, xr_seq = 0, xr_inclusion = []\<rparr>"

definition root_ctx :: xctx where
  "root_ctx = \<lparr>xc_depth = 0, xc_sequence = 1, xc_txtline = 0, xc_subidx = 0\<rparr>"

definition Factory_stream :: "nat \<Rightarrow> xenv \<Rightarrow> string \<Rightarrow> string option \<Rightarrow> error + (xel \<times> istream \<times> xroot)" where
  "Factory_stream n env text docpath =
     xml_loop n env root_ctx (new_local (stream_of text) docpath) (enter_elem 0 new_root)"

definition Factory_file :: "nat \<Rightarrow> xenv \<Rightarrow> string \<Rightarrow> error + xel option" where
  "Factory_file n env fname =
     (case xe_files env (cstr fname) of
        None \<Rightarrow> return None
      | Some text \<Rightarrow>
          bind (Factory_stream n env text (Some (cstr fname))) (\<lambda>(x, _). return (Some x)))"

section \<open>Searching\<close>

definition findAttrByValue :: "xel \<Rightarrow> string \<Rightarrow> string \<Rightarrow> bool" where
  "findAttrByValue x what val =
     (case x_attrs x of None \<Rightarrow> False | Some a \<Rightarrow> map_of a what = Some val)"

definition GetAttr :: "xel \<Rightarrow> string \<Rightarrow> string option" where
  "GetAttr x what = (case x_attrs x of None \<Rightarrow> None | Some a \<Rightarrow> map_of a what)"

definition GetAttrValue :: "xel \<Rightarrow> string option" where
  "GetAttrValue x = GetAttr x ''value''"

definition HasAttr :: "xel \<Rightarrow> string \<Rightarrow> bool" where
  "HasAttr x what \<longleftrightarrow> (case x_attrs x of None \<Rightarrow> False | Some a \<Rightarrow> map_of a what \<noteq> None)"

text \<open>An optional pair of an attribute and its value stands for the two pointers.\<close>

definition attr_matches :: "xel \<Rightarrow> (string \<times> string) option \<Rightarrow> bool" where
  "attr_matches x av = (case av of None \<Rightarrow> True | Some (a, v) \<Rightarrow> findAttrByValue x a v)"

definition tag_matches :: "xenv \<Rightarrow> string \<Rightarrow> string \<Rightarrow> bool" where
  "tag_matches env what t =
     (if eb_has (xe_flags env) nocase \<noteq> 0 then strcaseeq what t else what = t)"

text \<open>The path behind its first component, when that is the tag of the element, and the first
  component of the rest.\<close>

definition behind_tag :: "string \<Rightarrow> char \<Rightarrow> string \<Rightarrow> string option" where
  "behind_tag what delim t =
     (let a = takeWhile (\<lambda>c. c \<noteq> delim) what
      in if length a < length what \<and> a = t then Some (drop (Suc (length a)) what) else None)"

definition first_part :: "string \<Rightarrow> char \<Rightarrow> string" where
  "first_part what delim = takeWhile (\<lambda>c. c \<noteq> delim) what"

lemma behind_tag_shorter: "behind_tag what delim t = Some w \<Longrightarrow> length w < length what"
  by (auto simp: behind_tag_def Let_def split: if_splits)

lemma root_path_shorter: "take 2 what = ''//'' \<Longrightarrow> length what - 2 < length what"
  by (cases what) auto

fun first_some :: "('a \<Rightarrow> 'b option) \<Rightarrow> 'a list \<Rightarrow> 'b option" where
  "first_some f [] = None"
| "first_some f (x # xs) = (case f x of None \<Rightarrow> first_some f xs | Some y \<Rightarrow> Some y)"

lemma first_some_cong [fundef_cong]:
  "xs = ys \<Longrightarrow> (\<And>x. x \<in> set ys \<Longrightarrow> f x = g x) \<Longrightarrow> first_some f xs = first_some g ys"
  by (induction xs arbitrary: ys) (auto split: option.split)

text \<open>\<open>find\<close>: the first match in the order of the tree.\<close>

function x_find :: "xenv \<Rightarrow> xel \<Rightarrow> xel \<Rightarrow> string \<Rightarrow> (string \<times> string) option \<Rightarrow> char \<Rightarrow> xel option" where
  "x_find env rt x what av delim =
     (if take 2 what = ''//'' then x_find env rt rt (drop 2 what) av delim
      else if tag_matches env what (x_tag x) then (if attr_matches x av then Some x else None)
      else
        (case behind_tag what delim (x_tag x) of
           None \<Rightarrow> None
         | Some w \<Rightarrow>
             first_some (\<lambda>c. x_find env rt c w av delim) (children_range x (first_part w delim))))"
  by pat_completeness auto

termination
  by (relation "measure (\<lambda>(env, rt, x, what, av, delim). length what)")
    (auto dest: behind_tag_shorter root_path_shorter)

text \<open>The other \<open>find\<close> puts every match into a set that is ordered by sequence number.\<close>

function x_find_all ::
  "xenv \<Rightarrow> xel \<Rightarrow> xel \<Rightarrow> string \<Rightarrow> (int \<times> xel) list \<Rightarrow> (string \<times> string) option \<Rightarrow> char \<Rightarrow> int \<times> (int \<times> xel) list" where
  "x_find_all env rt x what eset av delim =
     (if take 2 what = ''//'' then x_find_all env rt rt (drop 2 what) eset av delim
      else if tag_matches env what (x_tag x) then
        (if \<not> attr_matches x av then (0, eset)
         else let es = om_insert (x_sequence x) x eset in (int (length es), es))
      else
        (case behind_tag what delim (x_tag x) of
           None \<Rightarrow> (0, eset)
         | Some w \<Rightarrow>
             if x_children x = [] then (0, eset)
             else let es = fold (\<lambda>c es. snd (x_find_all env rt c w es av delim))
                        (children_range x (first_part w delim)) eset
             in (int (length es), es)))"
  by pat_completeness auto

termination
  by (relation "measure (\<lambda>(env, rt, x, what, eset, av, delim). length what)")
    (auto dest: behind_tag_shorter root_path_shorter)

declare x_find.simps [simp del] x_find_all.simps [simp del]

definition x_find_child :: "xenv \<Rightarrow> xel \<Rightarrow> xel \<Rightarrow> string \<Rightarrow> (string \<times> string) option \<Rightarrow> char \<Rightarrow> xel option" where
  "x_find_child env rt x what av delim = x_find env rt x (x_tag x @ ''/'' @ what) av delim"

definition x_find_child_all ::
  "xenv \<Rightarrow> xel \<Rightarrow> xel \<Rightarrow> string \<Rightarrow> (int \<times> xel) list \<Rightarrow> (string \<times> string) option \<Rightarrow> char \<Rightarrow> int \<times> (int \<times> xel) list" where
  "x_find_child_all env rt x what eset av delim =
     x_find_all env rt x (x_tag x @ ''/'' @ what) eset av delim"

definition FindAttrGetValue :: "xenv \<Rightarrow> xel \<Rightarrow> xel \<Rightarrow> string \<Rightarrow> string option" where
  "FindAttrGetValue env rt x what =
     (case x_find env rt x what None (CHR ''/'') of None \<Rightarrow> None | Some y \<Rightarrow> GetAttrValue y)"

end
