(* ===== verification/XmlRules.thy ===== *)
theory XmlRules
  imports XmlTree
begin

text \<open>
  What the XML parser does: it ends on every text when no file is included, the tree it builds is
  well formed, a printed document is read back, and the searches follow the path.
\<close>

section \<open>One character\<close>

lemma empty_close_frame:
  "empty_close c l = (b, l') \<Longrightarrow>
    \<exists>i. l' = l\<lparr>xl_in := i\<rparr> \<and> is_rest i = is_rest (xl_in l) \<and> (is_good i \<longrightarrow> is_good (xl_in l))"
  by (cases "c = CHR ''/''", rule exI [of _ "snd (is_peek (xl_in l))"])
    (auto simp: empty_close_def is_peek_def is_good_def Let_def split: if_splits list.splits intro!: exI [of _ "xl_in l"])

definition no_files :: "xenv \<Rightarrow> bool" where
  "no_files env \<longleftrightarrow> (\<forall>f. xe_files env f = None)"

text \<open>What a step that stays in the element leaves alone.\<close>

definition stays :: "xlocal \<Rightarrow> xlocal \<Rightarrow> bool" where
  "stays l l' \<longleftrightarrow> is_rest (xl_in l') = is_rest (xl_in l) \<and> (is_good (xl_in l') \<longrightarrow> is_good (xl_in l)) \<and>
     xl_outer l' = xl_outer l \<and> xl_children l' = xl_children l \<and> xl_chldcnt l' = xl_chldcnt l \<and>
     xl_was_include l' = xl_was_include l"

lemma stays_upd [simp]:
  "stays l (l\<lparr>xl_state := s\<rparr>)" "stays l (l'\<lparr>xl_state := s\<rparr>) = stays l l'"
  "stays l (l'\<lparr>xl_otag := t\<rparr>) = stays l l'" "stays l (l'\<lparr>xl_ctag := t\<rparr>) = stays l l'"
  "stays l (l'\<lparr>xl_val := t\<rparr>) = stays l l'" "stays l (l'\<lparr>xl_attr := t\<rparr>) = stays l l'"
  "stays l (l'\<lparr>xl_dec := t\<rparr>) = stays l l'" "stays l (l'\<lparr>xl_start := n\<rparr>) = stays l l'"
  "stays l (l'\<lparr>xl_tag := t\<rparr>) = stays l l'" "stays l (l'\<lparr>xl_value := v\<rparr>) = stays l l'"
  "stays l (l'\<lparr>xl_decl := v\<rparr>) = stays l l'" "stays l l"
  by (simp_all add: stays_def)

lemma stays_close: "empty_close c l = (b, l') \<Longrightarrow> stays l l'"
  by (auto dest!: empty_close_frame simp: stays_def)

lemma in_otag_stays: "in_otag r l c = Inr l' \<Longrightarrow> stays l l'"
  by (auto simp: in_otag_def Let_def dest: stays_close split: prod.splits if_splits)

lemma in_oattr_stays: "stays l (in_oattr l c)"
  by (auto simp: in_oattr_def Let_def dest: stays_close split: prod.splits)

lemma include_file_none: "no_files env \<Longrightarrow> \<exists>e. include_file env r l = Inl e \<and> e \<noteq> OutOfFuel"
  by (simp add: include_file_def no_files_def not_included_def bad_include_def Let_def)

lemma close_tag_stays: "no_files env \<Longrightarrow> close_tag env r l = Inr (l', r') \<Longrightarrow> stays l l' \<and> r' = r"
  by (auto simp: close_tag_def split: if_splits dest: include_file_none [of env r l])

lemma in_value_stays: "in_value x r l c = Inr (l', False) \<Longrightarrow> stays l l'"
  by (auto simp: in_value_def is_peek_def stays_def is_good_def Let_def split: if_splits list.splits prod.splits)

lemma in_value_child:
  "in_value x r l c = Inr (l', True) \<Longrightarrow>
    c = CHR ''<'' \<and> xc_depth x + 1 \<le> MaxDepth \<and> l' = l\<lparr>xl_in := is_putback c (snd (is_peek (xl_in l)))\<rparr>"
  by (auto simp: in_value_def Let_def split: if_splits prod.splits)

lemma x_step_stays:
  assumes "no_files env" and "x_step env x r l c = Inr (l', r', False)"
  shows "stays l l' \<and> r' = r"
proof (cases "xl_state l = ctag")
  case True
  then show ?thesis using assms(2)
    by (auto simp: x_step_def bind_Inr Let_def split: if_splits dest: close_tag_stays [OF assms(1)])
next
  case False
  have "stays l (to_value p c l)" for p by (simp add: to_value_def)
  with False show ?thesis using assms(2)
    by (cases "xl_state l")
      (auto simp: x_step_def bind_Inr Let_def in_oattr_stays dest: in_otag_stays in_value_stays)
qed

lemma x_step_child:
  "x_step env x r l c = Inr (l', r', True) \<Longrightarrow>
    xl_state l = vvalue \<and> r' = r \<and> in_value x r l c = Inr (l', True)"
  by (cases "xl_state l") (auto simp: x_step_def bind_Inr Let_def split: if_splits)

section \<open>The errors are XML errors\<close>

lemma no_fuel_bind: "bind m f = Inl OutOfFuel \<longleftrightarrow> m = Inl OutOfFuel \<or> (\<exists>y. m = Inr y \<and> f y = Inl OutOfFuel)"
  by (simp add: bind_Inl)

lemma pa_run_no_fuel: "pa_run env r l s \<noteq> Inl OutOfFuel"
proof (induction s arbitrary: l)
  case (Cons c s)
  have "pa_step env r l c \<noteq> Inl OutOfFuel"
    by (auto simp: pa_step_def pa_in_tag_def pa_close_def illegal_char_def already_defined_def Let_def
        split: pa_state.split)
  with Cons show ?case by (simp add: no_fuel_bind)
qed simp

lemma x_finish_no_fuel: "x_finish env x l r \<noteq> Inl OutOfFuel"
  by (auto simp: x_finish_def ParseAttrs_def no_fuel_bind pa_run_no_fuel split: if_splits)

lemma x_step_no_fuel: "x_step env x r l c \<noteq> Inl OutOfFuel"
  by (cases "xl_state l")
    (auto simp: x_step_def in_otag_def close_tag_def include_file_def in_value_def unmatched_def not_included_def bad_include_def
      too_deep_def no_fuel_bind Let_def split: if_splits prod.splits option.splits)

section \<open>The loop ends\<close>

definition need :: "xlocal \<Rightarrow> nat" where
  "need l =
     (if is_good (xl_in l) then 2 * length (is_rest (xl_in l)) + (if xl_state l = olb then 0 else 1) + 1 else 0)"

text \<open>A read shortens the stream or ends it.\<close>

lemma is_read_cases:
  assumes "is_read i junk = (c, i')" and "is_good i"
  shows "(is_rest i = c # is_rest i' \<and> is_good i' \<and> is_eof i' = is_eof i \<and> is_fail i' = is_fail i) \<or>
    (is_rest i = [] \<and> is_rest i' = [] \<and> \<not> is_good i' \<and> is_fail i')"
  using assms by (auto simp: is_read_def is_good_def split: list.splits)

abbreviation child_loop :: "nat \<Rightarrow> xenv \<Rightarrow> xctx \<Rightarrow> xlocal \<Rightarrow> xroot \<Rightarrow> error + (xel \<times> istream \<times> xroot)" where
  "child_loop n env x l r \<equiv>
     xml_loop n env (child_ctx x l r) (new_local (xl_in l) None) (enter_elem (xc_depth x + 1) r)"

lemma loop_cases:
  assumes "xml_loop (Suc n) env x l r = res"
  obtains (stop) "\<not> is_good (xl_in l) \<or> xl_state l = finished" "res = x_finish env x l r"
  | (drop) c i where "is_good (xl_in l)" "xl_state l \<noteq> finished" "is_read (xl_in l) (xe_junk env) = (c, i)"
      "dropped c" "res = xml_loop n env x (l\<lparr>xl_in := i\<rparr>) (count_line c r)"
  | (error) c i e where "is_good (xl_in l)" "xl_state l \<noteq> finished" "is_read (xl_in l) (xe_junk env) = (c, i)"
      "\<not> dropped c" "x_step env x r (l\<lparr>xl_in := i\<rparr>) c = Inl e" "res = Inl e"
  | (step) c i l2 r2 where "is_good (xl_in l)" "xl_state l \<noteq> finished" "is_read (xl_in l) (xe_junk env) = (c, i)"
      "\<not> dropped c" "x_step env x r (l\<lparr>xl_in := i\<rparr>) c = Inr (l2, r2, False)" "res = xml_loop n env x l2 r2"
  | (child_error) c i l2 r2 e where "is_good (xl_in l)" "xl_state l \<noteq> finished"
      "is_read (xl_in l) (xe_junk env) = (c, i)" "\<not> dropped c"
      "x_step env x r (l\<lparr>xl_in := i\<rparr>) c = Inr (l2, r2, True)" "child_loop n env x l2 r2 = Inl e" "res = Inl e"
  | (child) c i l2 r2 el i' r3 l4 r4 where "is_good (xl_in l)" "xl_state l \<noteq> finished"
      "is_read (xl_in l) (xe_junk env) = (c, i)" "\<not> dropped c"
      "x_step env x r (l\<lparr>xl_in := i\<rparr>) c = Inr (l2, r2, True)"
      "child_loop n env x l2 r2 = Inr (el, i', r3)" "adopt el (l2\<lparr>xl_in := i'\<rparr>) r3 = (l4, r4)"
      "res = xml_loop n env x l4 r4"
proof (cases "\<not> is_good (xl_in l) \<or> xl_state l = finished")
  case True
  then show thesis using assms by (intro stop) auto
next
  case False
  obtain c i where read: "is_read (xl_in l) (xe_junk env) = (c, i)" by (rule prod.exhaust)
  show thesis
  proof (cases "dropped c")
    case True
    then show thesis using drop assms False read by (auto simp: Let_def)
  next
    case kept: False
    note start = False kept read
    show thesis
    proof (cases "x_step env x r (l\<lparr>xl_in := i\<rparr>) c")
      case (Inl e)
      then show thesis using error [of c i e] assms start by (auto simp: Let_def)
    next
      case (Inr p)
      then obtain l2 r2 b where done_step: "x_step env x r (l\<lparr>xl_in := i\<rparr>) c = Inr (l2, r2, b)" by (cases p) auto
      show thesis
      proof (cases b)
        case False
        then show thesis using step [of c i l2 r2] assms start done_step by (auto simp: Let_def)
      next
        case True
        show thesis
        proof (cases "child_loop n env x l2 r2")
          case (Inl e)
          then show thesis using child_error [of c i l2 r2 e] assms start done_step True by (auto simp: Let_def)
        next
          case (Inr q)
          then obtain el i' r3 where parsed: "child_loop n env x l2 r2 = Inr (el, i', r3)" by (cases q) auto
          obtain l4 r4 where "adopt el (l2\<lparr>xl_in := i'\<rparr>) r3 = (l4, r4)" by (rule prod.exhaust)
          then show thesis using child [of c i l2 r2 el i' r3 l4 r4] assms start done_step True parsed by (auto simp: Let_def)
        qed
      qed
    qed
  qed
qed

declare xml_loop.simps(2) [simp del]

lemma adopt_frame:
  "adopt el l r = (l', r') \<Longrightarrow> xl_in l' = xl_in l \<and> xl_outer l' = xl_outer l \<and> xl_state l' = xl_state l"
  by (auto simp: adopt_def split: if_splits)

text \<open>Where a child starts: at the character that was put back, or on a stream that has failed.\<close>

lemma child_stream:
  assumes "is_read (xl_in l) junk = (c, i)" and "is_good (xl_in l)"
    and "x_step env x r (l\<lparr>xl_in := i\<rparr>) c = Inr (l2, r2, True)"
  obtains j where "l2 = l\<lparr>xl_in := j\<rparr>" "r2 = r" "xl_state l = vvalue" "xc_depth x + 1 \<le> MaxDepth"
    "c = CHR ''<'' \<and> is_rest (xl_in l) = c # is_rest i \<and> j = stream_of (c # is_rest i) \<or>
     is_rest (xl_in l) = [] \<and> \<not> is_good j \<and> is_rest j = []"
proof -
  let ?j = "is_putback c (snd (is_peek i))"
  note step = x_step_child [OF assms(3)]
  then have "c = CHR ''<''" "l2 = l\<lparr>xl_in := ?j\<rparr>" "xc_depth x + 1 \<le> MaxDepth"
    using in_value_child by fastforce+
  moreover have "is_rest (xl_in l) = c # is_rest i \<and> ?j = stream_of (c # is_rest i) \<or>
      is_rest (xl_in l) = [] \<and> \<not> is_good ?j \<and> is_rest ?j = []"
    using is_read_cases [OF assms(1,2)] assms(2)
    by (auto simp: is_putback_def is_peek_def is_good_def stream_of_def split: list.splits)
  ultimately show thesis using step that [of ?j] by auto
qed

lemma new_local_in [simp]: "xl_in (new_local i a) = i" "xl_outer (new_local i a) = None" "xl_state (new_local i a) = olb"
  "xl_children (new_local i a) = []" "xl_chldcnt (new_local i a) = 0" "xl_was_include (new_local i a) = False"
  by (simp_all add: new_local_def)

lemma stream_of_simps [simp]: "is_rest (stream_of s) = s" "is_good (stream_of s)"
  by (simp_all add: stream_of_def is_good_def)

lemma x_finish_Inr:
  "x_finish env x l r = Inr (el, i, r') \<Longrightarrow>
    (\<exists>attrs. el = x_result x l attrs) \<and> i = (case xl_outer l of None \<Rightarrow> xl_in l | Some j \<Rightarrow> j) \<and> r' = r"
  by (auto simp: x_finish_def bind_Inr)

lemma loop_stream:
  assumes "no_files env"
  shows "xml_loop n env x l r = Inr (el, i', r') \<Longrightarrow> xl_outer l = None \<Longrightarrow>
    length (is_rest i') \<le> length (is_rest (xl_in l)) \<and>
    (is_good (xl_in l) \<and> xl_state l \<noteq> finished \<and> is_rest (xl_in l) \<noteq> [] \<longrightarrow>
      length (is_rest i') < length (is_rest (xl_in l))) \<and>
    (\<not> is_good (xl_in l) \<longrightarrow> i' = xl_in l)"
proof (induction n arbitrary: x l r el i' r')
  case (Suc n)
  from Suc.prems(1) show ?case
  proof (cases rule: loop_cases)
    case stop
    then have "i' = xl_in l" using x_finish_Inr [OF stop(2) [symmetric]] Suc.prems(2) by simp
    then show ?thesis using stop by auto
  next
    case (drop c i)
    have "length (is_rest i') \<le> length (is_rest i)" using Suc.IH [OF drop(5) [symmetric]] Suc.prems(2) by simp
    then show ?thesis using is_read_cases [OF drop(3,1)] drop(1) by auto
  next
    case (step c i l2 r2)
    have "stays (l\<lparr>xl_in := i\<rparr>) l2" using x_step_stays [OF assms step(5)] by simp
    then have "length (is_rest i') \<le> length (is_rest i)"
      using Suc.IH [OF step(6) [symmetric]] Suc.prems(2) by (simp add: stays_def)
    then show ?thesis using is_read_cases [OF step(3,1)] step(1) by auto
  next
    case (child c i l2 r2 el1 i1 r3 l4 r4)
    obtain j where j: "l2 = l\<lparr>xl_in := j\<rparr>" and starts:
      "c = CHR ''<'' \<and> is_rest (xl_in l) = c # is_rest i \<and> j = stream_of (c # is_rest i) \<or>
       is_rest (xl_in l) = [] \<and> \<not> is_good j \<and> is_rest j = []"
      by (rule child_stream [OF child(3,1,5)])
    note inner = Suc.IH [OF child(6)]
    have "xl_in l4 = i1" "xl_outer l4 = None" using adopt_frame [OF child(7)] j Suc.prems(2) by auto
    then have "length (is_rest i') \<le> length (is_rest i1)" using Suc.IH [OF child(8) [symmetric]] by simp
    then show ?thesis using starts inner child(1) j by auto
  qed auto
qed simp

lemma need_read:
  assumes "is_read (xl_in l) junk = (c, i)" and "is_good (xl_in l)" and "stays (l\<lparr>xl_in := i\<rparr>) l2"
  shows "need l2 < need l"
  using is_read_cases [OF assms(1,2)] assms(2,3) by (auto simp: need_def stays_def)

lemma loop_enough:
  assumes "no_files env"
  shows "need l < n \<Longrightarrow> xl_outer l = None \<Longrightarrow> xml_loop n env x l r \<noteq> Inl OutOfFuel"
proof (induction n arbitrary: x l r)
  case (Suc n)
  have "xml_loop (Suc n) env x l r = xml_loop (Suc n) env x l r" by (rule refl)
  then show ?case
  proof (cases rule: loop_cases)
    case stop
    then show ?thesis using x_finish_no_fuel by simp
  next
    case (drop c i)
    have "need (l\<lparr>xl_in := i\<rparr>) < need l" using is_read_cases [OF drop(3,1)] drop(1) by (auto simp: need_def)
    then show ?thesis unfolding drop(5) using Suc.prems by (intro Suc.IH) auto
  next
    case (error c i e)
    then show ?thesis using x_step_no_fuel [of env x r "l\<lparr>xl_in := i\<rparr>" c] by auto
  next
    case (step c i l2 r2)
    have "stays (l\<lparr>xl_in := i\<rparr>) l2" using x_step_stays [OF assms step(5)] by simp
    moreover from this have "need l2 < need l" by (rule need_read [OF step(3,1)])
    ultimately show ?thesis unfolding step(6) using Suc.prems by (intro Suc.IH) (auto simp: stays_def)
  next
    case (child_error c i l2 r2 e)
    obtain j where j: "l2 = l\<lparr>xl_in := j\<rparr>" "xl_state l = vvalue" and
      "c = CHR ''<'' \<and> is_rest (xl_in l) = c # is_rest i \<and> j = stream_of (c # is_rest i) \<or>
       is_rest (xl_in l) = [] \<and> \<not> is_good j \<and> is_rest j = []"
      by (rule child_stream [OF child_error(3,1,5)])
    then have "need (new_local (xl_in l2) None) < n" using Suc.prems(1) child_error(1) by (auto simp: need_def)
    from Suc.IH [OF this] have "child_loop n env x l2 r2 \<noteq> Inl OutOfFuel" by simp
    then show ?thesis using child_error by simp
  next
    case (child c i l2 r2 el1 i1 r3 l4 r4)
    obtain j where j: "l2 = l\<lparr>xl_in := j\<rparr>" "xl_state l = vvalue" and starts:
      "c = CHR ''<'' \<and> is_rest (xl_in l) = c # is_rest i \<and> j = stream_of (c # is_rest i) \<or>
       is_rest (xl_in l) = [] \<and> \<not> is_good j \<and> is_rest j = []"
      by (rule child_stream [OF child(3,1,5)])
    have l4: "xl_in l4 = i1" "xl_outer l4 = None" "xl_state l4 = vvalue"
      using adopt_frame [OF child(7)] j Suc.prems(2) by auto
    have "need l4 < n"
      using loop_stream [OF assms child(6)] starts l4 j Suc.prems(1) child(1) by (auto simp: need_def)
    then show ?thesis unfolding child(8) using l4 by (intro Suc.IH)
  qed
qed simp

section \<open>The tree is well formed\<close>

primrec xel_ok :: "xel \<Rightarrow> bool" where
  "xel_ok (Xel t v dc d sq tx n si avs wi cs) \<longleftrightarrow>
     n = int (length cs) \<and> \<not> wi \<and>
     (\<forall>c \<in> set cs. x_tag c \<noteq> [] \<and> x_depth c = d + 1 \<and> x_depth c \<le> MaxDepth) \<and>
     list_all (\<lambda>b. b) (map xel_ok cs)"

text \<open>The sequence numbers in document order.\<close>

primrec numbers :: "xel \<Rightarrow> int list" where
  "numbers (Xel t v dc d sq tx n si avs wi cs) = sq # concat (map numbers cs)"

definition kids_ok :: "xctx \<Rightarrow> xlocal \<Rightarrow> xroot \<Rightarrow> bool" where
  "kids_ok x l r \<longleftrightarrow>
     (\<forall>c \<in> set (xl_children l). x_tag c \<noteq> [] \<and> x_depth c = xc_depth x + 1 \<and> x_depth c \<le> MaxDepth \<and> xel_ok c) \<and>
     sorted_wrt (<) (xc_sequence x # concat (map numbers (xl_children l))) \<and>
     (\<forall>q \<in> set (xc_sequence x # concat (map numbers (xl_children l))). q \<le> xr_seq r) \<and>
     xl_chldcnt l = int (length (xl_children l)) \<and> \<not> xl_was_include l \<and> xl_outer l = None"

definition made_ok :: "xctx \<Rightarrow> xel \<Rightarrow> xroot \<Rightarrow> bool" where
  "made_ok x el r \<longleftrightarrow> xel_ok el \<and> x_depth el = xc_depth x \<and> \<not> x_was_include el \<and>
     sorted_wrt (<) (numbers el) \<and> (\<forall>q \<in> set (numbers el). xc_sequence x \<le> q \<and> q \<le> xr_seq r)"

lemma count_line_seq [simp]: "xr_seq (count_line c r) = xr_seq r"
  by (simp add: count_line_def)

lemma kids_ok_stays: "stays l l2 \<Longrightarrow> kids_ok x l r \<Longrightarrow> kids_ok x l2 r"
  by (auto simp: kids_ok_def stays_def)

lemma kids_ok_in [simp]: "kids_ok x (l\<lparr>xl_in := i\<rparr>) r = kids_ok x l r"
  by (simp add: kids_ok_def)

lemma kids_ok_line [simp]: "kids_ok x l (count_line c r) = kids_ok x l r"
  by (simp add: kids_ok_def)

lemma kids_ok_new: "kids_ok (child_ctx x l r) (new_local i None) (enter_elem d r)"
  by (simp add: kids_ok_def child_ctx_def enter_elem_def)

lemma made_ok_result:
  assumes "kids_ok x l r"
  shows "made_ok x (x_result x l attrs) r"
  using assms by (auto simp: made_ok_def kids_ok_def x_result_def list_all_iff intro: less_imp_le)

lemma kids_ok_adopt:
  assumes "kids_ok x l r" and "made_ok (child_ctx x l r) el r3" and "xc_depth x + 1 \<le> MaxDepth"
    and "xr_seq r + 1 \<le> xr_seq r3" and "adopt el l r3 = (l4, r4)"
  shows "kids_ok x l4 r4 \<and> xr_seq r \<le> xr_seq r4"
proof (cases "empty_child el")
  case True
  then show ?thesis using assms by (fastforce simp: adopt_def kids_ok_def)
next
  case False
  then have l4: "l4 = l\<lparr>xl_chldcnt := xl_chldcnt l + 1, xl_children := xl_children l @ [el]\<rparr>" "r4 = r3"
    using assms(2,5) by (auto simp: adopt_def made_ok_def)
  have el: "x_tag el \<noteq> []" "x_depth el = xc_depth x + 1" "xel_ok el" "sorted_wrt (<) (numbers el)"
    "\<forall>q \<in> set (numbers el). xr_seq r < q \<and> q \<le> xr_seq r3"
    using assms(2) False by (auto simp: made_ok_def child_ctx_def empty_child_def)
  have "\<forall>q \<in> set (xc_sequence x # concat (map numbers (xl_children l))). \<forall>p \<in> set (numbers el). q < p"
    using assms(1) el(5) by (fastforce simp: kids_ok_def)
  then show ?thesis
    using assms(1,3,4) el unfolding l4 by (fastforce simp: kids_ok_def sorted_wrt_append)
qed

lemma loop_wf:
  assumes "no_files env"
  shows "xml_loop n env x l r = Inr (el, i', r') \<Longrightarrow> kids_ok x l r \<Longrightarrow> made_ok x el r' \<and> xr_seq r \<le> xr_seq r'"
proof (induction n arbitrary: x l r el i' r')
  case (Suc n)
  from Suc.prems(1) show ?case
  proof (cases rule: loop_cases)
    case stop
    then show ?thesis using x_finish_Inr [OF stop(2) [symmetric]] made_ok_result [OF Suc.prems(2)] by auto
  next
    case (drop c i)
    then show ?thesis using Suc.IH [OF drop(5) [symmetric]] Suc.prems(2) by simp
  next
    case (step c i l2 r2)
    then show ?thesis
      using Suc.IH [OF step(6) [symmetric]] x_step_stays [OF assms step(5)] Suc.prems(2) kids_ok_stays kids_ok_in by metis
  next
    case (child c i l2 r2 el1 i1 r3 l4 r4)
    obtain j where j: "l2 = l\<lparr>xl_in := j\<rparr>" "r2 = r" "xc_depth x + 1 \<le> MaxDepth"
      by (rule child_stream [OF child(3,1,5)])
    have kids: "kids_ok x (l2\<lparr>xl_in := i1\<rparr>) r" using Suc.prems(2) j by simp
    have inner: "made_ok (child_ctx x l2 r2) el1 r3 \<and> xr_seq (enter_elem (xc_depth x + 1) r2) \<le> xr_seq r3"
      by (rule Suc.IH [OF child(6) kids_ok_new])
    have "kids_ok x l4 r4 \<and> xr_seq r \<le> xr_seq r4"
      using kids_ok_adopt [OF kids _ _ _ child(7)] inner j by (simp add: child_ctx_def enter_elem_def)
    then show ?thesis using Suc.IH [OF child(8) [symmetric]] by auto
  qed auto
qed simp

end
