(* ===== verification/XmlDoc.thy ===== *)
theory XmlDoc
  imports XmlRules
begin

text \<open>
  Documents as they are written, and the properties of the XML parser: it ends, its tree is well
  formed, and it reads a printed document back.
\<close>

section \<open>Printed documents\<close>

datatype xdoc = Node string "(string \<times> string) list" string "xdoc list"

primrec print_doc :: "xdoc \<Rightarrow> string" where
  "print_doc (Node t as v ks) =
     CHR ''<'' # t @ concat (map print_attr as) @ CHR ''>'' # v @ concat (map print_doc ks) @
     CHR ''<'' # CHR ''/'' # t @ [CHR ''>'']"

text \<open>The characters of a tag, of an attribute, of a text.\<close>

definition tag_char :: "char \<Rightarrow> bool" where
  "tag_char c \<longleftrightarrow> \<not> isspace c \<and> \<not> is_quote c \<and> c \<notin> set ''=<>/!?'' \<and> c \<noteq> CHR 0x5C"

definition tag_ok :: "string \<Rightarrow> bool" where
  "tag_ok t \<longleftrightarrow> t \<noteq> [] \<and> t \<noteq> ''xi:include'' \<and> (\<forall>c \<in> set t. tag_char c)"

definition plain :: "string \<Rightarrow> bool" where
  "plain s \<longleftrightarrow> (\<forall>c \<in> set s. c \<noteq> CHR ''<'' \<and> c \<noteq> CHR ''>'' \<and> \<not> dropped c)"

definition attr_ok :: "string \<times> string \<Rightarrow> bool" where
  "attr_ok p \<longleftrightarrow> attr_name_ok (fst p) \<and> attr_value_ok (snd p) \<and> plain (fst p) \<and> plain (snd p)"

primrec doc_ok :: "xdoc \<Rightarrow> bool" where
  "doc_ok (Node t as v ks) \<longleftrightarrow>
     tag_ok t \<and> (\<forall>p \<in> set as. attr_ok p) \<and> distinct (map fst as) \<and> plain v \<and> inert v \<and>
     list_all (\<lambda>b. b) (map doc_ok ks)"

primrec doc_height :: "xdoc \<Rightarrow> nat" where
  "doc_height (Node t as v ks) = foldr max (map (\<lambda>k. Suc (doc_height k)) ks) 0"

definition attrs_of :: "xattrs option \<Rightarrow> (string \<times> string) list \<Rightarrow> xattrs option" where
  "attrs_of a as =
     (if as = [] then a
      else Some (fold (\<lambda>p. om_insert (fst p) (snd p)) as (case a of None \<Rightarrow> [] | Some m \<Rightarrow> m)))"

text \<open>The element that stands for a document: tag, value, attributes and children agree.\<close>

primrec mirrors :: "xdoc \<Rightarrow> xattrs option \<Rightarrow> xel \<Rightarrow> bool" where
  "mirrors (Node t as v ks) a x \<longleftrightarrow>
     x_tag x = t \<and> x_value x = (if is_blank v then None else Some v) \<and> x_attrs x = attrs_of a as \<and>
     list_all2 (\<lambda>m c. m None c) (map mirrors ks) (x_children x)"

section \<open>Reading one character\<close>

lemma read_char: "is_read (stream_of (c # s)) junk = (c, stream_of s)"
  by (simp add: is_read_def stream_of_def)

lemma peek_char: "is_peek (stream_of (c # s)) = (Some c, stream_of (c # s))"
  by (simp add: is_peek_def stream_of_def is_good_def)

lemma putback_char: "is_putback c (stream_of s) = stream_of (c # s)"
  by (simp add: is_putback_def stream_of_def)

lemma loop_char:
  assumes "xl_in l = stream_of (c # s)" and "xl_state l \<noteq> finished" and "\<not> dropped c"
    and "x_step env x r (l\<lparr>xl_in := stream_of s\<rparr>) c = Inr (l', r', False)"
  shows "xml_loop (Suc n) env x l r = xml_loop n env x l' r'"
  using assms by (simp add: xml_loop.simps(2) read_char)

lemma dropped_space: "dropped c \<Longrightarrow> isspace c"
  by (auto simp: dropped_def isspace_def uchar_def)

lemma tag_charD:
  assumes "tag_char c"
  shows "c \<noteq> CHR ''>''" "c \<noteq> CHR ''/''" "c \<noteq> CHR ''?''" "c \<noteq> CHR ''!''" "c \<noteq> CHR ''=''" "c \<noteq> CHR 0x5C"
    "\<not> is_quote c" "\<not> isspace c" "\<not> dropped c"
  using assms dropped_space by (auto simp: tag_char_def)

lemma same_in: "xl_in l = i \<Longrightarrow> l\<lparr>xl_in := i\<rparr> = l"
  by (cases l) simp

lemma loop_otag:
  assumes "\<forall>c \<in> set w. tag_char c" and "xl_state l = otag" and "xl_in l = stream_of (w @ s)"
  shows "\<exists>st. xml_loop (length w + n) env x l r =
    xml_loop n env x (l\<lparr>xl_otag := xl_otag l @ w, xl_start := st, xl_in := stream_of s\<rparr>) r"
  using assms
proof (induction w arbitrary: l)
  case Nil
  then show ?case by (intro exI [of _ "xl_start l"]) (simp add: same_in)
next
  case (Cons c w)
  have "tag_char c" using Cons.prems(1) by simp
  note c = tag_charD [OF this]
  let ?l = "l\<lparr>xl_in := stream_of (w @ s), xl_start := (if xl_start l = 0 then xr_line r else xl_start l),
    xl_otag := xl_otag l @ [c]\<rparr>"
  have "xml_loop (Suc (length w + n)) env x l r = xml_loop (length w + n) env x ?l r"
    by (rule loop_char [where c = c and s = "w @ s"])
      (use c Cons.prems(2,3) in \<open>simp_all add: x_step_def in_otag_def empty_close_def\<close>)
  moreover obtain st where "xml_loop (length w + n) env x ?l r =
    xml_loop n env x (?l\<lparr>xl_otag := xl_otag ?l @ w, xl_start := st, xl_in := stream_of s\<rparr>) r"
    using Cons.IH [of ?l] Cons.prems by auto
  ultimately show ?case by (intro exI [of _ st]) simp
qed

lemma no_empty_close:
  assumes "xl_in l = stream_of (w @ s)" and "c = CHR ''/'' \<longrightarrow> w \<noteq> [] \<and> hd w \<noteq> CHR ''>''"
  shows "empty_close c l = (False, l)"
  using assms by (cases w) (auto simp: empty_close_def peek_char)

lemma loop_oattr:
  assumes "\<forall>c \<in> set w. c \<noteq> CHR ''>'' \<and> \<not> dropped c" and "w \<noteq> [] \<longrightarrow> last w \<noteq> CHR ''/''"
    and "xl_state l = oattr" and "xl_in l = stream_of (w @ s)"
  shows "xml_loop (length w + n) env x l r =
    xml_loop n env x (l\<lparr>xl_attr := xl_attr l @ w, xl_in := stream_of s\<rparr>) r"
  using assms
proof (induction w arbitrary: l)
  case (Cons c w)
  have c: "\<not> dropped c" "c \<noteq> CHR ''>''" using Cons.prems(1) by auto
  let ?l = "l\<lparr>xl_in := stream_of (w @ s), xl_attr := xl_attr l @ [c]\<rparr>"
  have "c = CHR ''/'' \<longrightarrow> w \<noteq> [] \<and> hd w \<noteq> CHR ''>''" using Cons.prems(1,2) by (cases w) auto
  then have "empty_close c (l\<lparr>xl_in := stream_of (w @ s)\<rparr>) = (False, l\<lparr>xl_in := stream_of (w @ s)\<rparr>)"
    by (intro no_empty_close) simp_all
  then have "in_oattr (l\<lparr>xl_in := stream_of (w @ s)\<rparr>) c = ?l" using c by (simp add: in_oattr_def)
  then have "xml_loop (Suc (length w + n)) env x l r = xml_loop (length w + n) env x ?l r"
    by (intro loop_char [where c = c and s = "w @ s"]) (use c Cons.prems(3,4) in \<open>simp_all add: x_step_def\<close>)
  also have "\<dots> = xml_loop n env x (?l\<lparr>xl_attr := xl_attr ?l @ w, xl_in := stream_of s\<rparr>) r"
    by (rule Cons.IH) (use Cons.prems in \<open>auto split: if_splits\<close>)
  finally show ?case by simp
qed (simp add: same_in)

lemma loop_value:
  assumes "plain w" and "xl_state l = vvalue" and "xl_in l = stream_of (w @ s)"
  shows "xml_loop (length w + n) env x l r =
    xml_loop n env x (l\<lparr>xl_val := xl_val l @ w, xl_in := stream_of s\<rparr>) r"
  using assms
proof (induction w arbitrary: l)
  case (Cons c w)
  have c: "\<not> dropped c" "c \<noteq> CHR ''<''" "plain w" using Cons.prems(1) by (auto simp: plain_def)
  let ?l = "l\<lparr>xl_in := stream_of (w @ s), xl_val := xl_val l @ [c]\<rparr>"
  have "xml_loop (Suc (length w + n)) env x l r = xml_loop (length w + n) env x ?l r"
    by (rule loop_char [where c = c and s = "w @ s"])
      (use c Cons.prems(2,3) in \<open>simp_all add: x_step_def in_value_def\<close>)
  also have "\<dots> = xml_loop n env x (?l\<lparr>xl_val := xl_val ?l @ w, xl_in := stream_of s\<rparr>) r"
    by (rule Cons.IH) (use Cons.prems(2) c(3) in simp_all)
  finally show ?case by simp
qed (simp add: same_in)

lemma loop_ctag:
  assumes "\<forall>c \<in> set w. tag_char c" and "xl_state l = ctag" and "xl_in l = stream_of (w @ s)"
  shows "xml_loop (length w + n) env x l r =
    xml_loop n env x (l\<lparr>xl_ctag := xl_ctag l @ w, xl_in := stream_of s\<rparr>) r"
  using assms
proof (induction w arbitrary: l)
  case (Cons c w)
  have "tag_char c" using Cons.prems(1) by simp
  note c = tag_charD [OF this]
  let ?l = "l\<lparr>xl_in := stream_of (w @ s), xl_ctag := xl_ctag l @ [c]\<rparr>"
  have "xml_loop (Suc (length w + n)) env x l r = xml_loop (length w + n) env x ?l r"
    by (rule loop_char [where c = c and s = "w @ s"]) (use c Cons.prems(2,3) in \<open>simp_all add: x_step_def\<close>)
  also have "\<dots> = xml_loop n env x (?l\<lparr>xl_ctag := xl_ctag ?l @ w, xl_in := stream_of s\<rparr>) r"
    by (rule Cons.IH) (use Cons.prems in simp_all)
  finally show ?case by simp
qed (simp add: same_in)

section \<open>The parts of an element\<close>

lemma print_attrs_text:
  assumes "\<forall>p \<in> set as. attr_ok p" and "as \<noteq> []"
  obtains w where "concat (map print_attr as) = CHR '' '' # w" "\<forall>c \<in> set w. c \<noteq> CHR ''>'' \<and> \<not> dropped c"
    "w \<noteq> []" "last w = dquote"
proof -
  obtain p ps where as: "as = p # ps" using assms(2) by (cases as) auto
  let ?w = "fst p @ CHR ''='' # dquote # snd p @ dquote # concat (map print_attr ps)"
  have d: "dquote \<noteq> CHR ''>''" "\<not> dropped dquote" "\<not> dropped (CHR '' '')" "\<not> dropped (CHR ''='')"
    by (simp_all add: dquote_def dropped_def)
  have one: "\<forall>c \<in> set (print_attr q). c \<noteq> CHR ''>'' \<and> \<not> dropped c" if "q \<in> set as" for q
  proof -
    have "plain (fst q)" "plain (snd q)" using assms(1) that by (auto simp: attr_ok_def)
    then show ?thesis using d by (auto simp: print_attr_def plain_def)
  qed
  have "concat (map print_attr as) = CHR '' '' # ?w" using as by (simp add: print_attr_def)
  moreover have "\<forall>c \<in> set (concat (map print_attr as)). c \<noteq> CHR ''>'' \<and> \<not> dropped c" using one by auto
  moreover have "last (concat (map print_attr as)) = dquote"
    using assms(2)
  proof (induction as rule: rev_induct)
    case (snoc q qs)
    show ?case by (simp add: print_attr_def)
  qed simp
  moreover have "?w \<noteq> []" by simp
  ultimately show thesis by (intro that [of ?w]) (auto split: if_splits)
qed

lemma loop_open:
  assumes "tag_ok t" and "\<forall>p \<in> set as. attr_ok p"
  shows "\<exists>st. xml_loop (length t + length (concat (map print_attr as)) + 2 + n) env x
      (new_local (stream_of (CHR ''<'' # t @ concat (map print_attr as) @ CHR ''>'' # s)) a) r =
    xml_loop n env x ((new_local (stream_of s) a)\<lparr>xl_state := vvalue, xl_otag := t, xl_start := st,
      xl_attr := tl (concat (map print_attr as))\<rparr>) r"
proof -
  let ?as = "concat (map print_attr as)"
  let ?l1 = "(new_local (stream_of (t @ ?as @ CHR ''>'' # s)) a)\<lparr>xl_state := otag\<rparr>"
  have "xml_loop (Suc (length t + (length ?as + 1 + n))) env x (new_local (stream_of (CHR ''<'' # t @ ?as @ CHR ''>'' # s)) a) r =
    xml_loop (length t + (length ?as + 1 + n)) env x ?l1 r"
    by (rule loop_char [where c = "CHR ''<''" and s = "t @ ?as @ CHR ''>'' # s"])
      (simp_all add: x_step_def dropped_def new_local_def)
  moreover obtain st where "xml_loop (length t + (length ?as + 1 + n)) env x ?l1 r =
    xml_loop (length ?as + 1 + n) env x (?l1\<lparr>xl_otag := xl_otag ?l1 @ t, xl_start := st, xl_in := stream_of (?as @ CHR ''>'' # s)\<rparr>) r"
  proof -
    have "\<exists>st. xml_loop (length t + (length ?as + 1 + n)) env x ?l1 r =
      xml_loop (length ?as + 1 + n) env x (?l1\<lparr>xl_otag := xl_otag ?l1 @ t, xl_start := st, xl_in := stream_of (?as @ CHR ''>'' # s)\<rparr>) r"
      by (rule loop_otag) (use assms(1) in \<open>simp_all add: tag_ok_def\<close>)
    then show thesis using that by blast
  qed
  moreover have "xml_loop (length ?as + 1 + n) env x
      (?l1\<lparr>xl_otag := xl_otag ?l1 @ t, xl_start := st, xl_in := stream_of (?as @ CHR ''>'' # s)\<rparr>) r =
    xml_loop n env x ((new_local (stream_of s) a)\<lparr>xl_state := vvalue, xl_otag := t, xl_start := st, xl_attr := tl ?as\<rparr>) r"
  proof (cases "as = []")
    case True
    then show ?thesis
      by (simp, intro loop_char [where c = "CHR ''>''" and s = s])
        (simp_all add: x_step_def in_otag_def dropped_def new_local_def)
  next
    case False
    then obtain w where w: "?as = CHR '' '' # w" "\<forall>c \<in> set w. c \<noteq> CHR ''>'' \<and> \<not> dropped c" "w \<noteq> []" "last w = dquote"
      by (rule print_attrs_text [OF assms(2)])
    let ?l2 = "(new_local (stream_of (w @ CHR ''>'' # s)) a)\<lparr>xl_state := oattr, xl_otag := t, xl_start := st\<rparr>"
    have "xml_loop (Suc (length w + Suc n)) env x
      (?l1\<lparr>xl_otag := xl_otag ?l1 @ t, xl_start := st, xl_in := stream_of (?as @ CHR ''>'' # s)\<rparr>) r =
      xml_loop (length w + Suc n) env x ?l2 r"
      using assms(1) w(1)
      by (intro loop_char [where c = "CHR '' ''" and s = "w @ CHR ''>'' # s"])
        (simp_all add: x_step_def in_otag_def empty_close_def space_facts dropped_def new_local_def tag_ok_def)
    also have "\<dots> = xml_loop (Suc n) env x (?l2\<lparr>xl_attr := xl_attr ?l2 @ w, xl_in := stream_of (CHR ''>'' # s)\<rparr>) r"
      by (rule loop_oattr) (use w in \<open>simp_all add: new_local_def dquote_def\<close>)
    also have "\<dots> = xml_loop n env x ((new_local (stream_of s) a)\<lparr>xl_state := vvalue, xl_otag := t, xl_start := st, xl_attr := w\<rparr>) r"
      by (rule loop_char [where c = "CHR ''>''" and s = s])
        (simp_all add: x_step_def in_oattr_def empty_close_def dropped_def new_local_def)
    finally show ?thesis using w(1) by simp
  qed
  ultimately show ?thesis by (intro exI [of _ st]) (simp add: add.assoc)
qed

lemma loop_close:
  assumes "tag_ok t" and "xl_state l = vvalue" and "xl_in l = stream_of (CHR ''<'' # CHR ''/'' # t @ CHR ''>'' # s)"
    and "xl_otag l = t" and "xl_ctag l = []"
  shows "xml_loop (length t + 4 + n) env x l r =
    x_finish env x (l\<lparr>xl_ctag := t, xl_in := stream_of s, xl_state := finished, xl_tag := t,
      xl_value := closed_value env l\<rparr>) r"
proof -
  let ?t = "t @ CHR ''>'' # s"
  have "xml_loop (Suc (Suc (length t + Suc (Suc n)))) env x l r =
    xml_loop (Suc (length t + Suc (Suc n))) env x (l\<lparr>xl_in := stream_of (CHR ''/'' # ?t), xl_state := cls\<rparr>) r"
    by (rule loop_char [where c = "CHR ''<''" and s = "CHR ''/'' # ?t"])
      (use assms in \<open>simp_all add: x_step_def in_value_def peek_char dropped_def\<close>)
  also have "\<dots> = xml_loop (length t + Suc (Suc n)) env x (l\<lparr>xl_in := stream_of ?t, xl_state := ctag\<rparr>) r"
    by (rule loop_char [where c = "CHR ''/''" and s = ?t]) (simp_all add: x_step_def dropped_def)
  also have "\<dots> = xml_loop (Suc (Suc n)) env x (l\<lparr>xl_state := ctag, xl_ctag := t, xl_in := stream_of (CHR ''>'' # s)\<rparr>) r"
    by (subst loop_ctag [where w = t and s = "CHR ''>'' # s"])
      (use assms in \<open>auto simp: tag_ok_def intro!: arg_cong2 [where f = "\<lambda>l r. xml_loop _ env x l r"] xlocal.equality\<close>)
  also have "\<dots> = xml_loop (Suc n) env x (l\<lparr>xl_ctag := t, xl_in := stream_of s, xl_state := finished, xl_tag := t,
      xl_value := closed_value env l\<rparr>) r"
    by (rule loop_char [where c = "CHR ''>''" and s = s])
      (use assms in \<open>simp_all add: x_step_def close_tag_def dropped_def tag_ok_def closed_value_def\<close>)
  also have "\<dots> = x_finish env x (l\<lparr>xl_ctag := t, xl_in := stream_of s, xl_state := finished, xl_tag := t,
      xl_value := closed_value env l\<rparr>) r"
    by (simp add: xml_loop.simps(2))
  finally show ?thesis by (simp add: numeral_eq_Suc)
qed

lemma pa_space: "pa_step env r (pa_init a) (CHR '' '') = Inr (pa_init a)"
  by (simp add: pa_step_def pa_init_def isspace_def uchar_def)

lemma ParseAttrs_printed:
  assumes "\<forall>p \<in> set as. attr_ok p" and "distinct (map fst as)" and "as \<noteq> []"
    and "fst ` set as \<inter> fst ` set (case a of None \<Rightarrow> [] | Some m \<Rightarrow> m) = {}"
    and "om_ok (case a of None \<Rightarrow> [] | Some m \<Rightarrow> m)"
  shows "\<exists>k. ParseAttrs env r a (tl (concat (map print_attr as))) = Inr (attrs_of a as, k)"
proof -
  let ?m = "case a of None \<Rightarrow> [] | Some m \<Rightarrow> m"
  obtain n v ps where as: "as = (n, v) # ps" using assms(3) by (cases as) auto
  have ok: "\<forall>p \<in> set as. attr_name_ok (fst p) \<and> attr_value_ok (snd p)" using assms(1) by (simp add: attr_ok_def)
  have "concat (map print_attr as) = CHR '' '' # tl (concat (map print_attr as))" by (simp add: as print_attr_def)
  then have "pa_run env r (pa_init a) (tl (concat (map print_attr as)) @ s) =
      pa_run env r (pa_init a) (concat (map print_attr as) @ s)" for s
    by (metis append_Cons bind_simps(2) pa_run.simps(2) pa_space)
  moreover have "map_of ?m n = None" using assms(4) as by (auto simp: map_of_eq_None_iff)
  then have "pa_run env r (pa_init a) (concat (map print_attr as) @ s) =
      pa_run env r (pa_init (attrs_of a as)) s" for s
    using ok assms(2,4,5) pa_run_attrs [of ps "om_insert n v ?m"]
    by (auto simp: as pa_run_attr attrs_of_def om_ok_insert fst_set_om_insert)
  moreover obtain l where "pa_run env r (pa_init (attrs_of a as)) [xe_junk env] = Inr l" "pa_attrs l = attrs_of a as"
    by (simp add: pa_step_def pa_init_def)
  ultimately have "pa_run env r (pa_init a) (tl (concat (map print_attr as)) @ [xe_junk env]) = Inr l"
    "pa_attrs l = attrs_of a as"
    by metis+
  then show ?thesis by (simp add: ParseAttrs_def)
qed

lemma finish_printed:
  assumes "\<forall>p \<in> set as. attr_ok p" and "distinct (map fst as)"
    and "fst ` set as \<inter> fst ` set (case xl_attrs l of None \<Rightarrow> [] | Some m \<Rightarrow> m) = {}"
    and "om_ok (case xl_attrs l of None \<Rightarrow> [] | Some m \<Rightarrow> m)"
    and "xl_attr l = tl (concat (map print_attr as))" and "xl_outer l = None"
  shows "x_finish env x l r = Inr (x_result x l (attrs_of (xl_attrs l) as), xl_in l, r)"
proof (cases "as = []")
  case True
  then show ?thesis using assms(5,6) by (simp add: x_finish_def attrs_of_def)
next
  case False
  obtain k where "ParseAttrs env r (xl_attrs l) (xl_attr l) = Inr (attrs_of (xl_attrs l) as, k)"
    using ParseAttrs_printed [OF assms(1,2) False assms(3,4)] assms(5) by auto
  moreover have "xl_attr l \<noteq> []"
    using False assms(5) by (cases as) (auto simp: print_attr_def)
  ultimately show ?thesis using assms(6) by (simp add: x_finish_def)
qed

section \<open>Documents\<close>

text \<open>What the loop makes of a document at the head of a stream, as long as it is not too deep.\<close>

definition parses :: "xenv \<Rightarrow> xdoc \<Rightarrow> bool" where
  "parses env doc \<longleftrightarrow>
     (\<forall>n x s a r. xc_depth x + int (doc_height doc) \<le> MaxDepth \<longrightarrow> length (print_doc doc) < n \<longrightarrow>
        (\<exists>el r'. xml_loop n env x (new_local (stream_of (print_doc doc @ s)) a) r = Inr (el, stream_of s, r') \<and>
           mirrors doc (xl_attrs (new_local (stream_of []) a)) el \<and> \<not> x_was_include el))"

lemma parsesD:
  assumes "parses env doc" and "xc_depth x + int (doc_height doc) \<le> MaxDepth" and "length (print_doc doc) < n"
  obtains el r' where "xml_loop n env x (new_local (stream_of (print_doc doc @ s)) a) r = Inr (el, stream_of s, r')"
    "mirrors doc (xl_attrs (new_local (stream_of []) a)) el" "\<not> x_was_include el"
  using assms unfolding parses_def by blast

lemma mirrors_tag: "doc_ok doc \<Longrightarrow> mirrors doc a el \<Longrightarrow> x_tag el \<noteq> []"
  by (cases doc) (simp add: tag_ok_def)

lemma print_doc_start:
  assumes "doc_ok doc"
  obtains c p where "print_doc doc = CHR ''<'' # c # p" "c \<noteq> CHR ''/''"
proof -
  obtain t as v ks where doc: "doc = Node t as v ks" by (cases doc)
  obtain c t' where t: "t = c # t'" and c: "tag_char c" using assms doc by (cases t) (auto simp: tag_ok_def)
  show thesis by (rule that [of c]) (use doc t tag_charD(2) [OF c] in simp_all)
qed

text \<open>One child: the parent goes on behind it.\<close>

lemma loop_kid:
  assumes "parses env k" and "doc_ok k" and "xc_depth x + 1 + int (doc_height k) \<le> MaxDepth"
    and "xl_state l = vvalue" and "xl_in l = stream_of (print_doc k @ s)" and "length (print_doc k) < n"
  shows "\<exists>el r'. xml_loop (Suc n) env x l r =
      xml_loop n env x (l\<lparr>xl_chldcnt := xl_chldcnt l + 1, xl_children := xl_children l @ [el], xl_in := stream_of s\<rparr>) r' \<and>
    mirrors k None el"
proof -
  obtain c p where p: "print_doc k = CHR ''<'' # c # p" "c \<noteq> CHR ''/''" by (rule print_doc_start [OF assms(2)])
  let ?l = "l\<lparr>xl_in := stream_of (c # p @ s)\<rparr>"
  have step: "x_step env x r ?l (CHR ''<'') = Inr (l, r, True)"
    using assms(3-5) p by (simp add: x_step_def in_value_def peek_char putback_char same_in)
  have depth: "xc_depth (child_ctx x l r) + int (doc_height k) \<le> MaxDepth" using assms(3) by (simp add: child_ctx_def)
  obtain el r1 where el: "child_loop n env x l r = Inr (el, stream_of s, r1)" "mirrors k None el" "\<not> x_was_include el"
    by (rule parsesD [OF assms(1) depth assms(6), of s None]) (auto simp: assms(5) new_local_def)
  have "adopt el (l\<lparr>xl_in := stream_of s\<rparr>) r1 =
      (l\<lparr>xl_in := stream_of s, xl_chldcnt := xl_chldcnt l + 1, xl_children := xl_children l @ [el]\<rparr>, r1)"
    using el(3) mirrors_tag [OF assms(2) el(2)] by (simp add: adopt_def empty_child_def)
  then have "xml_loop (Suc n) env x l r =
    xml_loop n env x (l\<lparr>xl_in := stream_of s, xl_chldcnt := xl_chldcnt l + 1, xl_children := xl_children l @ [el]\<rparr>) r1"
    using assms(4,5) step el(1) p by (simp add: xml_loop.simps(2) read_char dropped_def)
  moreover have "l\<lparr>xl_in := stream_of s, xl_chldcnt := xl_chldcnt l + 1, xl_children := xl_children l @ [el]\<rparr> =
      l\<lparr>xl_chldcnt := xl_chldcnt l + 1, xl_children := xl_children l @ [el], xl_in := stream_of s\<rparr>"
    by (cases l) simp
  ultimately show ?thesis using el(2) by auto
qed

lemma loop_kids:
  assumes "\<forall>k \<in> set ks. parses env k \<and> doc_ok k \<and> xc_depth x + 1 + int (doc_height k) \<le> MaxDepth"
    and "xl_state l = vvalue" and "xl_in l = stream_of (concat (map print_doc ks) @ s)"
    and "length (concat (map print_doc ks)) + 1 < n"
  shows "\<exists>cs cnt m r'. xml_loop n env x l r =
      xml_loop m env x (l\<lparr>xl_chldcnt := cnt, xl_children := xl_children l @ cs, xl_in := stream_of s\<rparr>) r' \<and>
    n - length (concat (map print_doc ks)) \<le> m \<and> list_all2 (\<lambda>f c. f None c) (map mirrors ks) cs"
  using assms
proof (induction ks arbitrary: l n r)
  case Nil
  have "l\<lparr>xl_chldcnt := xl_chldcnt l, xl_children := xl_children l @ [], xl_in := stream_of s\<rparr> = l"
    using Nil.prems(3) by (simp add: same_in)
  then show ?case by (intro exI [of _ "[]"] exI [of _ "xl_chldcnt l"] exI [of _ n] exI [of _ r]) simp
next
  case (Cons k ks)
  let ?s = "concat (map print_doc ks) @ s"
  obtain n' where n: "n = Suc n'" using Cons.prems(4) by (cases n) auto
  have pos: "1 < length (print_doc k)" by (cases k) simp
  obtain el r1 where one: "xml_loop (Suc n') env x l r =
      xml_loop n' env x (l\<lparr>xl_chldcnt := xl_chldcnt l + 1, xl_children := xl_children l @ [el], xl_in := stream_of ?s\<rparr>) r1"
      "mirrors k None el"
    using loop_kid [of env k x l ?s n' r] Cons.prems n pos by auto
  let ?l = "l\<lparr>xl_chldcnt := xl_chldcnt l + 1, xl_children := xl_children l @ [el], xl_in := stream_of ?s\<rparr>"
  obtain cs cnt m r' where "xml_loop n' env x ?l r1 =
      xml_loop m env x (?l\<lparr>xl_chldcnt := cnt, xl_children := xl_children ?l @ cs, xl_in := stream_of s\<rparr>) r'"
      "n' - length (concat (map print_doc ks)) \<le> m" "list_all2 (\<lambda>f c. f None c) (map mirrors ks) cs"
    using Cons.IH [of ?l n' r1] Cons.prems n pos by auto
  then show ?case using one n pos
    by (intro exI [of _ "el # cs"] exI [of _ cnt] exI [of _ m] exI [of _ r']) auto
qed

lemma height_kid:
  "k \<in> set ks \<Longrightarrow> Suc (doc_height k) \<le> doc_height (Node t as v ks)"
  by (induction ks) auto

lemma docpath_disjoint:
  assumes "\<forall>p \<in> set as. attr_ok p"
  shows "fst ` set as \<inter> fst ` set (case xl_attrs (new_local i a) of None \<Rightarrow> [] | Some m \<Rightarrow> m) = {}"
    "om_ok (case xl_attrs (new_local i a) of None \<Rightarrow> [] | Some m \<Rightarrow> m)"
proof -
  have "''docpath'' \<notin> fst ` set as" using assms by (force simp: attr_ok_def attr_name_ok_def)
  then show "fst ` set as \<inter> fst ` set (case xl_attrs (new_local i a) of None \<Rightarrow> [] | Some m \<Rightarrow> m) = {}"
    by (cases a) (simp_all add: new_local_def)
  show "om_ok (case xl_attrs (new_local i a) of None \<Rightarrow> [] | Some m \<Rightarrow> m)"
    by (cases a) (simp_all add: new_local_def om_ok_def)
qed

lemma parses_doc: "doc_ok doc \<Longrightarrow> parses env doc"
proof (induction doc)
  case (Node t as v ks)
  show ?case
    unfolding parses_def
  proof (intro allI impI)
    fix n and x :: xctx and s a and r :: xroot
    assume depth: "xc_depth x + int (doc_height (Node t as v ks)) \<le> MaxDepth"
      and fuel: "length (print_doc (Node t as v ks)) < n"
    let ?as = "concat (map print_attr as)" and ?ks = "concat (map print_doc ks)"
    let ?close = "CHR ''<'' # CHR ''/'' # t @ CHR ''>'' # s"
    have ok: "tag_ok t" "\<forall>p \<in> set as. attr_ok p" "distinct (map fst as)" "plain v" "inert v" "\<forall>k \<in> set ks. doc_ok k"
      using Node.prems by (simp_all add: list_all_iff)
    define m where "m = n - (length t + length ?as + 2) - length v"
    have n: "n = length t + length ?as + 2 + (length v + m)" "length ?ks + length t + 3 < m"
      using fuel by (simp_all add: m_def)
    let ?l0 = "new_local (stream_of (v @ ?ks @ ?close)) a"
    obtain st where opened: "xml_loop n env x (new_local (stream_of (print_doc (Node t as v ks) @ s)) a) r =
      xml_loop (length v + m) env x (?l0\<lparr>xl_state := vvalue, xl_otag := t, xl_start := st, xl_attr := tl ?as\<rparr>) r"
      using loop_open [OF ok(1,2), where s = "v @ ?ks @ ?close" and n = "length v + m" and env = env and x = x and a = a and r = r]
      unfolding n(1) by auto
    let ?l1 = "?l0\<lparr>xl_state := vvalue, xl_otag := t, xl_start := st, xl_attr := tl ?as, xl_val := v, xl_in := stream_of (?ks @ ?close)\<rparr>"
    have "xml_loop (length v + m) env x (?l0\<lparr>xl_state := vvalue, xl_otag := t, xl_start := st, xl_attr := tl ?as\<rparr>) r =
      xml_loop m env x ?l1 r"
      by (subst loop_value [OF ok(4)]) (simp_all add: new_local_def)
    moreover obtain cs cnt k r1 where "xml_loop m env x ?l1 r =
        xml_loop k env x (?l1\<lparr>xl_chldcnt := cnt, xl_children := xl_children ?l1 @ cs, xl_in := stream_of ?close\<rparr>) r1"
      "m - length ?ks \<le> k" and kids: "list_all2 (\<lambda>f c. f None c) (map mirrors ks) cs"
    proof -
      have "\<forall>k \<in> set ks. parses env k \<and> doc_ok k \<and> xc_depth x + 1 + int (doc_height k) \<le> MaxDepth"
        using Node.IH ok(6) depth height_kid [of _ ks t as v] by fastforce
      from loop_kids [OF this, of ?l1 ?close m r] show thesis using that n(2) by auto
    qed
    moreover define l2 where "l2 = ?l1\<lparr>xl_chldcnt := cnt, xl_children := cs, xl_in := stream_of ?close\<rparr>"
    moreover obtain j where "k = length t + 4 + j"
    proof -
      have "length t + 4 \<le> k" using n(2) \<open>m - length ?ks \<le> k\<close> by linarith
      then show thesis using that [of "k - (length t + 4)"] by simp
    qed
    moreover have "xml_loop (length t + 4 + j) env x l2 r1 =
      x_finish env x (l2\<lparr>xl_ctag := t, xl_in := stream_of s, xl_state := finished, xl_tag := t, xl_value := closed_value env l2\<rparr>) r1"
      by (rule loop_close) (use ok(1) in \<open>simp_all add: l2_def new_local_def\<close>)
    ultimately have "xml_loop n env x (new_local (stream_of (print_doc (Node t as v ks) @ s)) a) r =
      x_finish env x (l2\<lparr>xl_ctag := t, xl_in := stream_of s, xl_state := finished, xl_tag := t, xl_value := closed_value env l2\<rparr>) r1"
      using opened by simp
    also have "\<dots> = Inr (x_result x (l2\<lparr>xl_ctag := t, xl_in := stream_of s, xl_state := finished, xl_tag := t,
        xl_value := closed_value env l2\<rparr>) (attrs_of (xl_attrs l2) as), stream_of s, r1)"
      using finish_printed [OF ok(2,3)] docpath_disjoint [OF ok(2), of _ a] by (simp add: l2_def)
    finally show "\<exists>el r'. xml_loop n env x (new_local (stream_of (print_doc (Node t as v ks) @ s)) a) r =
        Inr (el, stream_of s, r') \<and> mirrors (Node t as v ks) (xl_attrs (new_local (stream_of []) a)) el \<and> \<not> x_was_include el"
      using kids ok(5) by (auto simp: x_result_def l2_def closed_value_def InplaceXlate_inert new_local_def)
  qed
qed

end
