(* ===== verification/XmlProps.thy ===== *)
theory XmlProps
  imports XmlDoc "HOL-Library.Sublist"
begin

text \<open>
  The searches of \<^verbatim>\<open>XmlElement\<close> against the path they are given, and the properties of the
  XML component.
\<close>

section \<open>Document order\<close>

primrec nodes :: "xel \<Rightarrow> xel list" where
  "nodes (Xel t v dc d sq tx n si avs wi cs) = Xel t v dc d sq tx n si avs wi cs # concat (map nodes cs)"

lemma nodes_self: "x \<in> set (nodes x)"
  by (cases x) simp

lemma nodes_unfold: "nodes x = x # concat (map nodes (x_children x))"
  by (cases x) simp

lemma numbers_nodes: "numbers x = map x_sequence (nodes x)"
proof (induction x)
  case (Xel t v dc d sq tx n si avs wi cs)
  then have "concat (map numbers cs) = concat (map (map x_sequence \<circ> nodes) cs)"
    by (intro arg_cong [where f = concat]) simp
  then show ?case by (simp add: map_concat)
qed

definition ordered :: "xel list \<Rightarrow> bool" where
  "ordered xs \<longleftrightarrow> sorted_wrt (<) (map x_sequence xs)"

lemma om_insert_above: "\<forall>k' \<in> fst ` set m. k' < k \<Longrightarrow> om_insert k v m = m @ [(k, v)]"
  by (induction k v m rule: om_insert.induct) auto

lemma fold_ordered:
  assumes "ordered (ys @ xs)"
  shows "fold (\<lambda>c. om_insert (x_sequence c) c) xs (map (\<lambda>c. (x_sequence c, c)) ys) =
    map (\<lambda>c. (x_sequence c, c)) (ys @ xs)"
  using assms
proof (induction xs arbitrary: ys)
  case (Cons x xs)
  have "om_insert (x_sequence x) x (map (\<lambda>c. (x_sequence c, c)) ys) = map (\<lambda>c. (x_sequence c, c)) (ys @ [x])"
    using Cons.prems by (subst om_insert_above) (auto simp: ordered_def sorted_wrt_append)
  then show ?case using Cons.IH [of "ys @ [x]"] Cons.prems by simp
qed simp

lemma ordered_subseq: "subseq xs ys \<Longrightarrow> ordered ys \<Longrightarrow> ordered xs"
  unfolding ordered_def strict_sorted_iff
  by (metis subseq_conv_nths sorted_nths distinct_nthsI subseq_map)

lemma subseq_concat: "(\<And>c. c \<in> set cs \<Longrightarrow> subseq (f c) (g c)) \<Longrightarrow> subseq (concat (map f cs)) (concat (map g cs))"
  by (induction cs) (auto intro: list_emb_append_mono)

lemma subseq_children: "subseq (x_children x) (concat (map nodes (x_children x)))"
proof -
  have "subseq (concat (map (\<lambda>c. [c]) cs)) (concat (map nodes cs))" for cs :: "xel list"
    by (rule subseq_concat) (metis nodes_unfold subseq_Cons2 list_emb_Nil)
  then show ?thesis by simp
qed

text \<open>In a tree whose numbers are in document order every set of children is, and so is every node.\<close>

lemma ordered_node:
  "ordered (nodes x) \<Longrightarrow> y \<in> set (nodes x) \<Longrightarrow> ordered (nodes y)"
proof (induction x)
  case (Xel t v dc d sq tx n si avs wi cs)
  then consider "y = Xel t v dc d sq tx n si avs wi cs" | c where "c \<in> set cs" "y \<in> set (nodes c)" by auto
  then show ?case
  proof cases
    case 2
    then obtain us vs where cs: "cs = us @ c # vs" by (meson split_list)
    have "subseq (nodes c) (concat (map nodes us) @ nodes c @ concat (map nodes vs))"
      by (meson subseq_drop_many subseq_rev_drop_many subseq_order.order_refl)
    then have "subseq (nodes c) (nodes (Xel t v dc d sq tx n si avs wi cs))"
      using cs by (simp add: list_emb_Cons)
    then show ?thesis using Xel 2 ordered_subseq by blast
  qed (use Xel.prems in simp)
qed

lemma ordchildren_id:
  assumes "ordered (nodes x)"
  shows "ordchildren x = x_children x"
proof -
  have "ordered (x_children x)"
    using ordered_subseq [OF subseq_children] assms by (auto simp: nodes_unfold [of x] ordered_def)
  then show ?thesis using fold_ordered [of "[]" "x_children x"] by (simp add: ordchildren_def comp_def)
qed

lemma xel_ok_node:
  assumes "xel_ok x" and "0 \<le> x_depth x" and "x_depth x \<le> MaxDepth" and "y \<in> set (nodes x)"
  shows "xel_ok y \<and> 0 \<le> x_depth y \<and> x_depth y \<le> MaxDepth"
  using assms
proof (induction x)
  case (Xel t v dc d sq tx n si avs wi cs)
  then show ?case by (fastforce simp: list_all_iff)
qed


section \<open>The path\<close>

text \<open>The elements whose tags from \<open>x\<close> on are the names of the path, in document order.\<close>

fun along :: "string list \<Rightarrow> xel \<Rightarrow> xel list" where
  "along [] x = []"
| "along [p] x = (if x_tag x = p then [x] else [])"
| "along (p # q # ps) x = (if x_tag x = p then concat (map (along (q # ps)) (x_children x)) else [])"

fun path_string :: "string list \<Rightarrow> string" where
  "path_string [] = []"
| "path_string [p] = p"
| "path_string (p # q # ps) = p @ CHR ''/'' # path_string (q # ps)"

definition name_ok :: "string \<Rightarrow> bool" where
  "name_ok p \<longleftrightarrow> p \<noteq> [] \<and> CHR ''/'' \<notin> set p"

lemma along_subseq: "subseq (along ps x) (nodes x)"
proof (induction ps x rule: along.induct)
  case (2 p x)
  then show ?case by (simp add: nodes_unfold [of x])
next
  case (3 p q ps x)
  then have "subseq (concat (map (along (q # ps)) (x_children x))) (concat (map nodes (x_children x)))" if "x_tag x = p"
    using that by (intro subseq_concat) simp
  then show ?case by (simp add: nodes_unfold [of x] list_emb_Cons)
qed simp

lemma path_string_Cons: "path_string (p # ps) = (if ps = [] then p else p @ CHR ''/'' # path_string ps)"
  by (cases ps) simp_all

lemma path_no_root: "name_ok p \<Longrightarrow> take 2 (path_string (p # ps)) \<noteq> ''//''"
  by (cases p) (auto simp: name_ok_def path_string_Cons split: if_splits)

lemma takeWhile_name: "name_ok p \<Longrightarrow> takeWhile (\<lambda>c. c \<noteq> CHR ''/'') (path_string (p # ps)) = p"
  by (auto simp: path_string_Cons name_ok_def takeWhile_append takeWhile_eq_all_conv)

lemma behind_path:
  "name_ok p \<Longrightarrow> behind_tag (path_string (p # ps)) (CHR ''/'') t =
    (if ps \<noteq> [] \<and> p = t then Some (path_string ps) else None)"
  using takeWhile_name [of p ps] by (auto simp: behind_tag_def Let_def path_string_Cons)

lemma first_part_path: "name_ok p \<Longrightarrow> first_part (path_string (p # ps)) (CHR ''/'') = p"
  by (simp add: first_part_def takeWhile_name)

lemma tag_matches_path:
  "eb_has (xe_flags env) nocase = 0 \<Longrightarrow> name_ok p \<Longrightarrow> CHR ''/'' \<notin> set t \<Longrightarrow>
    tag_matches env (path_string (p # ps)) t \<longleftrightarrow> ps = [] \<and> p = t"
  by (auto simp: tag_matches_def path_string_Cons)

lemma first_some_append: "first_some f (xs @ ys) = (case first_some f xs of None \<Rightarrow> first_some f ys | Some y \<Rightarrow> Some y)"
  by (induction xs) (auto split: option.split)

lemma first_some_concat: "first_some f (concat (map h cs)) = first_some (\<lambda>c. first_some f (h c)) cs"
  by (induction cs) (auto simp: first_some_append split: option.split)

lemma first_some_filter: "(\<And>c. c \<in> set cs \<Longrightarrow> \<not> P c \<Longrightarrow> f c = None) \<Longrightarrow> first_some f (filter P cs) = first_some f cs"
  by (induction cs) (auto split: option.split)

lemma fold_concat: "fold f (concat (map h cs)) = fold (\<lambda>c. fold f (h c)) cs"
  by (induction cs) (auto simp: fun_eq_iff)

lemma fold_filter_none: "(\<And>c. c \<in> set cs \<Longrightarrow> \<not> P c \<Longrightarrow> g c = id) \<Longrightarrow> fold g (filter P cs) s = fold g cs s"
  by (induction cs arbitrary: s) auto

definition tags_plain :: "xel \<Rightarrow> bool" where
  "tags_plain x \<longleftrightarrow> (\<forall>y \<in> set (nodes x). CHR ''/'' \<notin> set (x_tag y))"

lemma tags_plain_child: "tags_plain x \<Longrightarrow> c \<in> set (x_children x) \<Longrightarrow> tags_plain c"
  by (auto simp: tags_plain_def nodes_unfold [of x])

lemma tags_plain_tag: "tags_plain x \<Longrightarrow> CHR ''/'' \<notin> set (x_tag x)"
  using nodes_self [of x] by (auto simp: tags_plain_def)

lemma along_tag: "x_tag c \<noteq> q \<Longrightarrow> along (q # ps) c = []"
  by (cases ps) auto

lemma find_along:
  assumes "eb_has (xe_flags env) nocase = 0"
  shows "\<forall>p \<in> set ps. name_ok p \<Longrightarrow> ps \<noteq> [] \<Longrightarrow> tags_plain x \<Longrightarrow>
    x_find env rt x (path_string ps) av (CHR ''/'') =
      first_some (\<lambda>y. if attr_matches y av then Some y else None) (along ps x)"
proof (induction ps arbitrary: x rule: induct_list012)
  case (2 p)
  then show ?case
    using path_no_root [of p "[]"] tag_matches_path [OF assms, of p "x_tag x" "[]"] behind_path [of p "[]"] tags_plain_tag [of x]
    by (auto simp: x_find.simps [of env rt x])
next
  case (3 p q ps)
  let ?g = "\<lambda>y. if attr_matches y av then Some y else None"
  have name: "name_ok p" "name_ok q" using 3 by auto
  have rest: "x_find env rt c (path_string (q # ps)) av (CHR ''/'') = first_some ?g (along (q # ps) c)" if "c \<in> set (x_children x)" for c
    using 3 that tags_plain_child by auto
  have "x_find env rt x (path_string (p # q # ps)) av (CHR ''/'') =
    (if p = x_tag x then first_some (\<lambda>c. x_find env rt c (path_string (q # ps)) av (CHR ''/'')) (children_range x q) else None)"
    using path_no_root [OF name(1)] tag_matches_path [OF assms name(1)] behind_path [OF name(1)] first_part_path [OF name(2)]
      tags_plain_tag [OF 3(5)]
    by (subst x_find.simps) (auto simp del: path_string.simps)
  also have "\<dots> = first_some ?g (along (p # q # ps) x)"
  proof -
    have "first_some (\<lambda>c. x_find env rt c (path_string (q # ps)) av (CHR ''/'')) (children_range x q) =
      first_some (\<lambda>c. first_some ?g (along (q # ps) c)) (children_range x q)"
      using rest by (intro first_some_cong) (auto simp: children_range_def)
    also have "\<dots> = first_some (\<lambda>c. first_some ?g (along (q # ps) c)) (x_children x)"
      unfolding children_range_def by (rule first_some_filter) (simp add: along_tag)
    finally show ?thesis by (simp add: first_some_concat)
  qed
  finally show ?case .
qed simp

lemma find_all_along:
  assumes "eb_has (xe_flags env) nocase = 0"
  shows "\<forall>p \<in> set ps. name_ok p \<Longrightarrow> ps \<noteq> [] \<Longrightarrow> tags_plain x \<Longrightarrow>
    snd (x_find_all env rt x (path_string ps) es av (CHR ''/'')) =
      fold (\<lambda>y. om_insert (x_sequence y) y) (filter (\<lambda>y. attr_matches y av) (along ps x)) es"
proof (induction ps arbitrary: x es rule: induct_list012)
  case (2 p)
  then show ?case
    using path_no_root [of p "[]"] tag_matches_path [OF assms, of p "x_tag x" "[]"] behind_path [of p "[]"] tags_plain_tag [of x]
    by (auto simp: x_find_all.simps [of env rt x] Let_def)
next
  case (3 p q ps)
  let ?f = "\<lambda>y. om_insert (x_sequence y) y" and ?a = "\<lambda>y. attr_matches y av"
  have name: "name_ok p" "name_ok q" using 3 by auto
  have rest: "snd (x_find_all env rt c (path_string (q # ps)) e av (CHR ''/'')) = fold ?f (filter ?a (along (q # ps) c)) e"
    if "c \<in> set (x_children x)" for c e
    using 3 that tags_plain_child by auto
  have "snd (x_find_all env rt x (path_string (p # q # ps)) es av (CHR ''/'')) =
    (if p = x_tag x then fold (\<lambda>c e. snd (x_find_all env rt c (path_string (q # ps)) e av (CHR ''/''))) (children_range x q) es else es)"
    using path_no_root [OF name(1)] tag_matches_path [OF assms name(1)] behind_path [OF name(1)] first_part_path [OF name(2)]
      tags_plain_tag [OF 3(5)]
    by (subst x_find_all.simps) (auto simp: Let_def children_range_def simp del: path_string.simps)
  also have "\<dots> = (if p = x_tag x then fold (\<lambda>c. fold ?f (filter ?a (along (q # ps) c))) (children_range x q) es else es)"
    using rest by (auto simp: children_range_def intro!: fold_cong)
  also have "\<dots> = fold ?f (filter ?a (along (p # q # ps) x)) es"
    by (simp add: children_range_def filter_concat comp_def fold_concat along_tag fold_filter_none id_def)
  finally show ?case .
qed simp

lemma find_all_count:
  "fst (x_find_all env rt x what [] av delim) = int (length (snd (x_find_all env rt x what [] av delim)))"
proof (induction what arbitrary: x rule: length_induct)
  case (1 what)
  show ?case
    using 1 root_path_shorter [of what]
    by (subst (1 2) x_find_all.simps) (auto simp: Let_def split: option.split)
qed

section \<open>Properties\<close>

definition sample_xenv :: xenv where
  "sample_xenv =
     \<lparr>xe_files = (\<lambda>f. None), xe_getenv = (\<lambda>v. None), xe_popen = (\<lambda>c. None), xe_flags = 0,
      xe_junk = CHR ''<''\<rparr>"

definition sample_doc :: xdoc where
  "sample_doc = Node ''fix'' [(''type'', ''FIX''), (''major'', ''4'')] [] [Node ''header'' [] ''text'' [], Node ''trailer'' [] [] []]"

lemma sample_doc_ok: "doc_ok sample_doc" "doc_height sample_doc = 1" "length (print_doc sample_doc) = 72"
  by code_simp+

lemma sample_no_files: "no_files sample_xenv"
  by (simp add: no_files_def sample_xenv_def)

lemma new_local_None: "xl_attrs (new_local i None) = None"
  by (simp add: new_local_def)

lemma mirrors_tags_plain: "doc_ok doc \<Longrightarrow> mirrors doc a x \<Longrightarrow> tags_plain x"
proof (induction doc arbitrary: a x)
  case (Node t as v ks)
  have "tags_plain c" if "c \<in> set (x_children x)" for c
  proof -
    obtain i where "i < length ks" "c = x_children x ! i" "mirrors (ks ! i) None c"
    proof -
      have "\<forall>i < length ks. mirrors (ks ! i) None (x_children x ! i)" "length ks = length (x_children x)"
        using Node.prems(2) by (simp_all add: list_all2_conv_all_nth)
      with \<open>c \<in> set (x_children x)\<close> show thesis using that by (metis in_set_conv_nth)
    qed
    then show ?thesis using Node.IH [of "ks ! i"] Node.prems(1) by (auto simp: list_all_iff)
  qed
  moreover have "CHR ''/'' \<notin> set (x_tag x)"
    using Node.prems by (auto simp: tag_ok_def dest: tag_charD(2))
  ultimately show ?case by (auto simp: tags_plain_def nodes_unfold [of x])
qed

lemma sample_run:
  obtains x r where "Factory_stream 80 sample_xenv (print_doc sample_doc) None = Inr (x, stream_of [], r)"
    "mirrors sample_doc None x"
proof -
  have "xc_depth root_ctx + int (doc_height sample_doc) \<le> MaxDepth" "length (print_doc sample_doc) < 80"
    by (simp_all add: sample_doc_ok root_ctx_def MaxDepth_def)
  from parsesD [OF parses_doc [OF sample_doc_ok(1)] this, of sample_xenv "[]" None "enter_elem 0 new_root"]
  show thesis using that by (metis (no_types) Factory_stream_def append_Nil2 new_local_None)
qed

text \<open>
  Inclusion. The tag that is being collected is not cleared when the stream is switched, so a file
  must start with something that is not an element: with a declaration its element becomes a child,
  without one its tag is appended to \<^verbatim>\<open>xi:include\<close> and does not close. The elements taken
  over are three levels below the including element and only one is subtracted.
\<close>

definition include_env :: "string \<Rightarrow> xenv" where
  "include_env text = sample_xenv\<lparr>xe_files := (\<lambda>f. if f = ''f'' then Some text else None)\<rparr>"

definition include_doc :: string where
  "include_doc = ''<a><xi:include href='' @ dquote # ''f'' @ dquote # ''/></a>''"

lemma include_needs_declaration:
  "\<exists>e. Factory_stream 60 (include_env ''<r><b/></r>'') include_doc None = Inl (XMLError e)"
proof -
  have "case Factory_stream 60 (include_env ''<r><b/></r>'') include_doc None of
      Inl (XMLError _) \<Rightarrow> True | _ \<Rightarrow> False"
    by code_simp
  then show ?thesis by (auto split: sum.splits error.splits)
qed

lemma include_depth:
  "case Factory_stream 60 (include_env ''<?xml?><r><b><c/></b></r>'') include_doc None of
     Inr (x, _) \<Rightarrow> map x_tag (nodes x) = [''a'', ''b'', ''c''] \<and> map x_depth (nodes x) = [0, 2, 4]
   | Inl _ \<Rightarrow> False"
  by code_simp

text \<open>A file that closes the tag again without naming it includes itself in the same element, for
  ever: the depth that would stop a recursion does not grow.\<close>

definition self_text :: string where
  "self_text = ''< href='' @ dquote # ''f'' @ dquote # ''/>''"

definition self_local :: "istream \<Rightarrow> xlocal" where
  "self_local i =
     (new_local (stream_of self_text) None)\<lparr>xl_otag := ''xi:include'', xl_start := 1, xl_tag := ''xi:include'',
       xl_was_include := True, xl_outer := Some i\<rparr>"

definition self_root :: xroot where
  "self_root = (enter_elem 0 new_root)\<lparr>xr_inclusion := ''f''\<rparr>"

definition self_loop :: "nat \<Rightarrow> istream \<Rightarrow> error + (xel \<times> istream \<times> xroot)" where
  "self_loop n i = xml_loop n (include_env self_text) root_ctx (self_local i) self_root"

lemma self_round:
  "self_loop (Suc (Suc (Suc (Suc (Suc (Suc (Suc (Suc (Suc (Suc (Suc (Suc n)))))))))))) (stream_of s) =
    self_loop n (stream_of s)"
  by code_simp

lemma self_short: "n < 12 \<Longrightarrow> self_loop n (stream_of s) = Inl OutOfFuel"
proof -
  have "\<forall>n \<in> set [0..<12]. self_loop n (stream_of s) = Inl OutOfFuel" by code_simp
  then show "n < 12 \<Longrightarrow> self_loop n (stream_of s) = Inl OutOfFuel" by simp
qed

lemma self_include_diverges: "self_loop n (stream_of s) = Inl OutOfFuel"
proof (induction n rule: less_induct)
  case (less n)
  show ?case
  proof (cases "n < 12")
    case False
    then obtain m where "n = Suc (Suc (Suc (Suc (Suc (Suc (Suc (Suc (Suc (Suc (Suc (Suc m)))))))))))"
      using that [of "n - 12"] by simp
    then show ?thesis using less [of m] self_round by simp
  qed (rule self_short)
qed

text \<open>
  C28: the constructor reads back every printed document of at most 128 levels: tags, attributes,
  values and children of the tree are those of the document, whatever follows it in the stream and
  whatever the files, variables and commands of the environment are.
\<close>

theorem xml_reads_printed:
  assumes "doc_ok doc" and "int (doc_height doc) \<le> MaxDepth" and "length (print_doc doc) < n"
  shows "\<exists>x r. Factory_stream n env (print_doc doc @ s) docpath = Inr (x, stream_of s, r) \<and>
    mirrors doc (case docpath of None \<Rightarrow> None | Some a \<Rightarrow> Some [(''docpath'', a)]) x"
  by (rule parsesD [OF parses_doc [OF assms(1)], of root_ctx n env s docpath "enter_elem 0 new_root"])
    (use assms(2,3) in \<open>auto simp: root_ctx_def Factory_stream_def new_local_def\<close>)

theorem xml_reads_printed_witness:
  "\<exists>x r. Factory_stream 80 sample_xenv (print_doc sample_doc @ ''tail'') (Some ''f.xml'') = Inr (x, stream_of ''tail'', r) \<and>
     mirrors sample_doc (Some [(''docpath'', ''f.xml'')]) x"
  using xml_reads_printed [of sample_doc 80 sample_xenv "''tail''" "Some ''f.xml''"]
  by (simp add: sample_doc_ok MaxDepth_def)

text \<open>
  C29: the constructor ends on every text when there is no file to include: twice the length of the
  text and two more rounds of the loop are enough, for every character that the read at the end of
  the stream leaves in the variable.
\<close>

theorem xml_parser_terminates:
  assumes "no_files env" and "2 * length text + 1 < n"
  shows "Factory_stream n env text docpath \<noteq> Inl OutOfFuel"
  unfolding Factory_stream_def using assms by (intro loop_enough) (auto simp: need_def)

theorem xml_parser_terminates_witness:
  "Factory_stream 12 sample_xenv ''<a><b'' None \<noteq> Inl OutOfFuel"
  by (rule xml_parser_terminates) (simp_all add: sample_no_files)



text \<open>
  C31: both searches follow the path. In a tree with growing sequence numbers and tags without a
  slash, \<open>find\<close> returns the first element at the path with the attribute, and the other \<open>find\<close>
  collects and counts exactly these elements in document order.
\<close>

theorem xml_find_path:
  assumes "eb_has (xe_flags env) nocase = 0" and "ps \<noteq> []" and "\<forall>p \<in> set ps. name_ok p"
    and "tags_plain x" and "sorted_wrt (<) (numbers x)"
  shows "x_find env rt x (path_string ps) av (CHR ''/'') =
      first_some (\<lambda>y. if attr_matches y av then Some y else None) (along ps x) \<and>
    x_find_all env rt x (path_string ps) [] av (CHR ''/'') =
      (int (length (filter (\<lambda>y. attr_matches y av) (along ps x))),
       map (\<lambda>y. (x_sequence y, y)) (filter (\<lambda>y. attr_matches y av) (along ps x)))"
proof -
  let ?ys = "filter (\<lambda>y. attr_matches y av) (along ps x)"
  have "ordered ?ys"
    using ordered_subseq [OF along_subseq [of ps x]] assms(5)
    by (simp add: numbers_nodes ordered_def sorted_wrt_map sorted_wrt_filter)
  then have all: "snd (x_find_all env rt x (path_string ps) [] av (CHR ''/'')) = map (\<lambda>y. (x_sequence y, y)) ?ys"
    using find_all_along [OF assms(1,3,2,4)] fold_ordered [of "[]" ?ys] by simp
  then have "fst (x_find_all env rt x (path_string ps) [] av (CHR ''/'')) = int (length ?ys)"
    by (simp add: find_all_count)
  with all show ?thesis using find_along [OF assms(1,3,2,4)] by (simp add: prod_eq_iff)
qed

theorem xml_find_path_witness:
  "\<exists>x r. Factory_stream 80 sample_xenv (print_doc sample_doc) None = Inr (x, stream_of [], r) \<and>
     x_find sample_xenv x x ''fix'' None (CHR ''/'') = Some x"
proof -
  obtain x r where run: "Factory_stream 80 sample_xenv (print_doc sample_doc) None = Inr (x, stream_of [], r)"
    and m: "mirrors sample_doc None x"
    by (rule sample_run)
  have "made_ok root_ctx x r"
    using loop_wf [OF sample_no_files, of 80 root_ctx] run
    by (simp add: Factory_stream_def kids_ok_def root_ctx_def enter_elem_def new_root_def)
  then have "sorted_wrt (<) (numbers x)" by (simp add: made_ok_def)
  moreover have "tags_plain x"
    by (rule mirrors_tags_plain [OF sample_doc_ok(1) m])
  ultimately show ?thesis
    using xml_find_path [of sample_xenv "[''fix'']" x x None] run m
    by (auto simp: sample_xenv_def name_ok_def sample_doc_def attr_matches_def eb_has_def)
qed

end
