(* ===== verification/Timers.thy ===== *)
theory Timers
  imports Calendar "HOL-Library.Multiset"
begin

text \<open>
  The timer of \<^verbatim>\<open>include/fix8/timer.hpp\<close>: events, their order, \<open>schedule\<close>, \<open>clear\<close> and the turns of
  the timer thread. The queue is a \<^verbatim>\<open>std::priority_queue\<close>; a callback is the name of the member
  function that the event holds, and what it answers is an argument. Times are ticks that do not
  leave the 64 bits of the source before the year 2262.
\<close>

section \<open>Events\<close>

datatype 'c TimerEvent = TimerEvent (te_callback: 'c) (te_t: ticks) (te_intervalMS: "32 word") (te_repeat: bool)

text \<open>An event is smaller when it is due later, so that the queue has the next one on top.\<close>

definition event_less :: "'c TimerEvent \<Rightarrow> 'c TimerEvent \<Rightarrow> bool" where
  "event_less a b \<longleftrightarrow> te_t a > te_t b"

instantiation TimerEvent :: (type) preorder
begin

definition less_TimerEvent :: "'a TimerEvent \<Rightarrow> 'a TimerEvent \<Rightarrow> bool" where
  "less_TimerEvent = event_less"

definition less_eq_TimerEvent :: "'a TimerEvent \<Rightarrow> 'a TimerEvent \<Rightarrow> bool" where
  "less_eq_TimerEvent a b \<longleftrightarrow> te_t a \<ge> te_t b"

instance
  by standard (auto simp: less_TimerEvent_def event_less_def less_eq_TimerEvent_def)

end

definition new_event :: "'c \<Rightarrow> bool \<Rightarrow> 'c TimerEvent" where
  "new_event callback rep = TimerEvent callback 0 0 rep"

definition te_set :: "ticks \<Rightarrow> 'c TimerEvent \<Rightarrow> 'c TimerEvent" where
  "te_set t e = TimerEvent (te_callback e) t (te_intervalMS e) (te_repeat e)"

section \<open>The queue\<close>

text \<open>What the timer relies on: the top is an element that no other one exceeds.\<close>

locale event_queue =
  fixes push :: "'e::preorder \<Rightarrow> 'q \<Rightarrow> 'q" and top_of :: "'q \<Rightarrow> 'e" and pop :: "'q \<Rightarrow> 'q"
    and size_of :: "'q \<Rightarrow> nat" and els :: "'q \<Rightarrow> 'e multiset"
  assumes els_push: "els (push x q) = add_mset x (els q)"
    and size_els: "size_of q = size (els q)"
    and els_pop: "size_of q \<noteq> 0 \<Longrightarrow> els q = add_mset (top_of q) (els (pop q))"
    and top_max: "size_of q \<noteq> 0 \<Longrightarrow> x \<in># els q \<Longrightarrow> \<not> top_of q < x"
begin

lemma size_push: "size_of (push x q) = size_of q + 1"
  by (simp add: size_els els_push)

lemma size_pop: "size_of q \<noteq> 0 \<Longrightarrow> size_of (pop q) = size_of q - 1"
  using arg_cong [OF els_pop, of q size] by (simp add: size_els)

lemma top_in: "size_of q \<noteq> 0 \<Longrightarrow> top_of q \<in># els q"
  by (simp add: els_pop)

lemma pop_sub: "size_of q \<noteq> 0 \<Longrightarrow> x \<in># els (pop q) \<Longrightarrow> x \<in># els q"
  by (simp add: els_pop)

end

text \<open>
  The queue as the list of its events; which one of several events that are due at the same time is
  on top is left open by the library, here it is the one that was pushed first.
\<close>

type_synonym 'c queue = "'c TimerEvent list"

fun top_from :: "'e::preorder \<Rightarrow> 'e list \<Rightarrow> 'e" where
  "top_from a [] = a"
| "top_from a (x # xs) = top_from (if a < x then x else a) xs"

definition pq_push :: "'e \<Rightarrow> 'e list \<Rightarrow> 'e list" where
  "pq_push x q = q @ [x]"

definition pq_top :: "'e::preorder list \<Rightarrow> 'e" where
  "pq_top q = top_from (hd q) (tl q)"

definition pq_pop :: "'e::preorder list \<Rightarrow> 'e list" where
  "pq_pop q = remove1 (pq_top q) q"

lemma top_from_in: "top_from a xs \<in> insert a (set xs)"
  by (induction a xs rule: top_from.induct) auto

lemma top_from_max: "a \<le> top_from a xs \<and> (\<forall>x \<in> set xs. \<not> top_from a xs < x)"
proof (induction a xs rule: top_from.induct)
  case (2 a x xs)
  let ?b = "if a < x then x else a"
  have "?b \<le> top_from ?b xs" "\<forall>y \<in> set xs. \<not> top_from ?b xs < y" using 2 by auto
  moreover have "a \<le> ?b" "\<not> ?b < x" by (auto simp: less_imp_le)
  ultimately show ?case by (auto intro: order_trans dest: le_less_trans)
qed simp

lemma pq_top_in: "q \<noteq> [] \<Longrightarrow> pq_top q \<in> set q"
  using top_from_in [of "hd q" "tl q"] by (cases q) (auto simp: pq_top_def)

interpretation pq: event_queue pq_push pq_top pq_pop length mset
proof
  show "mset (pq_push x q) = add_mset x (mset q)" for x and q :: "'e::preorder list" by (simp add: pq_push_def)
  show "length q = size (mset q)" for q :: "'e::preorder list" by simp
  show "mset q = add_mset (pq_top q) (mset (pq_pop q))" if "length q \<noteq> 0" for q :: "'e::preorder list"
    using pq_top_in [of q] that by (auto simp: pq_pop_def)
  show "\<not> pq_top q < x" if "length q \<noteq> 0" "x \<in># mset q" for q :: "'e::preorder list" and x
    using that top_from_max [of "hd q" "tl q"] by (cases q) (auto simp: pq_top_def dest: le_less_trans)
qed

section \<open>The timer\<close>

record 'c Timer =
  t_queue :: "'c queue"
  t_elapsed :: "32 word"

definition new_timer :: "'c Timer" where
  "new_timer = \<lparr>t_queue = [], t_elapsed = 0\<rparr>"

definition fire_time :: "ticks \<Rightarrow> 32 word \<Rightarrow> ticks" where
  "fire_time now w = now + uint w * million"

definition timer_schedule :: "'c TimerEvent \<Rightarrow> 32 word \<Rightarrow> ticks \<Rightarrow> 'c Timer \<Rightarrow> bool \<times> 'c Timer" where
  "timer_schedule what timeToWait now tm =
     (let what1 = (if timeToWait \<noteq> 0
                   then TimerEvent (te_callback what) (te_t what) timeToWait (te_repeat what) else what);
          tofire = (if timeToWait \<noteq> 0 then fire_time now timeToWait else 0)
      in (True, tm\<lparr>t_queue := pq_push (te_set tofire what1) (t_queue tm)\<rparr>))"

function drain :: "'c queue \<Rightarrow> nat \<Rightarrow> nat \<times> 'c queue" where
  "drain q result = (if length q = 0 then (result, q) else drain (pq_pop q) (result + 1))"
  by auto
termination
  by (relation "measure (length \<circ> fst)") (simp_all add: pq_pop_def length_remove1 pq_top_in)

declare drain.simps [simp del]

definition timer_clear :: "'c Timer \<Rightarrow> nat \<times> 'c Timer" where
  "timer_clear tm = (let (result, q) = drain (t_queue tm) 0 in (result, tm\<lparr>t_queue := q\<rparr>))"

text \<open>One turn of the loop of the thread: an empty time is dropped, a due event is fired, else it sleeps.\<close>

datatype 'c turn = Dropped | Fired 'c | Slept

definition thread_turn :: "('c \<Rightarrow> bool) \<Rightarrow> ticks \<Rightarrow> 'c Timer \<Rightarrow> 'c turn \<times> 'c Timer" where
  "thread_turn callback now tm =
     (if length (t_queue tm) \<noteq> 0 then
        let op = pq_top (t_queue tm) in
        if te_t op = 0 then (Dropped, tm\<lparr>t_queue := pq_pop (t_queue tm)\<rparr>)
        else if te_t op \<le> now then
          let q = pq_pop (t_queue tm);
              result = callback (te_callback op)
          in (Fired (te_callback op),
              \<lparr>t_queue = (if result \<and> te_repeat op then pq_push (te_set (fire_time now (te_intervalMS op)) op) q else q),
               t_elapsed = t_elapsed tm + 1\<rparr>)
        else (Slept, tm)
      else (Slept, tm))"

text \<open>
  The thread until it is cancelled: one turn for each reading of the clock and the answers of the
  callbacks at that time; the log of what was fired when.
\<close>

fun thread_run :: "(ticks \<times> ('c \<Rightarrow> bool)) list \<Rightarrow> 'c Timer \<Rightarrow> (ticks \<times> 'c) list \<times> 'c Timer" where
  "thread_run [] tm = ([], tm)"
| "thread_run ((now, callback) # rest) tm =
     (let (r, tm1) = thread_turn callback now tm;
          (fired, tm2) = thread_run rest tm1
      in (case r of Fired c \<Rightarrow> ((now, c) # fired, tm2) | _ \<Rightarrow> (fired, tm2)))"

section \<open>What a turn does\<close>

text \<open>The events of one callback, and when it was fired.\<close>

definition events_of :: "'c \<Rightarrow> 'c Timer \<Rightarrow> 'c TimerEvent multiset" where
  "events_of c tm = filter_mset (\<lambda>e. te_callback e = c) (mset (t_queue tm))"

definition fires :: "'c \<Rightarrow> (ticks \<times> 'c) list \<Rightarrow> ticks list" where
  "fires c fired = map fst (filter (\<lambda>p. snd p = c) fired)"

lemma drain_all: "drain q n = (n + length q, [])"
proof (induction q n rule: drain.induct)
  case (1 q n)
  then show ?case using pq.size_pop [of q] by (cases "length q = 0") (simp_all add: drain.simps [of q] drain.simps [of "[]"])
qed

lemma clear_empties: "timer_clear tm = (length (t_queue tm), tm\<lparr>t_queue := []\<rparr>)"
  by (simp add: timer_clear_def drain_all)

lemma turn_cases:
  obtains (slept) "thread_turn callback now tm = (Slept, tm)"
      "t_queue tm = [] \<or> te_t (pq_top (t_queue tm)) > now"
  | (dropped) op tm' where "thread_turn callback now tm = (Dropped, tm')" "te_t op = 0"
      "mset (t_queue tm) = add_mset op (mset (t_queue tm'))"
  | (fired) op tm' where "thread_turn callback now tm = (Fired (te_callback op), tm')" "te_t op \<noteq> 0" "te_t op \<le> now"
      "\<forall>e \<in># mset (t_queue tm). te_t op \<le> te_t e"
      "mset (t_queue tm') = (if callback (te_callback op) \<and> te_repeat op
         then add_mset (te_set (fire_time now (te_intervalMS op)) op) (mset (t_queue tm) - {#op#})
         else mset (t_queue tm) - {#op#})" "op \<in># mset (t_queue tm)"
proof (cases "t_queue tm = []")
  case True
  then show thesis using slept by (simp add: thread_turn_def)
next
  case False
  let ?q = "t_queue tm" let ?op = "pq_top ?q"
  have n: "length ?q \<noteq> 0" using False by simp
  consider "te_t ?op = 0" | "te_t ?op \<noteq> 0" "te_t ?op \<le> now" | "te_t ?op \<noteq> 0" "te_t ?op > now" by linarith
  then show thesis
  proof cases
    case 1
    then show thesis using dropped [of "tm\<lparr>t_queue := pq_pop ?q\<rparr>" ?op] pq.els_pop [OF n] False
      by (simp add: thread_turn_def)
  next
    case 2
    have "\<forall>e \<in># mset ?q. te_t ?op \<le> te_t e" using pq.top_max [OF n] by (auto simp: less_TimerEvent_def event_less_def not_less)
    with 2 show thesis
      using fired [of ?op "snd (thread_turn callback now tm)"] pq.els_pop [OF n] pq.top_in [OF n] False
      by (simp add: thread_turn_def Let_def pq.els_push)
  next
    case 3
    then show thesis using slept by (simp add: thread_turn_def)
  qed
qed

text \<open>The turn seen by the one event of a callback.\<close>

lemma turn_other:
  assumes "thread_turn callback now tm = (r, tm')" and "events_of c tm = {#}"
  shows "events_of c tm' = {#} \<and> r \<noteq> Fired c"
proof (rule turn_cases [of callback now tm])
  fix op tm1
  assume "thread_turn callback now tm = (Dropped, tm1)" "mset (t_queue tm) = add_mset op (mset (t_queue tm1))"
  then show ?thesis using assms by (auto simp: events_of_def split: if_splits)
next
  fix op tm1
  assume t: "thread_turn callback now tm = (Fired (te_callback op), tm1)"
    "mset (t_queue tm1) = (if callback (te_callback op) \<and> te_repeat op
       then add_mset (te_set (fire_time now (te_intervalMS op)) op) (mset (t_queue tm) - {#op#})
       else mset (t_queue tm) - {#op#})" "op \<in># mset (t_queue tm)"
  then obtain M where M: "mset (t_queue tm) = add_mset op M" by (meson multi_member_split)
  then show ?thesis using assms t by (auto simp: events_of_def te_set_def split: if_splits)
qed (use assms in auto)

lemma turn_event:
  assumes "thread_turn callback now tm = (r, tm')" and "events_of c tm = {#e#}"
  shows "(r = Fired c \<and> te_t e \<noteq> 0 \<and> te_t e \<le> now \<and>
           events_of c tm' = (if callback c \<and> te_repeat e then {#te_set (fire_time now (te_intervalMS e)) e#} else {#})) \<or>
         (r \<noteq> Fired c \<and> (events_of c tm' = {#e#} \<or> (te_t e = 0 \<and> events_of c tm' = {#})))"
proof (rule turn_cases [of callback now tm])
  fix op tm1
  assume t: "thread_turn callback now tm = (Dropped, tm1)" "te_t op = 0" "mset (t_queue tm) = add_mset op (mset (t_queue tm1))"
  then show ?thesis using assms by (auto simp: events_of_def split: if_splits)
next
  fix op tm1
  assume t: "thread_turn callback now tm = (Fired (te_callback op), tm1)" "te_t op \<noteq> 0" "te_t op \<le> now"
    "mset (t_queue tm1) = (if callback (te_callback op) \<and> te_repeat op
       then add_mset (te_set (fire_time now (te_intervalMS op)) op) (mset (t_queue tm) - {#op#})
       else mset (t_queue tm) - {#op#})" "op \<in># mset (t_queue tm)"
  then obtain M where M: "mset (t_queue tm) = add_mset op M" by (meson multi_member_split)
  then show ?thesis using assms t by (auto simp: events_of_def te_set_def split: if_splits)
qed (use assms in auto)

lemma run_other: "events_of c tm = {#} \<Longrightarrow> thread_run rs tm = (fired, tm') \<Longrightarrow> fires c fired = []"
proof (induction rs arbitrary: tm fired tm')
  case (Cons x rs)
  obtain now callback where x: "x = (now, callback)" by (cases x)
  obtain r tm1 where r: "thread_turn callback now tm = (r, tm1)" by (cases "thread_turn callback now tm")
  obtain f tm2 where f: "thread_run rs tm1 = (f, tm2)" by (cases "thread_run rs tm1")
  have "fires c f = []" using Cons.IH f turn_other [OF r Cons.prems(1)] by blast
  then show ?case
    using Cons.prems(2) x r f turn_other [OF r Cons.prems(1)] by (auto simp: fires_def split: turn.splits)
qed (simp add: fires_def)

text \<open>Firing times of an event: the n-th is at least n intervals after the time that was set.\<close>

definition spaced :: "'c TimerEvent \<Rightarrow> ticks list \<Rightarrow> bool" where
  "spaced e fs \<longleftrightarrow> (te_t e = 0 \<longrightarrow> fs = []) \<and> (\<not> te_repeat e \<longrightarrow> length fs \<le> 1) \<and>
     (\<forall>i < length fs. te_t e + int i * (uint (te_intervalMS e) * million) \<le> fs ! i)"

lemma spaced_Nil [simp]: "spaced e []"
  by (simp add: spaced_def)

lemma spaced_Cons:
  assumes "te_t e \<noteq> 0" and "te_t e \<le> now"
    and "if te_repeat e then spaced (te_set (fire_time now (te_intervalMS e)) e) fs else fs = []"
  shows "spaced e (now # fs)"
proof -
  have "te_t e + int i * (uint (te_intervalMS e) * million) \<le> (now # fs) ! i" if "i < length (now # fs)" for i
  proof (cases i)
    case (Suc j)
    then have "fire_time now (te_intervalMS e) + int j * (uint (te_intervalMS e) * million) \<le> fs ! j"
      using assms(3) that by (auto simp: spaced_def te_set_def split: if_splits)
    then show ?thesis using assms(2) Suc by (simp add: fire_time_def algebra_simps)
  qed (use assms(2) in simp)
  with assms show ?thesis by (auto simp: spaced_def)
qed

lemma run_spaced: "events_of c tm = {#e#} \<Longrightarrow> thread_run rs tm = (fired, tm') \<Longrightarrow> spaced e (fires c fired)"
proof (induction rs arbitrary: tm fired e tm')
  case (Cons x rs)
  obtain now callback where x: "x = (now, callback)" by (cases x)
  obtain r tm1 where r: "thread_turn callback now tm = (r, tm1)" by (cases "thread_turn callback now tm")
  obtain f tm2 where f: "thread_run rs tm1 = (f, tm2)" by (cases "thread_run rs tm1")
  have fs: "fires c fired = (if r = Fired c then now # fires c f else fires c f)"
    using Cons.prems(2) x r f by (auto simp: fires_def split: turn.splits)
  from turn_event [OF r Cons.prems(1)] show ?case
  proof (elim disjE conjE)
    assume "r = Fired c" "te_t e \<noteq> 0" "te_t e \<le> now"
      and "events_of c tm1 = (if callback c \<and> te_repeat e then {#te_set (fire_time now (te_intervalMS e)) e#} else {#})"
    moreover from this have "if te_repeat e then spaced (te_set (fire_time now (te_intervalMS e)) e) (fires c f) else fires c f = []"
      using Cons.IH [OF _ f] run_other [OF _ f] by (auto split: if_splits)
    ultimately show ?thesis unfolding fs by (simp add: spaced_Cons)
  next
    assume "r \<noteq> Fired c" "events_of c tm1 = {#e#}"
    then show ?thesis unfolding fs using Cons.IH [OF _ f] by simp
  next
    assume "r \<noteq> Fired c" "events_of c tm1 = {#}"
    then show ?thesis unfolding fs using run_other [OF _ f] by simp
  qed
qed (simp add: fires_def)

section \<open>Properties\<close>

text \<open>An event that is scheduled without a wait is dropped by the thread and never fires.\<close>

lemma zero_wait_never_fires:
  assumes "events_of (te_callback what) tm = {#}" and "thread_run rs (snd (timer_schedule what 0 now tm)) = (fired, tm')"
  shows "fires (te_callback what) fired = []"
proof -
  have "events_of (te_callback what) (snd (timer_schedule what 0 now tm)) = {#te_set 0 what#}"
    using assms(1) by (simp add: events_of_def timer_schedule_def pq_push_def te_set_def)
  from run_spaced [OF this assms(2)] show ?thesis by (simp add: spaced_def te_set_def)
qed

text \<open>
  C25: a scheduled event fires the n-th time no earlier than n waits after it was scheduled, and not
  twice unless it repeats, whatever the clock shows, the other events and the answers of callbacks.
\<close>

theorem timer_never_early:
  assumes "events_of (te_callback what) tm = {#}" and "timeToWait \<noteq> 0"
    and "thread_run rs (snd (timer_schedule what timeToWait now tm)) = (fired, tm')"
  shows "(\<forall>i < length (fires (te_callback what) fired).
      now + int (i + 1) * (uint timeToWait * million) \<le> fires (te_callback what) fired ! i) \<and>
    (\<not> te_repeat what \<longrightarrow> length (fires (te_callback what) fired) \<le> 1)"
proof -
  let ?e = "TimerEvent (te_callback what) (fire_time now timeToWait) timeToWait (te_repeat what)"
  have "events_of (te_callback what) (snd (timer_schedule what timeToWait now tm)) = {#?e#}"
    using assms(1,2) by (simp add: events_of_def timer_schedule_def pq_push_def te_set_def)
  from run_spaced [OF this assms(3)] show ?thesis by (simp add: spaced_def fire_time_def algebra_simps)
qed

theorem timer_never_early_witness:
  "let (fired, tm) = thread_run (map (\<lambda>n. (n * million, \<lambda>c. True)) [1, 5, 9, 10, 17, 30])
         (snd (timer_schedule (new_event ''hb'' True) 5 0 new_timer))
   in map snd fired = [''hb'', ''hb'', ''hb'', ''hb''] \<and>
      (\<forall>i < length (fires ''hb'' fired). int (i + 1) * (5 * million) \<le> fires ''hb'' fired ! i)"
proof -
  let ?rs = "map (\<lambda>n. (n * million, \<lambda>c. True)) [1, 5, 9, 10, 17, 30]"
  let ?run = "thread_run ?rs (snd (timer_schedule (new_event ''hb'' True) 5 0 new_timer))"
  obtain fired tm where run: "?run = (fired, tm)" by (cases ?run)
  have "map snd (fst ?run) = [''hb'', ''hb'', ''hb'', ''hb'']" by code_simp
  moreover have "events_of (te_callback (new_event ''hb'' True)) new_timer = {#}"
    by (simp add: events_of_def new_timer_def)
  from timer_never_early [OF this _ run]
  have "\<forall>i < length (fires ''hb'' fired). int (i + 1) * (5 * million) \<le> fires ''hb'' fired ! i"
    by (simp add: new_event_def)
  ultimately show ?thesis using run by simp
qed

end
