(* ===== verification/Logging.thy ===== *)
theory Logging
  imports Floats Calendar
begin

text \<open>
  The loggers of \<^verbatim>\<open>include/fix8/logger.hpp\<close> and \<^verbatim>\<open>runtime/logger.cpp\<close>: what is logged, the text of a
  line, the letters of threads, the buffer, the logging thread with the queue of FastFlow and the
  rotation of files. The stream of a logger is the text written to it. The local time depends on
  the time zone and is a parameter, as is the start of the logging system. \<^verbatim>\<open>HAVE_COMPRESSION\<close> is not
  a macro of the generated configuration, whose names start with \<^verbatim>\<open>FIX8_\<close>, so its branches are left out.
\<close>

section \<open>Wall-clock text\<close>

definition fill0 :: "nat \<Rightarrow> string \<Rightarrow> string" where
  "fill0 w s = replicate (w - length s) (CHR ''0'') @ s"

definition int_text :: "int \<Rightarrow> string" where
  "int_text n = (if n < 0 then CHR ''-'' # dec_numeral (nat (- n)) else dec_numeral (nat n))"

definition num_text :: "u32 \<Rightarrow> string" where
  "num_text n = dec_numeral (unat n)"

text \<open>A binary64 in fixed notation with a positive number of decimals.\<close>

definition fixed_text :: "nat \<Rightarrow> rat \<Rightarrow> string" where
  "fixed_text d x =
     (let n = nat (round_half_even (x * 10 ^ d))
      in dec_numeral (n div 10 ^ d) @ ''.'' @ fill0 d (dec_numeral (n mod 10 ^ d)))"

definition stamp_secs :: "ticks \<Rightarrow> rat" where
  "stamp_secs t = fadd (of_int (Prelude.cmod (tv_secs t) 60)) (fdiv (of_int (uint (tv_nsecs t))) (of_int billion))"

definition date_hm_text :: "tm \<Rightarrow> string" where
  "date_hm_text tms =
     ''-'' @ fill0 2 (int_text (tm_mon tms + 1)) @ ''-'' @ fill0 2 (int_text (tm_mday tms)) @ '' ''
     @ fill0 2 (int_text (tm_hour tms)) @ '':'' @ fill0 2 (int_text (tm_min tms)) @ '':''"

definition GetTimeAsStringMS :: "(int \<Rightarrow> tm) \<Rightarrow> ticks \<Rightarrow> nat \<Rightarrow> bool \<Rightarrow> string" where
  "GetTimeAsStringMS localtime tv dplaces use_gm =
     (let tms = (if use_gm then gmtime (tv_secs tv) else localtime (tv_secs tv))
      in fill0 4 (int_text (tm_year tms + 1900)) @ date_hm_text tms @
         (if dplaces \<noteq> 0 then fill0 (3 + dplaces) (fixed_text dplaces (stamp_secs tv))
          else fill0 2 (int_text (tm_sec tms))))"

definition GetTimeAsStringMini :: "(int \<Rightarrow> tm) \<Rightarrow> ticks \<Rightarrow> string" where
  "GetTimeAsStringMini localtime tv =
     (let tms = localtime (tv_secs tv)
      in fill0 2 (int_text (Prelude.cmod (tm_year tms + 1900) 100)) @ date_hm_text tms @ fill0 2 (int_text (tm_sec tms)))"

section \<open>Flags, levels and lines\<close>

datatype log_level = Debug | Info | Warn | Error | Fatal

fun level_num :: "log_level \<Rightarrow> nat" where
  "level_num Debug = 0"
| "level_num Info = 1"
| "level_num Warn = 2"
| "level_num Error = 3"
| "level_num Fatal = 4"

definition level_names :: "string list" where
  "level_names = [''Debug'', ''Info '', ''Warn '', ''Error'', ''Fatal'']"

definition bit_names :: "string list" where
  "bit_names =
     [''mstart'', ''sstart'', ''sequence'', ''thread'', ''timestamp'', ''minitimestamp'', ''direction'', ''level'',
      ''location'', ''append'', ''buffer'', ''compress'', ''pipe'', ''broadcast'', ''nolf'', ''inbound'',
      ''outbound'', ''xml'']"

definition lf_mstart :: nat where "lf_mstart = 0"
definition lf_sstart :: nat where "lf_sstart = 1"
definition lf_sequence :: nat where "lf_sequence = 2"
definition lf_thread :: nat where "lf_thread = 3"
definition lf_timestamp :: nat where "lf_timestamp = 4"
definition lf_minitimestamp :: nat where "lf_minitimestamp = 5"
definition lf_direction :: nat where "lf_direction = 6"
definition lf_level :: nat where "lf_level = 7"
definition lf_location :: nat where "lf_location = 8"
definition start_controls :: nat where "start_controls = 9"
definition lf_append :: nat where "lf_append = 9"
definition lf_buffer :: nat where "lf_buffer = 10"
definition lf_compress :: nat where "lf_compress = 11"
definition lf_nolf :: nat where "lf_nolf = 14"
definition lf_xml :: nat where "lf_xml = 17"
definition num_flags :: nat where "num_flags = 18"

lemmas log_flags = lf_mstart_def lf_sstart_def lf_sequence_def lf_thread_def lf_timestamp_def lf_minitimestamp_def
  lf_direction_def lf_level_def lf_location_def start_controls_def lf_append_def lf_buffer_def lf_compress_def
  lf_nolf_def lf_xml_def num_flags_def

definition Levels_All :: u32 where "Levels_All = 31"
definition Levels_None :: u32 where "Levels_None = 0"
definition StdFlags :: u32 where "StdFlags = 4 OR 8 OR 16 OR 128"

record LogElement =
  le_tid :: nat
  le_str :: string
  le_level :: log_level
  le_fileline :: "string option"
  le_val :: u32
  le_when :: ticks

record Logger =
  lg_flags :: u32
  lg_levels :: u32
  lg_delim :: string
  lg_positions :: "nat list"
  lg_sequence :: u32
  lg_osequence :: u32
  lg_thread_codes :: "(nat \<times> nat) list"
  lg_rev_thread_codes :: "(nat \<times> nat) list"
  lg_buffer :: "string list"
  lg_lines :: nat
  lg_stream :: string

record log_env =
  log_started :: ticks
  log_localtime :: "int \<Rightarrow> tm"

definition has_flag :: "Logger \<Rightarrow> nat \<Rightarrow> bool" where
  "has_flag lg flg \<longleftrightarrow> eb_has (lg_flags lg) flg \<noteq> 0"

definition is_loggable :: "Logger \<Rightarrow> log_level \<Rightarrow> bool" where
  "is_loggable lg lev \<longleftrightarrow> eb_has (lg_levels lg) (level_num lev) \<noteq> 0"

definition new_logger :: "u32 \<Rightarrow> u32 \<Rightarrow> string \<Rightarrow> nat list \<Rightarrow> Logger" where
  "new_logger flags levels delim positions =
     \<lparr>lg_flags = flags, lg_levels = levels, lg_delim = delim,
      lg_positions = (if positions = [] then filter (\<lambda>ii. eb_has flags ii \<noteq> 0) [lf_mstart..<num_flags] else positions),
      lg_sequence = 0, lg_osequence = 0, lg_thread_codes = [], lg_rev_thread_codes = [], lg_buffer = [],
      lg_lines = 0, lg_stream = []\<rparr>"

text \<open>The letters of threads are the numbers of their characters, \<^verbatim>\<open>A\<close> to \<^verbatim>\<open>~\<close>; \<^verbatim>\<open>?\<close> when none is left.\<close>

definition free_code :: "Logger \<Rightarrow> nat option" where
  "free_code lg = find (\<lambda>acode. map_of (lg_rev_thread_codes lg) acode = None) [65..<127]"

definition get_thread_code :: "nat \<Rightarrow> Logger \<Rightarrow> nat \<times> Logger" where
  "get_thread_code tid lg =
     (case map_of (lg_thread_codes lg) tid of
        Some code \<Rightarrow> (code, lg)
      | None \<Rightarrow>
          (case free_code lg of
             Some acode \<Rightarrow>
               (acode, lg\<lparr>lg_thread_codes := om_insert tid acode (lg_thread_codes lg),
                          lg_rev_thread_codes := om_insert acode tid (lg_rev_thread_codes lg)\<rparr>)
           | None \<Rightarrow> (63, lg)))"

text \<open>Threads that have ended give their letter back; \<open>dead\<close> says which ones have.\<close>

definition purge_thread_codes :: "(nat \<Rightarrow> bool) \<Rightarrow> Logger \<Rightarrow> Logger" where
  "purge_thread_codes dead lg =
     (let gone = map snd (filter (\<lambda>(tid, code). dead tid) (lg_thread_codes lg))
      in lg\<lparr>lg_thread_codes := filter (\<lambda>(tid, code). \<not> dead tid) (lg_thread_codes lg),
            lg_rev_thread_codes := fold om_erase gone (lg_rev_thread_codes lg)\<rparr>)"

definition next_sequence :: "u32 \<Rightarrow> Logger \<Rightarrow> u32 \<times> Logger" where
  "next_sequence val lg =
     (if has_flag lg lf_direction \<and> val = 0
      then (lg_osequence lg + 1, lg\<lparr>lg_osequence := lg_osequence lg + 1\<rparr>)
      else (lg_sequence lg + 1, lg\<lparr>lg_sequence := lg_sequence lg + 1\<rparr>))"

definition since_start :: "log_env \<Rightarrow> LogElement \<Rightarrow> ticks" where
  "since_start env msg = le_when msg - log_started env"

definition mstart_num :: "log_env \<Rightarrow> LogElement \<Rightarrow> int" where
  "mstart_num env msg = tv_secs (since_start env msg) * 1000 + uint (tv_msecs (since_start env msg))"

definition direction_text :: "LogElement \<Rightarrow> string" where
  "direction_text msg = (if le_val msg \<noteq> 0 then '' in'' else ''out'')"

definition field_text :: "log_env \<Rightarrow> LogElement \<Rightarrow> nat \<Rightarrow> Logger \<Rightarrow> string \<times> Logger" where
  "field_text env msg pp lg =
     (if pp = lf_mstart then (fill0 11 (int_text (mstart_num env msg)), lg)
      else if pp = lf_sstart then (fill0 8 (int_text (tv_secs (since_start env msg))), lg)
      else if pp = lf_sequence then (let (n, lg1) = next_sequence (le_val msg) lg in (fill0 7 (num_text n), lg1))
      else if pp = lf_thread then (let (c, lg1) = get_thread_code (le_tid msg) lg in ([char_of c], lg1))
      else if pp = lf_location then (case le_fileline msg of Some s \<Rightarrow> s | None \<Rightarrow> [], lg)
      else if pp = lf_direction then (direction_text msg, lg)
      else if pp = lf_timestamp then (GetTimeAsStringMS (log_localtime env) (le_when msg) 9 False, lg)
      else if pp = lf_minitimestamp then (GetTimeAsStringMini (log_localtime env) (le_when msg), lg)
      else if pp = lf_level then (level_names ! level_num (le_level msg), lg)
      else ([], lg))"

text \<open>A delimiter of two characters encloses every part; another one follows it.\<close>

definition enclose :: "string \<Rightarrow> string \<Rightarrow> string" where
  "enclose delim s = (if 1 < length delim then [delim ! 0] @ s @ [delim ! 1] else s @ delim)"

fun fields_text :: "log_env \<Rightarrow> LogElement \<Rightarrow> nat list \<Rightarrow> Logger \<Rightarrow> string \<times> Logger" where
  "fields_text env msg [] lg = ([], lg)"
| "fields_text env msg (pp # pps) lg =
     (let (s, lg1) = field_text env msg pp lg;
          (rest, lg2) = fields_text env msg pps lg1
      in ((if s \<noteq> [] then enclose (lg_delim lg) s else []) @ rest, lg2))"

definition process_logline :: "log_env \<Rightarrow> LogElement \<Rightarrow> Logger \<Rightarrow> Logger" where
  "process_logline env msg lg =
     (let (s, lg1) = fields_text env msg (lg_positions lg) lg;
          line = s @ (if 1 < length (lg_delim lg) then enclose (lg_delim lg) (le_str msg) else le_str msg)
      in if has_flag lg lf_buffer then lg1\<lparr>lg_buffer := lg_buffer lg1 @ [line]\<rparr>
         else lg1\<lparr>lg_stream := lg_stream lg1 @ line @ (if has_flag lg lf_nolf then [] else [CHR 0x0A])\<rparr>)"

definition log_flush :: "Logger \<Rightarrow> Logger" where
  "log_flush lg =
     lg\<lparr>lg_stream := lg_stream lg @ concat (map (\<lambda>pp. pp @ [CHR 0x0A]) (lg_buffer lg)), lg_buffer := [], lg_lines := 0\<rparr>"

section \<open>The logging thread\<close>

text \<open>
  With the queue of FastFlow: each round reads the stop token and takes an element when there is
  one; an element without text means exit, and a stop leaves the rest of the queue unread.
\<close>

fun log_thread :: "log_env \<Rightarrow> bool list \<Rightarrow> LogElement list \<Rightarrow> Logger \<Rightarrow> Logger \<times> LogElement list \<times> u32" where
  "log_thread env [] q lg = (lg, q, 0)"
| "log_thread env (stopping # rounds) q lg =
     (if stopping then (lg, q, 0)
      else
        (case q of
           [] \<Rightarrow> log_thread env rounds q lg
         | msg # q1 \<Rightarrow>
             if le_str msg = [] then (lg, q1, 1)
             else let (lg1, q2, received) = log_thread env rounds q1 (process_logline env msg lg)
                  in (lg1, q2, received + 1)))"

text \<open>
  \<^verbatim>\<open>try_push\<close> of the unbounded queue always succeeds and answers true; \<^verbatim>\<open>enqueue\<close> compares it with 0.
\<close>

definition enqueue :: "LogElement \<Rightarrow> LogElement list \<Rightarrow> bool \<times> LogElement list" where
  "enqueue le q = ((of_bool True :: nat) = 0, q @ [le])"

definition log_send :: "Logger \<Rightarrow> LogElement \<Rightarrow> LogElement list \<Rightarrow> bool \<times> LogElement list" where
  "log_send lg le q = (if is_loggable lg (le_level le) then enqueue le q else (True, q))"

section \<open>XML lines\<close>

definition xml_attr :: "string \<Rightarrow> string \<Rightarrow> string" where
  "xml_attr name val = name @ ''='' @ [CHR 0x27] @ val @ [CHR 0x27]"

definition xml_part :: "bool \<Rightarrow> string \<Rightarrow> string \<Rightarrow> string" where
  "xml_part on name val = (if on then xml_attr name val @ '' '' else [])"

definition xml_logline :: "log_env \<Rightarrow> LogElement \<Rightarrow> Logger \<Rightarrow> Logger" where
  "xml_logline env msg lg =
     (let on = has_flag lg;
          (sq, lg1) = (if on lf_sequence then (let (n, l) = next_sequence (le_val msg) lg in (num_text n, l)) else ([], lg));
          (tc, lg2) = (if on lf_thread then (let (c, l) = get_thread_code (le_tid msg) lg1 in ([char_of c], l)) else ([], lg1));
          line = ''   <logline ''
            @ xml_part (on lf_mstart) ''mstart'' (int_text (mstart_num env msg))
            @ xml_part (on lf_sstart) ''sstart'' (int_text (tv_secs (since_start env msg)))
            @ xml_part (on lf_sequence) ''sequence'' sq
            @ xml_part (on lf_thread) ''thread'' tc
            @ (case le_fileline msg of Some fl \<Rightarrow> xml_part (on lf_location) ''location'' fl | None \<Rightarrow> [])
            @ xml_part (on lf_direction) ''direction'' (direction_text msg)
            @ xml_part (on lf_timestamp) ''timestamp'' (GetTimeAsStringMS (log_localtime env) (le_when msg) 9 False)
            @ xml_part (on lf_minitimestamp) ''minitimestamp'' (GetTimeAsStringMini (log_localtime env) (le_when msg))
            @ xml_part (on lf_level) ''level'' (level_names ! level_num (le_level msg))
            @ xml_attr ''text'' (le_str msg) @ ''/>''
      in lg2\<lparr>lg_stream := lg_stream lg2 @ line @ [CHR 0x0A]\<rparr>)"

definition xml_preamble :: string where
  "xml_preamble =
     ''<?xml version='' @ [CHR 0x27] @ ''1.0'' @ [CHR 0x27] @ '' encoding='' @ [CHR 0x27] @ ''ISO-8859-1'' @ [CHR 0x27]
     @ ''?>'' @ [CHR 0x0A] @ ''<fix8>'' @ [CHR 0x0A]"

definition xml_postamble :: string where
  "xml_postamble = ''</fix8>'' @ [CHR 0x0A]"

section \<open>Rotation\<close>

text \<open>The files by name. \<^verbatim>\<open>rename\<close> of a file that does not exist fails and changes nothing.\<close>

type_synonym files = "string \<Rightarrow> string option"

definition rename :: "string \<Rightarrow> string \<Rightarrow> files \<Rightarrow> files" where
  "rename old new fs = (if fs old = None \<or> old = new then fs else fs(new := fs old, old := None))"

definition log_max_rotation :: nat where "log_max_rotation = 1024"

definition rotation_name :: "string \<Rightarrow> bool \<Rightarrow> nat \<Rightarrow> string" where
  "rotation_name pathname compress ii = pathname @ ''.'' @ dec_numeral (ii + 1) @ (if compress then ''.gz'' else [])"

definition rotation_list :: "string \<Rightarrow> bool \<Rightarrow> nat \<Rightarrow> string list" where
  "rotation_list pathname compress rotnum =
     pathname # map (rotation_name pathname compress) [0..<min rotnum log_max_rotation]"

fun rename_down :: "string list \<Rightarrow> nat \<Rightarrow> files \<Rightarrow> files option" where
  "rename_down rlst 0 fs = Some fs"
| "rename_down rlst (Suc ii) fs =
     (if Suc ii < length rlst then rename_down rlst ii (rename (rlst ! ii) (rlst ! Suc ii) fs) else None)"

text \<open>
  The file is opened for writing, which empties it, or for appending; \<open>writable\<close> says whether the
  system lets it be opened. \<^verbatim>\<open>None\<close> is a read past the end of the list of names; the answer is
  false where the code throws.
\<close>

definition rotate :: "(string \<Rightarrow> bool) \<Rightarrow> string \<Rightarrow> u32 \<Rightarrow> u32 \<Rightarrow> bool \<Rightarrow> files \<Rightarrow> (bool \<times> files) option" where
  "rotate writable pathname flags rotnum force fs =
     (let on = (\<lambda>flg. eb_has flags flg \<noteq> 0);
          renamed = (if 0 < rotnum \<and> (\<not> on lf_append \<or> force)
                     then rename_down (rotation_list pathname (on lf_compress) (unat rotnum)) (unat rotnum) fs
                     else Some fs)
      in Option.bind renamed (\<lambda>fs1.
           if \<not> writable pathname then Some (False, fs1)
           else Some (True, if on lf_append \<and> fs1 pathname \<noteq> None then fs1 else fs1(pathname \<mapsto> []))))"

section \<open>Lines and letters\<close>

text \<open>The two maps of letters are inverse to each other, so no two threads share one.\<close>

definition codes_ok :: "Logger \<Rightarrow> bool" where
  "codes_ok lg \<longleftrightarrow> om_ok (lg_thread_codes lg) \<and> om_ok (lg_rev_thread_codes lg) \<and>
     (\<forall>tid code. map_of (lg_thread_codes lg) tid = Some code \<longleftrightarrow> map_of (lg_rev_thread_codes lg) code = Some tid)"

lemma find_map_None: "find (\<lambda>a. m a = None) xs = Some x \<Longrightarrow> m x = None"
  by (induction xs) (auto split: if_splits)

lemma thread_code_cases:
  assumes "get_thread_code tid lg = (code, lg')"
  obtains (known) "map_of (lg_thread_codes lg) tid = Some code" "lg' = lg"
  | (new) "map_of (lg_thread_codes lg) tid = None" "map_of (lg_rev_thread_codes lg) code = None"
      "lg' = lg\<lparr>lg_thread_codes := om_insert tid code (lg_thread_codes lg),
        lg_rev_thread_codes := om_insert code tid (lg_rev_thread_codes lg)\<rparr>"
  | (full) "map_of (lg_thread_codes lg) tid = None" "code = 63" "lg' = lg"
proof (cases "map_of (lg_thread_codes lg) tid")
  case (Some c)
  then show thesis using known assms by (simp add: get_thread_code_def)
next
  case None
  show thesis
  proof (cases "free_code lg")
    case (Some c)
    then have "map_of (lg_rev_thread_codes lg) c = None" unfolding free_code_def by (rule find_map_None)
    then show thesis using new None Some assms by (auto simp: get_thread_code_def)
  next
    assume "free_code lg = None"
    then show thesis using full None assms by (simp add: get_thread_code_def)
  qed
qed

lemma get_thread_code_ok: "codes_ok lg \<Longrightarrow> get_thread_code tid lg = (code, lg') \<Longrightarrow> codes_ok lg'"
proof (erule thread_code_cases)
  assume ok: "codes_ok lg" and new: "map_of (lg_thread_codes lg) tid = None" "map_of (lg_rev_thread_codes lg) code = None"
    and lg': "lg' = lg\<lparr>lg_thread_codes := om_insert tid code (lg_thread_codes lg),
        lg_rev_thread_codes := om_insert code tid (lg_rev_thread_codes lg)\<rparr>"
  have "map_of (om_insert tid code (lg_thread_codes lg)) t = Some c \<longleftrightarrow>
      map_of (om_insert code tid (lg_rev_thread_codes lg)) c = Some t" for t c
    using ok new unfolding codes_ok_def by (cases "t = tid"; cases "c = code"; simp add: map_of_om_insert) (metis option.distinct(1))+
  then show ?thesis using ok by (simp add: codes_ok_def lg' om_ok_insert)
qed simp_all

lemma code_held:
  assumes "codes_ok lg" and "get_thread_code tid lg = (code, lg')" and "code \<noteq> 63"
  shows "map_of (lg_thread_codes lg') tid = Some code"
  using assms(2) by (rule thread_code_cases) (use assms(1,3) in \<open>auto simp: codes_ok_def map_of_om_insert\<close>)

lemma code_kept:
  assumes "codes_ok lg" and "get_thread_code tid lg = (code, lg')" and "map_of (lg_thread_codes lg) t = Some c"
  shows "map_of (lg_thread_codes lg') t = Some c"
proof -
  have "om_ok (lg_thread_codes lg)" using assms(1) by (simp add: codes_ok_def)
  with assms(2,3) show ?thesis by (elim thread_code_cases) (auto simp: map_of_om_insert)
qed

lemma two_threads:
  assumes "codes_ok lg" and "get_thread_code a lg = (x, lg1)" and "get_thread_code b lg1 = (y, lg2)" and "a \<noteq> b"
    and "x \<noteq> 63" and "y \<noteq> 63"
  shows "x \<noteq> y"
proof
  assume "x = y"
  have ok1: "codes_ok lg1" by (rule get_thread_code_ok [OF assms(1,2)])
  have "map_of (lg_thread_codes lg2) b = Some x" using code_held [OF ok1 assms(3,6)] \<open>x = y\<close> by simp
  moreover have "map_of (lg_thread_codes lg2) a = Some x"
    by (rule code_kept [OF ok1 assms(3) code_held [OF assms(1,2,5)]])
  ultimately have "a = b" using get_thread_code_ok [OF ok1 assms(3)] by (simp add: codes_ok_def)
  with assms(4) show False ..
qed

text \<open>
  What the queue does with an empty text and with the answer of \<^verbatim>\<open>try_push\<close>: the thread ends and
  leaves the rest unread, and a line that was queued is reported as a failure.
\<close>

lemma empty_text_ends_thread:
  "le_str msg = [] \<Longrightarrow> log_thread env (False # rounds) (msg # q) lg = (lg, q, 1)"
  by simp

lemma stop_leaves_queue: "log_thread env (True # rounds) q lg = (lg, q, 0)"
  by simp

lemma send_reports_failure: "is_loggable lg (le_level le) \<Longrightarrow> log_send lg le q = (False, q @ [le])"
  by (simp add: log_send_def enqueue_def)

text \<open>Rounding the seconds to the wanted decimals can give 60.\<close>

lemma sixty_seconds: "fixed_text 3 (599996 / 10000) = ''60.000''"
proof -
  have "\<lfloor>299998 / 5 :: rat\<rfloor> = 59999" by (simp add: floor_eq_iff)
  then have "round_half_even (599996 / 10000 * 10 ^ 3) = 60000"
    by (simp add: round_half_even_def Let_def)
  moreover have "dec_numeral 60 = ''60''" "fill0 3 (dec_numeral 0) = ''000''" by code_simp+
  ultimately show ?thesis by (simp add: fixed_text_def)
qed

section \<open>Renaming\<close>

lemma rename_down_spec:
  assumes "distinct rlst"
  shows "n < length rlst \<Longrightarrow> \<exists>fs'. rename_down rlst n fs = Some fs' \<and>
    (\<forall>f. f \<notin> set (take (Suc n) rlst) \<longrightarrow> fs' f = fs f) \<and>
    (\<forall>i \<le> n. fs' (rlst ! i) =
       (if i = 0 then (if n = 0 then fs (rlst ! 0) else None)
        else if i < n \<or> fs (rlst ! (i - 1)) \<noteq> None then fs (rlst ! (i - 1)) else fs (rlst ! i)))"
proof (induction n arbitrary: fs)
  case (Suc n)
  let ?fs = "rename (rlst ! n) (rlst ! Suc n) fs"
  have eq: "rlst ! i = rlst ! j \<longleftrightarrow> i = j" if "i \<le> Suc n" "j \<le> Suc n" for i j
    using nth_eq_iff_index_eq [OF assms] that Suc.prems by simp
  have fs: "?fs (rlst ! i) = (if i = n then None else if i = Suc n \<and> fs (rlst ! n) \<noteq> None then fs (rlst ! n) else fs (rlst ! i))"
    if "i \<le> Suc n" for i
    using eq [OF that, of n] eq [OF that, of "Suc n"] eq [of n "Suc n"] by (auto simp: rename_def)
  obtain fs' where fs': "rename_down rlst n ?fs = Some fs'"
    "\<And>f. f \<notin> set (take (Suc n) rlst) \<Longrightarrow> fs' f = ?fs f"
    "\<And>i. i \<le> n \<Longrightarrow> fs' (rlst ! i) = (if i = 0 then (if n = 0 then ?fs (rlst ! 0) else None)
        else if i < n \<or> ?fs (rlst ! (i - 1)) \<noteq> None then ?fs (rlst ! (i - 1)) else ?fs (rlst ! i))"
    using Suc.IH [of ?fs] Suc.prems by auto
  have take: "set (take (Suc (Suc n)) rlst) = insert (rlst ! Suc n) (set (take (Suc n) rlst))"
    using Suc.prems by (auto simp: take_Suc_conv_app_nth)
  have last: "rlst ! Suc n \<notin> set (take (Suc n) rlst)"
    using assms Suc.prems by (auto simp: in_set_conv_nth nth_eq_iff_index_eq)
  have nth: "rlst ! n \<in> set (take (Suc n) rlst)" using Suc.prems by (auto simp: take_Suc_conv_app_nth)
  have "fs' f = fs f" if "f \<notin> set (take (Suc (Suc n)) rlst)" for f
    using fs'(2) [of f] that nth unfolding take by (auto simp: rename_def)
  moreover have "fs' (rlst ! i) = (if i = 0 then None
        else if i < Suc n \<or> fs (rlst ! (i - 1)) \<noteq> None then fs (rlst ! (i - 1)) else fs (rlst ! i))" if "i \<le> Suc n" for i
  proof (cases "i = Suc n")
    case True
    then show ?thesis using fs'(2) [OF last] fs [of "Suc n"] by simp
  next
    case False
    then have "i \<le> n" using that by simp
    then show ?thesis using fs'(3) [of i] fs [of i] fs [of "i - 1"] fs [of n] by (auto split: if_splits)
  qed
  ultimately show ?case using fs'(1) Suc.prems by auto
qed simp

lemma dec_numeral_inj: "dec_numeral a = dec_numeral b \<Longrightarrow> a = b"
  by (metis dec_value_numeral)

lemma rotation_list_distinct: "distinct (rotation_list pathname compress n)"
  by (auto simp: rotation_list_def distinct_map rotation_name_def inj_on_def dest: dec_numeral_inj)

lemma nth_rotation:
  "n \<le> log_max_rotation \<Longrightarrow> length (rotation_list pathname compress n) = Suc n"
  "n \<le> log_max_rotation \<Longrightarrow> i < n \<Longrightarrow> rotation_list pathname compress n ! Suc i = rotation_name pathname compress i"
  by (simp_all add: rotation_list_def)

text \<open>More rotations than the list has names: the code reads past its end.\<close>

lemma too_many_rotations:
  assumes "log_max_rotation < unat rotnum" and "force"
  shows "rotate writable pathname flags rotnum force fs = None"
proof -
  obtain m where m: "unat rotnum = Suc m" using assms(1) by (cases "unat rotnum") auto
  have "\<not> Suc m < length (rotation_list pathname c (Suc m))" for c
    using assms(1) m by (simp add: rotation_list_def)
  then have "rename_down (rotation_list pathname c (unat rotnum)) (unat rotnum) fs = None" for c
    by (simp add: m)
  moreover have "0 < rotnum" using m by (simp add: word_less_nat_alt)
  ultimately show ?thesis using assms(2) by (simp add: rotate_def)
qed

section \<open>Properties\<close>

text \<open>
  C26: rotation opens an empty log file and moves every old file on by one: the log to number 1, each
  numbered file to the next number. A number whose predecessor is missing becomes free, only the
  last one then keeps its file, and no other file changes.
\<close>

theorem rotate_shifts:
  assumes "0 < rotnum" and "unat rotnum \<le> log_max_rotation" and "eb_has flags lf_append = 0 \<or> force" and "writable pathname"
    and "compress \<longleftrightarrow> eb_has flags lf_compress \<noteq> 0"
  shows "\<exists>fs'. rotate writable pathname flags rotnum force fs = Some (True, fs') \<and> fs' pathname = Some [] \<and>
    (\<forall>i < unat rotnum. fs' (rotation_name pathname compress i) =
      (let older = (if i = 0 then pathname else rotation_name pathname compress (i - 1))
       in if fs older \<noteq> None \<or> i + 1 < unat rotnum then fs older else fs (rotation_name pathname compress i))) \<and>
    (\<forall>f. f \<noteq> pathname \<and> f \<notin> rotation_name pathname compress ` {..< unat rotnum} \<longrightarrow> fs' f = fs f)"
proof -
  let ?n = "unat rotnum" let ?l = "rotation_list pathname compress ?n"
  have n: "0 < ?n" using assms(1) by (simp add: word_less_nat_alt)
  note len = nth_rotation(1) [OF assms(2), of pathname compress]
  obtain fs1 where fs1: "rename_down ?l ?n fs = Some fs1"
    "\<And>f. f \<notin> set (take (Suc ?n) ?l) \<Longrightarrow> fs1 f = fs f"
    "\<And>i. i \<le> ?n \<Longrightarrow> fs1 (?l ! i) = (if i = 0 then (if ?n = 0 then fs (?l ! 0) else None)
        else if i < ?n \<or> fs (?l ! (i - 1)) \<noteq> None then fs (?l ! (i - 1)) else fs (?l ! i))"
    using rename_down_spec [OF rotation_list_distinct, of ?n pathname compress ?n fs] len by auto
  have first: "?l ! 0 = pathname" by (simp add: rotation_list_def)
  have "fs1 pathname = None" using fs1(3) [of 0] n first by simp
  then have r: "rotate writable pathname flags rotnum force fs = Some (True, fs1(pathname \<mapsto> []))"
    using assms(1,3,4) fs1(1) unfolding assms(5) by (auto simp: rotate_def)
  have other: "rotation_name pathname compress i \<noteq> pathname" for i by (simp add: rotation_name_def)
  have moved: "fs1 (rotation_name pathname compress i) =
      (let older = (if i = 0 then pathname else rotation_name pathname compress (i - 1))
       in if fs older \<noteq> None \<or> i + 1 < ?n then fs older else fs (rotation_name pathname compress i))" if "i < ?n" for i
  proof -
    have "?l ! i = (if i = 0 then pathname else rotation_name pathname compress (i - 1))"
      using nth_rotation(2) [OF assms(2), of "i - 1"] first that by (cases i) auto
    then show ?thesis
      using fs1(3) [of "Suc i"] nth_rotation(2) [OF assms(2) that] that by (auto simp: Let_def)
  qed
  have "set (take (Suc ?n) ?l) = insert pathname (rotation_name pathname compress ` {..< ?n})"
    using len assms(2) by (simp add: rotation_list_def atLeast0LessThan)
  then show ?thesis using r moved fs1(2) other by auto
qed

theorem rotate_shifts_witness:
  "\<exists>fs'. rotate (\<lambda>f. True) ''l'' StdFlags 2 False ([''l'' \<mapsto> ''new'', ''l.1'' \<mapsto> ''old'', ''l.2'' \<mapsto> ''oldest'']) = Some (True, fs') \<and>
    fs' ''l'' = Some [] \<and> fs' ''l.1'' = Some ''new'' \<and> fs' ''l.2'' = Some ''old''"
proof -
  have names: "rotation_name ''l'' False 0 = ''l.1''" "rotation_name ''l'' False 1 = ''l.2''" by code_simp+
  have off: "eb_has StdFlags lf_append = 0" "eb_has StdFlags lf_compress = 0" by code_simp+
  let ?fs = "[''l'' \<mapsto> ''new'', ''l.1'' \<mapsto> ''old'', ''l.2'' \<mapsto> ''oldest'']"
  obtain fs' where fs': "rotate (\<lambda>f. True) ''l'' StdFlags 2 False ?fs = Some (True, fs')" "fs' ''l'' = Some []"
    "\<And>i. i < unat (2 :: u32) \<Longrightarrow> fs' (rotation_name ''l'' False i) =
      (let older = (if i = 0 then ''l'' else rotation_name ''l'' False (i - 1))
       in if ?fs older \<noteq> None \<or> i + 1 < unat (2 :: u32) then ?fs older else ?fs (rotation_name ''l'' False i))"
    using rotate_shifts [of 2 StdFlags False "\<lambda>f. True" "''l''" False ?fs] off by (auto simp: log_max_rotation_def)
  have "fs' ''l.1'' = Some ''new''" "fs' ''l.2'' = Some ''old''"
    using fs'(3) [of 0] fs'(3) [of 1] names by (simp_all add: Let_def)
  with fs'(1,2) show ?thesis by blast
qed

end
