(* ===== verification/Config.thy ===== *)
theory Config
  imports XmlTree Session Logging
begin

text \<open>
  The configuration (\<^verbatim>\<open>include/fix8/configuration.hpp\<close>, \<^verbatim>\<open>runtime/configuration.cpp\<close>): the groups
  of a document, attributes with the fallback to the default element, and what is made of them:
  schedules, servers, clients, persisters and loggers. Addresses belong to the Poco library and are
  texts; what its constructors accept is a parameter. The stores that need Berkeley DB, memcached
  or redis and the SSL context are left out with their macros.
\<close>

section \<open>Errors and values\<close>

text \<open>\<open>StdException\<close> is what the conversions of the standard library throw.\<close>

datatype cfg_error =
  ConfigurationError string string
| StdException
| PocoException
| Raised error

definition cbind :: "cfg_error + 'a \<Rightarrow> ('a \<Rightarrow> cfg_error + 'b) \<Rightarrow> cfg_error + 'b" where
  "cbind m f = (case m of Inl e \<Rightarrow> Inl e | Inr x \<Rightarrow> f x)"

lemma cbind_simps [simp]: "cbind (Inl e) f = Inl e" "cbind (Inr x) f = f x"
  by (simp_all add: cbind_def)

lemma cbind_Inr: "cbind m f = Inr y \<longleftrightarrow> (\<exists>x. m = Inr x \<and> f x = Inr y)"
  by (cases m) simp_all

definition raised :: "error + 'a \<Rightarrow> cfg_error + 'a" where
  "raised m = (case m of Inl e \<Rightarrow> Inl (Raised e) | Inr x \<Rightarrow> Inr x)"

text \<open>White space, a sign and digits, the rest of the text does not matter.\<close>

definition sto_number :: "string \<Rightarrow> int option" where
  "sto_number source =
     (let s = dropWhile isspace source;
          neg = (s \<noteq> [] \<and> hd s = CHR ''-'');
          s1 = (if s \<noteq> [] \<and> (hd s = CHR ''-'' \<or> hd s = CHR ''+'') then tl s else s);
          ds = takeWhile isdigit s1
      in if ds = [] then None else Some (if neg then - int (dec_value ds) else int (dec_value ds)))"

definition get_int :: "string \<Rightarrow> cfg_error + int" where
  "get_int source =
     (case sto_number source of
        None \<Rightarrow> Inl StdException
      | Some n \<Rightarrow> if - (2 ^ 31) \<le> n \<and> n < 2 ^ 31 then Inr n else Inl StdException)"

text \<open>\<^verbatim>\<open>stoul\<close> takes a sign too and gives 64 bits, of which an \<^verbatim>\<open>unsigned\<close> keeps the lower half.\<close>

definition get_unsigned :: "string \<Rightarrow> cfg_error + u32" where
  "get_unsigned source =
     (case sto_number source of
        None \<Rightarrow> Inl StdException
      | Some n \<Rightarrow> if \<bar>n\<bar> < 2 ^ 64 then Inr (of_int n) else Inl StdException)"

definition get_bool :: "string \<Rightarrow> cfg_error + bool" where
  "get_bool source = Inr (get_value_bool source)"

text \<open>A string is read from a stream: its first word.\<close>

definition get_word :: "string \<Rightarrow> cfg_error + string" where
  "get_word source = Inr (takeWhile (\<lambda>c. \<not> isspace c) (dropWhile isspace source))"

definition FindAttr :: "(string \<Rightarrow> cfg_error + 'a) \<Rightarrow> xel \<Rightarrow> string \<Rightarrow> 'a \<Rightarrow> cfg_error + 'a" where
  "FindAttr get x tag defValue = (case GetAttr x tag of Some v \<Rightarrow> get v | None \<Rightarrow> Inr defValue)"

section \<open>The configuration\<close>

datatype group_type =
  g_sessions | g_persisters | g_loggers | g_server_group | g_ssl_context | g_schedules | g_logins | g_client_group

type_synonym config_map = "(string \<times> xel) list"

record Configuration =
  cf_env :: xenv
  cf_root :: "xel option"
  cf_default :: "xel option"
  cf_groups :: "group_type \<Rightarrow> config_map"
  cf_allsessions :: "xel list"

definition xml_find :: "xenv \<Rightarrow> xel \<Rightarrow> xel \<Rightarrow> string \<Rightarrow> xel option" where
  "xml_find env rt x path = x_find env rt x path None (CHR ''/'')"

text \<open>The elements of a set in its order.\<close>

definition xml_find_set :: "xenv \<Rightarrow> xel \<Rightarrow> xel \<Rightarrow> string \<Rightarrow> xel list" where
  "xml_find_set env rt x path = map snd (snd (x_find_all env rt x path [] None (CHR ''/'')))"

definition new_config :: "xenv \<Rightarrow> xel option \<Rightarrow> Configuration" where
  "new_config env rt =
     \<lparr>cf_env = env, cf_root = rt,
      cf_default = Option.bind rt (\<lambda>r. xml_find env r r ''fix8/default''),
      cf_groups = (\<lambda>_. []), cf_allsessions = []\<rparr>"

definition find_element :: "string \<Rightarrow> config_map \<Rightarrow> xel option" where
  "find_element tag from = map_of from tag"

definition cfg_find_group :: "Configuration \<Rightarrow> group_type \<Rightarrow> string \<Rightarrow> xel option" where
  "cfg_find_group cf ty tag = find_element tag (cf_groups cf ty)"

text \<open>\<^verbatim>\<open>insert\<close> of the map leaves an entry that is there.\<close>

definition cm_insert :: "string \<Rightarrow> xel \<Rightarrow> config_map \<Rightarrow> config_map" where
  "cm_insert name x m = (if map_of m name = None then m @ [(name, x)] else m)"

text \<open>
  The condition of \<open>load_map\<close> reads \<^verbatim>\<open>(has a name && is_session) ? active : true\<close>: a session without
  a name is taken whether or not it is active.
\<close>

definition name_of :: "xel \<Rightarrow> string" where
  "name_of pp = (case GetAttr pp ''name'' of Some n \<Rightarrow> n | None \<Rightarrow> [])"

definition is_active :: "xel \<Rightarrow> bool" where
  "is_active pp = (case GetAttr pp ''active'' of Some v \<Rightarrow> get_value_bool v | None \<Rightarrow> False)"

definition loads :: "bool \<Rightarrow> xel \<Rightarrow> bool" where
  "loads is_session pp = (if GetAttr pp ''name'' \<noteq> None \<and> is_session then is_active pp else True)"

definition load_one :: "bool \<Rightarrow> xel \<Rightarrow> config_map \<times> xel list \<Rightarrow> config_map \<times> xel list" where
  "load_one is_session pp =
     (\<lambda>(m, sessions). if loads is_session pp
        then (cm_insert (name_of pp) pp m, if is_session then sessions @ [pp] else sessions) else (m, sessions))"

definition load_map :: "string \<Rightarrow> group_type \<Rightarrow> bool \<Rightarrow> xel \<Rightarrow> Configuration \<Rightarrow> nat \<times> Configuration" where
  "load_map tag ty is_session rt cf =
     (let (m, sessions) = fold (load_one is_session) (xml_find_set (cf_env cf) rt rt tag)
                            (cf_groups cf ty, cf_allsessions cf)
      in (length m, cf\<lparr>cf_groups := (cf_groups cf)(ty := m), cf_allsessions := sessions\<rparr>))"

definition config_items :: "(string \<times> group_type \<times> bool) list" where
  "config_items =
     [(''session'', g_sessions, True), (''log'', g_loggers, False), (''server_group'', g_server_group, False),
      (''client_group'', g_client_group, False), (''ssl_context'', g_ssl_context, False),
      (''schedule'', g_schedules, False), (''login'', g_logins, False), (''persist'', g_persisters, False)]"

fun load_items :: "(string \<times> group_type \<times> bool) list \<Rightarrow> xel \<Rightarrow> Configuration \<Rightarrow> cfg_error + Configuration" where
  "load_items [] rt cf = Inr cf"
| "load_items ((tag, ty, required) # items) rt cf =
     (let (n, cf1) = load_map (''fix8/'' @ tag) ty required rt cf
      in if n = 0 \<and> required
         then Inl (ConfigurationError ''could not locate server session in configuration'' tag)
         else load_items items rt cf1)"

definition config_process :: "Configuration \<Rightarrow> cfg_error + nat \<times> Configuration" where
  "config_process cf =
     (case cf_root cf of
        None \<Rightarrow> Inl (ConfigurationError ''Configuration error'' ''could not create root xml entity'')
      | Some rt \<Rightarrow> cbind (load_items config_items rt cf) (\<lambda>cf1. Inr (length (cf_groups cf1 g_sessions), cf1)))"

definition config_stream :: "nat \<Rightarrow> xenv \<Rightarrow> string \<Rightarrow> bool \<Rightarrow> cfg_error + Configuration" where
  "config_stream fuel env xml do_process =
     cbind (raised (Factory_stream fuel env xml (Some ''stream''))) (\<lambda>(x, _).
       let cf = new_config env (Some x)
       in if do_process then cbind (config_process cf) (\<lambda>(_, cf1). Inr cf1) else Inr cf)"

definition config_file :: "nat \<Rightarrow> xenv \<Rightarrow> string \<Rightarrow> bool \<Rightarrow> cfg_error + Configuration" where
  "config_file fuel env xmlfile do_process =
     cbind (raised (Factory_file fuel env xmlfile)) (\<lambda>rt.
       let cf = new_config env rt
       in if xe_files env (cstr xmlfile) = None
          then Inl (ConfigurationError ''config file not found'' xmlfile)
          else if do_process then cbind (config_process cf) (\<lambda>(_, cf1). Inr cf1) else Inr cf)"

definition get_session :: "Configuration \<Rightarrow> nat \<Rightarrow> xel option" where
  "get_session cf n = (if n < length (cf_allsessions cf) then Some (cf_allsessions cf ! n) else None)"

section \<open>Attributes with a default\<close>

definition from_or_default :: "Configuration \<Rightarrow> xel option \<Rightarrow> string \<Rightarrow> string option" where
  "from_or_default cf from tag =
     (case Option.bind from (\<lambda>x. GetAttr x tag) of
        Some v \<Rightarrow> Some v
      | None \<Rightarrow> Option.bind (cf_default cf) (\<lambda>d. GetAttr d tag))"

definition find_or_default ::
  "(string \<Rightarrow> cfg_error + 'a) \<Rightarrow> Configuration \<Rightarrow> xel option \<Rightarrow> string \<Rightarrow> 'a \<Rightarrow> cfg_error + 'a" where
  "find_or_default get cf from tag def =
     (case from of
        None \<Rightarrow> Inr def
      | Some x \<Rightarrow>
          if HasAttr x tag then FindAttr get x tag def
          else (case cf_default cf of Some d \<Rightarrow> FindAttr get d tag def | None \<Rightarrow> Inr def))"

text \<open>A string field that is not found stays empty.\<close>

definition get_string_field :: "Configuration \<Rightarrow> xel option \<Rightarrow> string \<Rightarrow> string" where
  "get_string_field cf from tag = (case from_or_default cf from tag of Some v \<Rightarrow> v | None \<Rightarrow> [])"

definition get_sender_comp_id :: "Configuration \<Rightarrow> xel option \<Rightarrow> string" where
  "get_sender_comp_id cf from = get_string_field cf from ''sender_comp_id''"

definition get_target_comp_id :: "Configuration \<Rightarrow> xel option \<Rightarrow> string" where
  "get_target_comp_id cf from = get_string_field cf from ''target_comp_id''"

definition get_default_appl_ver_id :: "Configuration \<Rightarrow> xel option \<Rightarrow> string" where
  "get_default_appl_ver_id cf from = get_string_field cf from ''default_appl_ver_id''"

definition default_retry_interval :: u32 where "default_retry_interval = 5000"
definition default_login_retries :: int where "default_login_retries = 3"
definition default_tabsize :: u32 where "default_tabsize = 3"
definition default_hb_interval :: u32 where "default_hb_interval = 30"
definition default_connect_timeout :: u32 where "default_connect_timeout = 10"
definition default_log_rotation :: u32 where "default_log_rotation = 5"

definition get_connect_timeout :: "Configuration \<Rightarrow> xel option \<Rightarrow> cfg_error + u32" where
  "get_connect_timeout cf from = find_or_default get_unsigned cf from ''connect_timeout'' default_connect_timeout"

definition get_retry_interval :: "Configuration \<Rightarrow> xel option \<Rightarrow> cfg_error + u32" where
  "get_retry_interval cf from = find_or_default get_unsigned cf from ''login_retry_interval'' default_retry_interval"

definition get_retry_count :: "Configuration \<Rightarrow> xel option \<Rightarrow> cfg_error + u32" where
  "get_retry_count cf from =
     cbind (find_or_default get_int cf from ''login_retries'' default_login_retries) (\<lambda>rc.
       if rc < 0 then Inl (ConfigurationError ''Configuration error'' ''retry count must be >= 0'')
       else Inr (of_int rc))"

definition get_tcp_recvbuf_sz :: "Configuration \<Rightarrow> xel option \<Rightarrow> cfg_error + u32" where
  "get_tcp_recvbuf_sz cf from = find_or_default get_unsigned cf from ''tcp_recv_buffer'' 0"

definition get_tcp_sendbuf_sz :: "Configuration \<Rightarrow> xel option \<Rightarrow> cfg_error + u32" where
  "get_tcp_sendbuf_sz cf from = find_or_default get_unsigned cf from ''tcp_send_buffer'' 0"

definition get_version :: "Configuration \<Rightarrow> xel option \<Rightarrow> cfg_error + u32" where
  "get_version cf from = find_or_default get_unsigned cf from ''fix_version'' 0"

definition get_tabsize :: "Configuration \<Rightarrow> xel option \<Rightarrow> cfg_error + u32" where
  "get_tabsize cf from = find_or_default get_unsigned cf from ''tabsize'' default_tabsize"

definition get_logfile_rotation :: "Configuration \<Rightarrow> xel option \<Rightarrow> cfg_error + u32" where
  "get_logfile_rotation cf from = find_or_default get_unsigned cf from ''rotation'' default_log_rotation"

definition get_heartbeat_interval :: "Configuration \<Rightarrow> xel option \<Rightarrow> cfg_error + u32" where
  "get_heartbeat_interval cf from = find_or_default get_unsigned cf from ''heartbeat_interval'' default_hb_interval"

definition get_tcp_nodelay :: "Configuration \<Rightarrow> xel option \<Rightarrow> cfg_error + bool" where
  "get_tcp_nodelay cf from = find_or_default get_bool cf from ''tcp_nodelay'' True"

definition get_tcp_keepalive :: "Configuration \<Rightarrow> xel option \<Rightarrow> cfg_error + bool" where
  "get_tcp_keepalive cf from = find_or_default get_bool cf from ''tcp_keepalive'' False"

definition get_tcp_reuseaddr :: "Configuration \<Rightarrow> xel option \<Rightarrow> cfg_error + bool" where
  "get_tcp_reuseaddr cf from = find_or_default get_bool cf from ''tcp_reuseaddr'' False"

definition get_tcp_linger :: "Configuration \<Rightarrow> xel option \<Rightarrow> cfg_error + int" where
  "get_tcp_linger cf from = find_or_default get_int cf from ''tcp_linger'' (-1)"

definition get_silent_disconnect :: "Configuration \<Rightarrow> xel option \<Rightarrow> cfg_error + bool" where
  "get_silent_disconnect cf from = find_or_default get_bool cf from ''silent_disconnect'' False"

definition get_enforce_compids_flag :: "Configuration \<Rightarrow> xel option \<Rightarrow> cfg_error + bool" where
  "get_enforce_compids_flag cf from = find_or_default get_bool cf from ''enforce_compids'' True"

definition get_ignore_logon_sequence_check_flag :: "Configuration \<Rightarrow> xel option \<Rightarrow> cfg_error + bool" where
  "get_ignore_logon_sequence_check_flag cf from =
     find_or_default get_bool cf from ''ignore_logon_sequence_check'' False"

definition get_no_chksum_flag :: "Configuration \<Rightarrow> xel option \<Rightarrow> cfg_error + bool" where
  "get_no_chksum_flag cf from = find_or_default get_bool cf from ''no_chksum'' False"

definition get_permissive_mode_flag :: "Configuration \<Rightarrow> xel option \<Rightarrow> cfg_error + bool" where
  "get_permissive_mode_flag cf from = find_or_default get_bool cf from ''permissive_mode'' False"

definition get_reset_sequence_number_flag :: "Configuration \<Rightarrow> xel option \<Rightarrow> cfg_error + bool" where
  "get_reset_sequence_number_flag cf from = find_or_default get_bool cf from ''reset_sequence_numbers'' False"

definition get_always_seqnum_assign :: "Configuration \<Rightarrow> xel option \<Rightarrow> cfg_error + bool" where
  "get_always_seqnum_assign cf from = find_or_default get_bool cf from ''always_seqnum_assign'' False"

datatype role = cn_acceptor_role | cn_initiator_role | cn_unknown

definition get_role :: "Configuration \<Rightarrow> xel option \<Rightarrow> role" where
  "get_role cf from =
     (case from_or_default cf from ''role'' of
        Some r \<Rightarrow> if strcaseeq r ''initiator'' then cn_initiator_role
                  else if strcaseeq r ''acceptor'' then cn_acceptor_role else cn_unknown
      | None \<Rightarrow> cn_unknown)"

definition get_process_model :: "Configuration \<Rightarrow> xel option \<Rightarrow> process_model" where
  "get_process_model cf from =
     (case from_or_default cf from ''process_model'' of
        Some pm \<Rightarrow> [pm_thread, pm_pipeline, pm_coro] ! enum_str_get [''threaded'', ''pipelined'', ''coroutine''] pm 0 False
      | None \<Rightarrow> pm_pipeline)"

definition get_all_sessions :: "Configuration \<Rightarrow> role \<Rightarrow> xel list \<Rightarrow> nat \<times> xel list" where
  "get_all_sessions cf r target =
     (let t = target @ filter (\<lambda>pp. r = cn_unknown \<or> get_role cf (Some pp) = r) (cf_allsessions cf) in (length t, t))"

section \<open>Addresses\<close>

record poco =
  po_socket :: "string \<Rightarrow> string \<Rightarrow> string option"
  po_no_socket :: string
  po_ip :: "string \<Rightarrow> string option"
  po_no_ip :: string

definition poco_value :: "string option \<Rightarrow> cfg_error + string" where
  "poco_value a = (case a of Some v \<Rightarrow> Inr v | None \<Rightarrow> Inl PocoException)"

definition get_address :: "poco \<Rightarrow> Configuration \<Rightarrow> xel option \<Rightarrow> cfg_error + string" where
  "get_address po cf from =
     (case from_or_default cf from ''ip'' of
        None \<Rightarrow> Inr (po_no_socket po)
      | Some ip \<Rightarrow>
          (case from_or_default cf from ''port'' of
             None \<Rightarrow> Inr (po_no_socket po)
           | Some port \<Rightarrow> poco_value (po_socket po ip port)))"

definition get_ip :: "poco \<Rightarrow> Configuration \<Rightarrow> xel option \<Rightarrow> cfg_error + string" where
  "get_ip po cf from =
     (case from_or_default cf from ''ip'' of None \<Rightarrow> Inr (po_no_ip po) | Some ip \<Rightarrow> poco_value (po_ip po ip))"

record Server =
  sv_hostname :: string
  sv_max_retries :: u32
  sv_retries :: u32
  sv_addr :: string
  sv_reset_sequence_numbers :: bool

text \<open>What a named group of an element is, when the attribute and the group exist.\<close>

definition named_group :: "Configuration \<Rightarrow> xel option \<Rightarrow> string \<Rightarrow> group_type \<Rightarrow> xel option" where
  "named_group cf from tag ty = Option.bind (from_or_default cf from tag) (cfg_find_group cf ty)"

fun add_servers :: "poco \<Rightarrow> Configuration \<Rightarrow> xel list \<Rightarrow> Server list \<Rightarrow> cfg_error + Server list" where
  "add_servers po cf [] target = Inr target"
| "add_servers po cf (pp # pps) target =
     cbind (get_address po cf (Some pp)) (\<lambda>addr.
     cbind (FindAttr get_bool pp ''active'' True) (\<lambda>active.
       if GetAttr pp ''name'' \<noteq> None \<and> addr \<noteq> po_no_socket po \<and> active then
         cbind (FindAttr get_int pp ''max_retries'' default_login_retries) (\<lambda>retries.
         cbind (FindAttr get_bool pp ''reset_sequence_numbers'' False) (\<lambda>reset.
           add_servers po cf pps (target @
             [\<lparr>sv_hostname = name_of pp, sv_max_retries = of_int retries, sv_retries = 0, sv_addr = addr,
               sv_reset_sequence_numbers = reset\<rparr>])))
       else add_servers po cf pps target))"

definition get_addresses :: "poco \<Rightarrow> Configuration \<Rightarrow> xel \<Rightarrow> xel option \<Rightarrow> Server list \<Rightarrow> cfg_error + nat \<times> Server list" where
  "get_addresses po cf rt from target =
     (case named_group cf from ''server_group'' g_server_group of
        None \<Rightarrow> Inr (0, target)
      | Some which \<Rightarrow>
          cbind (add_servers po cf (xml_find_set (cf_env cf) rt which ''server_group/server'') target)
            (\<lambda>t. Inr (length t, t)))"

fun add_clients :: "poco \<Rightarrow> Configuration \<Rightarrow> xel list \<Rightarrow> (string \<times> string \<times> string) list \<Rightarrow> cfg_error + (string \<times> string \<times> string) list" where
  "add_clients po cf [] clients = Inr clients"
| "add_clients po cf (pp # pps) clients =
     cbind (get_ip po cf (Some pp)) (\<lambda>addr.
       case (GetAttr pp ''name'', GetAttr pp ''target_comp_id'') of
         (Some name, Some tci) \<Rightarrow>
           cbind (FindAttr get_bool pp ''active'' True) (\<lambda>active.
             if \<not> active then add_clients po cf pps clients
             else if map_of clients tci \<noteq> None
             then Inl (ConfigurationError ''Failed to add client from client_group'' tci)
             else add_clients po cf pps (clients @ [(tci, name, addr)]))
       | _ \<Rightarrow> add_clients po cf pps clients)"

definition create_clients :: "poco \<Rightarrow> Configuration \<Rightarrow> xel \<Rightarrow> xel option \<Rightarrow> cfg_error + (string \<times> string \<times> string) list" where
  "create_clients po cf rt from =
     (case named_group cf from ''target_comp_id'' g_client_group of
        None \<Rightarrow> Inr []
      | Some which \<Rightarrow> add_clients po cf (xml_find_set (cf_env cf) rt which ''client_group/client'') [])"

section \<open>Schedules\<close>

definition get_time_field :: "ticks \<Rightarrow> xel option \<Rightarrow> string \<Rightarrow> bool \<Rightarrow> cfg_error + ticks" where
  "get_time_field now from tag timeonly =
     (case Option.bind from (\<lambda>x. GetAttr x tag) of
        Some s \<Rightarrow>
          if length s = 8 then (case time_parse now s timeonly of
                                  Some t \<Rightarrow> Inr t | None \<Rightarrow> Inl (Raised (Undefined BufferOverflow)))
          else Inr errorticks
      | None \<Rightarrow> Inr errorticks)"

text \<open>The offset of a default schedule is not set by its constructor; nothing reads it while it is invalid.\<close>

definition no_schedule :: schedule where
  "no_schedule = \<lparr>sc_start = errorticks, sc_end = errorticks, sc_start_day = -1, sc_end_day = -1, sc_toffset = 0\<rparr>"

definition end_time :: "ticks \<Rightarrow> u32 \<Rightarrow> ticks \<Rightarrow> cfg_error + ticks" where
  "end_time start duration e =
     (if is_errorval e then Inr (if duration \<noteq> 0 then start + uint duration * tv_minute else e)
      else if e \<le> start
      then Inl (ConfigurationError ''Configuration error'' ''Schedule end time cannot be equal to or before session start time'')
      else Inr e)"

definition day_field :: "xel \<Rightarrow> string \<Rightarrow> int \<Rightarrow> int" where
  "day_field which tag def = (case GetAttr which tag of Some d \<Rightarrow> decode_dow d | None \<Rightarrow> def)"

definition create_schedule :: "ticks \<Rightarrow> xel \<Rightarrow> cfg_error + schedule" where
  "create_schedule now which =
     cbind (get_time_field now (Some which) ''start_time'' True) (\<lambda>start.
     if is_errorval start then Inr no_schedule
     else
       cbind (FindAttr get_int which ''utc_offset_mins'' 0) (\<lambda>utc_offset.
       cbind (FindAttr get_int which ''duration'' 0) (\<lambda>duration.
       cbind (get_time_field now (Some which) ''end_time'' True) (\<lambda>e0.
       cbind (end_time start (of_int duration) e0) (\<lambda>e.
         let start_day = day_field which ''start_day'' (-1);
             end_day = day_field which ''end_day'' (if start_day < 0 then -1 else start_day)
         in Inr \<lparr>sc_start = start, sc_end = e, sc_start_day = start_day, sc_end_day = end_day,
                 sc_toffset = utc_offset * tv_minute\<rparr>)))))"

definition create_session_schedule :: "ticks \<Rightarrow> Configuration \<Rightarrow> xel option \<Rightarrow> cfg_error + (schedule \<times> int \<times> string) option" where
  "create_session_schedule now cf from =
     (case named_group cf from ''schedule'' g_schedules of
        None \<Rightarrow> Inr None
      | Some which \<Rightarrow>
          cbind (create_schedule now which) (\<lambda>sch.
          cbind (FindAttr get_int which ''reject_code'' 0) (\<lambda>code.
            Inr (Some (sch, code, case GetAttr which ''reject_text'' of
                                    Some t \<Rightarrow> t | None \<Rightarrow> ''Business messages are not accepted now.'')))))"

definition create_login_schedule :: "ticks \<Rightarrow> Configuration \<Rightarrow> xel option \<Rightarrow> cfg_error + schedule" where
  "create_login_schedule now cf from =
     (case named_group cf from ''login'' g_logins of
        Some which \<Rightarrow> create_schedule now which | None \<Rightarrow> Inr no_schedule)"

section \<open>Stores and loggers\<close>

definition id_suffix :: "string \<Rightarrow> string \<Rightarrow> string" where
  "id_suffix sender target = ''.'' @ sender @ ''.'' @ target"

definition attr_or :: "xel \<Rightarrow> string \<Rightarrow> string \<Rightarrow> string" where
  "attr_or which tag def = (case GetAttr which tag of Some v \<Rightarrow> v | None \<Rightarrow> def)"

definition db_name :: "Configuration \<Rightarrow> xel option \<Rightarrow> xel \<Rightarrow> session_id option \<Rightarrow> string" where
  "db_name cf from which sid =
     (let db = attr_or which ''db'' (attr_or which ''session_prefix'' ''persist_db'')
      in case sid of
           Some i \<Rightarrow> db @ id_suffix (id_sender i) (id_target i)
         | None \<Rightarrow>
             if get_value_bool (attr_or which ''use_session_id'' [])
             then db @ id_suffix (get_sender_comp_id cf from) (get_target_comp_id cf from) else db)"

text \<open>The files and the size of a disk are those the file store works on.\<close>

definition create_persister ::
  "file_system \<Rightarrow> nat \<Rightarrow> Configuration \<Rightarrow> xel option \<Rightarrow> session_id option \<Rightarrow> bool \<Rightarrow> cfg_error + persister option" where
  "create_persister files limit cf from sid flag =
     (case named_group cf from ''persist'' g_persisters of
        None \<Rightarrow> Inr None
      | Some which \<Rightarrow>
          (case GetAttr which ''type'' of
             None \<Rightarrow> Inr None
           | Some ty \<Rightarrow>
               if ty = ''mem'' then Inr (Some (Memory []))
               else if ty = ''file'' then
                 cbind (FindAttr get_int which ''rotation'' 0) (\<lambda>rot.
                 cbind (raised (file_initialise (attr_or which ''dir'' ''./'') (db_name cf from which sid) flag
                                 (new_file_persister files limit (unat (of_int rot :: u32))))) (\<lambda>(p, ok).
                   Inr (if ok then Some (File p) else None)))
               else Inr None))"

text \<open>The chunks of a list of flags: at most 31 characters each, up to a bar.\<close>

function log_tokens :: "string \<Rightarrow> string list" where
  "log_tokens s =
     (let t = takeWhile (\<lambda>c. c \<noteq> CHR ''|'') (take 31 s)
      in if t = [] then [] else t # (if length t = length s then [] else log_tokens (drop (Suc (length t)) s)))"
  by auto
termination
proof (relation "measure length")
  fix s t :: string
  assume "t = takeWhile (\<lambda>c. c \<noteq> CHR ''|'') (take 31 s)" "t \<noteq> []"
  then show "(drop (Suc (length t)) s, s) \<in> measure length" by (cases s) auto
qed simp

declare log_tokens.simps [simp del]

definition add_log_flag :: "string list \<Rightarrow> string \<Rightarrow> u32 \<times> nat list \<Rightarrow> u32 \<times> nat list" where
  "add_log_flag names token =
     (\<lambda>(flags, positions).
       let (flags1, evalue) = eb_set_name flags names (trim (cstr token) default_ws) True True
       in (flags1, if 0 \<le> evalue then positions @ [nat evalue] else positions))"

definition get_logflags :: "string \<Rightarrow> string list \<Rightarrow> xel option \<Rightarrow> u32 \<times> nat list" where
  "get_logflags tag names from =
     (case Option.bind from (\<lambda>x. GetAttr x tag) of
        Some s \<Rightarrow> fold (add_log_flag names) (log_tokens s) (0, [])
      | None \<Rightarrow> (0, []))"

datatype logtype = session_log | protocol_log

text \<open>The logger that is made, with the arguments of its constructor: flags, levels, delimiter, positions.\<close>

type_synonym logger_args = "u32 \<times> u32 \<times> string \<times> nat list"

datatype made_logger =
  Made_pipe string logger_args
| Made_broadcast string u32 logger_args
| Made_xml string u32 logger_args
| Made_file string u32 logger_args

text \<open>\<^verbatim>\<open>^([^:]+):([0-9]+)$\<close>\<close>

definition ip_port :: "string \<Rightarrow> (string \<times> string) option" where
  "ip_port logname =
     (let s = cstr logname; ip = takeWhile (\<lambda>c. c \<noteq> CHR '':'') s; rest = drop (length ip) s
      in if ip \<noteq> [] \<and> rest \<noteq> [] \<and> tl rest \<noteq> [] \<and> list_all isdigit (tl rest) then Some (ip, tl rest) else None)"

definition get_logname :: "Configuration \<Rightarrow> xel option \<Rightarrow> string \<Rightarrow> session_id option \<Rightarrow> string" where
  "get_logname cf from to sid =
     (case sid of
        Some i \<Rightarrow> to @ id_suffix (id_sender i) (id_target i)
      | None \<Rightarrow>
          if (case from of Some x \<Rightarrow> get_value_bool (attr_or x ''use_session_id'' []) | None \<Rightarrow> False)
          then to @ id_suffix (get_sender_comp_id cf from) (get_target_comp_id cf from) else to)"

definition logger_levels :: "xel \<Rightarrow> u32" where
  "logger_levels which =
     (let levstr = attr_or which ''levels'' []
      in if levstr = [] \<or> strcaseeq levstr ''All'' then Levels_All
         else if strcaseeq levstr ''None'' then Levels_None
         else fst (get_logflags ''levels'' level_names (Some which)))"

definition logger_flags :: "xel \<Rightarrow> u32 \<times> nat list" where
  "logger_flags which =
     (if HasAttr which ''flags'' then get_logflags ''flags'' bit_names (Some which) else (StdFlags, []))"

definition make_logger :: "Configuration \<Rightarrow> xel \<Rightarrow> session_id option \<Rightarrow> cfg_error + made_logger" where
  "make_logger cf which sid =
     cbind (FindAttr get_word which ''filename'' ''logname_not_set.log'') (\<lambda>logname0.
     let logname = trim logname0 default_ws;
         delim = attr_or which ''delimiter'' '' ''
     in if 2 < length delim then Inl (ConfigurationError ''Configuration error'' ''invalid logging field delimiter'')
        else
          let (flags, positions) = logger_flags which;
              args = (flags, logger_levels which, delim, positions)
          in if logname \<noteq> [] \<and> hd logname = CHR ''|'' then Inr (Made_pipe (tl logname) args)
             else
               (case ip_port logname of
                  Some (ip, port) \<Rightarrow> cbind (get_unsigned port) (\<lambda>p. Inr (Made_broadcast ip p args))
                | None \<Rightarrow>
                    cbind (get_logfile_rotation cf (Some which)) (\<lambda>rot.
                      let file = get_logname cf (Some which) logname sid
                      in Inr (if eb_has flags lf_xml \<noteq> 0 then Made_xml file rot args else Made_file file rot args))))"

definition create_logger ::
  "Configuration \<Rightarrow> xel option \<Rightarrow> logtype \<Rightarrow> session_id option \<Rightarrow> cfg_error + made_logger option" where
  "create_logger cf from ltype sid =
     (case named_group cf from (if ltype = session_log then ''session_log'' else ''protocol_log'') g_loggers of
        None \<Rightarrow> Inr None
      | Some which \<Rightarrow>
          (case GetAttr which ''type'' of
             None \<Rightarrow> Inr None
           | Some ty \<Rightarrow>
               if strcaseeq ty ''session'' \<and> ltype = session_log \<or> strcaseeq ty ''protocol'' \<and> ltype = protocol_log
               then cbind (make_logger cf which sid) (\<lambda>l. Inr (Some l)) else Inr None))"

section \<open>Rules\<close>

lemma length_take_while_token: "log_tokens s = [] \<longleftrightarrow> s = [] \<or> hd s = CHR ''|''"
  by (subst log_tokens.simps) (cases s; simp add: Let_def)

text \<open>An empty part ends the list of flags: what follows two bars is ignored.\<close>

lemma empty_flag_ends: "log_tokens ''sequence||thread'' = [''sequence'']"
  by (simp add: log_tokens.simps)

text \<open>The fallback is taken exactly when the element has no such attribute.\<close>

lemma from_or_default_iff:
  "from_or_default cf from tag = Some v \<longleftrightarrow>
    (\<exists>x. from = Some x \<and> GetAttr x tag = Some v) \<or>
    ((\<forall>x. from = Some x \<longrightarrow> GetAttr x tag = None) \<and> (\<exists>d. cf_default cf = Some d \<and> GetAttr d tag = Some v))"
  by (cases "from"; cases "cf_default cf") (auto simp: from_or_default_def split: option.splits)

lemma HasAttr_iff: "HasAttr x tag \<longleftrightarrow> GetAttr x tag \<noteq> None"
  by (simp add: HasAttr_def GetAttr_def split: option.split)

text \<open>With an element, a typed attribute is that of the element, else that of the default element.\<close>

lemma find_or_default_text:
  "find_or_default get cf (Some x) tag def =
    (case from_or_default cf (Some x) tag of Some v \<Rightarrow> get v | None \<Rightarrow> Inr def)"
  by (auto simp: find_or_default_def FindAttr_def HasAttr_iff from_or_default_def split: option.splits)

text \<open>Without an element the default element is not asked.\<close>

lemma find_or_default_no_element: "find_or_default get cf None tag def = Inr def"
  by (simp add: find_or_default_def)

text \<open>Loading a group.\<close>

definition named_first :: "xel list \<Rightarrow> string \<Rightarrow> xel option" where
  "named_first xs n = find (\<lambda>x. name_of x = n) xs"

lemma cm_insert_lookup:
  "map_of (cm_insert k v m) n = (case map_of m n of Some x \<Rightarrow> Some x | None \<Rightarrow> if n = k then Some v else None)"
  by (auto simp: cm_insert_def map_add_def split: option.splits)

lemma load_one_simps [simp]:
  "loads is_session x \<Longrightarrow> load_one is_session x (m, ss) = (cm_insert (name_of x) x m, if is_session then ss @ [x] else ss)"
  "\<not> loads is_session x \<Longrightarrow> load_one is_session x (m, ss) = (m, ss)"
  by (simp_all add: load_one_def)

definition loaded :: "bool \<Rightarrow> xel list \<Rightarrow> config_map \<Rightarrow> config_map \<Rightarrow> bool" where
  "loaded is_session xs m m' \<longleftrightarrow>
     (\<forall>n. map_of m' n = (case map_of m n of Some x \<Rightarrow> Some x | None \<Rightarrow> named_first (filter (loads is_session) xs) n)) \<and>
     (m' = [] \<longleftrightarrow> m = [] \<and> filter (loads is_session) xs = []) \<and>
     length m' \<le> length m + length (filter (loads is_session) xs)"

lemma load_fold:
  "fold (load_one is_session) xs (m, ss) = (m', ss') \<Longrightarrow>
    ss' = ss @ (if is_session then filter (loads is_session) xs else []) \<and> loaded is_session xs m m'"
proof (induction xs arbitrary: m ss)
  case (Cons x xs)
  show ?case
  proof (cases "loads is_session x")
    case True
    then have "fold (load_one is_session) xs (cm_insert (name_of x) x m, if is_session then ss @ [x] else ss) = (m', ss')"
      using Cons.prems by simp
    from Cons.IH [OF this] True show ?thesis
      by (auto simp: loaded_def cm_insert_lookup named_first_def split: option.splits if_splits)
        (auto simp: cm_insert_def split: if_splits)
  next
    case False
    then have eq: "filter (loads is_session) (x # xs) = filter (loads is_session) xs" by simp
    have "fold (load_one is_session) xs (m, ss) = (m', ss')" using Cons.prems False by simp
    from Cons.IH [OF this] show ?thesis unfolding loaded_def eq .
  qed
qed (auto simp: loaded_def named_first_def split: option.splits)

definition group_elements :: "Configuration \<Rightarrow> xel \<Rightarrow> string \<Rightarrow> xel list" where
  "group_elements cf rt tag = xml_find_set (cf_env cf) rt rt (''fix8/'' @ tag)"

lemma load_map_spec:
  assumes "load_map (''fix8/'' @ tag) ty sess rt cf = (n, cf')" and "cf_groups cf ty = []"
  shows "cf_env cf' = cf_env cf" "n = length (cf_groups cf' ty)" "\<And>t. t \<noteq> ty \<Longrightarrow> cf_groups cf' t = cf_groups cf t"
    "loaded sess (group_elements cf rt tag) [] (cf_groups cf' ty)"
    "cf_allsessions cf' = cf_allsessions cf @ (if sess then filter (loads sess) (group_elements cf rt tag) else [])"
proof -
  obtain m ss where f: "fold (load_one sess) (group_elements cf rt tag) ([], cf_allsessions cf) = (m, ss)"
    by (rule prod.exhaust)
  then have cf': "cf' = cf\<lparr>cf_groups := (cf_groups cf)(ty := m), cf_allsessions := ss\<rparr>" "n = length m"
    using assms by (simp_all add: load_map_def group_elements_def)
  then show "cf_env cf' = cf_env cf" "n = length (cf_groups cf' ty)" "\<And>t. t \<noteq> ty \<Longrightarrow> cf_groups cf' t = cf_groups cf t"
    "loaded sess (group_elements cf rt tag) [] (cf_groups cf' ty)"
    "cf_allsessions cf' = cf_allsessions cf @ (if sess then filter (loads sess) (group_elements cf rt tag) else [])"
    using load_fold [OF f] by simp_all
qed

lemma load_items_spec:
  "distinct (map (fst \<circ> snd) items) \<Longrightarrow> \<forall>(tag, ty, sess) \<in> set items. cf_groups cf ty = [] \<Longrightarrow>
    \<forall>(tag, ty, sess) \<in> set items. sess \<longrightarrow> filter (loads True) (group_elements cf rt tag) \<noteq> [] \<Longrightarrow>
    \<exists>cf'. load_items items rt cf = Inr cf' \<and>
      (\<forall>(tag, ty, sess) \<in> set items. loaded sess (group_elements cf rt tag) [] (cf_groups cf' ty)) \<and>
      (\<forall>t. t \<notin> (fst \<circ> snd) ` set items \<longrightarrow> cf_groups cf' t = cf_groups cf t) \<and>
      cf_allsessions cf' = cf_allsessions cf @
        concat (map (\<lambda>(tag, ty, sess). if sess then filter (loads sess) (group_elements cf rt tag) else []) items)"
proof (induction items arbitrary: cf)
  case (Cons item items)
  obtain tag ty sess where item: "item = (tag, ty, sess)" by (cases item)
  obtain n cf1 where l: "load_map (''fix8/'' @ tag) ty sess rt cf = (n, cf1)" by (rule prod.exhaust)
  have empty: "cf_groups cf ty = []" using Cons.prems(2) item by auto
  note s = load_map_spec [OF l empty]
  have els: "group_elements cf1 rt t = group_elements cf rt t" for t by (simp add: group_elements_def s(1))
  have "\<not> (n = 0 \<and> sess)" using s(2,4) Cons.prems(3) item by (auto simp: loaded_def)
  then have step: "load_items (item # items) rt cf = load_items items rt cf1" using l item by auto
  have other: "\<forall>(tag, t, sess) \<in> set items. t \<noteq> ty" using Cons.prems(1) item by force
  have "\<forall>(tag, ty, sess) \<in> set items. cf_groups cf1 ty = []" using Cons.prems(2) other s(3) by fastforce
  then obtain cf' where cf': "load_items items rt cf1 = Inr cf'"
    "\<forall>(tag, ty, sess) \<in> set items. loaded sess (group_elements cf1 rt tag) [] (cf_groups cf' ty)"
    "\<forall>t. t \<notin> (fst \<circ> snd) ` set items \<longrightarrow> cf_groups cf' t = cf_groups cf1 t"
    "cf_allsessions cf' = cf_allsessions cf1 @
        concat (map (\<lambda>(tag, ty, sess). if sess then filter (loads sess) (group_elements cf1 rt tag) else []) items)"
    using Cons.IH [of cf1] Cons.prems(1,3) els by auto
  have "cf_groups cf' ty = cf_groups cf1 ty" using cf'(3) Cons.prems(1) item by auto
  then show ?case
    using cf' s(3-5) item step unfolding els by (intro exI [of _ cf']) auto
qed simp

text \<open>A schedule ends after it starts, unless it has no end.\<close>

lemma end_time_order:
  assumes "end_time start d e0 = Inr e"
  shows "is_errorval e \<or> start < e"
proof -
  have "d \<noteq> 0 \<Longrightarrow> 0 < uint d" by (metis less_le uint_0_iff uint_ge_0)
  then show ?thesis
    using assms by (auto simp: end_time_def tv_minute_def billion_def million_def thousand_def split: if_splits)
qed

lemma create_schedule_order:
  assumes "create_schedule now which = Inr sc" and "schedule_valid sc"
  shows "is_errorval (sc_end sc) \<or> sc_start sc < sc_end sc"
  using assms
  by (auto simp: create_schedule_def cbind_Inr schedule_valid_def no_schedule_def Let_def is_errorval_def
      split: if_splits dest!: end_time_order)

section \<open>Properties\<close>


definition sample_item :: "string \<Rightarrow> int \<Rightarrow> (string \<times> string) list \<Rightarrow> xel" where
  "sample_item tag n attrs = Xel tag None None 1 n n 0 0 (Some attrs) False []"

definition sample_root :: xel where
  "sample_root = Xel ''fix8'' None None 0 1 1 3 0 None False
     [sample_item ''session'' 2 [(''active'', ''no''), (''name'', ''spare'')],
      sample_item ''session'' 3 [(''active'', ''yes''), (''name'', ''dealer''), (''role'', ''acceptor'')],
      sample_item ''default'' 4 [(''heartbeat_interval'', ''20'')]]"

definition sample_config :: Configuration where
  "sample_config =
     new_config \<lparr>xe_files = (\<lambda>f. None), xe_getenv = (\<lambda>v. None), xe_popen = (\<lambda>c. None), xe_flags = 0, xe_junk = NUL\<rparr>
       (Some sample_root)"


end
