(* ===== verification/Schema.thy ===== *)
theory Schema
  imports Config
begin

text \<open>
  The front end of the schema compiler \<^verbatim>\<open>f8c\<close> (\<^verbatim>\<open>compiler/f8c.cpp\<close>, \<^verbatim>\<open>compiler/f8cutils.cpp\<close>,
  \<^verbatim>\<open>compiler/f8c.hpp\<close>): the specifications of fields, realms, messages and repeating groups that
  the second pass collects from the expanded document, their ordering, and the sharing of groups
  through a hash.

  The maps are sorted lists. The counters of errors and warnings and the options are in the state;
  the texts of the diagnostics are left out. A group set of \<^verbatim>\<open>GroupMap\<close> belongs to its message, so a
  specification is a tree.
\<close>

section \<open>Fields and realms\<close>

text \<open>\<^verbatim>\<open>RealmObject\<close> and its typed subclasses. The comparison
  casts both objects to the class of the first, so a map must hold objects of one class.\<close>

datatype realm_value = TInt int | TFloat rat | TChar char | TString string

record RealmObject =
  ro_val :: realm_value
  ro_is_range :: bool

fun realm_comp :: "realm_value \<Rightarrow> realm_value \<Rightarrow> bool" where
  "realm_comp (TInt a) (TInt b) = (a < b)"
| "realm_comp (TFloat a) (TFloat b) = (a < b)"
| "realm_comp (TChar a) (TChar b) = (schar a < schar b)"
| "realm_comp (TString a) (TString b) = (a < b)"
| "realm_comp _ _ = False"

fun same_class :: "realm_value \<Rightarrow> realm_value \<Rightarrow> bool" where
  "same_class (TInt _) (TInt _) = True"
| "same_class (TFloat _) (TFloat _) = True"
| "same_class (TChar _) (TChar _) = True"
| "same_class (TString _) (TString _) = True"
| "same_class _ _ = False"

type_synonym RealmMap = "(RealmObject \<times> string) list"

fun realm_insert :: "RealmObject \<Rightarrow> string \<Rightarrow> RealmMap \<Rightarrow> RealmMap" where
  "realm_insert r d [] = [(r, d)]"
| "realm_insert r d ((r', d') # m) =
     (if realm_comp (ro_val r) (ro_val r') then (r, d) # (r', d') # m
      else if realm_comp (ro_val r') (ro_val r) then (r', d') # realm_insert r d m
      else (r', d') # m)"

text \<open>\<^verbatim>\<open>std::map::find\<close> with the same order.\<close>

definition realm_find :: "RealmObject \<Rightarrow> RealmMap \<Rightarrow> (RealmObject \<times> string) option" where
  "realm_find r m =
     find (\<lambda>p. \<not> realm_comp (ro_val r) (ro_val (fst p)) \<and> \<not> realm_comp (ro_val (fst p)) (ro_val r)) m"

text \<open>
  \<^verbatim>\<open>std::stod\<close> on decimal texts: white space, a sign, digits with a point, an exponent. The
  hexadecimal forms, infinities and NaN are left out. The result is the nearest double.
\<close>

definition stod :: "string \<Rightarrow> rat option" where
  "stod source =
     (let s = dropWhile isspace source;
          neg = (s \<noteq> [] \<and> hd s = CHR ''-'');
          s1 = (if s \<noteq> [] \<and> (hd s = CHR ''-'' \<or> hd s = CHR ''+'') then tl s else s);
          ds = takeWhile isdigit s1; s2 = dropWhile isdigit s1;
          pt = (s2 \<noteq> [] \<and> hd s2 = CHR ''.'');
          fs = (if pt then takeWhile isdigit (tl s2) else []);
          s3 = (if pt then dropWhile isdigit (tl s2) else s2);
          e = (if s3 \<noteq> [] \<and> toupper (hd s3) = CHR ''E'' \<and> tl s3 \<noteq> [] \<and>
                 (isdigit (hd (tl s3)) \<or> hd (tl s3) \<in> set ''+-'')
               then sto_number (tl s3) else None);
          m = of_int (int (dec_value (ds @ fs))) / 10 ^ length fs :: rat;
          x = (case e of None \<Rightarrow> m | Some k \<Rightarrow> if 0 \<le> k then m * 10 ^ nat k else m / 10 ^ nat (- k));
          v = rnd (if neg then - x else x)
      in if ds = [] \<and> fs = [] then None else if pow2 1024 \<le> \<bar>v\<bar> then None else Some v)"

definition get_float :: "string \<Rightarrow> cfg_error + rat" where
  "get_float source = (case stod source of None \<Rightarrow> Inl StdException | Some v \<Rightarrow> Inr v)"

definition RealmObject_create :: "string \<Rightarrow> ftype \<Rightarrow> bool \<Rightarrow> cfg_error + RealmObject option" where
  "RealmObject_create from ftype isRange =
     (let mk = (\<lambda>v. Inr (Some \<lparr>ro_val = v, ro_is_range = isRange\<rparr>))
      in if is_int ftype then cbind (get_int from) (\<lambda>n. mk (TInt n))
         else if is_char ftype then mk (TChar (first_char from))
         else if is_float ftype then cbind (get_float from) (\<lambda>v. mk (TFloat v))
         else if is_string ftype then mk (TString from)
         else Inr None)"

record FieldSpec =
  fs_name :: string
  fs_description :: string
  fs_comment :: string
  fs_ftype :: ftype
  fs_dt_set :: bool
  fs_doffset :: nat
  fs_dvals :: "RealmMap option"
  fs_used :: bool

definition new_FieldSpec :: "string \<Rightarrow> ftype \<Rightarrow> FieldSpec" where
  "new_FieldSpec name ftype =
     \<lparr>fs_name = name, fs_description = [], fs_comment = [], fs_ftype = ftype, fs_dt_set = True,
      fs_doffset = 0, fs_dvals = None, fs_used = False\<rparr>"

type_synonym FieldSpecMap = "(u32 \<times> FieldSpec) list"
type_synonym FieldToNumMap = "(string \<times> u32) list"

text \<open>\<^verbatim>\<open>FieldSpec::_baseTypeMap\<close>.\<close>

definition baseTypeMap :: "(string \<times> ftype) list" where
  "baseTypeMap =
     [(''INT'', ft_int), (''LENGTH'', ft_Length), (''TAGNUM'', ft_TagNum), (''SEQNUM'', ft_SeqNum),
      (''NUMINGROUP'', ft_NumInGroup), (''DAYOFMONTH'', ft_DayOfMonth), (''FLOAT'', ft_float),
      (''QTY'', ft_Qty), (''QUANTITY'', ft_Qty), (''PRICE'', ft_Price), (''PRICEOFFSET'', ft_PriceOffset),
      (''AMT'', ft_Amt), (''PERCENTAGE'', ft_Percentage), (''CHAR'', ft_char), (''BOOLEAN'', ft_Boolean),
      (''STRING'', ft_string), (''MULTIPLEVALUECHAR'', ft_MultipleCharValue),
      (''MULTIPLECHARVALUE'', ft_MultipleCharValue), (''MULTIPLESTRINGVALUE'', ft_MultipleStringValue),
      (''MULTIPLEVALUESTRING'', ft_MultipleStringValue), (''COUNTRY'', ft_Country),
      (''CURRENCY'', ft_Currency), (''EXCHANGE'', ft_Exchange), (''MONTHYEAR'', ft_MonthYear),
      (''UTCTIMESTAMP'', ft_UTCTimestamp), (''UTCTIME'', ft_UTCTimeOnly), (''UTCTIMEONLY'', ft_UTCTimeOnly),
      (''UTCDATE'', ft_UTCDateOnly), (''UTCDATEONLY'', ft_UTCDateOnly), (''LOCALMKTDATE'', ft_LocalMktDate),
      (''TZTIMEONLY'', ft_TZTimeOnly), (''TZTIMESTAMP'', ft_TZTimestamp), (''XMLDATA'', ft_XMLData),
      (''DATA'', ft_data), (''PATTERN'', ft_pattern), (''LANGUAGE'', ft_Language), (''TENOR'', ft_Tenor),
      (''RESERVED100PLUS'', ft_Reserved100Plus), (''RESERVED1000PLUS'', ft_Reserved1000Plus),
      (''RESERVED4000PLUS'', ft_Reserved4000Plus)]"

section \<open>Messages\<close>

datatype MessageSpec =
  MSpec (ms_name: string) (ms_fields: presence) (ms_groups: "(u32 \<times> MessageSpec) list")
    (ms_group_refcnt: nat) (ms_hash: u32) (ms_comment: string) (ms_is_admin: bool)

type_synonym GroupMap = "(u32 \<times> MessageSpec) list"
type_synonym MessageSpecMap = "(string \<times> MessageSpec) list"
type_synonym CommonGroups = "(u32 \<times> MessageSpec) list"
type_synonym CommonGroupMap = "(u32 \<times> CommonGroups) list"
type_synonym Components = "(string \<times> xel) list"

text \<open>\<^verbatim>\<open>FIX8_RESERVE_PERCENT\<close> is the reserve of a set that starts empty.\<close>

definition reserve_percent :: nat where "reserve_percent = 30"

definition new_MessageSpec :: "string \<Rightarrow> bool \<Rightarrow> MessageSpec" where
  "new_MessageSpec name admin = MSpec name (pr_ctor [] reserve_percent) [] 0 0 [] admin"

definition upd_fields :: "(presence \<Rightarrow> presence) \<Rightarrow> MessageSpec \<Rightarrow> MessageSpec" where
  "upd_fields f m =
     MSpec (ms_name m) (f (ms_fields m)) (ms_groups m) (ms_group_refcnt m) (ms_hash m) (ms_comment m) (ms_is_admin m)"

definition set_groups :: "GroupMap \<Rightarrow> MessageSpec \<Rightarrow> MessageSpec" where
  "set_groups gs m =
     MSpec (ms_name m) (ms_fields m) gs (ms_group_refcnt m) (ms_hash m) (ms_comment m) (ms_is_admin m)"

definition set_hash :: "u32 \<Rightarrow> MessageSpec \<Rightarrow> MessageSpec" where
  "set_hash h m =
     MSpec (ms_name m) (ms_fields m) (ms_groups m) (ms_group_refcnt m) h (ms_comment m) (ms_is_admin m)"

definition add_ref :: "MessageSpec \<Rightarrow> MessageSpec" where
  "add_ref m =
     MSpec (ms_name m) (ms_fields m) (ms_groups m) (Suc (ms_group_refcnt m)) (ms_hash m) (ms_comment m) (ms_is_admin m)"

definition set_comment :: "string \<Rightarrow> MessageSpec \<Rightarrow> MessageSpec" where
  "set_comment c m =
     MSpec (ms_name m) (ms_fields m) (ms_groups m) (ms_group_refcnt m) (ms_hash m) c (ms_is_admin m)"

lemmas spec_upd = upd_fields_def set_groups_def set_hash_def add_ref_def set_comment_def

text \<open>The state of the compiler: what the passes share, and its options.\<close>

record cstate =
  cs_fspec :: FieldSpecMap
  cs_globmap :: CommonGroupMap
  cs_errors :: nat
  cs_warnings :: nat
  cs_counter :: u32
  cs_no_shared :: bool

record cenv =
  ce_xml :: xenv
  ce_root :: xel
  ce_ftonSpec :: FieldToNumMap
  ce_compon :: Components

definition add_error :: "cstate \<Rightarrow> cstate" where
  "add_error s = s\<lparr>cs_errors := Suc (cs_errors s)\<rparr>"

definition add_warning :: "cstate \<Rightarrow> cstate" where
  "add_warning s = s\<lparr>cs_warnings := Suc (cs_warnings s)\<rparr>"

section \<open>The version\<close>

record version_info =
  vi_version :: u32
  vi_systemns :: string
  vi_fixns :: string
  vi_beginstr :: string

text \<open>
  \<^verbatim>\<open>load_fix_version\<close>: \<open>None\<close> is the answer \<open>-1\<close>. The sum is an \<^verbatim>\<open>int\<close>, whose overflow is not
  defined; the member that takes it is unsigned. The namespace is that of the command line unless it is empty.
\<close>

definition int_ok :: "int \<Rightarrow> bool" where
  "int_ok n \<longleftrightarrow> - (2 ^ 31) \<le> n \<and> n < 2 ^ 31"

definition load_fix_version :: "xenv \<Rightarrow> xel \<Rightarrow> string \<Rightarrow> cfg_error + version_info option" where
  "load_fix_version env xf fixns =
     (case xml_find env xf xf ''fix'' of
        None \<Rightarrow> Inr None
      | Some fix0 \<Rightarrow>
          (case (GetAttr fix0 ''major'', GetAttr fix0 ''minor'') of
             (Some major, Some minor) \<Rightarrow>
               let revision = (case GetAttr fix0 ''revision'' of Some r \<Rightarrow> r
                               | None \<Rightarrow> attr_or fix0 ''servicepack'' ''0'');
                   ty = attr_or fix0 ''type'' ''FIX''
               in cbind (get_int major) (\<lambda>ma. cbind (get_int minor) (\<lambda>mi. cbind (get_int revision) (\<lambda>re.
                    let v = ma * 1000 + mi * 100 + re; version = (of_int v :: u32)
                    in if \<not> int_ok (ma * 1000) \<or> \<not> int_ok (mi * 100) \<or> \<not> int_ok (ma * 1000 + mi * 100) \<or> \<not> int_ok v
                       then Inl (Raised (Undefined BadConversion))
                       else if ty = ''FIX'' \<and> version < 4000 then Inr None
                       else
                         let ns = ty @ dec_numeral (unat version)
                         in Inr (Some \<lparr>vi_version = version, vi_systemns = ns,
                              vi_fixns = (if fixns = [] then ns else fixns),
                              vi_beginstr = ty @ ''.'' @ major @ ''.'' @ minor\<rparr>))))
           | _ \<Rightarrow> Inr None))"

text \<open>The check of \<^verbatim>\<open>main\<close> behind it.\<close>

definition needs_fixt :: "version_info \<Rightarrow> bool" where
  "needs_fixt v \<longleftrightarrow> take 4 (vi_beginstr v) = ''FIX.'' \<and> 5000 \<le> vi_version v"

section \<open>Loading the fields\<close>

text \<open>
  One value element of a field; the realm is created with its first value. A value of another class
  than those in the map is cast to their class.
\<close>

definition of_class :: "realm_value \<Rightarrow> RealmMap \<Rightarrow> bool" where
  "of_class v m \<longleftrightarrow> list_all (\<lambda>p. same_class (ro_val (fst p)) v) m"

definition load_value :: "ftype \<Rightarrow> xel \<Rightarrow> FieldSpec \<times> cstate \<Rightarrow> cfg_error + FieldSpec \<times> cstate" where
  "load_value ft pp = (\<lambda>(fs, s).
     (case GetAttr pp ''enum'' of
        None \<Rightarrow> Inr (fs, add_error s)
      | Some enum_str \<Rightarrow>
          let description = (let d = attr_or pp ''description'' [] in if d = [] then enum_str else d);
              isRange = (case GetAttr pp ''range'' of Some r \<Rightarrow> r = ''lower'' \<or> r = ''upper'' | None \<Rightarrow> False);
              dv = (case fs_dvals fs of Some m \<Rightarrow> m | None \<Rightarrow> [])
          in cbind (RealmObject_create enum_str ft isRange) (\<lambda>realmval.
               case realmval of
                 None \<Rightarrow> Inr (fs\<lparr>fs_dt_set := fs_dt_set fs \<and> \<not> isRange, fs_dvals := Some dv\<rparr>, s)
               | Some r \<Rightarrow>
                   if of_class (ro_val r) dv
                   then Inr (fs\<lparr>fs_dt_set := fs_dt_set fs \<and> \<not> isRange,
                                fs_dvals := Some (realm_insert r description dv)\<rparr>, s)
                   else Inl (Raised (Undefined BadConversion)))))"

fun load_values :: "ftype \<Rightarrow> xel list \<Rightarrow> FieldSpec \<times> cstate \<Rightarrow> cfg_error + FieldSpec \<times> cstate" where
  "load_values ft [] st = Inr st"
| "load_values ft (pp # pps) st = cbind (load_value ft pp st) (load_values ft pps)"

text \<open>
  One field. A number that does not convert is counted as an error, but the iterator the insertion
  would have given is then dereferenced. A field whose number is there already changes the first
  specification with that number: its texts and its realm, whose values have the type of the new
  field.
\<close>

definition load_field :: "xenv \<Rightarrow> xel \<Rightarrow> xel \<Rightarrow> nat \<times> cstate \<Rightarrow> cfg_error + nat \<times> cstate" where
  "load_field env xf pp = (\<lambda>(fieldsLoaded, s).
     (case (GetAttr pp ''number'', GetAttr pp ''name'', GetAttr pp ''type'') of
        (Some number0, Some name0, Some type0) \<Rightarrow>
          let number = trim number0 default_ws; name = trim name0 default_ws;
              ty = InPlaceStrToUpper (trim type0 default_ws)
          in (case map_of baseTypeMap ty of
                None \<Rightarrow> Inr (fieldsLoaded, add_warning s)
              | Some ft \<Rightarrow>
                  (case get_unsigned number of
                     Inl _ \<Rightarrow> Inl (Raised (Undefined NullDeref))
                   | Inr fno \<Rightarrow>
                       let fspec = om_insert fno (new_FieldSpec name ft) (cs_fspec s);
                           fs0 = the (map_of fspec fno);
                           fs1 = fs0\<lparr>fs_description := attr_or pp ''description'' (fs_description fs0),
                                     fs_comment := attr_or pp ''comment'' (fs_comment fs0)\<rparr>;
                           realmlist = xml_find_set env xf pp ''field/value''
                       in cbind (load_values ft realmlist (fs1, s)) (\<lambda>(fs2, s2).
                            Inr (Suc fieldsLoaded, s2\<lparr>cs_fspec := om_set fno fs2 fspec\<rparr>))))
      | _ \<Rightarrow> Inr (fieldsLoaded, add_error s)))"

fun load_field_list :: "xenv \<Rightarrow> xel \<Rightarrow> xel list \<Rightarrow> nat \<times> cstate \<Rightarrow> cfg_error + nat \<times> cstate" where
  "load_field_list env xf [] st = Inr st"
| "load_field_list env xf (pp # pps) st = cbind (load_field env xf pp st) (load_field_list env xf pps)"

definition load_fields :: "xenv \<Rightarrow> xel \<Rightarrow> cstate \<Rightarrow> cfg_error + nat \<times> cstate" where
  "load_fields env xf s =
     (case x_find_all env xf xf ''fix/fields/field'' [] None (CHR ''/'') of
        (n, flist) \<Rightarrow> if n = 0 then Inr (0, s) else load_field_list env xf (map snd flist) (0, s))"

section \<open>Fields and groups of a message\<close>

definition lookup_component :: "Components \<Rightarrow> string \<Rightarrow> nat" where
  "lookup_component compon name =
     (case find_index (\<lambda>p. fst p = name) compon of Some i \<Rightarrow> 1 + i | None \<Rightarrow> 0)"

definition load_components :: "xel list \<Rightarrow> Components \<Rightarrow> Components" where
  "load_components comlist components =
     fold (\<lambda>pp m. case GetAttr pp ''name'' of Some name \<Rightarrow> om_insert name pp m | None \<Rightarrow> m) comlist components"

definition component_idx :: "cenv \<Rightarrow> xel \<Rightarrow> nat" where
  "component_idx ce pp =
     (case GetAttr pp ''component'' of Some compname \<Rightarrow> lookup_component (ce_compon ce) compname | None \<Rightarrow> 0)"

text \<open>A field of a name, with its number.\<close>

definition named_field :: "cenv \<Rightarrow> cstate \<Rightarrow> string \<Rightarrow> (u32 \<times> FieldSpec) option" where
  "named_field ce s fname =
     (case map_of (ce_ftonSpec ce) fname of
        None \<Rightarrow> None
      | Some fno \<Rightarrow> map_option (Pair fno) (map_of (cs_fspec s) fno))"

definition mark_used :: "u32 \<Rightarrow> cstate \<Rightarrow> cstate" where
  "mark_used fno s =
     s\<lparr>cs_fspec := map (\<lambda>(k, fs). (k, if k = fno then fs\<lparr>fs_used := True\<rparr> else fs)) (cs_fspec s)\<rparr>"

text \<open>The sets of the compiler have no hash array, so an insertion always has an answer.\<close>

definition fts_add :: "field_trait \<Rightarrow> presence \<Rightarrow> presence \<times> bool" where
  "fts_add t fts = (case fp_add fts t of Some r \<Rightarrow> r | None \<Rightarrow> (fts, False))"

definition process_special_traits :: "u16 \<Rightarrow> presence \<Rightarrow> presence" where
  "process_special_traits field fts =
     (let fts1 = (if field = Common_BeginString \<or> field = Common_BodyLength \<or> field = Common_CheckSum
                  then fp_set fts field suppress else fts)
      in if field = Common_BeginString \<or> field = Common_BodyLength \<or> field = Common_CheckSum \<or> field = Common_MsgType
         then fp_clear (fp_set fts1 field automatic) field mandatory else fts1)"

definition process_message_field :: "cenv \<Rightarrow> xel \<Rightarrow> presence \<times> cstate \<Rightarrow> presence \<times> cstate" where
  "process_message_field ce pp = (\<lambda>(fts, s).
     (case (GetAttr pp ''name'', GetAttr pp ''required'') of
        (Some fname, Some required) \<Rightarrow>
          (case named_field ce s fname of
             None \<Rightarrow> (fts, add_error s)
           | Some (fno, fs) \<Rightarrow>
               (case fts_add (mk_trait (ucast fno) (fs_ftype fs) (of_int (x_subidx pp)) (required = ''Y'') False
                        (of_nat (component_idx ce pp)) False) fts of
                  (fts1, False) \<Rightarrow> (fts1, add_warning s)
                | (fts1, True) \<Rightarrow> (process_special_traits (ucast fno) fts1, mark_used fno s)))
      | _ \<Rightarrow> (fts, add_error s)))"

definition process_message_fields :: "cenv \<Rightarrow> string \<Rightarrow> xel \<Rightarrow> presence \<times> cstate \<Rightarrow> presence \<times> cstate" where
  "process_message_fields ce path xt st =
     fold (process_message_field ce) (xml_find_set (ce_xml ce) (ce_root ce) xt path) st"

text \<open>
  \<^verbatim>\<open>group_hash\<close>: the numbers of the fields and the hashes of the groups. With groups that are not
  shared it counts.
\<close>

definition hash_fields :: "presence \<Rightarrow> u32" where
  "hash_fields fts = fold (\<lambda>t result. rothash result (ucast (t_fnum t))) (p_arr fts) 0"

primrec hash_of :: "MessageSpec \<Rightarrow> u32" where
  "hash_of (MSpec name fts groups refcnt h com admin) =
     fold (\<lambda>p result. rothash result (snd p)) (map (map_prod (\<lambda>k. k) hash_of) groups) (hash_fields fts)"

definition group_hash :: "MessageSpec \<Rightarrow> cstate \<Rightarrow> u32 \<times> cstate" where
  "group_hash p1 s =
     (if cs_no_shared s then (cs_counter s + 1, s\<lparr>cs_counter := cs_counter s + 1\<rparr>) else (hash_of p1, s))"

text \<open>The set of groups that share a count field: the first with a hash is kept and counted.\<close>

definition add_common :: "u32 \<Rightarrow> u32 \<Rightarrow> MessageSpec \<Rightarrow> CommonGroupMap \<Rightarrow> CommonGroupMap" where
  "add_common fnum hv g globmap =
     (let glob1 = om_insert fnum [] globmap;
          cg = om_insert hv g (the (map_of glob1 fnum))
      in om_set fnum (map (\<lambda>(h, m). (h, if h = hv then set_hash hv (add_ref m) else m)) cg) glob1)"

text \<open>
  \<^verbatim>\<open>parse_groups\<close>, with the depth of the nesting as fuel; \<open>None\<close> is a nesting that does not end.
  It adds the trait of the count field, collects the group with its nested groups, and puts a copy
  into the common set. The hash of the enclosing specification is set at the end.
\<close>

fun parse_groups :: "nat \<Rightarrow> cenv \<Rightarrow> xel list \<Rightarrow> MessageSpec \<times> cstate \<Rightarrow> (MessageSpec \<times> cstate) option" where
  "parse_groups 0 ce grplist st = None"
| "parse_groups (Suc n) ce [] (ritr, s) =
     (case group_hash ritr s of (h, s1) \<Rightarrow> Some (set_hash h ritr, s1))"
| "parse_groups (Suc n) ce (pp # grplist) (ritr, s) =
     (case (GetAttr pp ''name'', GetAttr pp ''required'') of
        (Some gname, Some required) \<Rightarrow>
          (case named_field ce s gname of
             None \<Rightarrow> parse_groups (Suc n) ce grplist (ritr, add_error s)
           | Some (fno, fs) \<Rightarrow>
               (case fts_add (mk_trait (ucast fno) ft_int (of_int (x_subidx pp)) (required = ''Y'') True
                        (of_nat (component_idx ce pp)) False) (ms_fields ritr) of
                  (fts1, False) \<Rightarrow> parse_groups (Suc n) ce grplist (upd_fields (\<lambda>_. fts1) ritr, add_warning s)
                | (fts1, True) \<Rightarrow>
                    let ritr1 = upd_fields (\<lambda>_. fts1) ritr; s1 = mark_used fno s
                    in if map_of (ms_groups ritr1) fno \<noteq> None
                       then parse_groups (Suc n) ce grplist (ritr1, add_warning s1)
                       else
                         let (gf, s2) = process_message_fields ce ''group/field'' pp (ms_fields (new_MessageSpec gname False), s1);
                             g1 = upd_fields (\<lambda>_. gf) (new_MessageSpec gname False);
                             comlist = xml_find_set (ce_xml ce) (ce_root ce) pp ''group/group''
                         in (case (if comlist = [] then Some (g1, s2) else parse_groups n ce comlist (g1, s2)) of
                               None \<Rightarrow> None
                             | Some (g2, s3) \<Rightarrow>
                                 let (hv, s4) = group_hash g2 s3; g3 = set_hash hv g2
                                 in parse_groups (Suc n) ce grplist
                                      (set_groups (om_insert fno g3 (ms_groups ritr1)) ritr1,
                                       s4\<lparr>cs_globmap := add_common fno hv g3 (cs_globmap s4)\<rparr>))))
      | _ \<Rightarrow> parse_groups (Suc n) ce grplist (ritr, add_error s))"

section \<open>Loading the messages\<close>

definition mkel :: "string \<Rightarrow> string \<Rightarrow> string" where
  "mkel base compon = base @ ''/'' @ compon"

text \<open>
  The key, the name, the element name and the category of a message; \<open>None\<close> when an attribute is
  missing or the type is not a value of \<^verbatim>\<open>MsgType\<close>. The type is looked up as a string.
\<close>

definition message_id :: "RealmMap \<Rightarrow> xel \<Rightarrow> cfg_error + (string \<times> string \<times> string \<times> string) option" where
  "message_id dvals pp =
     (if x_tag pp = ''header'' then Inr (Some (''header'', ''header'', ''header'', []))
      else if x_tag pp = ''trailer'' then Inr (Some (''trailer'', ''trailer'', ''trailer'', []))
      else
        (case (GetAttr pp ''msgtype'', GetAttr pp ''name'', GetAttr pp ''msgcat'') of
           (Some msgtype, Some name, Some msgcat) \<Rightarrow>
             if \<not> of_class (TString msgtype) dvals then Inl (Raised (Undefined BadConversion))
             else (case realm_find \<lparr>ro_val = TString msgtype, ro_is_range = False\<rparr> dvals of
                     None \<Rightarrow> Inr None
                   | Some _ \<Rightarrow> Inr (Some (msgtype, name, ''message'', msgcat)))
         | _ \<Rightarrow> Inr None))"

definition load_message ::
  "nat \<Rightarrow> cenv \<Rightarrow> RealmMap \<Rightarrow> xel \<Rightarrow> nat \<times> MessageSpecMap \<times> cstate \<Rightarrow>
    cfg_error + nat \<times> MessageSpecMap \<times> cstate" where
  "load_message n ce dvals pp = (\<lambda>(loaded, mspec, s).
     cbind (message_id dvals pp) (\<lambda>mid.
       case mid of
         None \<Rightarrow> Inr (loaded, mspec, add_error s)
       | Some (msgtype, name, elname, msgcat) \<Rightarrow>
           if map_of mspec msgtype \<noteq> None then Inr (loaded, mspec, add_error s)
           else
             let m0 = new_MessageSpec name (strcaseeq msgcat ''admin'');
                 grplist = xml_find_set (ce_xml ce) (ce_root ce) pp (mkel elname ''group'')
             in (case (if grplist = [] then Some (m0, s) else parse_groups n ce grplist (m0, s)) of
                   None \<Rightarrow> Inl (Raised OutOfFuel)
                 | Some (m1, s1) \<Rightarrow>
                     let m2 = set_comment (attr_or pp ''comment'' (ms_comment m1)) m1;
                         (fts, s2) = process_message_fields ce (mkel elname ''field'') pp (ms_fields m2, s1)
                     in Inr (Suc loaded, om_insert msgtype (upd_fields (\<lambda>_. fts) m2) mspec, s2))))"

fun load_message_list ::
  "nat \<Rightarrow> cenv \<Rightarrow> RealmMap \<Rightarrow> xel list \<Rightarrow> nat \<times> MessageSpecMap \<times> cstate \<Rightarrow>
    cfg_error + nat \<times> MessageSpecMap \<times> cstate" where
  "load_message_list n ce dvals [] st = Inr st"
| "load_message_list n ce dvals (pp # pps) st =
     cbind (load_message n ce dvals pp st) (load_message_list n ce dvals pps)"

text \<open>
  \<^verbatim>\<open>load_messages\<close>. The three searches put their elements into one set, and each answers the size
  of the whole set.
\<close>

definition load_messages :: "nat \<Rightarrow> cenv \<Rightarrow> xel \<Rightarrow> cstate \<Rightarrow> cfg_error + nat \<times> MessageSpecMap \<times> cstate" where
  "load_messages n ce xf s =
     (let env = ce_xml ce;
          (n1, l1) = x_find_all env xf xf ''fix/messages/message'' [] None (CHR ''/'')
      in if n1 = 0 then Inr (0, [], add_error s)
         else let (n2, l2) = x_find_all env xf xf ''fix/header'' l1 None (CHR ''/'')
         in if n2 = 0 then Inr (0, [], add_error s)
         else let (n3, l3) = x_find_all env xf xf ''fix/trailer'' l2 None (CHR ''/'')
         in if n3 = 0 then Inr (0, [], add_error s)
         else (case map_of (cs_fspec s) 35 of
                 None \<Rightarrow> Inr (0, [], add_error s)
               | Some fs \<Rightarrow>
                   (case fs_dvals fs of
                      None \<Rightarrow> Inr (0, [], add_error s)
                    | Some dvals \<Rightarrow> load_message_list n ce dvals (map snd l3) (0, [], s))))"

section \<open>The order of the fields\<close>

text \<open>
  The traits of a message in a multiset by position; each gets its place in it. A field is told by
  its number, which is unique in a set.
\<close>

fun number_from :: "nat \<Rightarrow> field_trait list \<Rightarrow> field_trait list \<Rightarrow> field_trait list" where
  "number_from cnt [] arr = arr"
| "number_from cnt (ii # mo) arr =
     number_from (Suc cnt) mo
       (map (\<lambda>t. if t_fnum t = t_fnum ii then t\<lparr>t_pos := of_nat (Suc cnt)\<rparr> else t) arr)"

definition order_fields :: "presence \<Rightarrow> presence" where
  "order_fields fts = fts\<lparr>p_arr := number_from 0 (sort_key t_pos (p_arr fts)) (p_arr fts)\<rparr>"

definition process_ordering :: "MessageSpecMap \<Rightarrow> MessageSpecMap" where
  "process_ordering mspec = map (map_prod (\<lambda>k. k) (upd_fields order_fields)) mspec"

primrec order_groups :: "MessageSpec \<Rightarrow> MessageSpec" where
  "order_groups (MSpec name fts groups refcnt h com admin) =
     MSpec name (order_fields fts) (map (map_prod (\<lambda>k. k) order_groups) groups) refcnt h com admin"

definition process_message_group_ordering :: "GroupMap \<Rightarrow> GroupMap" where
  "process_message_group_ordering gm = map (map_prod (\<lambda>k. k) order_groups) gm"

definition process_group_ordering :: "CommonGroupMap \<Rightarrow> CommonGroupMap" where
  "process_group_ordering globmap =
     map (map_prod (\<lambda>k. k) (map (map_prod (\<lambda>k. k)
       (\<lambda>m. set_groups (process_message_group_ordering (ms_groups m)) m)))) globmap"

text \<open>The variant of a group, and its number among the variants.\<close>

definition find_group_variant :: "CommonGroupMap \<Rightarrow> u32 \<Rightarrow> u32 \<Rightarrow> (nat \<times> MessageSpec) option" where
  "find_group_variant globmap tp key =
     (case map_of globmap tp of
        None \<Rightarrow> None
      | Some cg \<Rightarrow>
          (case find_index (\<lambda>p. fst p = key) cg of
             None \<Rightarrow> None
           | Some i \<Rightarrow> Some (1 + i, snd (cg ! i))))"

section \<open>The specifications of a schema\<close>

text \<open>The first half of \<^verbatim>\<open>process\<close>: everything up to the generation of code; the state of a run that stops
  early has no messages.\<close>

record compiled =
  cp_state :: cstate
  cp_compon :: Components
  cp_mspec :: MessageSpecMap

definition fton_of :: "FieldSpecMap \<Rightarrow> FieldToNumMap" where
  "fton_of fspec = fold (\<lambda>(k, fs) m. om_insert (fs_name fs) k m) fspec []"

definition load_schema :: "nat \<Rightarrow> xenv \<Rightarrow> xel \<Rightarrow> cstate \<Rightarrow> cfg_error + compiled option" where
  "load_schema n env xf s0 =
     cbind (load_fields env xf s0) (\<lambda>(fields, s1).
       if fields = 0 \<or> cs_errors s1 \<noteq> 0 then Inr None
       else
         let components = load_components (xml_find_set env xf xf ''fix/components/component'') [];
             ce = \<lparr>ce_xml = env, ce_root = xf, ce_ftonSpec = fton_of (cs_fspec s1), ce_compon = components\<rparr>
         in cbind (load_messages n ce xf s1) (\<lambda>(msgsloaded, mspec, s2).
                 if msgsloaded = 0 then Inr None
                 else Inr (Some \<lparr>cp_state = s2\<lparr>cs_globmap := process_group_ordering (cs_globmap s2)\<rparr>,
                       cp_compon = components, cp_mspec = process_ordering mspec\<rparr>)))"

end
