(* ===== verification/SchemaProps.thy ===== *)
theory SchemaProps
  imports Schema
begin

text \<open>
  What the front end of the compiler guarantees: sorted sets of traits and sorted realms, a group for
  every count field, a common variant for every group, and an end of the nesting for every document.
\<close>

section \<open>Sets of traits\<close>

definition ps_of :: "presence \<Rightarrow> field_trait pset" where
  "ps_of p = \<lparr>ps_reserve = p_reserve p, ps_rsz = p_rsz p, ps_arr = p_arr p\<rparr>"

definition fts_ok :: "presence \<Rightarrow> bool" where
  "fts_ok p \<longleftrightarrow> p_ftha p = None \<and> ps_ok t_fnum (ps_of p)"

definition fnums :: "presence \<Rightarrow> u16 set" where
  "fnums p = t_fnum ` set (p_arr p)"

text \<open>Without a hash array the set of traits is the sorted set of the tables.\<close>

lemma pr_insert_ps:
  assumes "p_ftha p = None"
  shows "pr_insert p t =
    (case ps_insert t_fnum (ps_of p) t of (s, it, ok) \<Rightarrow> Some (p\<lparr>p_rsz := ps_rsz s, p_arr := ps_arr s\<rparr>, it, ok))"
  using assms
  by (cases p) (auto simp: pr_insert_def ps_insert_def pr_find_ans_def ps_find_ans_def ps_of_def Let_def split: prod.splits)

lemma fts_add_ps:
  "p_ftha p = None \<Longrightarrow>
    fts_add t p = (case ps_insert t_fnum (ps_of p) t of (s, it, ok) \<Rightarrow> (p\<lparr>p_rsz := ps_rsz s, p_arr := ps_arr s\<rparr>, ok))"
  by (auto simp: fts_add_def fp_add_def pr_insert_ps split: prod.splits)

lemma ps_insert_reserve: "ps_reserve (fst (ps_insert kf s x)) = ps_reserve s"
  by (simp add: ps_insert_def Let_def split: prod.splits)

lemma fts_add_spec:
  assumes "fts_ok p" and "fts_add t p = (p', ok)"
  shows "fts_ok p'" and "ok \<longleftrightarrow> t_fnum t \<notin> fnums p"
    and "set (p_arr p') = (if ok then insert t (set (p_arr p)) else set (p_arr p))"
proof -
  obtain s it b where e: "ps_insert t_fnum (ps_of p) t = (s, it, b)" by (metis prod_cases3)
  from assms(1) have o: "p_ftha p = None" "ps_ok t_fnum (ps_of p)" by (simp_all add: fts_ok_def)
  from assms(2) e o(1) have p': "p' = p\<lparr>p_rsz := ps_rsz s, p_arr := ps_arr s\<rparr>" and b: "ok = b"
    by (auto simp: fts_add_ps)
  have r: "ps_reserve s = p_reserve p" using ps_insert_reserve [of t_fnum "ps_of p" t] e by (simp add: ps_of_def)
  then have "ps_of p' = s" by (cases s) (simp add: ps_of_def p')
  then show "fts_ok p'" using ps_insert_ok [OF o(2), of t] e o(1) by (simp add: fts_ok_def p')
  show ok: "ok \<longleftrightarrow> t_fnum t \<notin> fnums p"
    using ps_insert_flag [OF o(2), of t] e b by (simp add: fnums_def ps_of_def)
  show "set (p_arr p') = (if ok then insert t (set (p_arr p)) else set (p_arr p))"
    using set_ps_insert [OF o(2), of t] e ok by (auto simp: p' fnums_def ps_of_def)
qed

lemma fts_add_dup: "fts_ok p \<Longrightarrow> fts_add t p = (p', False) \<Longrightarrow> p' = p"
proof -
  assume a: "fts_ok p" "fts_add t p = (p', False)"
  then have "t_fnum t \<in> t_fnum ` set (ps_arr (ps_of p))"
    using fts_add_spec(2) [OF a] by (simp add: fnums_def ps_of_def)
  then have "ps_insert t_fnum (ps_of p) t = (ps_of p, End, False)"
    using a(1) by (intro ps_insert_present) (auto simp: fts_ok_def ps_ok_def)
  then show ?thesis using a by (auto simp: fts_add_ps fts_ok_def ps_of_def)
qed

lemma fts_ok_new: "fts_ok (pr_ctor [] reserve_percent)"
  by (simp add: fts_ok_def ps_ok_def ps_of_def pr_ctor_def reserve_percent_def calc_reserve_def key_sorted_def)

lemma fts_ok_pr_ok: "fts_ok p \<Longrightarrow> pr_ok p"
  by (simp add: fts_ok_def pr_ok_def ps_ok_def ps_of_def)

lemma fts_ok_sorted: "fts_ok p \<Longrightarrow> key_sorted t_fnum (p_arr p)"
  by (simp add: fts_ok_def ps_ok_def ps_of_def)

lemma pr_update_frame:
  "p_rsz (pr_update p itr f) = p_rsz p" "p_reserve (pr_update p itr f) = p_reserve p"
  by (cases itr; simp add: pr_update_def)+

lemma fts_ok_update:
  assumes "\<And>t. t_fnum (f t) = t_fnum t"
  shows "fts_ok (pr_update p itr f) \<longleftrightarrow> fts_ok p" and "fnums (pr_update p itr f) = fnums p"
proof -
  note e = pr_update_fnums [of f p itr, OF assms]
  have "length (p_arr (pr_update p itr f)) = length (p_arr p)" using e by (rule map_eq_imp_length_eq)
  then show "fts_ok (pr_update p itr f) \<longleftrightarrow> fts_ok p"
    using key_sorted_cong [OF e]
    by (simp add: fts_ok_def ps_ok_def ps_of_def pr_update_ftha pr_update_frame)
  show "fnums (pr_update p itr f) = fnums p"
    using arg_cong [OF e, of set] by (simp add: fnums_def)
qed

lemma fts_ok_special [simp]:
  "fts_ok (process_special_traits field p) \<longleftrightarrow> fts_ok p" "fnums (process_special_traits field p) = fnums p"
  by (simp_all add: process_special_traits_def fp_set_def fp_clear_def fts_ok_update Let_def)

lemma fts_add_fnums:
  assumes "fts_ok p" and "fts_add t p = (p', ok)"
  shows "fnums p' = insert (t_fnum t) (fnums p)"
  using fts_add_spec [OF assms] by (auto simp: fnums_def)

text \<open>Traits by number: what the two operations change.\<close>

lemma fts_lookup: "fts_ok p \<Longrightarrow> pr_lookup p f = Some t \<longleftrightarrow> t \<in> set (p_arr p) \<and> t_fnum t = f"
  by (rule pr_lookup_Some [OF fts_ok_pr_ok])

lemma fts_add_lookup:
  assumes "fts_ok p" and "fts_add t p = (p', True)"
  shows "pr_lookup p' f = (if f = t_fnum t then Some t else pr_lookup p f)"
proof (rule option.exhaust [of "pr_lookup p' f"])
  note ok' = fts_add_spec(1) [OF assms] and new = fts_add_spec(2) [OF assms] and s = fts_add_spec(3) [OF assms]
  {
    assume n: "pr_lookup p' f = None"
    then have "f \<notin> fnums p'" using pr_lookup_None [OF fts_ok_pr_ok [OF ok']] by (simp add: fnums_def)
    then have "f \<noteq> t_fnum t" "f \<notin> fnums p" using fts_add_fnums [OF assms] by auto
    moreover from this have "pr_lookup p f = None"
      using pr_lookup_None [OF fts_ok_pr_ok [OF assms(1)]] by (simp add: fnums_def)
    ultimately show ?thesis using n by simp
  next
    fix x assume x: "pr_lookup p' f = Some x"
    then have "x \<in> set (p_arr p')" "t_fnum x = f" using fts_lookup [OF ok'] by auto
    then consider "x = t" "f = t_fnum t" | "x \<in> set (p_arr p)" "f \<noteq> t_fnum t"
      using s new by (metis (full_types) fnums_def imageI insertE)
    then show ?thesis
    proof cases
      case 2
      then have "pr_lookup p f = Some x" using \<open>t_fnum x = f\<close> fts_lookup [OF assms(1)] by simp
      with 2 x show ?thesis by simp
    qed (use x in simp)
  }
qed

lemma special_lookup:
  assumes "fts_ok p"
  shows "pr_lookup (process_special_traits field p) f =
    (if f = field \<and> field \<in> {Common_BeginString, Common_BodyLength, Common_CheckSum, Common_MsgType}
     then map_option (\<lambda>t. t_clear (t_set (if field = Common_MsgType then t else t_set t suppress) automatic) mandatory)
       (pr_lookup p f)
     else pr_lookup p f)"
  using fts_ok_pr_ok [OF assms]
  by (auto simp: process_special_traits_def pr_lookup_fp_set pr_lookup_fp_clear Let_def option.map_comp comp_def
      Common_MsgType_def Common_BeginString_def Common_BodyLength_def Common_CheckSum_def)

section \<open>The fields of a message\<close>

text \<open>What the passes over messages leave alone: the specifications of the fields up to the mark
  that a field is used, and the options. The marks only grow.\<close>

definition spec_view :: "cstate \<Rightarrow> FieldSpecMap" where
  "spec_view s = map (\<lambda>(k, fs). (k, fs\<lparr>fs_used := False\<rparr>)) (cs_fspec s)"

definition used_fnums :: "cstate \<Rightarrow> u16 set" where
  "used_fnums s = {ucast k |k fs. (k, fs) \<in> set (cs_fspec s) \<and> fs_used fs}"

definition grown :: "cstate \<Rightarrow> cstate \<Rightarrow> bool" where
  "grown s s' \<longleftrightarrow> spec_view s' = spec_view s \<and> cs_no_shared s' = cs_no_shared s \<and> used_fnums s \<subseteq> used_fnums s'"

lemma grown_refl [simp]: "grown s s"
  by (simp add: grown_def)

lemma grown_trans: "grown s s' \<Longrightarrow> grown s' s'' \<Longrightarrow> grown s s''"
  by (auto simp: grown_def)

lemma grown_error [simp]: "grown s (add_error s)" "grown s (add_warning s)"
  by (simp_all add: grown_def add_error_def add_warning_def spec_view_def used_fnums_def)

lemma grown_glob [simp]: "grown s (s\<lparr>cs_globmap := g\<rparr>)" "grown s (s\<lparr>cs_counter := c\<rparr>)"
  by (simp_all add: grown_def spec_view_def used_fnums_def)

lemma globmap_marks [simp]:
  "cs_globmap (add_error s) = cs_globmap s" "cs_globmap (add_warning s) = cs_globmap s"
  "cs_globmap (mark_used k s) = cs_globmap s"
  by (simp_all add: add_error_def add_warning_def mark_used_def)

lemma grown_mark: "grown s (mark_used fno s)"
  by (force simp: grown_def mark_used_def spec_view_def used_fnums_def comp_def split_def)

lemma used_mark: "(fno, fs) \<in> set (cs_fspec s) \<Longrightarrow> ucast fno \<in> used_fnums (mark_used fno s)"
  by (force simp: used_fnums_def mark_used_def)

lemma map_of_view: "map_of (spec_view s) k = map_option (\<lambda>fs. fs\<lparr>fs_used := False\<rparr>) (map_of (cs_fspec s) k)"
  unfolding spec_view_def by (induction "cs_fspec s") (auto simp: map_of_map)

text \<open>The number and the type of a named field do not depend on the marks.\<close>

definition field_of :: "cenv \<Rightarrow> cstate \<Rightarrow> string \<Rightarrow> (u32 \<times> ftype) option" where
  "field_of ce s fname = map_option (\<lambda>(k, fs). (k, fs_ftype fs)) (named_field ce s fname)"

lemma field_of_grown:
  assumes "grown s s'"
  shows "field_of ce s' fname = field_of ce s fname"
proof -
  have e: "spec_view s' = spec_view s" using assms by (simp add: grown_def)
  have "map_option (\<lambda>fs. fs\<lparr>fs_used := False\<rparr>) (map_of (cs_fspec s') k) =
      map_option (\<lambda>fs. fs\<lparr>fs_used := False\<rparr>) (map_of (cs_fspec s) k)" for k
    using arg_cong [OF e, of "\<lambda>v. map_of v k"] by (simp only: map_of_view)
  from arg_cong [OF this, of "map_option (\<lambda>fs. (k, fs_ftype fs))" for k]
  have "map_option (\<lambda>fs. (k, fs_ftype fs)) (map_of (cs_fspec s') k) =
      map_option (\<lambda>fs. (k, fs_ftype fs)) (map_of (cs_fspec s) k)" for k
    by (simp add: option.map_comp comp_def)
  then show ?thesis
    by (simp add: field_of_def named_field_def option.map_comp comp_def split: option.split)
qed

text \<open>The trait an element of a message declares: a field, or the count field of a group.\<close>

definition special_trait :: "field_trait \<Rightarrow> field_trait" where
  "special_trait t =
     (if t_fnum t \<in> {Common_BeginString, Common_BodyLength, Common_CheckSum, Common_MsgType}
      then t_clear (t_set (if t_fnum t = Common_MsgType then t else t_set t suppress) automatic) mandatory
      else t)"

definition declared_field :: "cenv \<Rightarrow> cstate \<Rightarrow> xel \<Rightarrow> field_trait option" where
  "declared_field ce s pp =
     (case (GetAttr pp ''name'', GetAttr pp ''required'') of
        (Some fname, Some required) \<Rightarrow>
          (case field_of ce s fname of
             None \<Rightarrow> None
           | Some (fno, ft) \<Rightarrow>
               Some (special_trait (mk_trait (ucast fno) ft (of_int (x_subidx pp)) (required = ''Y'') False
                 (of_nat (component_idx ce pp)) False)))
      | _ \<Rightarrow> None)"

definition declared_group :: "cenv \<Rightarrow> cstate \<Rightarrow> xel \<Rightarrow> field_trait option" where
  "declared_group ce s pp =
     (case (GetAttr pp ''name'', GetAttr pp ''required'') of
        (Some gname, Some required) \<Rightarrow>
          (case field_of ce s gname of
             None \<Rightarrow> None
           | Some (fno, ft) \<Rightarrow>
               Some (mk_trait (ucast fno) ft_int (of_int (x_subidx pp)) (required = ''Y'') True
                 (of_nat (component_idx ce pp)) False))
      | _ \<Rightarrow> None)"

text \<open>The first declaration of a number counts.\<close>

fun first_declared :: "field_trait option list \<Rightarrow> u16 \<Rightarrow> field_trait option" where
  "first_declared [] f = None"
| "first_declared (None # ds) f = first_declared ds f"
| "first_declared (Some t # ds) f = (if t_fnum t = f then Some t else first_declared ds f)"

definition or_else :: "'a option \<Rightarrow> 'a option \<Rightarrow> 'a option" where
  "or_else a b = (case a of None \<Rightarrow> b | Some x \<Rightarrow> Some x)"

lemma or_else_simps [simp]: "or_else None b = b" "or_else (Some x) b = Some x" "or_else a None = a"
  "or_else (or_else a b) c = or_else a (or_else b c)"
  by (auto simp: or_else_def split: option.split)

lemma declared_grown:
  "grown s s' \<Longrightarrow> declared_field ce s' pp = declared_field ce s pp"
  "grown s s' \<Longrightarrow> declared_group ce s' pp = declared_group ce s pp"
  by (simp_all add: declared_field_def declared_group_def field_of_grown [of s s'] split: option.split)

lemma mk_trait_sel [simp]:
  "t_fnum (mk_trait f ft p m g c pr) = f" "t_ftype (mk_trait f ft p m g c pr) = ft"
  "t_pos (mk_trait f ft p m g c pr) = p" "t_component (mk_trait f ft p m g c pr) = c"
  by (simp_all add: mk_trait_def)

lemma special_fnum [simp]: "t_fnum (special_trait t) = t_fnum t"
  by (simp add: special_trait_def)

lemma named_field_cases:
  "named_field ce s fname = None \<Longrightarrow> field_of ce s fname = None"
  "named_field ce s fname = Some (fno, fs) \<Longrightarrow> field_of ce s fname = Some (fno, fs_ftype fs)"
  "named_field ce s fname = Some (fno, fs) \<Longrightarrow> (fno, fs) \<in> set (cs_fspec s)"
  by (auto simp: field_of_def named_field_def map_of_SomeD split: option.splits)

text \<open>A set of traits whose numbers are all marked.\<close>

definition all_used :: "cstate \<Rightarrow> presence \<Rightarrow> bool" where
  "all_used s p \<longleftrightarrow> fnums p \<subseteq> used_fnums s"

lemma all_used_grown: "all_used s p \<Longrightarrow> grown s s' \<Longrightarrow> all_used s' p"
  by (auto simp: all_used_def grown_def)

lemma lookup_fnums: "fts_ok p \<Longrightarrow> pr_lookup p f = None \<longleftrightarrow> f \<notin> fnums p"
  using pr_lookup_None [OF fts_ok_pr_ok] by (simp add: fnums_def)

lemma first_declared_append:
  "first_declared (ds @ es) f = or_else (first_declared ds f) (first_declared es f)"
  by (induction ds f rule: first_declared.induct) (simp_all)

text \<open>What a step that takes declarations does to a set of traits and to the state.\<close>

definition extends :: "field_trait option list \<Rightarrow> presence \<times> cstate \<Rightarrow> presence \<times> cstate \<Rightarrow> bool" where
  "extends ds = (\<lambda>(fts, s) (fts', s').
     fts_ok fts' \<and> grown s s' \<and> (all_used s fts \<longrightarrow> all_used s' fts') \<and>
     (\<forall>f. pr_lookup fts' f = or_else (pr_lookup fts f) (first_declared ds f)))"

lemma extends_none: "fts_ok fts \<Longrightarrow> grown s s' \<Longrightarrow> extends [None] (fts, s) (fts, s')"
  by (auto simp: extends_def dest: all_used_grown)

lemma extends_nil: "fts_ok fts \<Longrightarrow> grown s s' \<Longrightarrow> extends [] (fts, s) (fts, s')"
  by (auto simp: extends_def dest: all_used_grown)

lemma extends_append:
  assumes "extends ds st st'" and "extends es st' st''"
  shows "extends (ds @ es) st st''"
  using assms by (auto simp: extends_def first_declared_append split: prod.splits intro: grown_trans)

text \<open>A number that is there keeps its trait.\<close>

lemma extends_dup:
  assumes "fts_ok fts" and "fts_add t fts = (fts', False)" and "grown s s'" and "t_fnum d = t_fnum t"
  shows "extends [Some d] (fts, s) (fts', s')"
proof -
  from assms have e: "fts' = fts" and "t_fnum t \<in> fnums fts"
    using fts_add_dup [of fts t fts'] fts_add_spec(2) [of fts t fts' False] by auto
  then obtain x where "pr_lookup fts (t_fnum t) = Some x" using lookup_fnums [OF assms(1)] by fastforce
  then show ?thesis using assms(1,3,4) by (auto simp: extends_def e dest: all_used_grown)
qed

lemma extends_add:
  assumes ok: "fts_ok fts" and add: "fts_add t fts = (fts', True)" and g: "grown s s'"
    and u: "t_fnum t \<in> used_fnums s'" and p: "fts_ok p" "fnums p = fnums fts'"
    and l: "\<And>f. pr_lookup p f = (if f = t_fnum t then Some d else pr_lookup fts' f)"
    and d: "t_fnum d = t_fnum t"
  shows "extends [Some d] (fts, s) (p, s')"
proof -
  have "t_fnum t \<notin> fnums fts" using fts_add_spec(2) [OF ok add] by simp
  then have none: "pr_lookup fts (t_fnum t) = None" using lookup_fnums [OF ok] by simp
  have "all_used s fts \<longrightarrow> all_used s' p"
    using g u p(2) fts_add_fnums [OF ok add] by (auto simp: all_used_def grown_def)
  moreover have "pr_lookup p f = or_else (pr_lookup fts f) (first_declared [Some d] f)" for f
    using l [of f] fts_add_lookup [OF ok add, of f] none d by auto
  ultimately show ?thesis using g p(1) by (simp add: extends_def)
qed

lemma extends_field:
  assumes "fts_ok fts"
  shows "extends [declared_field ce s pp] (fts, s) (process_message_field ce pp (fts, s)) \<and>
    cs_globmap (snd (process_message_field ce pp (fts, s))) = cs_globmap s"
proof (cases "GetAttr pp ''name''")
  case None
  then show ?thesis using assms by (simp add: process_message_field_def declared_field_def extends_none)
next
  case n: (Some fname)
  show ?thesis
  proof (cases "GetAttr pp ''required''")
    case None
    with n show ?thesis using assms by (simp add: process_message_field_def declared_field_def extends_none)
  next
    case r: (Some required)
    show ?thesis
    proof (cases "named_field ce s fname")
      case None
      with n r show ?thesis
        using assms named_field_cases(1) [OF None]
        by (simp add: process_message_field_def declared_field_def extends_none)
    next
      case (Some p)
      obtain fno fs where p: "p = (fno, fs)" by (cases p)
      define t where "t = mk_trait (ucast fno) (fs_ftype fs) (of_int (x_subidx pp)) (required = ''Y'') False
        (of_nat (component_idx ce pp)) False"
      obtain fts1 ok where a: "fts_add t fts = (fts1, ok)" by (metis surj_pair)
      have t: "t_fnum t = ucast fno" by (simp add: t_def)
      from Some p n r have d: "declared_field ce s pp = Some (special_trait t)"
        using named_field_cases(2) [of ce s fname fno fs] by (simp add: declared_field_def t_def)
      from Some p n r a have e: "process_message_field ce pp (fts, s) =
          (if ok then (process_special_traits (ucast fno) fts1, mark_used fno s) else (fts1, add_warning s))"
        by (simp add: process_message_field_def t_def split: bool.split)
      show ?thesis
      proof (cases ok)
        case False
        with a have "fts_add t fts = (fts1, False)" by simp
        from extends_dup [OF assms this grown_error(2), of "special_trait t"] False show ?thesis by (simp add: e d)
      next
        case True
        with a have a: "fts_add t fts = (fts1, True)" by simp
        note ok1 = fts_add_spec(1) [OF assms a]
        have u: "t_fnum t \<in> used_fnums (mark_used fno s)"
          using used_mark [OF named_field_cases(3)] Some p by (simp add: t)
        have l: "pr_lookup (process_special_traits (ucast fno) fts1) f =
            (if f = t_fnum t then Some (special_trait t) else pr_lookup fts1 f)" for f
          using special_lookup [OF ok1] fts_add_lookup [OF assms a] t by (auto simp: special_trait_def)
        have "extends [Some (special_trait t)] (fts, s) (process_special_traits (ucast fno) fts1, mark_used fno s)"
          by (rule extends_add [OF assms a grown_mark u _ _ l]) (simp_all add: ok1)
        then show ?thesis by (simp add: e d True)
      qed
    qed
  qed
qed

lemma extends_fields:
  assumes "fts_ok fts"
  shows "extends (map (declared_field ce s) pps) (fts, s) (fold (process_message_field ce) pps (fts, s)) \<and>
    cs_globmap (snd (fold (process_message_field ce) pps (fts, s))) = cs_globmap s"
  using assms
proof (induction pps arbitrary: fts s)
  case Nil
  then show ?case by (simp add: extends_nil)
next
  case (Cons pp pps)
  obtain fts1 s1 where e: "process_message_field ce pp (fts, s) = (fts1, s1)" by (metis surj_pair)
  with extends_field [OF Cons.prems, of ce s pp]
  have x: "extends [declared_field ce s pp] (fts, s) (fts1, s1)" and g: "cs_globmap s1 = cs_globmap s" by simp_all
  then have "fts_ok fts1" and "grown s s1" by (simp_all add: extends_def)
  with Cons.IH [of fts1 s1] show ?case
    using extends_append [OF x] g by (simp add: e declared_grown(1) [of s s1] cong: map_cong)
qed

lemma extends_message_fields:
  assumes "fts_ok fts"
  shows "extends (map (declared_field ce s) (xml_find_set (ce_xml ce) (ce_root ce) xt path)) (fts, s)
      (process_message_fields ce path xt (fts, s))"
    and "cs_globmap (snd (process_message_fields ce path xt (fts, s))) = cs_globmap s"
  using extends_fields [OF assms] by (simp_all add: process_message_fields_def)

section \<open>Groups\<close>

text \<open>A predicate on a specification and all groups in it.\<close>

primrec all_specs :: "(MessageSpec \<Rightarrow> bool) \<Rightarrow> MessageSpec \<Rightarrow> bool" where
  "all_specs P (MSpec name fts groups refcnt h com admin) =
     (P (MSpec name fts groups refcnt h com admin) \<and> list_all (\<lambda>p. snd p) (map (map_prod (\<lambda>k. k) (all_specs P)) groups))"

lemma all_specs_iff: "all_specs P m \<longleftrightarrow> P m \<and> (\<forall>(k, g) \<in> set (ms_groups m). all_specs P g)"
  by (cases m) (auto simp: list_all_iff split_def)

lemma all_specs_mono:
  assumes "all_specs P m" and "\<And>g. P g \<Longrightarrow> Q g"
  shows "all_specs Q m"
  using assms(1)
proof (induction m)
  case (MSpec name fts groups refcnt h com admin)
  have "all_specs Q g" if "(k, g) \<in> set groups" "all_specs P g" for k g
    using MSpec.IH [OF that(1), of g] that(2) by simp
  then show ?case using MSpec.prems assms(2) by (auto simp: list_all_iff)
qed

text \<open>
  A specification is in order when its set of traits is, its numbers are marked, no trait says that its
  field is present, its groups have different numbers, each with a group trait, its hash and a common variant, and every group trait
  has its group.
\<close>

definition has_variant :: "CommonGroupMap \<Rightarrow> u32 \<Rightarrow> u32 \<Rightarrow> bool" where
  "has_variant glob k h \<longleftrightarrow> find_group_variant glob k h \<noteq> None"

definition node_ok :: "cstate \<Rightarrow> MessageSpec \<Rightarrow> bool" where
  "node_ok s m \<longleftrightarrow> fts_ok (ms_fields m) \<and> all_used s (ms_fields m) \<and> om_ok (ms_groups m) \<and>
     inj_on (\<lambda>k. ucast k :: u16) (fst ` set (ms_groups m)) \<and>
     (\<forall>t \<in> set (p_arr (ms_fields m)). \<not> t_has t present) \<and>
     (\<forall>t \<in> set (p_arr (ms_fields m)). t_has t group \<longrightarrow> t_fnum t \<in> ucast ` fst ` set (ms_groups m)) \<and>
     (\<forall>(k, g) \<in> set (ms_groups m).
        (\<exists>t. pr_lookup (ms_fields m) (ucast k) = Some t \<and> t_has t group) \<and>
        (cs_no_shared s \<or> ms_hash g = hash_of g) \<and>
        has_variant (cs_globmap s) k (ms_hash g))"

abbreviation spec_ok :: "cstate \<Rightarrow> MessageSpec \<Rightarrow> bool" where
  "spec_ok s \<equiv> all_specs (node_ok s)"

definition entry_ok :: "cstate \<Rightarrow> u32 \<times> MessageSpec \<Rightarrow> bool" where
  "entry_ok s p \<longleftrightarrow> ms_hash (snd p) = fst p \<and> (cs_no_shared s \<or> fst p = hash_of (snd p)) \<and> spec_ok s (snd p)"

definition glob_ok :: "cstate \<Rightarrow> bool" where
  "glob_ok s \<longleftrightarrow> om_ok (cs_globmap s) \<and>
     (\<forall>k cg. (k, cg) \<in> set (cs_globmap s) \<longrightarrow> om_ok cg \<and> (\<forall>p \<in> set cg. entry_ok s p))"

lemma find_variant_iff:
  "has_variant glob k h \<longleftrightarrow> (\<exists>cg. map_of glob k = Some cg \<and> h \<in> fst ` set cg)"
proof (cases "map_of glob k")
  case (Some cg)
  have "find_index (\<lambda>p. fst p = h) cg = None \<longleftrightarrow> h \<notin> fst ` set cg" by (auto simp: find_index_None)
  with Some show ?thesis by (cases "find_index (\<lambda>p. fst p = h) cg") (simp_all add: has_variant_def find_group_variant_def)
qed (simp add: has_variant_def find_group_variant_def)

lemma find_variant_Some:
  assumes "find_group_variant glob k h = Some (v, m)"
  obtains cg where "(k, cg) \<in> set glob" "(h, m) \<in> set cg"
proof -
  from assms obtain cg i where cg: "map_of glob k = Some cg" and i: "find_index (\<lambda>p. fst p = h) cg = Some i" "m = snd (cg ! i)"
    by (auto simp: find_group_variant_def split: option.splits)
  from i have "(h, m) = cg ! i" "i < length cg" by (auto simp: find_index_Some)
  then have "(h, m) \<in> set cg" by (metis nth_mem)
  with map_of_SomeD [OF cg] show thesis by (rule that)
qed

definition more_variants :: "cstate \<Rightarrow> cstate \<Rightarrow> bool" where
  "more_variants s s' \<longleftrightarrow>
     (\<forall>k h. has_variant (cs_globmap s) k h \<longrightarrow> has_variant (cs_globmap s') k h)"

lemma more_variants_refl: "cs_globmap s' = cs_globmap s \<Longrightarrow> more_variants s s'"
  by (simp add: more_variants_def)

lemma more_variants_trans: "more_variants s s' \<Longrightarrow> more_variants s' s'' \<Longrightarrow> more_variants s s''"
  by (simp add: more_variants_def)

lemma node_ok_mono: "node_ok s m \<Longrightarrow> grown s s' \<Longrightarrow> more_variants s s' \<Longrightarrow> node_ok s' m"
  unfolding node_ok_def more_variants_def grown_def all_used_def by fastforce

lemma spec_ok_mono: "spec_ok s m \<Longrightarrow> grown s s' \<Longrightarrow> more_variants s s' \<Longrightarrow> spec_ok s' m"
  by (erule all_specs_mono) (rule node_ok_mono)

lemma spec_sel [simp]:
  "ms_fields (set_hash h m) = ms_fields m" "ms_groups (set_hash h m) = ms_groups m"
  "ms_fields (add_ref m) = ms_fields m" "ms_groups (add_ref m) = ms_groups m"
  "ms_fields (set_comment c m) = ms_fields m" "ms_groups (set_comment c m) = ms_groups m"
  "ms_fields (upd_fields f m) = f (ms_fields m)" "ms_groups (upd_fields f m) = ms_groups m"
  "ms_fields (set_groups gs m) = ms_fields m" "ms_groups (set_groups gs m) = gs"
  "ms_hash (set_hash h m) = h"
  by (simp_all add: spec_upd)

lemma hash_of_unfold:
  "hash_of m = fold (\<lambda>(k, g) result. rothash result (hash_of g)) (ms_groups m) (hash_fields (ms_fields m))"
  by (cases m) (simp add: fold_map comp_def split_def)

lemma hash_of_cong: "ms_fields m = ms_fields m' \<Longrightarrow> ms_groups m = ms_groups m' \<Longrightarrow> hash_of m = hash_of m'"
  by (simp only: hash_of_unfold [of m] hash_of_unfold [of m'])

lemma spec_ok_cong:
  "ms_fields m = ms_fields m' \<Longrightarrow> ms_groups m = ms_groups m' \<Longrightarrow> spec_ok s m \<longleftrightarrow> spec_ok s m'"
  unfolding all_specs_iff [of _ m] all_specs_iff [of _ m'] by (simp add: node_ok_def)

lemma entry_ok_mono: "entry_ok s p \<Longrightarrow> grown s s' \<Longrightarrow> more_variants s s' \<Longrightarrow> entry_ok s' p"
  using spec_ok_mono [of s "snd p" s'] by (simp add: entry_ok_def grown_def)

lemma glob_ok_same:
  assumes "glob_ok s" and "grown s s'" and "cs_globmap s' = cs_globmap s"
  shows "glob_ok s'"
  using assms(1,3) entry_ok_mono [OF _ assms(2) more_variants_refl [OF assms(3)]] by (simp add: glob_ok_def)

text \<open>The common set after one more group.\<close>

definition common_set :: "CommonGroupMap \<Rightarrow> u32 \<Rightarrow> CommonGroups" where
  "common_set glob k = (case map_of glob k of Some cg \<Rightarrow> cg | None \<Rightarrow> [])"

definition counted :: "u32 \<Rightarrow> u32 \<times> MessageSpec \<Rightarrow> u32 \<times> MessageSpec" where
  "counted hv = (\<lambda>(h, m). (h, if h = hv then set_hash hv (add_ref m) else m))"

lemma fst_counted [simp]: "fst (counted hv p) = fst p"
  by (cases p) (simp add: counted_def)

lemma om_ok_map_fst: "(\<And>p. fst (f p) = fst p) \<Longrightarrow> om_ok (map f m) \<longleftrightarrow> om_ok m"
  by (simp add: om_ok_def comp_def)

lemma map_of_add_common:
  assumes "om_ok glob"
  shows "om_ok (add_common k hv g glob)"
    and "map_of (add_common k hv g glob) k' =
      (if k' = k then Some (map (counted hv) (om_insert hv g (common_set glob k))) else map_of glob k')"
proof -
  let ?glob1 = "om_insert k [] glob"
  have e: "the (map_of ?glob1 k) = common_set glob k"
    using assms by (simp add: om_lookup common_set_def split: option.split)
  show "om_ok (add_common k hv g glob)" using assms by (auto simp: add_common_def Let_def)
  show "map_of (add_common k hv g glob) k' =
      (if k' = k then Some (map (counted hv) (om_insert hv g (common_set glob k))) else map_of glob k')"
    using assms e by (simp add: add_common_def Let_def om_lookup counted_def)
qed

lemma add_common_variants:
  assumes "om_ok glob" and "\<forall>(k, cg) \<in> set glob. om_ok cg"
  shows "has_variant (add_common k hv g glob) k' h' \<longleftrightarrow>
    has_variant glob k' h' \<or> k' = k \<and> h' = hv"
proof -
  have "fst ` counted hv ` X = fst ` X" for X by (force simp: image_image)
  then show ?thesis
    using map_of_add_common(2) [OF assms(1), of k hv g k']
    by (auto simp: find_variant_iff fst_set_om_insert common_set_def split: option.splits)
qed

lemma add_common_ok:
  assumes ok: "glob_ok s" and g: "spec_ok s g" "ms_hash g = hv" "cs_no_shared s \<or> hv = hash_of g"
    and s': "s' = s\<lparr>cs_globmap := add_common k hv g (cs_globmap s)\<rparr>"
  shows "glob_ok s'" and "more_variants s s'" and "has_variant (cs_globmap s') k hv"
proof -
  have om: "om_ok (cs_globmap s)" and cgs: "\<forall>(k, cg) \<in> set (cs_globmap s). om_ok cg"
    using ok unfolding glob_ok_def by blast+
  note v = add_common_variants [OF om cgs, of k hv g]
  show more: "more_variants s s'" and "has_variant (cs_globmap s') k hv"
    by (auto simp: more_variants_def s' v)
  have gr: "grown s s'" by (simp add: s')
  have old: "om_ok cg \<and> (\<forall>p \<in> set cg. entry_ok s p)" if "(k', cg) \<in> set (cs_globmap s)" for k' cg
    using that ok by (simp add: glob_ok_def)
  have base: "om_ok (common_set (cs_globmap s) k) \<and> (\<forall>p \<in> set (common_set (cs_globmap s) k). entry_ok s p)"
  proof (cases "map_of (cs_globmap s) k")
    case (Some cg)
    then show ?thesis using old [OF map_of_SomeD [OF Some]] by (simp add: common_set_def)
  qed (simp add: common_set_def)
  have "entry_ok s (hv, g)" using g by (simp add: entry_ok_def)
  then have "\<forall>p \<in> set (om_insert hv g (common_set (cs_globmap s) k)). entry_ok s p"
    using base set_om_insert_subset [of hv g "common_set (cs_globmap s) k"] by blast
  moreover have "entry_ok s (counted hv p)" if "entry_ok s p" for p
    using that hash_of_cong [of "set_hash hv (add_ref (snd p))" "snd p"]
      spec_ok_cong [of "set_hash hv (add_ref (snd p))" "snd p" s]
    by (cases p) (auto simp: counted_def entry_ok_def)
  ultimately have new: "\<forall>p \<in> set (map (counted hv) (om_insert hv g (common_set (cs_globmap s) k))). entry_ok s p" by auto
  have "om_ok cg \<and> (\<forall>p \<in> set cg. entry_ok s p)" if "(k', cg) \<in> set (cs_globmap s')" for k' cg
  proof -
    have "map_of (cs_globmap s') k' = Some cg"
      using that om_ok_distinct [OF map_of_add_common(1) [OF om]] by (simp add: s')
    then consider "k' \<noteq> k" "map_of (cs_globmap s) k' = Some cg"
      | "cg = map (counted hv) (om_insert hv g (common_set (cs_globmap s) k))"
      using map_of_add_common(2) [OF om, of k hv g k'] by (auto simp: s' split: if_splits)
    then show ?thesis
    proof cases
      case 1
      then show ?thesis using old map_of_SomeD by fast
    next
      case 2
      have "om_ok cg" using base by (auto simp: 2 om_ok_map_fst)
      with new show ?thesis by (simp add: 2)
    qed
  qed
  then show "glob_ok s'"
    using map_of_add_common(1) [OF om] entry_ok_mono [OF _ gr more] by (simp add: glob_ok_def s')
qed

lemma mk_trait_has:
  "t_has (mk_trait f ft p m g c pr) group \<longleftrightarrow> g" "t_has (mk_trait f ft p m g c pr) mandatory \<longleftrightarrow> m"
  "t_has (mk_trait f ft p m g c pr) present \<longleftrightarrow> pr"
  by (auto simp: t_has_def eb_simps mk_trait_def bit_simps)

subsection \<open>Parsing the groups\<close>

text \<open>What parsing a list of groups does to the enclosing specification and to the state.\<close>

definition parsed :: "field_trait option list \<Rightarrow> MessageSpec \<times> cstate \<Rightarrow> MessageSpec \<times> cstate \<Rightarrow> bool" where
  "parsed ds = (\<lambda>(m, s) (m', s').
     glob_ok s' \<and> spec_ok s' m' \<and> more_variants s s' \<and> extends ds (ms_fields m, s) (ms_fields m', s'))"

lemma parsed_step:
  assumes "extends [d] (ms_fields m, s) (ms_fields m1, s1)" and "more_variants s s1"
    and "parsed ds (m1, s1) st"
  shows "parsed (d # ds) (m, s) st"
  using assms extends_append [OF assms(1), of ds] more_variants_trans [OF assms(2)]
  by (auto simp: parsed_def)

lemma group_hash_frame:
  assumes "group_hash m s = (h, s1)"
  shows "grown s s1" "cs_globmap s1 = cs_globmap s" "cs_no_shared s \<or> h = hash_of m"
  using assms by (auto simp: group_hash_def split: if_splits)

lemma spec_ok_new: "spec_ok s (new_MessageSpec name admin)"
  unfolding all_specs_iff [of _ "new_MessageSpec name admin"]
  using fts_ok_new by (simp add: new_MessageSpec_def node_ok_def all_used_def fnums_def pr_ctor_def)

lemma spec_ok_set_hash [simp]: "spec_ok s (set_hash h m) \<longleftrightarrow> spec_ok s m"
  by (rule spec_ok_cong) simp_all

lemma spec_ok_fields: "spec_ok s m \<Longrightarrow> fts_ok (ms_fields m) \<and> all_used s (ms_fields m)"
  by (simp add: all_specs_iff [of _ m] node_ok_def)

lemma extends_grown: "extends ds (p, s) (p', s') \<Longrightarrow> grown s s'"
  by (simp add: extends_def)

lemma extends_later: "extends ds st (p, s) \<Longrightarrow> grown s s' \<Longrightarrow> extends ds st (p, s')"
  by (auto simp: extends_def intro: grown_trans all_used_grown)

lemma extends_member:
  assumes "extends ds (p, s) (p', s')" and "fts_ok p" and "t \<in> set (p_arr p')"
  shows "t \<in> set (p_arr p) \<or> first_declared ds (t_fnum t) = Some t"
proof -
  have "fts_ok p'" and l: "pr_lookup p' (t_fnum t) = or_else (pr_lookup p (t_fnum t)) (first_declared ds (t_fnum t))"
    using assms(1) by (simp_all add: extends_def)
  then have "or_else (pr_lookup p (t_fnum t)) (first_declared ds (t_fnum t)) = Some t"
    using fts_lookup [of p' "t_fnum t" t] assms(3) by simp
  then show ?thesis using fts_lookup [OF assms(2)] by (cases "pr_lookup p (t_fnum t)") auto
qed

text \<open>More fields for a specification: \<open>gs\<close> are the numbers of the groups that are declared with them.\<close>

definition groups_among :: "u16 set \<Rightarrow> field_trait option list \<Rightarrow> bool" where
  "groups_among gs ds \<longleftrightarrow> (\<forall>f t. first_declared ds f = Some t \<longrightarrow> \<not> t_has t present \<and> (t_has t group \<longrightarrow> f \<in> gs))"

lemma first_declared_in: "first_declared ds f = Some t \<Longrightarrow> Some t \<in> set ds \<and> t_fnum t = f"
  by (induction ds f rule: first_declared.induct) (auto split: if_splits)

lemma special_has: "t_has (special_trait t) group = t_has t group" "t_has (special_trait t) present = t_has t present"
  by (simp_all add: special_trait_def)

lemma declared_field_no_group: "declared_field ce s pp = Some t \<Longrightarrow> \<not> t_has t group \<and> \<not> t_has t present"
  by (auto simp: declared_field_def special_has mk_trait_has split: option.splits)

lemma fields_no_groups: "groups_among {} (map (declared_field ce s) pps)"
  by (auto simp: groups_among_def dest!: first_declared_in dest: declared_field_no_group [OF sym])

lemma spec_ok_extend:
  assumes "spec_ok s m" and "extends ds (ms_fields m, s) (p, s')" and "more_variants s s'"
    and "groups_among {} ds"
  shows "spec_ok s' (upd_fields (\<lambda>_. p) m)"
proof -
  have m: "spec_ok s' m" using spec_ok_mono [OF assms(1) extends_grown [OF assms(2)] assms(3)] .
  have ok: "fts_ok (ms_fields m)" using spec_ok_fields [OF assms(1)] by simp
  have e: "fts_ok p" "all_used s' p" "\<And>f. pr_lookup p f = or_else (pr_lookup (ms_fields m) f) (first_declared ds f)"
    using assms(2) spec_ok_fields [OF assms(1)] by (auto simp: extends_def)
  have old: "t \<in> set (p_arr (ms_fields m)) \<or> \<not> t_has t present \<and> \<not> t_has t group" if "t \<in> set (p_arr p)" for t
    using extends_member [OF assms(2) ok that] assms(4) by (auto simp: groups_among_def)
  have "node_ok s' m" and k: "\<forall>(k, g) \<in> set (ms_groups m). spec_ok s' g"
    using m unfolding all_specs_iff [of _ m] by simp_all
  then have "node_ok s' (upd_fields (\<lambda>_. p) m)" using e old by (fastforce simp: node_ok_def)
  with k show ?thesis unfolding all_specs_iff [of _ "upd_fields (\<lambda>_. p) m"] by simp
qed

text \<open>One more group, with the trait of its count field.\<close>

lemma spec_ok_add_group:
  assumes m: "spec_ok s m" and x: "extends ds (ms_fields m, s) (p, s1)"
    and s1: "grown s1 s'" and v: "more_variants s s'"
    and among: "groups_among {ucast k} ds"
    and g: "spec_ok s' g" "cs_no_shared s' \<or> ms_hash g = hash_of g" "has_variant (cs_globmap s') k (ms_hash g)"
    and t: "pr_lookup p (ucast k) = Some t" "t_has t group"
    and new: "(ucast k :: u16) \<notin> ucast ` fst ` set (ms_groups m)"
  shows "spec_ok s' (set_groups (om_insert k g (ms_groups m)) (upd_fields (\<lambda>_. p) m))"
proof -
  have m': "spec_ok s' m" using spec_ok_mono [OF m grown_trans [OF extends_grown [OF x] s1] v] .
  have ok: "fts_ok (ms_fields m)" using spec_ok_fields [OF m] by simp
  have e: "fts_ok p" "all_used s' p" "\<And>f. pr_lookup p f = or_else (pr_lookup (ms_fields m) f) (first_declared ds f)"
    using x spec_ok_fields [OF m] all_used_grown [OF _ s1] by (auto simp: extends_def)
  have old: "t \<in> set (p_arr (ms_fields m)) \<or> \<not> t_has t present \<and> (t_has t group \<longrightarrow> t_fnum t = ucast k)"
    if "t \<in> set (p_arr p)" for t
    using extends_member [OF x ok that] among by (auto simp: groups_among_def)
  have k: "k \<notin> fst ` set (ms_groups m)" using new by blast
  have n: "node_ok s' m" and gs: "\<forall>(k, g) \<in> set (ms_groups m). spec_ok s' g"
    using m' unfolding all_specs_iff [of _ m] by simp_all
  have keys: "fst ` set (om_insert k g (ms_groups m)) = insert k (fst ` set (ms_groups m))" by (simp add: fst_set_om_insert)
  have cov: "t_fnum t \<in> insert (ucast k) (ucast ` fst ` set (ms_groups m))" if "t \<in> set (p_arr p)" "t_has t group" for t
    using old [OF that(1)] n that(2) by (auto simp: node_ok_def)
  have unset: "\<not> t_has t present" if "t \<in> set (p_arr p)" for t
    using old [OF that] n by (auto simp: node_ok_def)
  have each: "(\<exists>t. pr_lookup p (ucast k') = Some t \<and> t_has t group) \<and>
      (cs_no_shared s' \<or> ms_hash g' = hash_of g') \<and> has_variant (cs_globmap s') k' (ms_hash g')"
    if "(k', g') \<in> set (om_insert k g (ms_groups m))" for k' g'
  proof -
    from that consider "(k', g') = (k, g)" | "(k', g') \<in> set (ms_groups m)" by (auto simp: set_om_insert_new [OF k])
    then show ?thesis
    proof cases
      case 2
      with n show ?thesis unfolding node_ok_def e(3) by fastforce
    qed (use g(2,3) t in simp)
  qed
  have "inj_on (\<lambda>k. ucast k :: u16) (insert k (fst ` set (ms_groups m)))" using n new by (auto simp: node_ok_def)
  moreover have "om_ok (om_insert k g (ms_groups m))" using n by (auto simp: node_ok_def)
  ultimately have "node_ok s' (set_groups (om_insert k g (ms_groups m)) (upd_fields (\<lambda>_. p) m))"
    using e(1,2) each cov unset by (auto simp: node_ok_def keys)
  with gs g(1) show ?thesis
    unfolding all_specs_iff [of _ "set_groups (om_insert k g (ms_groups m)) (upd_fields (\<lambda>_. p) m)"]
    by (auto simp: set_om_insert_new [OF k])
qed

lemma extends_group_dup:
  assumes "fts_ok fts" and "GetAttr pp ''name'' = Some gname" and "GetAttr pp ''required'' = Some required"
    and "named_field ce s gname = Some (fno, fs)"
    and "fts_add (mk_trait (ucast fno) ft_int (of_int (x_subidx pp)) (required = ''Y'') True
      (of_nat (component_idx ce pp)) False) fts = (fts1, ok)"
  shows "\<not> ok \<Longrightarrow> extends [declared_group ce s pp] (fts, s) (fts1, add_warning s)"
    and "ok \<Longrightarrow> extends [declared_group ce s pp] (fts, s) (fts1, mark_used fno s)"
proof -
  define t where "t = mk_trait (ucast fno) ft_int (of_int (x_subidx pp)) (required = ''Y'') True
    (of_nat (component_idx ce pp)) False"
  have d: "declared_group ce s pp = Some t"
    using assms(2,3) named_field_cases(2) [OF assms(4)] by (simp add: declared_group_def t_def)
  have t: "t_fnum t = ucast fno" by (simp add: t_def)
  show "extends [declared_group ce s pp] (fts, s) (fts1, add_warning s)" if "\<not> ok"
  proof -
    from that assms(5) have "fts_add t fts = (fts1, False)" by (simp add: t_def)
    from extends_dup [OF assms(1) this grown_error(2)] show ?thesis unfolding d by simp
  qed
  show "extends [declared_group ce s pp] (fts, s) (fts1, mark_used fno s)" if ok
  proof -
    from that assms(5) have a: "fts_add t fts = (fts1, True)" by (simp add: t_def)
    have u: "t_fnum t \<in> used_fnums (mark_used fno s)"
      using used_mark [OF named_field_cases(3) [OF assms(4)]] by (simp add: t)
    show ?thesis unfolding d
      by (rule extends_add [OF assms(1) a grown_mark u fts_add_spec(1) [OF assms(1) a] refl])
        (simp_all add: fts_add_lookup [OF assms(1) a])
  qed
qed

lemma parsed_skip:
  assumes "spec_ok s m" and "glob_ok s" and d: "extends [declared_group ce s pp] (ms_fields m, s) (ms_fields m, s1)"
    and gm: "cs_globmap s1 = cs_globmap s"
    and IH: "\<lbrakk>glob_ok s1; spec_ok s1 m\<rbrakk> \<Longrightarrow> parsed (map (declared_group ce s1) grplist) (m, s1) st"
  shows "parsed (map (declared_group ce s) (pp # grplist)) (m, s) st"
proof -
  note g = extends_grown [OF d] and v = more_variants_refl [OF gm]
  have "parsed (map (declared_group ce s1) grplist) (m, s1) st"
    by (rule IH [OF glob_ok_same [OF assms(2) g gm] spec_ok_mono [OF assms(1) g v]])
  then have "parsed (declared_group ce s pp # map (declared_group ce s1) grplist) (m, s) st"
    by (rule parsed_step [rotated 2]) (simp_all add: d v)
  then show ?thesis by (simp add: declared_grown(2) [OF g] cong: map_cong)
qed

lemma upd_fields_id [simp]: "upd_fields (\<lambda>_. ms_fields m) m = m"
  by (cases m) (simp add: upd_fields_def)

text \<open>The group itself: its own fields, its nested groups, its hash and its common variant.\<close>

lemma parsed_group:
  assumes m: "spec_ok s m" and x1: "extends [declared_group ce s el] (ms_fields m, s) (p, s1)"
    and v1: "more_variants s s1" and gl: "glob_ok s1"
    and t: "declared_group ce s el = Some t" "t_fnum t = ucast fno" "pr_lookup p (ucast fno) = Some t" "t_has t group"
    and new: "(ucast fno :: u16) \<notin> ucast ` fst ` set (ms_groups m)"
    and pf: "process_message_fields ce path pp (ms_fields (new_MessageSpec gname False), s1) = (gf, s2)"
    and nested: "glob_ok s2 \<and> spec_ok s2 (upd_fields (\<lambda>_. gf) (new_MessageSpec gname False)) \<longrightarrow>
      glob_ok s3 \<and> spec_ok s3 g2 \<and> more_variants s2 s3 \<and> grown s2 s3"
    and h: "group_hash g2 s3 = (hv, s4)"
    and s5: "s5 = s4\<lparr>cs_globmap := add_common fno hv (set_hash hv g2) (cs_globmap s4)\<rparr>"
  shows "glob_ok s5" "more_variants s s5" "grown s1 s5"
    "spec_ok s5 (set_groups (om_insert fno (set_hash hv g2) (ms_groups m)) (upd_fields (\<lambda>_. p) m))"
proof -
  let ?new = "new_MessageSpec gname False"
  have "fts_ok (ms_fields ?new)" by (simp add: spec_ok_fields [OF spec_ok_new])
  note x = extends_message_fields [OF this, where ce = ce and s = s1 and xt = pp and path = path, unfolded pf snd_conv]
  note g12 = extends_grown [OF x(1)] and v12 = more_variants_refl [OF x(2)]
  have "spec_ok s2 (upd_fields (\<lambda>_. gf) ?new)" by (rule spec_ok_extend [OF spec_ok_new x(1) v12 fields_no_groups])
  with nested glob_ok_same [OF gl g12 x(2)]
  have n: "glob_ok s3" "spec_ok s3 g2" "more_variants s2 s3" "grown s2 s3" by simp_all
  note h = group_hash_frame [OF h]
  have n4: "glob_ok s4" "spec_ok s4 (set_hash hv g2)" "cs_no_shared s4 = cs_no_shared s3"
    using glob_ok_same [OF n(1) h(1,2)] spec_ok_mono [OF n(2) h(1) more_variants_refl [OF h(2)]] h(1)
    by (simp_all add: grown_def)
  have hash: "cs_no_shared s4 \<or> hv = hash_of (set_hash hv g2)"
    using h(3) n4(3) hash_of_cong [of "set_hash hv g2" g2] by simp
  note c = add_common_ok [OF n4(1,2) _ hash s5, simplified]
  have g45: "grown s4 s5" by (simp add: s5)
  show "glob_ok s5" by (rule c(1))
  have v15: "more_variants s1 s5"
    using v12 n(3) more_variants_refl [OF h(2)] c(2) by (meson more_variants_trans)
  then show v05: "more_variants s s5" using v1 more_variants_trans by blast
  show g15: "grown s1 s5" using g12 n(4) h(1) g45 by (meson grown_trans)
  have g3: "spec_ok s5 (set_hash hv g2)" by (rule spec_ok_mono [OF n4(2) g45 c(2)])
  have ns: "cs_no_shared s5 = cs_no_shared s4" using g45 by (simp add: grown_def)
  have am: "groups_among {ucast fno} [declared_group ce s el]"
    using t(1,2) by (auto simp: groups_among_def declared_group_def mk_trait_has split: option.splits)
  show "spec_ok s5 (set_groups (om_insert fno (set_hash hv g2) (ms_groups m)) (upd_fields (\<lambda>_. p) m))"
    by (rule spec_ok_add_group [OF m x1 g15 v05 am g3 _ _ t(3,4) new]) (use hash ns c(3) in simp_all)
qed

lemma parse_groups_ok:
  assumes "parse_groups n ce grplist (m, s) = Some st" and "glob_ok s" and "spec_ok s m"
  shows "parsed (map (declared_group ce s) grplist) (m, s) st"
  using assms
proof (induction n arbitrary: grplist m s st)
  case (Suc n)
  note outer = Suc.IH
  from Suc.prems show ?case
  proof (induction grplist arbitrary: m s)
    case Nil
    obtain h s1 where h: "group_hash m s = (h, s1)" by (metis surj_pair)
    note f = group_hash_frame [OF h]
    have "spec_ok s1 (set_hash h m)"
      using spec_ok_mono [OF Nil(3) f(1) more_variants_refl [OF f(2)]] by simp
    with Nil h show ?case
      using glob_ok_same [OF Nil(2) f(1,2)] more_variants_refl [OF f(2)] extends_nil [OF _ f(1)] spec_ok_fields [OF Nil(3)]
      by (auto simp: parsed_def)
  next
    case (Cons pp grplist)
    note run = Cons.prems(1) and gl = Cons.prems(2) and m = Cons.prems(3)
    have ok: "fts_ok (ms_fields m)" using spec_ok_fields [OF m] by simp
    have skip: ?case
      if "declared_group ce s pp = None" "parse_groups (Suc n) ce grplist (m, add_error s) = Some st"
      by (rule parsed_skip [OF m gl, of ce pp "add_error s"])
        (simp_all add: that(1) extends_none ok Cons.IH [OF that(2)])
    show ?case
    proof (cases "GetAttr pp ''name''")
      case None
      with run skip show ?thesis by (simp add: declared_group_def)
    next
      case gn: (Some gname)
      show ?thesis
      proof (cases "GetAttr pp ''required''")
        case None
        with gn run skip show ?thesis by (simp add: declared_group_def)
      next
        case rq: (Some required)
        show ?thesis
        proof (cases "named_field ce s gname")
          case None
          with gn rq run skip named_field_cases(1) [OF None] show ?thesis by (simp add: declared_group_def)
        next
          case (Some q)
          obtain fno fs where q: "named_field ce s gname = Some (fno, fs)" using Some by (cases q) simp
          define t where "t = mk_trait (ucast fno) ft_int (of_int (x_subidx pp)) (required = ''Y'') True
            (of_nat (component_idx ce pp)) False"
          obtain fts1 new where a: "fts_add t (ms_fields m) = (fts1, new)" by (metis surj_pair)
          note x = extends_group_dup [OF ok gn rq q a [unfolded t_def]]
          show ?thesis
          proof (cases new)
            case False
            with run gn rq q a have r: "parse_groups (Suc n) ce grplist (upd_fields (\<lambda>_. fts1) m, add_warning s) = Some st"
              by (simp add: t_def)
            have e: "fts1 = ms_fields m" using fts_add_dup [OF ok] a False by simp
            show ?thesis
              by (rule parsed_skip [OF m gl x(1) [OF False, unfolded e]]) (use Cons.IH [OF r] e in simp_all)
          next
            case True
            with a have a: "fts_add t (ms_fields m) = (fts1, True)" by simp
            let ?m1 = "upd_fields (\<lambda>_. fts1) m" and ?s1 = "mark_used fno s"
            note x = x(2) [OF True]
            have v: "more_variants s ?s1" by (rule more_variants_refl) simp
            note gl1 = glob_ok_same [OF gl grown_mark globmap_marks(3)]
            have d: "declared_group ce s pp = Some t"
              using gn rq named_field_cases(2) [OF q] by (simp add: declared_group_def t_def)
            have tn: "t_fnum t = ucast fno" and tg: "t_has t group" by (simp_all add: t_def mk_trait_has)
            have fresh: "(ucast fno :: u16) \<notin> ucast ` fst ` set (ms_groups m)"
            proof
              assume "(ucast fno :: u16) \<in> ucast ` fst ` set (ms_groups m)"
              then obtain k g where k: "(k, g) \<in> set (ms_groups m)" "(ucast fno :: u16) = ucast k" by auto
              have "node_ok s m" using m unfolding all_specs_iff [of _ m] by simp
              with k obtain u where "pr_lookup (ms_fields m) (ucast k) = Some u" unfolding node_ok_def by fastforce
              then have "ucast fno \<in> fnums (ms_fields m)" using lookup_fnums [OF ok, of "ucast k"] k(2) by simp
              then show False using fts_add_spec(2) [OF ok a] tn by simp
            qed
            then have none: "map_of (ms_groups m) fno = None" by (force simp: map_of_eq_None_iff)
            obtain gf s2 where pf: "process_message_fields ce ''group/field'' pp (ms_fields (new_MessageSpec gname False), ?s1) = (gf, s2)"
              by (metis surj_pair)
            let ?g1 = "upd_fields (\<lambda>_. gf) (new_MessageSpec gname False)"
            let ?com = "xml_find_set (ce_xml ce) (ce_root ce) pp ''group/group''"
            from run gn rq q a none pf obtain g2 s3 where
              nest: "(if ?com = [] then Some (?g1, s2) else parse_groups n ce ?com (?g1, s2)) = Some (g2, s3)"
              by (auto simp: t_def [symmetric] Let_def split: option.splits)
            obtain hv s4 where h: "group_hash g2 s3 = (hv, s4)" by (metis surj_pair)
            let ?s5 = "s4\<lparr>cs_globmap := add_common fno hv (set_hash hv g2) (cs_globmap s4)\<rparr>"
            let ?m2 = "set_groups (om_insert fno (set_hash hv g2) (ms_groups ?m1)) ?m1"
            from run gn rq q a none pf nest h have r: "parse_groups (Suc n) ce grplist (?m2, ?s5) = Some st"
              by (simp add: t_def [symmetric] Let_def del: spec_sel(10) split: if_splits)
            have nested: "glob_ok s2 \<and> spec_ok s2 ?g1 \<longrightarrow>
              glob_ok s3 \<and> spec_ok s3 g2 \<and> more_variants s2 s3 \<and> grown s2 s3"
            proof (cases "?com = []")
              case True
              with nest show ?thesis by (auto intro: more_variants_refl)
            next
              case False
              with nest have "parse_groups n ce ?com (?g1, s2) = Some (g2, s3)" by simp
              from outer [OF this] show ?thesis by (auto simp: parsed_def dest: extends_grown)
            qed
            have lk: "pr_lookup fts1 (ucast fno) = Some t" using fts_add_lookup [OF ok a] by (simp add: tn)
            note g = parsed_group [OF m x v gl1 d tn lk tg fresh pf nested h refl]
            have x2: "extends [declared_group ce s pp] (ms_fields m, s) (ms_fields ?m2, ?s5)"
              using extends_later [OF x g(3)] by (simp only: spec_sel)
            have "parsed (map (declared_group ce ?s5) grplist) (?m2, ?s5) st"
              by (rule Cons.IH [OF r]) (simp_all only: spec_sel(8) g(1,4))
            then have "parsed (declared_group ce s pp # map (declared_group ce ?s5) grplist) (m, s) st"
              by (rule parsed_step [OF x2 g(2)])
            then show ?thesis by (simp add: declared_grown(2) [OF extends_grown [OF x2]] cong: map_cong)
          qed
        qed
      qed
    qed
  qed
qed simp

end
