(* ===== verification/SchemaRules.thy ===== *)
theory SchemaRules
  imports SchemaProps XmlProps "HOL-Library.Multiset"
begin

text \<open>
  The messages of a schema: what loading a message gives, the order of the fields, the realms, and
  the end of the loading.
\<close>

section \<open>Messages\<close>

definition mspec_ok :: "cstate \<Rightarrow> MessageSpecMap \<Rightarrow> bool" where
  "mspec_ok s mspec \<longleftrightarrow> om_ok mspec \<and> (\<forall>k m. (k, m) \<in> set mspec \<longrightarrow> spec_ok s m)"

lemma mspec_ok_mono: "mspec_ok s mspec \<Longrightarrow> grown s s' \<Longrightarrow> more_variants s s' \<Longrightarrow> mspec_ok s' mspec"
  by (auto simp: mspec_ok_def intro: spec_ok_mono)

lemma mspec_ok_insert:
  assumes "mspec_ok s mspec" and "spec_ok s m"
  shows "mspec_ok s (om_insert k m mspec)"
  using assms set_om_insert_subset [of k m mspec] by (auto simp: mspec_ok_def om_ok_insert)

text \<open>The elements of a message and what they declare: groups come before fields.\<close>

definition message_groups :: "cenv \<Rightarrow> string \<Rightarrow> xel \<Rightarrow> xel list" where
  "message_groups ce elname pp = xml_find_set (ce_xml ce) (ce_root ce) pp (mkel elname ''group'')"

definition message_fields :: "cenv \<Rightarrow> string \<Rightarrow> xel \<Rightarrow> xel list" where
  "message_fields ce elname pp = xml_find_set (ce_xml ce) (ce_root ce) pp (mkel elname ''field'')"

definition declarations :: "cenv \<Rightarrow> cstate \<Rightarrow> string \<Rightarrow> xel \<Rightarrow> field_trait option list" where
  "declarations ce s elname pp =
     map (declared_group ce s) (message_groups ce elname pp) @ map (declared_field ce s) (message_fields ce elname pp)"

text \<open>The fields and groups of one message.\<close>

lemma message_extends:
  assumes m0: "spec_ok s m0" and gl: "glob_ok s"
    and g: "(if message_groups ce elname pp = [] then Some (m0, s) else parse_groups n ce (message_groups ce elname pp) (m0, s)) =
      Some (m1, s1)"
    and f: "process_message_fields ce (mkel elname ''field'') pp (ms_fields (set_comment c m1), s1) = (fts, s2)"
  shows "glob_ok s2" "more_variants s s2" "extends (declarations ce s elname pp) (ms_fields m0, s) (fts, s2)"
    "spec_ok s2 (upd_fields (\<lambda>_. fts) (set_comment c m1))"
proof -
  have p: "parsed (map (declared_group ce s) (message_groups ce elname pp)) (m0, s) (m1, s1)"
  proof (cases "message_groups ce elname pp = []")
    case True
    then show ?thesis
      using g m0 gl spec_ok_fields [OF m0] by (auto simp: parsed_def extends_nil intro: more_variants_refl)
  next
    case False
    then show ?thesis using g parse_groups_ok [OF _ gl m0] by simp
  qed
  then have p': "glob_ok s1" "spec_ok s1 m1" "more_variants s s1"
    "extends (map (declared_group ce s) (message_groups ce elname pp)) (ms_fields m0, s) (ms_fields m1, s1)"
    by (simp_all add: parsed_def)
  have ok: "fts_ok (ms_fields m1)" using spec_ok_fields [OF p'(2)] by simp
  note x = extends_message_fields [OF ok, where ce = ce and s = s1 and xt = pp and path = "mkel elname ''field''",
    unfolded f [simplified] snd_conv, folded message_fields_def]
  note g1 = extends_grown [OF p'(4)] and g2 = extends_grown [OF x(1)] and v = more_variants_refl [OF x(2)]
  show "glob_ok s2" by (rule glob_ok_same [OF p'(1) g2 x(2)])
  show "more_variants s s2" by (rule more_variants_trans [OF p'(3) v])
  show "extends (declarations ce s elname pp) (ms_fields m0, s) (fts, s2)"
    unfolding declarations_def
    using extends_append [OF p'(4) x(1)] by (simp add: declared_grown(1) [OF g1] cong: map_cong)
  have "spec_ok s1 (set_comment c m1)" using p'(2) spec_ok_cong [of "set_comment c m1" m1 s1] by simp
  from spec_ok_extend [OF this, of _ fts s2] x(1) v
  show "spec_ok s2 (upd_fields (\<lambda>_. fts) (set_comment c m1))" by (simp add: fields_no_groups)
qed

text \<open>A loaded message, with the element it comes from and the state it was loaded in.\<close>

definition loaded_from :: "cenv \<Rightarrow> cstate \<Rightarrow> string \<Rightarrow> MessageSpec \<Rightarrow> xel \<Rightarrow> string \<Rightarrow> bool" where
  "loaded_from ce s k m pp elname \<longleftrightarrow>
     (\<forall>f. pr_lookup (ms_fields m) f = first_declared (declarations ce s elname pp) f)"

lemma new_lookup: "pr_lookup (ms_fields (new_MessageSpec name admin)) f = None"
  using lookup_fnums [of "ms_fields (new_MessageSpec name admin)" f] spec_ok_fields [OF spec_ok_new, of name admin]
  by (simp add: new_MessageSpec_def pr_ctor_def fnums_def)

lemma load_message_ok:
  assumes run: "load_message n ce dvals pp (l, mspec, s) = Inr (l', mspec', s')"
    and gl: "glob_ok s" and ms: "mspec_ok s mspec"
  shows "glob_ok s' \<and> mspec_ok s' mspec' \<and> grown s s' \<and> more_variants s s' \<and>
    (mspec' = mspec \<or>
      (\<exists>msgtype name elname msgcat m. message_id dvals pp = Inr (Some (msgtype, name, elname, msgcat)) \<and>
         map_of mspec msgtype = None \<and> mspec' = om_insert msgtype m mspec \<and> loaded_from ce s msgtype m pp elname))"
proof -
  from run obtain mid where mid: "message_id dvals pp = Inr mid" by (auto simp: load_message_def cbind_Inr)
  have same: "glob_ok (add_error s) \<and> mspec_ok (add_error s) mspec \<and> grown s (add_error s) \<and> more_variants s (add_error s)"
    using glob_ok_same [OF gl grown_error(1)] mspec_ok_mono [OF ms grown_error(1)] by (simp add: more_variants_refl)
  show ?thesis
  proof (cases mid)
    case None
    with run mid same show ?thesis by (simp add: load_message_def)
  next
    case (Some q)
    obtain msgtype name elname msgcat where q: "q = (msgtype, name, elname, msgcat)" by (cases q)
    show ?thesis
    proof (cases "map_of mspec msgtype")
      case (Some x)
      with run mid same show ?thesis by (simp add: load_message_def \<open>mid = Some q\<close> q)
    next
      case None
      let ?m0 = "new_MessageSpec name (strcaseeq msgcat ''admin'')"
      from run mid None \<open>mid = Some q\<close> q obtain m1 s1 where
        g: "(if message_groups ce elname pp = [] then Some (?m0, s)
             else parse_groups n ce (message_groups ce elname pp) (?m0, s)) = Some (m1, s1)"
        by (auto simp: load_message_def message_groups_def [symmetric] Let_def split: option.splits)
      let ?m2 = "set_comment (attr_or pp ''comment'' (ms_comment m1)) m1"
      obtain fts s2 where f: "process_message_fields ce (mkel elname ''field'') pp (ms_fields ?m2, s1) = (fts, s2)"
        by (metis surj_pair)
      from run mid None \<open>mid = Some q\<close> q g f
      have e: "mspec' = om_insert msgtype (upd_fields (\<lambda>_. fts) ?m2) mspec" "s' = s2"
        by (simp_all add: load_message_def message_groups_def [symmetric] Let_def split: if_splits)
      note x = message_extends [OF spec_ok_new gl g f]
      have "loaded_from ce s msgtype (upd_fields (\<lambda>_. fts) ?m2) pp elname"
        using x(3) by (simp add: loaded_from_def extends_def new_lookup)
      moreover have "mspec_ok s2 mspec'"
        unfolding e using mspec_ok_insert [OF mspec_ok_mono [OF ms extends_grown [OF x(3)] x(2)] x(4)] .
      ultimately show ?thesis
        using x extends_grown [OF x(3)] mid None e \<open>mid = Some q\<close> q by blast
    qed
  qed
qed

definition comes_from :: "cenv \<Rightarrow> cstate \<Rightarrow> RealmMap \<Rightarrow> xel list \<Rightarrow> string \<Rightarrow> MessageSpec \<Rightarrow> bool" where
  "comes_from ce s dvals pps k m \<longleftrightarrow>
     (\<exists>pp name elname msgcat. pp \<in> set pps \<and> message_id dvals pp = Inr (Some (k, name, elname, msgcat)) \<and>
        loaded_from ce s k m pp elname)"

lemma declarations_grown: "grown s s' \<Longrightarrow> declarations ce s' elname pp = declarations ce s elname pp"
  by (simp add: declarations_def declared_grown [of s s'] cong: map_cong)

lemma load_message_list_ok:
  assumes "load_message_list n ce dvals pps (l, mspec, s) = Inr (l', mspec', s')"
    and "glob_ok s" and "mspec_ok s mspec"
  shows "glob_ok s' \<and> mspec_ok s' mspec' \<and> grown s s' \<and> more_variants s s' \<and>
    (\<forall>k m. (k, m) \<in> set mspec' \<longrightarrow> (k, m) \<in> set mspec \<or> comes_from ce s dvals pps k m)"
  using assms
proof (induction pps arbitrary: l mspec s)
  case Nil
  then show ?case by (simp add: more_variants_refl)
next
  case (Cons pp pps)
  from Cons.prems(1) obtain l1 mspec1 s1 where
    one: "load_message n ce dvals pp (l, mspec, s) = Inr (l1, mspec1, s1)" and
    rest: "load_message_list n ce dvals pps (l1, mspec1, s1) = Inr (l', mspec', s')"
    by (auto simp: cbind_Inr)
  note a = load_message_ok [OF one Cons.prems(2,3)]
  then have g: "grown s s1" and v: "more_variants s s1" by simp_all
  have "glob_ok s1" "mspec_ok s1 mspec1" using a by simp_all
  note b = Cons.IH [OF rest this]
  have "(k, m) \<in> set mspec \<or> comes_from ce s dvals (pp # pps) k m" if km: "(k, m) \<in> set mspec'" for k m
  proof -
    from b km consider "(k, m) \<in> set mspec1" | "comes_from ce s1 dvals pps k m" by blast
    then show ?thesis
    proof cases
      case 1
      with a consider "(k, m) \<in> set mspec" | msgtype name elname msgcat m0 where
        "message_id dvals pp = Inr (Some (msgtype, name, elname, msgcat))"
        "mspec1 = om_insert msgtype m0 mspec" "loaded_from ce s msgtype m0 pp elname" by blast
      then show ?thesis
      proof cases
        case (2 msgtype name elname msgcat m0)
        have "(k, m) = (msgtype, m0) \<or> (k, m) \<in> set mspec"
          using 1 2(2) set_om_insert_subset [of msgtype m0 mspec] by blast
        with 2(1,3) show ?thesis by (auto simp: comes_from_def)
      qed simp
    next
      case 2
      then show ?thesis by (auto simp: comes_from_def loaded_from_def declarations_grown [OF g])
    qed
  qed
  with b g v show ?case by (blast intro: grown_trans more_variants_trans)
qed

text \<open>The elements that are loaded: the messages, the header and the trailer.\<close>

definition schema_messages :: "xenv \<Rightarrow> xel \<Rightarrow> xel list" where
  "schema_messages env xf =
     (let l1 = snd (x_find_all env xf xf ''fix/messages/message'' [] None (CHR ''/''));
          l2 = snd (x_find_all env xf xf ''fix/header'' l1 None (CHR ''/''))
      in map snd (snd (x_find_all env xf xf ''fix/trailer'' l2 None (CHR ''/''))))"

lemma load_messages_ok:
  assumes "load_messages n ce xf s = Inr (l, mspec, s')" and "glob_ok s"
  shows "glob_ok s' \<and> mspec_ok s' mspec \<and> grown s s' \<and>
    (mspec = [] \<or> (\<exists>fs dvals. map_of (cs_fspec s) 35 = Some fs \<and> fs_dvals fs = Some dvals \<and>
       (\<forall>k m. (k, m) \<in> set mspec \<longrightarrow> comes_from ce s dvals (schema_messages (ce_xml ce) xf) k m)))"
proof -
  have none: "glob_ok (add_error s) \<and> mspec_ok (add_error s) [] \<and> grown s (add_error s)"
    using glob_ok_same [OF assms(2) grown_error(1)] by (simp add: mspec_ok_def)
  obtain n1 l1 where l1: "x_find_all (ce_xml ce) xf xf ''fix/messages/message'' [] None (CHR ''/'') = (n1, l1)"
    by (metis surj_pair)
  obtain n2 l2 where l2: "x_find_all (ce_xml ce) xf xf ''fix/header'' l1 None (CHR ''/'') = (n2, l2)" by (metis surj_pair)
  obtain n3 l3 where l3: "x_find_all (ce_xml ce) xf xf ''fix/trailer'' l2 None (CHR ''/'') = (n3, l3)" by (metis surj_pair)
  have m: "schema_messages (ce_xml ce) xf = map snd l3" by (simp add: schema_messages_def l1 l2 l3)
  show ?thesis
  proof (cases "n1 = 0 \<or> n2 = 0 \<or> n3 = 0 \<or> map_of (cs_fspec s) 35 = None")
    case True
    with assms(1) none show ?thesis by (auto simp: load_messages_def l1 l2 l3 Let_def split: if_splits option.splits)
  next
    case False
    then obtain fs where fs: "map_of (cs_fspec s) 35 = Some fs" by blast
    show ?thesis
    proof (cases "fs_dvals fs")
      case None
      with assms(1) False fs none show ?thesis by (auto simp: load_messages_def l1 l2 l3 Let_def)
    next
      case (Some dvals)
      with assms(1) False fs have "load_message_list n ce dvals (map snd l3) (0, [], s) = Inr (l, mspec, s')"
        by (simp add: load_messages_def l1 l2 l3 Let_def)
      from load_message_list_ok [OF this assms(2)] fs Some show ?thesis by (auto simp: mspec_ok_def m)
    qed
  qed
qed

section \<open>The order of the fields\<close>

lemma map_find_index_cong:
  "t_fnum t = t_fnum t' \<Longrightarrow> find_index (\<lambda>u. t_fnum u = t_fnum t) xs = find_index (\<lambda>u. t_fnum u = t_fnum t') xs"
  by simp

definition place :: "field_trait list \<Rightarrow> nat \<Rightarrow> field_trait \<Rightarrow> field_trait" where
  "place mo cnt t =
     (case find_index (\<lambda>u. t_fnum u = t_fnum t) mo of
        None \<Rightarrow> t
      | Some i \<Rightarrow> t\<lparr>t_pos := of_nat (cnt + i + 1)\<rparr>)"

lemma place_fnum [simp]: "t_fnum (place mo cnt t) = t_fnum t"
  by (simp add: place_def split: option.split)

lemma number_from_place:
  "distinct (map t_fnum mo) \<Longrightarrow> number_from cnt mo arr = map (place mo cnt) arr"
proof (induction cnt mo arr rule: number_from.induct)
  case (1 cnt arr)
  then show ?case by (simp add: place_def)
next
  case (2 cnt ii mo arr)
  have "place mo (Suc cnt) (if t_fnum t = t_fnum ii then t\<lparr>t_pos := of_nat (Suc cnt)\<rparr> else t) = place (ii # mo) cnt t" for t
  proof (cases "t_fnum t = t_fnum ii")
    case True
    have "t_fnum ii \<notin> t_fnum ` set mo" using "2.prems" by simp
    then have "find_index (\<lambda>u. t_fnum u = t_fnum ii) mo = None"
      unfolding find_index_None by (metis imageI)
    with True show ?thesis by (simp add: place_def)
  next
    case False
    then show ?thesis by (auto simp: place_def split: option.split)
  qed
  with 2 show ?case by simp
qed

lemma place_nth:
  assumes "distinct (map t_fnum mo)" and "i < length mo"
  shows "place mo cnt (mo ! i) = (mo ! i)\<lparr>t_pos := of_nat (cnt + i + 1)\<rparr>"
proof -
  have "find_index (\<lambda>u. t_fnum u = t_fnum (mo ! i)) mo = Some i"
    using assms by (auto simp: find_index_Some distinct_conv_nth)
  then show ?thesis by (simp add: place_def)
qed

text \<open>
  The fields in the order of their places are those in the order of the schema, and the places are
  1, 2, 3 and so on.
\<close>

lemma order_fields_sorted:
  assumes "fts_ok p" and "length (p_arr p) < 65536"
  shows "map t_pos (sort_key t_pos (p_arr (order_fields p))) = map of_nat [1..<Suc (length (p_arr p))]"
    and "map t_fnum (sort_key t_pos (p_arr (order_fields p))) = map t_fnum (sort_key t_pos (p_arr p))"
proof -
  define mo where "mo = sort_key t_pos (p_arr p)"
  have ms: "mset mo = mset (p_arr p)" and len: "length mo = length (p_arr p)" by (simp_all add: mo_def)
  have "distinct (map t_fnum (p_arr p))" by (rule key_sorted_fnum_distinct [OF fts_ok_sorted [OF assms(1)]])
  then have d: "distinct (map t_fnum mo)" using ms by (metis mset_map mset_eq_imp_distinct_iff)
  have arr: "p_arr (order_fields p) = map (place mo 0) (p_arr p)"
    using number_from_place [OF d] by (simp add: order_fields_def mo_def)
  define ys where "ys = map (place mo 0) mo"
  have pos: "map t_pos ys = map of_nat [1..<Suc (length mo)]"
    by (rule nth_equalityI) (auto simp: ys_def place_nth [OF d] simp del: upt_Suc)
  have less: "(of_nat i :: u16) < of_nat j" if "i < j" "j < 65536" for i j
    using that by (simp add: word_less_nat_alt unat_of_nat take_bit_nat_eq_self)
  have srt: "sorted_wrt (<) (map t_pos ys)"
    unfolding pos sorted_wrt_map using assms(2) less [of "Suc _" "Suc _"] len
    by (auto simp: sorted_wrt_iff_nth_less nth_append simp del: upt_Suc)
  have "sort_key t_pos (p_arr (order_fields p)) = ys"
  proof (rule sort_key_inj_key_eq)
    show "mset (p_arr (order_fields p)) = mset ys" by (simp add: arr ys_def ms [symmetric])
    have "distinct (map t_pos ys)" using srt by (simp add: strict_sorted_iff)
    then have "inj_on t_pos (set ys)" by (simp add: distinct_map)
    moreover have "set (p_arr (order_fields p)) = set ys"
      using arg_cong [OF ms, of set_mset] by (simp add: arr ys_def)
    ultimately show "inj_on t_pos (set (p_arr (order_fields p)))" by simp
    show "sorted (map t_pos ys)" using srt by (simp add: strict_sorted_iff)
  qed
  then show "map t_pos (sort_key t_pos (p_arr (order_fields p))) = map of_nat [1..<Suc (length (p_arr p))]"
    and "map t_fnum (sort_key t_pos (p_arr (order_fields p))) = map t_fnum (sort_key t_pos (p_arr p))"
    using pos len by (simp_all add: ys_def mo_def)
qed

lemma order_fields_frame:
  "fts_ok p \<Longrightarrow> map t_fnum (p_arr (order_fields p)) = map t_fnum (p_arr p)"
  "p_ftha (order_fields p) = p_ftha p"
proof -
  assume "fts_ok p"
  then have "distinct (map t_fnum (p_arr p))" by (intro key_sorted_fnum_distinct fts_ok_sorted)
  then have "distinct (map t_fnum (sort_key t_pos (p_arr p)))"
    by (metis mset_map mset_sort mset_eq_imp_distinct_iff)
  from number_from_place [OF this] show "map t_fnum (p_arr (order_fields p)) = map t_fnum (p_arr p)"
    by (simp add: order_fields_def comp_def)
qed (simp add: order_fields_def)

section \<open>The elements of a document\<close>

text \<open>
  The documents the parser makes: exact tags without a slash, numbers in document order. In these the
  searches of the compiler give the children with a tag.
\<close>

definition good_doc :: "xenv \<Rightarrow> xel \<Rightarrow> bool" where
  "good_doc env x \<longleftrightarrow> eb_has (xe_flags env) nocase = 0 \<and> tags_plain x \<and> ordered (nodes x)"

lemma nodes_trans: "y \<in> set (nodes x) \<Longrightarrow> z \<in> set (nodes y) \<Longrightarrow> z \<in> set (nodes x)"
proof (induction x)
  case (Xel t v dc d sq tx n si avs wi cs)
  then show ?case by auto
qed

lemma good_doc_node: "good_doc env x \<Longrightarrow> y \<in> set (nodes x) \<Longrightarrow> good_doc env y"
  using ordered_node [of x y] nodes_trans by (auto simp: good_doc_def tags_plain_def)

lemma child_node: "c \<in> set (x_children x) \<Longrightarrow> c \<in> set (nodes x)"
  using nodes_self [of c] by (auto simp: nodes_unfold [of x])

lemma attr_matches_None [simp]: "attr_matches y None"
  by (simp add: attr_matches_def)

lemma find_set_along:
  assumes "good_doc env x" and "ps \<noteq> []" and "\<forall>p \<in> set ps. name_ok p"
  shows "xml_find_set env rt x (path_string ps) = along ps x"
  using assms xml_find_path [of env ps x rt None]
  by (simp add: good_doc_def xml_find_set_def numbers_nodes ordered_def comp_def)

lemma find_set_children:
  assumes "good_doc env x" and "name_ok a" and "name_ok b"
  shows "xml_find_set env rt x (mkel a b) = (if x_tag x = a then filter (\<lambda>c. x_tag c = b) (x_children x) else [])"
proof -
  have "concat (map (along [b]) cs) = filter (\<lambda>c. x_tag c = b) cs" for cs by (induction cs) simp_all
  then show ?thesis using find_set_along [OF assms(1), of "[a, b]"] assms(2,3) by (simp add: mkel_def)
qed

primrec xheight :: "xel \<Rightarrow> nat" where
  "xheight (Xel t v dc d sq tx n si avs wi cs) = Suc (foldr max (map xheight cs) 0)"

lemma foldr_max_le: "y \<in> set ys \<Longrightarrow> (y :: nat) \<le> foldr max ys 0"
  by (induction ys) auto

lemma xheight_child: "c \<in> set (x_children x) \<Longrightarrow> xheight c < xheight x"
proof (cases x)
  case (Xel t v dc d sq tx n si avs wi cs)
  assume "c \<in> set (x_children x)"
  then have "xheight c \<in> set (map xheight cs)" by (simp add: Xel)
  from foldr_max_le [OF this] show ?thesis by (simp add: Xel)
qed

lemma xheight_node: "y \<in> set (nodes x) \<Longrightarrow> xheight y \<le> xheight x"
proof (induction x)
  case (Xel t v dc d sq tx n si avs wi cs)
  then consider "y = Xel t v dc d sq tx n si avs wi cs" | c where "c \<in> set cs" "y \<in> set (nodes c)" by auto
  then show ?case
  proof cases
    case 2
    then have "xheight y \<le> xheight c" by (rule Xel.IH)
    also have "\<dots> < xheight (Xel t v dc d sq tx n si avs wi cs)" using 2(1) by (intro xheight_child) simp
    finally show ?thesis by simp
  qed simp
qed

section \<open>The loading ends\<close>

text \<open>Each level of groups is one level down in the document: its height is enough fuel.\<close>

lemma parse_groups_ends:
  assumes "\<forall>pp \<in> set grplist. good_doc (ce_xml ce) pp \<and> xheight pp \<le> n" and "0 < n"
  shows "parse_groups n ce grplist st \<noteq> None"
  using assms
proof (induction n arbitrary: grplist st)
  case (Suc n)
  note outer = Suc.IH
  from Suc.prems(1) show ?case
  proof (induction grplist arbitrary: st)
    case Nil
    then show ?case by (cases st) (simp split: prod.split)
  next
    case (Cons pp grplist)
    obtain m s where st: "st = (m, s)" by (cases st)
    let ?com = "xml_find_set (ce_xml ce) (ce_root ce) pp ''group/group''"
    have good: "good_doc (ce_xml ce) pp" and h: "xheight pp \<le> Suc n" using Cons.prems by simp_all
    have "?com = (if x_tag pp = ''group'' then filter (\<lambda>c. x_tag c = ''group'') (x_children pp) else [])"
      using find_set_children [OF good, of "''group''" "''group''"] by (simp add: mkel_def name_ok_def)
    then have sub: "set ?com \<subseteq> set (x_children pp)" by auto
    have nested: "parse_groups n ce ?com st' \<noteq> None" if "?com \<noteq> []" for st'
    proof (rule outer)
      have "good_doc (ce_xml ce) c \<and> xheight c \<le> n" if "c \<in> set (x_children pp)" for c
        using good_doc_node [OF good child_node [OF that]] xheight_child [OF that] h by simp
      with sub show "\<forall>c \<in> set ?com. good_doc (ce_xml ce) c \<and> xheight c \<le> n" by blast
      from that obtain c where "c \<in> set ?com" by (meson last_in_set)
      with sub have c: "c \<in> set (x_children pp)" by blast
      have "0 < xheight c" by (cases c) simp
      with xheight_child [OF c] h show "0 < n" by simp
    qed
    have rest: "parse_groups (Suc n) ce grplist st' \<noteq> None" for st' using Cons by simp
    have nested: "parse_groups n ce ?com st' = None \<Longrightarrow> ?com = []" for st' using nested by blast
    show ?case
      unfolding st using rest
      by (auto simp: Let_def dest: nested split: option.split prod.split bool.split)
  qed
qed simp

lemma set_om_fold: "set (fold (\<lambda>y. om_insert (x_sequence y) y) ys es) \<subseteq> set es \<union> (\<lambda>y. (x_sequence y, y)) ` set ys"
proof (induction ys arbitrary: es)
  case (Cons y ys)
  then show ?case using set_om_insert_subset [of "x_sequence y" y es] by fastforce
qed simp

lemma schema_messages_nodes:
  assumes "good_doc env xf"
  shows "set (schema_messages env xf) \<subseteq> set (along [''fix'', ''messages'', ''message''] xf) \<union>
    set (along [''fix'', ''header''] xf) \<union> set (along [''fix'', ''trailer''] xf)"
proof -
  have s: "set (snd (x_find_all env xf xf (path_string ps) es None (CHR ''/''))) \<subseteq>
      set es \<union> (\<lambda>y. (x_sequence y, y)) ` set (along ps xf)"
    if "ps \<noteq> []" "\<forall>p \<in> set ps. name_ok p" for ps es
    using find_all_along [of env ps xf xf es None] that assms set_om_fold by (simp add: good_doc_def)
  have n: "name_ok ''fix''" "name_ok ''messages''" "name_ok ''message''" "name_ok ''header''" "name_ok ''trailer''"
    by (simp_all add: name_ok_def)
  have "set (snd (x_find_all env xf xf ''fix/messages/message'' [] None (CHR ''/''))) \<subseteq>
      (\<lambda>y. (x_sequence y, y)) ` set (along [''fix'', ''messages'', ''message''] xf)"
    using s [of "[''fix'', ''messages'', ''message'']" "[]"] n by simp
  moreover have "set (snd (x_find_all env xf xf ''fix/header'' es None (CHR ''/''))) \<subseteq>
      set es \<union> (\<lambda>y. (x_sequence y, y)) ` set (along [''fix'', ''header''] xf)" for es
    using s [of "[''fix'', ''header'']" es] n by simp
  moreover have "set (snd (x_find_all env xf xf ''fix/trailer'' es None (CHR ''/''))) \<subseteq>
      set es \<union> (\<lambda>y. (x_sequence y, y)) ` set (along [''fix'', ''trailer''] xf)" for es
    using s [of "[''fix'', ''trailer'']" es] n by simp
  ultimately show ?thesis by (fastforce simp: schema_messages_def Let_def)
qed

lemma along_nodes: "y \<in> set (along ps x) \<Longrightarrow> y \<in> set (nodes x)"
  using along_subseq [of ps x] by (auto elim: list_emb_set)

lemma cbind_Inl: "cbind m f = Inl e \<longleftrightarrow> m = Inl e \<or> (\<exists>x. m = Inr x \<and> f x = Inl e)"
  by (cases m) simp_all

lemma load_value_no_fuel: "load_value ft pp st \<noteq> Inl (Raised OutOfFuel)"
  by (auto simp: load_value_def RealmObject_create_def get_int_def get_float_def cbind_Inl Let_def
      split: prod.splits option.splits if_splits)

lemma load_values_no_fuel: "load_values ft pps st \<noteq> Inl (Raised OutOfFuel)"
  by (induction ft pps st rule: load_values.induct) (auto simp: cbind_Inl load_value_no_fuel)

lemma load_field_no_fuel: "load_field env xf pp st \<noteq> Inl (Raised OutOfFuel)"
  by (auto simp: load_field_def cbind_Inl load_values_no_fuel Let_def split: prod.splits option.splits sum.splits)

lemma load_fields_no_fuel: "load_fields env xf s \<noteq> Inl (Raised OutOfFuel)"
proof -
  have "load_field_list env xf pps st \<noteq> Inl (Raised OutOfFuel)" for pps st
    by (induction env xf pps st rule: load_field_list.induct) (auto simp: cbind_Inl load_field_no_fuel)
  then show ?thesis by (simp add: load_fields_def split: prod.split)
qed

lemma load_message_ends:
  assumes "good_doc (ce_xml ce) pp" and "xheight pp \<le> n"
  shows "load_message n ce dvals pp st \<noteq> Inl (Raised OutOfFuel)"
proof -
  have n: "0 < n" using assms(2) by (cases pp) auto
  have grp: "parse_groups n ce (xml_find_set (ce_xml ce) (ce_root ce) pp (mkel el ''group'')) st' = None \<Longrightarrow> False"
    if "el \<in> {''header'', ''trailer'', ''message''}" for el st'
  proof -
    have e: "name_ok el" "name_ok ''group''" using that by (auto simp: name_ok_def)
    let ?gs = "xml_find_set (ce_xml ce) (ce_root ce) pp (mkel el ''group'')"
    have "good_doc (ce_xml ce) c \<and> xheight c \<le> n" if "c \<in> set ?gs" for c
    proof -
      from that have "c \<in> set (x_children pp)"
        using find_set_children [OF assms(1) e] by (auto split: if_splits)
      then show ?thesis using good_doc_node [OF assms(1) child_node] xheight_child assms(2) by fastforce
    qed
    then have "parse_groups n ce ?gs st' \<noteq> None" by (intro parse_groups_ends) (use n in auto)
    then show "parse_groups n ce ?gs st' = None \<Longrightarrow> False" by simp
  qed
  have "message_id dvals pp \<noteq> Inl (Raised OutOfFuel)"
    by (auto simp: message_id_def split: option.splits)
  moreover have "el \<in> {''header'', ''trailer'', ''message''}"
    if "message_id dvals pp = Inr (Some (k, name, el, cat))" for k name el cat
    using that by (auto simp: message_id_def split: if_splits option.splits)
  ultimately show ?thesis
    by (auto simp: load_message_def cbind_Inl Let_def split: prod.splits option.splits if_splits
        dest: grp [of "''header''", simplified] grp [of "''trailer''", simplified] grp [of "''message''", simplified])
qed

lemma load_messages_ends:
  assumes "good_doc (ce_xml ce) xf" and "xheight xf \<le> n"
  shows "load_messages n ce xf s \<noteq> Inl (Raised OutOfFuel)"
proof -
  have nd: "pp \<in> set (nodes xf)" if "pp \<in> set (schema_messages (ce_xml ce) xf)" for pp
    using schema_messages_nodes [OF assms(1)] that along_nodes by blast
  have one: "load_message n ce dvals pp st \<noteq> Inl (Raised OutOfFuel)"
    if "pp \<in> set (schema_messages (ce_xml ce) xf)" for pp dvals st
    by (rule load_message_ends) (use good_doc_node [OF assms(1)] xheight_node assms(2) nd [OF that] in fastforce)+
  have "load_message_list n ce dvals pps st \<noteq> Inl (Raised OutOfFuel)"
    if "set pps \<subseteq> set (schema_messages (ce_xml ce) xf)" for dvals pps st
    using that by (induction pps arbitrary: st) (auto simp: cbind_Inl one)
  then show ?thesis
    by (auto simp: load_messages_def schema_messages_def Let_def split: prod.splits option.splits)
qed

lemma load_schema_ends:
  assumes "good_doc env xf" and "xheight xf \<le> n"
  shows "load_schema n env xf s0 \<noteq> Inl (Raised OutOfFuel)"
  using load_fields_no_fuel load_messages_ends assms
  by (auto simp: load_schema_def cbind_Inl Let_def split: prod.splits)

section \<open>Realms\<close>

definition realm_ok :: "RealmMap \<Rightarrow> bool" where
  "realm_ok m \<longleftrightarrow> sorted_wrt (\<lambda>p q. realm_comp (ro_val (fst p)) (ro_val (fst q))) m \<and>
     (\<forall>p \<in> set m. \<forall>q \<in> set m. same_class (ro_val (fst p)) (ro_val (fst q)))"

lemma realm_comp_trans: "realm_comp a b \<Longrightarrow> realm_comp b c \<Longrightarrow> realm_comp a c"
  by (cases a; cases b; cases c; auto)

lemma realm_comp_class: "realm_comp a b \<Longrightarrow> same_class a b"
  by (cases a; cases b; auto)

lemma same_class_sym: "same_class a b \<Longrightarrow> same_class b a"
  by (cases a; cases b; auto)

lemma same_class_trans: "same_class a b \<Longrightarrow> same_class b c \<Longrightarrow> same_class a c"
  by (cases a; cases b; cases c; auto)

lemma same_class_refl [simp]: "same_class a a"
  by (cases a) auto

lemma set_realm_insert: "set (realm_insert r d m) \<subseteq> insert (r, d) (set m)"
  by (induction r d m rule: realm_insert.induct) auto

lemma realm_insert_ok:
  assumes "realm_ok m" and "of_class (ro_val r) m"
  shows "realm_ok (realm_insert r d m)"
proof -
  have cl: "\<forall>p \<in> set (realm_insert r d m). same_class (ro_val (fst p)) (ro_val r)"
    using assms(2) set_realm_insert [of r d m] by (auto simp: of_class_def list_all_iff)
  have "\<forall>p \<in> set (realm_insert r d m). \<forall>q \<in> set (realm_insert r d m). same_class (ro_val (fst p)) (ro_val (fst q))"
    using cl same_class_trans same_class_sym by blast
  moreover have "sorted_wrt (\<lambda>p q. realm_comp (ro_val (fst p)) (ro_val (fst q))) (realm_insert r d m)"
    using assms(1)
  proof (induction r d m rule: realm_insert.induct)
    case (2 r d r' d' m)
    let ?c = "\<lambda>p q. realm_comp (ro_val (fst p)) (ro_val (fst q))"
    from 2(2) have tl: "realm_ok m" and hd: "\<forall>q \<in> set m. ?c (r', d') q" by (auto simp: realm_ok_def)
    consider (lt) "realm_comp (ro_val r) (ro_val r')"
      | (gt) "\<not> realm_comp (ro_val r) (ro_val r')" "realm_comp (ro_val r') (ro_val r)"
      | (eq) "\<not> realm_comp (ro_val r) (ro_val r')" "\<not> realm_comp (ro_val r') (ro_val r)" by blast
    then show ?case
    proof cases
      case lt
      with 2(2) hd show ?thesis by (auto simp: realm_ok_def intro: realm_comp_trans)
    next
      case gt
      then have "\<forall>q \<in> set (realm_insert r d m). ?c (r', d') q"
        using hd set_realm_insert [of r d m] by auto
      with gt 2(1) tl show ?thesis by simp
    next
      case eq
      with 2(2) show ?thesis by (simp add: realm_ok_def)
    qed
  qed simp
  ultimately show ?thesis by (simp add: realm_ok_def)
qed

lemma realm_comp_total: "same_class a b \<Longrightarrow> realm_comp a b \<or> a = b \<or> realm_comp b a"
  by (cases a; cases b; auto simp: schar_inj [symmetric])

lemma values_realm_insert:
  assumes "of_class (ro_val r) m"
  shows "(\<lambda>p. ro_val (fst p)) ` set (realm_insert r d m) = insert (ro_val r) ((\<lambda>p. ro_val (fst p)) ` set m)"
  using assms
proof (induction r d m rule: realm_insert.induct)
  case (2 r d r' d' m)
  then have "same_class (ro_val r) (ro_val r')" by (auto simp: of_class_def intro: same_class_sym)
  then show ?case using 2 realm_comp_total [of "ro_val r" "ro_val r'"] by (auto simp: of_class_def)
qed simp

text \<open>The values of a field, and the realm that holds exactly the values of its elements.\<close>

definition realm_values :: "FieldSpec \<Rightarrow> realm_value set" where
  "realm_values fs = (case fs_dvals fs of None \<Rightarrow> {} | Some m \<Rightarrow> (\<lambda>p. ro_val (fst p)) ` set m)"

definition field_ok :: "FieldSpec \<Rightarrow> bool" where
  "field_ok fs \<longleftrightarrow> (case fs_dvals fs of None \<Rightarrow> True | Some m \<Rightarrow> realm_ok m)"

definition value_of :: "ftype \<Rightarrow> xel \<Rightarrow> realm_value option" where
  "value_of ft pp =
     (case GetAttr pp ''enum'' of
        None \<Rightarrow> None
      | Some e \<Rightarrow> (case RealmObject_create e ft False of Inr (Some r) \<Rightarrow> Some (ro_val r) | _ \<Rightarrow> None))"

lemma create_value:
  assumes "RealmObject_create e ft isRange = Inr r"
  shows "RealmObject_create e ft False = Inr (map_option (\<lambda>r. r\<lparr>ro_is_range := False\<rparr>) r)"
  using assms by (auto simp: RealmObject_create_def cbind_Inr Let_def split: if_splits)

lemma load_value_ok:
  assumes "load_value ft pp (fs, s) = Inr (fs', s')" and "field_ok fs"
  shows "field_ok fs' \<and> realm_values fs' = realm_values fs \<union> set_option (value_of ft pp) \<and>
    fs_name fs' = fs_name fs \<and> fs_ftype fs' = fs_ftype fs \<and> fs_used fs' = fs_used fs \<and>
    cs_fspec s' = cs_fspec s \<and> cs_globmap s' = cs_globmap s \<and> cs_no_shared s' = cs_no_shared s"
proof (cases "GetAttr pp ''enum''")
  case None
  with assms show ?thesis by (auto simp: load_value_def value_of_def add_error_def)
next
  case (Some e)
  define isRange where "isRange = (case GetAttr pp ''range'' of Some r \<Rightarrow> r = ''lower'' \<or> r = ''upper'' | None \<Rightarrow> False)"
  obtain r where r: "RealmObject_create e ft isRange = Inr r"
    using assms(1) Some by (auto simp: load_value_def isRange_def cbind_Inr Let_def)
  define dv where "dv = (case fs_dvals fs of Some m \<Rightarrow> m | None \<Rightarrow> [])"
  have dv: "realm_ok dv"
    using assms(2) by (cases "fs_dvals fs") (simp_all add: dv_def field_ok_def realm_ok_def [of "[]"])
  have vals: "realm_values fs = (\<lambda>p. ro_val (fst p)) ` set dv"
    by (simp add: realm_values_def dv_def split: option.split)
  have v: "value_of ft pp = map_option ro_val r"
    using Some create_value [OF r] by (cases r) (simp_all add: value_of_def)
  show ?thesis
  proof (cases r)
    case None
    with assms(1) Some r have e: "fs' = fs\<lparr>fs_dt_set := fs_dt_set fs \<and> \<not> isRange, fs_dvals := Some dv\<rparr>" "s' = s"
      by (simp_all add: load_value_def isRange_def [symmetric] dv_def [symmetric] Let_def)
    have "realm_values fs' = (\<lambda>p. ro_val (fst p)) ` set dv" by (simp add: e realm_values_def)
    with None v vals dv e show ?thesis by (simp add: field_ok_def)
  next
    case (Some ro)
    define d where "d = (if attr_or pp ''description'' [] = [] then e else attr_or pp ''description'' [])"
    from assms(1) \<open>GetAttr pp ''enum'' = Some e\<close> r Some have oc: "of_class (ro_val ro) dv"
      and e: "fs' = fs\<lparr>fs_dt_set := fs_dt_set fs \<and> \<not> isRange, fs_dvals := Some (realm_insert ro d dv)\<rparr>" "s' = s"
      by (auto simp: load_value_def isRange_def [symmetric] dv_def [symmetric] d_def Let_def split: if_splits)
    show ?thesis
      using realm_insert_ok [OF dv oc] values_realm_insert [OF oc, of d] v vals Some
      by (auto simp: e field_ok_def realm_values_def)
  qed
qed

lemma load_values_ok:
  assumes "load_values ft pps (fs, s) = Inr (fs', s')" and "field_ok fs"
  shows "field_ok fs' \<and> realm_values fs' = realm_values fs \<union> (\<Union>pp \<in> set pps. set_option (value_of ft pp)) \<and>
    fs_name fs' = fs_name fs \<and> fs_ftype fs' = fs_ftype fs \<and> fs_used fs' = fs_used fs \<and>
    cs_fspec s' = cs_fspec s \<and> cs_globmap s' = cs_globmap s \<and> cs_no_shared s' = cs_no_shared s"
  using assms
proof (induction pps arbitrary: fs s)
  case (Cons pp pps)
  from Cons.prems(1) obtain fs1 s1 where
    a: "load_value ft pp (fs, s) = Inr (fs1, s1)" "load_values ft pps (fs1, s1) = Inr (fs', s')"
    by (auto simp: cbind_Inr)
  note b = load_value_ok [OF a(1) Cons.prems(2)]
  with Cons.IH [OF a(2)] show ?case by auto
qed simp

definition fields_ok :: "cstate \<Rightarrow> bool" where
  "fields_ok s \<longleftrightarrow> om_ok (cs_fspec s) \<and> (\<forall>k fs. (k, fs) \<in> set (cs_fspec s) \<longrightarrow> field_ok fs)"

lemma load_field_ok:
  assumes run: "load_field env xf pp (l, s) = Inr (l', s')" and ok: "fields_ok s"
  shows "fields_ok s' \<and> cs_globmap s' = cs_globmap s \<and> cs_no_shared s' = cs_no_shared s"
proof -
  have skip: "fields_ok (add_error s) \<and> fields_ok (add_warning s)"
    using ok by (simp add: fields_ok_def add_error_def add_warning_def)
  have frame: "cs_no_shared (add_error s) = cs_no_shared s" "cs_no_shared (add_warning s) = cs_no_shared s"
    by (simp_all add: add_error_def add_warning_def)
  show ?thesis
  proof (cases "GetAttr pp ''number'' = None \<or> GetAttr pp ''name'' = None \<or> GetAttr pp ''type'' = None")
    case True
    with run have "s' = add_error s" by (auto simp: load_field_def split: option.splits)
    with skip frame show ?thesis by simp
  next
    case False
    then obtain number0 name0 type0 where
      at: "GetAttr pp ''number'' = Some number0" "GetAttr pp ''name'' = Some name0" "GetAttr pp ''type'' = Some type0"
      by auto
    show ?thesis
    proof (cases "map_of baseTypeMap (InPlaceStrToUpper (trim type0 default_ws))")
      case None
      with run at have "s' = add_warning s" by (simp add: load_field_def Let_def)
      with skip frame show ?thesis by simp
    next
      case (Some ft)
      with run at obtain fno where no: "get_unsigned (trim number0 default_ws) = Inr fno"
        by (auto simp: load_field_def Let_def split: sum.splits)
      define fspec where "fspec = om_insert fno (new_FieldSpec (trim name0 default_ws) ft) (cs_fspec s)"
      define fs0 where "fs0 = the (map_of fspec fno)"
      define fs1 where "fs1 = fs0\<lparr>fs_description := attr_or pp ''description'' (fs_description fs0),
        fs_comment := attr_or pp ''comment'' (fs_comment fs0)\<rparr>"
      have om: "om_ok (cs_fspec s)" and f: "\<And>k fs. (k, fs) \<in> set (cs_fspec s) \<Longrightarrow> field_ok fs"
        using ok by (auto simp: fields_ok_def)
      have new: "field_ok (new_FieldSpec nm ft)" for nm by (simp add: field_ok_def new_FieldSpec_def)
      have fspec: "om_ok fspec" "\<And>k fs. (k, fs) \<in> set fspec \<Longrightarrow> field_ok fs"
        using om f new set_om_insert_subset [of fno "new_FieldSpec (trim name0 default_ws) ft" "cs_fspec s"]
        by (auto simp: fspec_def)
      have "map_of fspec fno \<noteq> None" using om by (simp add: fspec_def om_lookup split: option.split)
      then have "(fno, fs0) \<in> set fspec" by (auto simp: fs0_def map_of_SomeD)
      then have ok1: "field_ok fs1" using fspec(2) by (auto simp: fs1_def field_ok_def)
      from run at Some no obtain fs2 s2 where
        lv: "load_values ft (xml_find_set env xf pp ''field/value'') (fs1, s) = Inr (fs2, s2)" and
        s': "s' = s2\<lparr>cs_fspec := om_set fno fs2 fspec\<rparr>"
        by (auto simp: load_field_def Let_def cbind_Inr fspec_def [symmetric] fs0_def [symmetric] fs1_def [symmetric])
      from load_values_ok [OF lv ok1] show ?thesis
        using fspec set_om_set_subset [of fno fs2 fspec] by (auto simp: fields_ok_def s')
    qed
  qed
qed

lemma load_fields_ok:
  assumes "load_fields env xf s = Inr (l, s')" and "fields_ok s"
  shows "fields_ok s' \<and> cs_globmap s' = cs_globmap s \<and> cs_no_shared s' = cs_no_shared s"
proof -
  have "load_field_list env xf pps (l0, s) = Inr (l, s') \<Longrightarrow> fields_ok s \<Longrightarrow>
      fields_ok s' \<and> cs_globmap s' = cs_globmap s \<and> cs_no_shared s' = cs_no_shared s" for pps l0
  proof (induction pps arbitrary: l0 s)
    case (Cons pp pps)
    from Cons.prems(1) obtain l1 s1 where
      a: "load_field env xf pp (l0, s) = Inr (l1, s1)" "load_field_list env xf pps (l1, s1) = Inr (l, s')"
      by (auto simp: cbind_Inr)
    note b = load_field_ok [OF a(1) Cons.prems(2)]
    with Cons.IH [OF a(2)] show ?case by simp
  qed simp
  with assms show ?thesis by (auto simp: load_fields_def split: prod.splits if_splits)
qed

text \<open>The marks of the later passes leave the realms alone.\<close>

lemma fields_ok_grown:
  assumes "fields_ok s" and "grown s s'"
  shows "fields_ok s'"
proof -
  have e: "spec_view s' = spec_view s" using assms(2) by (simp add: grown_def)
  have keys: "map fst (cs_fspec u) = map fst (spec_view u)" for u by (simp add: spec_view_def comp_def split_def)
  have "om_ok (cs_fspec s')" using assms(1) by (simp add: fields_ok_def om_ok_def keys e)
  moreover have "field_ok fs" if "(k, fs) \<in> set (cs_fspec s')" for k fs
  proof -
    from that have "(k, fs\<lparr>fs_used := False\<rparr>) \<in> set (spec_view s')" by (force simp: spec_view_def)
    then have "(k, fs\<lparr>fs_used := False\<rparr>) \<in> set (spec_view s)" by (simp only: e)
    then obtain fs0 where "(k, fs0) \<in> set (cs_fspec s)" "fs\<lparr>fs_used := False\<rparr> = fs0\<lparr>fs_used := False\<rparr>"
      by (auto simp: spec_view_def)
    then have "fs_dvals fs = fs_dvals fs0" and "field_ok fs0"
      using assms(1) by (auto simp: fields_ok_def dest: arg_cong [where f = fs_dvals])
    then show ?thesis by (simp add: field_ok_def)
  qed
  ultimately show ?thesis by (simp add: fields_ok_def)
qed

section \<open>The specifications of a schema\<close>

text \<open>Giving places changes nothing but the places.\<close>

definition places :: "presence \<Rightarrow> field_trait \<Rightarrow> field_trait" where
  "places p = place (sort_key t_pos (p_arr p)) 0"

lemma sorted_distinct: "fts_ok p \<Longrightarrow> distinct (map t_fnum (sort_key t_pos (p_arr p)))"
  by (metis fts_ok_sorted key_sorted_fnum_distinct mset_map mset_sort mset_eq_imp_distinct_iff)

lemma order_fields_arr: "fts_ok p \<Longrightarrow> p_arr (order_fields p) = map (places p) (p_arr p)"
  using number_from_place [OF sorted_distinct] by (simp add: order_fields_def places_def)

lemma places_frame [simp]:
  "t_fnum (places p t) = t_fnum t" "t_has (places p t) ty = t_has t ty" "t_ftype (places p t) = t_ftype t"
  "(places p t)\<lparr>t_pos := x\<rparr> = t\<lparr>t_pos := x\<rparr>"
  by (simp_all add: places_def place_def t_has_def split: option.split)

lemma order_fields_ok [simp]:
  assumes "fts_ok p"
  shows "fts_ok (order_fields p)"
proof -
  have "key_sorted t_fnum (p_arr (order_fields p))"
    using key_sorted_cong [OF order_fields_frame(1) [OF assms]] fts_ok_sorted [OF assms] by simp
  moreover have "length (p_arr (order_fields p)) = length (p_arr p)" by (simp add: order_fields_arr [OF assms])
  moreover have "p_rsz (order_fields p) = p_rsz p" "p_ftha (order_fields p) = p_ftha p"
    by (simp_all add: order_fields_def)
  ultimately show ?thesis using assms by (simp add: fts_ok_def ps_ok_def ps_of_def)
qed

lemma order_fields_lookup:
  assumes "fts_ok p"
  shows "pr_lookup (order_fields p) f = map_option (places p) (pr_lookup p f)"
proof (cases "pr_lookup p f")
  case None
  then have "f \<notin> fnums (order_fields p)"
    using lookup_fnums [OF assms] by (auto simp: fnums_def order_fields_arr [OF assms])
  with None show ?thesis using lookup_fnums [OF order_fields_ok [OF assms]] by simp
next
  case (Some t)
  then have "places p t \<in> set (p_arr (order_fields p))" "t_fnum (places p t) = f"
    using fts_lookup [OF assms] by (simp_all add: order_fields_arr [OF assms])
  with Some show ?thesis using fts_lookup [OF order_fields_ok [OF assms]] by auto
qed

lemma fnums_order: "fts_ok p \<Longrightarrow> fnums (order_fields p) = fnums p"
  by (simp add: fnums_def order_fields_arr image_image)

lemma hash_order: "fts_ok p \<Longrightarrow> hash_fields (order_fields p) = hash_fields p"
  by (simp add: hash_fields_def order_fields_arr fold_map comp_def)

text \<open>An earlier element has an earlier place.\<close>

lemma order_fields_less:
  assumes "fts_ok p" and "length (p_arr p) < 65536" and "t \<in> set (p_arr p)" and "u \<in> set (p_arr p)"
    and "t_pos t < t_pos u"
  shows "t_pos (places p t) < t_pos (places p u)"
proof -
  define mo where "mo = sort_key t_pos (p_arr p)"
  note d = sorted_distinct [OF assms(1), folded mo_def]
  have len: "length mo = length (p_arr p)" by (simp add: mo_def)
  obtain i j where i: "i < length mo" "t = mo ! i" and j: "j < length mo" "u = mo ! j"
    using assms(3,4) by (metis in_set_conv_nth mo_def set_sort)
  have "i < j"
  proof (rule ccontr)
    assume "\<not> i < j"
    then have "t_pos (mo ! j) \<le> t_pos (mo ! i)"
      using sorted_nth_mono [of "map t_pos mo" j i] i(1) j(1) by (simp add: mo_def)
    with assms(5) i j show False by simp
  qed
  moreover have "t_pos (places p t) = of_nat (Suc i)" "t_pos (places p u) = of_nat (Suc j)"
    using place_nth [OF d i(1), of 0] place_nth [OF d j(1), of 0] i j by (simp_all add: places_def mo_def)
  ultimately show ?thesis
    using j(1) len assms(2) by (simp add: word_less_nat_alt unat_of_nat take_bit_nat_eq_self del: of_nat_Suc)
qed

lemma node_ok_order: "node_ok s m \<Longrightarrow> node_ok s (upd_fields order_fields m)"
  by (auto simp: node_ok_def all_used_def fnums_order order_fields_lookup order_fields_arr split_def)

lemma spec_ok_order_fields: "spec_ok s m \<Longrightarrow> spec_ok s (upd_fields order_fields m)"
  unfolding all_specs_iff [of _ m] all_specs_iff [of _ "upd_fields order_fields m"] by (simp add: node_ok_order)

lemma order_groups_sel [simp]:
  "ms_fields (order_groups m) = order_fields (ms_fields m)" "ms_hash (order_groups m) = ms_hash m"
  "ms_groups (order_groups m) = process_message_group_ordering (ms_groups m)"
  by (cases m; simp add: process_message_group_ordering_def)+

lemma group_order_keys [simp]: "map fst (process_message_group_ordering gm) = map fst gm"
  by (simp add: process_message_group_ordering_def comp_def)

lemma group_order_ok [simp]:
  "om_ok (process_message_group_ordering gm) \<longleftrightarrow> om_ok gm"
  "fst ` set (process_message_group_ordering gm) = fst ` set gm"
  by (simp add: om_ok_def) (metis group_order_keys list.set_map)

lemma group_order_member:
  assumes "(k, g) \<in> set (process_message_group_ordering gm)"
  obtains g0 where "(k, g0) \<in> set gm" "g = order_groups g0"
  using assms by (auto simp: process_message_group_ordering_def)

lemma hash_order_groups: "spec_ok s m \<Longrightarrow> hash_of (order_groups m) = hash_of m"
proof (induction m)
  case (MSpec name fts groups refcnt h com admin)
  have "spec_ok s g" if "(k, g) \<in> set groups" for k g
    using MSpec.prems that unfolding all_specs_iff [of _ "MSpec name fts groups refcnt h com admin"] by auto
  then have "hash_of (order_groups g) = hash_of g" if "(k, g) \<in> set groups" for k g
    using MSpec.IH [OF that, of g] that by simp
  then have "map (\<lambda>x. map_prod (\<lambda>k. k) hash_of (map_prod (\<lambda>k. k) order_groups x)) groups =
      map (map_prod (\<lambda>k. k) hash_of) groups" by (auto simp del: map_prod_simp) (auto simp: map_prod_def)
  moreover have "fts_ok fts" using spec_ok_fields [OF MSpec.prems] by simp
  ultimately show ?case by (simp add: hash_order comp_def del: map_eq_conv)
qed

lemma node_ok_order_groups:
  assumes "node_ok s m" and "\<And>k g. (k, g) \<in> set (ms_groups m) \<Longrightarrow> spec_ok s g"
  shows "node_ok s (order_groups m)"
  using node_ok_order [OF assms(1)]
  by (auto simp: node_ok_def hash_order_groups [OF assms(2)] elim!: group_order_member)

lemma spec_ok_order_groups: "spec_ok s m \<Longrightarrow> spec_ok s (order_groups m)"
proof (induction m)
  case (MSpec name fts groups refcnt h com admin)
  let ?m = "MSpec name fts groups refcnt h com admin"
  have sub: "spec_ok s g" if "(k, g) \<in> set groups" for k g
    using MSpec.prems that unfolding all_specs_iff [of _ ?m] by auto
  have n: "node_ok s ?m" using MSpec.prems unfolding all_specs_iff [of _ ?m] by simp
  have ord: "spec_ok s (order_groups g)" if "(k, g) \<in> set groups" for k g
    using MSpec.IH [OF that, of g] sub [OF that] by simp
  have "node_ok s (order_groups ?m)" by (rule node_ok_order_groups [OF n]) (use sub in simp)
  with ord show ?case
    unfolding all_specs_iff [of _ "order_groups ?m"] by (auto simp: process_message_group_ordering_def)
qed

text \<open>The common sets, whose own fields keep their declared positions.\<close>

definition order_common :: "MessageSpec \<Rightarrow> MessageSpec" where
  "order_common m = set_groups (process_message_group_ordering (ms_groups m)) m"

lemma order_common_sel [simp]:
  "ms_fields (order_common m) = ms_fields m" "ms_hash (order_common m) = ms_hash m"
  "ms_groups (order_common m) = process_message_group_ordering (ms_groups m)"
  by (simp_all add: order_common_def set_groups_def)

lemma process_group_ordering_common:
  "process_group_ordering glob = map (map_prod (\<lambda>k. k) (map (map_prod (\<lambda>k. k) order_common))) glob"
  by (simp add: process_group_ordering_def order_common_def [abs_def])

lemma spec_ok_order_common:
  assumes "spec_ok s m"
  shows "spec_ok s (order_common m)" and "hash_of (order_common m) = hash_of m"
proof -
  have n: "node_ok s m" and sub: "\<forall>(k, g) \<in> set (ms_groups m). spec_ok s g"
    using assms unfolding all_specs_iff [of _ m] by simp_all
  from sub have h: "hash_of (order_groups g) = hash_of g" if "(k, g) \<in> set (ms_groups m)" for k g
    using that hash_order_groups by blast
  have "node_ok s (order_common m)" using n by (auto simp: node_ok_def h elim!: group_order_member)
  with sub show "spec_ok s (order_common m)"
    unfolding all_specs_iff [of _ "order_common m"] by (auto simp: spec_ok_order_groups elim!: group_order_member)
  have "fold (\<lambda>(k, g) result. rothash result (hash_of g)) (process_message_group_ordering gs) x =
      fold (\<lambda>(k, g) result. rothash result (hash_of g)) gs x" if "set gs \<subseteq> set (ms_groups m)" for gs x
    using that h by (induction gs arbitrary: x) (auto simp: process_message_group_ordering_def)
  then show "hash_of (order_common m) = hash_of m" by (simp add: hash_of_unfold [of m] hash_of_unfold [of "order_common m"])
qed

lemma map_of_snd: "map_of (map (map_prod (\<lambda>k. k) f) m) k = map_option f (map_of m k)"
  by (induction m) auto

lemma has_variant_ordered: "has_variant (process_group_ordering glob) k h \<longleftrightarrow> has_variant glob k h"
proof -
  have "fst ` set (map (map_prod (\<lambda>k. k) order_common) cg) = fst ` set cg" for cg :: CommonGroups
    by (force simp: image_image)
  then show ?thesis
    by (cases "map_of glob k") (simp_all add: find_variant_iff process_group_ordering_common map_of_snd del: set_map)
qed

lemma glob_ok_ordered:
  assumes "glob_ok s" and s': "s' = s\<lparr>cs_globmap := process_group_ordering (cs_globmap s)\<rparr>"
  shows "glob_ok s'" and "more_variants s s'" and "grown s s'"
proof -
  show g: "grown s s'" by (simp add: s')
  show v: "more_variants s s'" by (simp add: more_variants_def s' has_variant_ordered)
  have om: "om_ok (map (map_prod (\<lambda>k. k) f) m) \<longleftrightarrow> om_ok m" for f :: "'a \<Rightarrow> 'b" and m :: "(u32 \<times> 'a) list"
    by (simp add: om_ok_def comp_def)
  have "entry_ok s' (h, order_common m)" if "entry_ok s (h, m)" for h m
    using entry_ok_mono [OF that g v] spec_ok_order_common [of s' m] by (simp add: entry_ok_def)
  with assms(1) show "glob_ok s'"
    by (fastforce simp: glob_ok_def s' process_group_ordering_common om)
qed

text \<open>The result of the front end, and the environment of its passes.\<close>

definition new_cstate :: "bool \<Rightarrow> cstate" where
  "new_cstate no_shared =
     \<lparr>cs_fspec = [], cs_globmap = [], cs_errors = 0, cs_warnings = 0, cs_counter = 0, cs_no_shared = no_shared\<rparr>"

definition cenv_of :: "xenv \<Rightarrow> xel \<Rightarrow> compiled \<Rightarrow> cenv" where
  "cenv_of env xf cp =
     \<lparr>ce_xml = env, ce_root = xf, ce_ftonSpec = fton_of (cs_fspec (cp_state cp)), ce_compon = cp_compon cp\<rparr>"

lemma fton_view: "fton_of (spec_view s) = fton_of (cs_fspec s)"
  by (simp add: fton_of_def spec_view_def fold_map comp_def split_def)

definition compiled_ok :: "compiled \<Rightarrow> bool" where
  "compiled_ok cp \<longleftrightarrow> glob_ok (cp_state cp) \<and> mspec_ok (cp_state cp) (cp_mspec cp) \<and> fields_ok (cp_state cp)"

lemma mspec_ok_ordering: "mspec_ok s mspec \<Longrightarrow> mspec_ok s (process_ordering mspec)"
  by (auto simp: mspec_ok_def process_ordering_def om_ok_def comp_def intro: spec_ok_order_fields)

lemma load_schema_ok:
  assumes "load_schema n env xf (new_cstate ns) = Inr (Some cp)"
  obtains "compiled_ok cp"
    and "\<And>k m. (k, m) \<in> set (cp_mspec cp) \<Longrightarrow> \<exists>m0 dvals. m = upd_fields order_fields m0 \<and> fts_ok (ms_fields m0) \<and>
      comes_from (cenv_of env xf cp) (cp_state cp) dvals (schema_messages env xf) k m0"
proof -
  from assms obtain fields s1 l mspec s2 where
    lf: "load_fields env xf (new_cstate ns) = Inr (fields, s1)" and
    lm: "load_messages n \<lparr>ce_xml = env, ce_root = xf, ce_ftonSpec = fton_of (cs_fspec s1), ce_compon = cp_compon cp\<rparr> xf s1 =
      Inr (l, mspec, s2)" and
    cp: "cp_state cp = s2\<lparr>cs_globmap := process_group_ordering (cs_globmap s2)\<rparr>" "cp_mspec cp = process_ordering mspec"
    by (auto simp: load_schema_def cbind_Inr Let_def split: if_splits)
  have "fields_ok (new_cstate ns)" by (simp add: fields_ok_def new_cstate_def)
  from load_fields_ok [OF lf this] have f1: "fields_ok s1" and "cs_globmap s1 = []" by (simp_all add: new_cstate_def)
  then have "glob_ok s1" by (simp add: glob_ok_def)
  note m = load_messages_ok [OF lm this]
  then have m2: "glob_ok s2" "mspec_ok s2 mspec" "grown s1 s2" by simp_all
  note g = glob_ok_ordered [OF m2(1) cp(1)]
  have g12: "grown s1 (cp_state cp)" by (rule grown_trans [OF m2(3) g(3)])
  have "compiled_ok cp"
    using g(1) mspec_ok_ordering [OF mspec_ok_mono [OF m2(2) g(3,2)]] fields_ok_grown [OF f1 g12]
    by (simp add: compiled_ok_def cp(2))
  moreover have "\<exists>m0 dvals. m = upd_fields order_fields m0 \<and> fts_ok (ms_fields m0) \<and>
      comes_from (cenv_of env xf cp) (cp_state cp) dvals (schema_messages env xf) k m0"
    if km: "(k, m) \<in> set (cp_mspec cp)" for k m
  proof -
    from km obtain m0 where m0: "(k, m0) \<in> set mspec" "m = upd_fields order_fields m0"
      by (auto simp: cp(2) process_ordering_def)
    have e: "fton_of (cs_fspec s1) = fton_of (cs_fspec (cp_state cp))"
      using g12 fton_view [of s1] fton_view [of "cp_state cp"] by (simp add: grown_def)
    from m m0(1) obtain dvals where
      "comes_from \<lparr>ce_xml = env, ce_root = xf, ce_ftonSpec = fton_of (cs_fspec s1), ce_compon = cp_compon cp\<rparr> s1 dvals
        (schema_messages env xf) k m0" by auto
    then have "comes_from (cenv_of env xf cp) (cp_state cp) dvals (schema_messages env xf) k m0"
      by (auto simp: comes_from_def loaded_from_def cenv_of_def e declarations_grown [OF g12])
    moreover have "fts_ok (ms_fields m0)" using m2(2) m0(1) spec_ok_fields by (auto simp: mspec_ok_def)
    ultimately show ?thesis using m0(2) by blast
  qed
  ultimately show thesis by (rule that)
qed

end
