(* ===== verification/Metadata.thy ===== *)
theory Metadata
  imports SchemaRules RoundTrip
begin

text \<open>
  The second half of the compiler's \<^verbatim>\<open>process\<close>: the tables it writes into the generated sources, as
  the values the run-time library finds there. The classes of a message and of its groups, the
  message table \<^verbatim>\<open>msgpairs\<close>, the field table \<^verbatim>\<open>fldpairs\<close> with its realms, and \<^verbatim>\<open>ctx\<close>, which
  builds the \<^verbatim>\<open>F8MetaCntx\<close> of the library from them.

  A table that is not generated, or would not compile, is \<open>None\<close>. The names of fields and messages
  become identifiers of the generated code; that they are legal and differ from each other and from
  those of the library is taken for granted, as are comments without quotes.
\<close>

section \<open>Field types\<close>

text \<open>\<^verbatim>\<open>FieldSpec::_typeToCPP\<close>, and the specialisation of \<^verbatim>\<open>Field\<close> a C++ type selects. The library
  declares no type \<^verbatim>\<open>pattern\<close> and none for tenors.\<close>

definition typeToCPP :: "ftype \<Rightarrow> (string \<times> string) option" where
  "typeToCPP ft =
     map_of
       [(ft_int, ''int'', ''ft_int''), (ft_Length, ''Length'', ''ft_Length''), (ft_TagNum, ''TagNum'', ''ft_TagNum''),
        (ft_SeqNum, ''SeqNum'', ''ft_SeqNum''), (ft_NumInGroup, ''NumInGroup'', ''ft_NumInGroup''),
        (ft_DayOfMonth, ''DayOfMonth'', ''ft_DayOfMonth''), (ft_float, ''fp_type'', ''ft_float''),
        (ft_Qty, ''Qty'', ''ft_Qty''), (ft_Price, ''price'', ''ft_Price''),
        (ft_PriceOffset, ''PriceOffset'', ''ft_PriceOffset''), (ft_Amt, ''Amt'', ''ft_Amt''),
        (ft_Percentage, ''Percentage'', ''ft_Percentage''), (ft_char, ''char'', ''ft_char''),
        (ft_Boolean, ''Boolean'', ''ft_Boolean''), (ft_string, ''f8String'', ''ft_string''),
        (ft_MultipleCharValue, ''MultipleCharValue'', ''ft_MultipleCharValue''),
        (ft_MultipleStringValue, ''MultipleStringValue'', ''ft_MultipleStringValue''),
        (ft_Country, ''country'', ''ft_Country''), (ft_Currency, ''currency'', ''ft_Currency''),
        (ft_Exchange, ''Exchange'', ''ft_Exchange''), (ft_MonthYear, ''MonthYear'', ''ft_MonthYear''),
        (ft_UTCTimestamp, ''UTCTimestamp'', ''ft_UTCTimestamp''), (ft_UTCTimeOnly, ''UTCTimeOnly'', ''ft_UTCTimeOnly''),
        (ft_UTCDateOnly, ''UTCDateOnly'', ''ft_UTCDateOnly''), (ft_LocalMktDate, ''LocalMktDate'', ''ft_LocalMktDate''),
        (ft_TZTimeOnly, ''TZTimeOnly'', ''ft_TZTimeOnly''), (ft_TZTimestamp, ''TZTimestamp'', ''ft_TZTimestamp''),
        (ft_XMLData, ''XMLData'', ''ft_XMLData''), (ft_data, ''data'', ''ft_data''), (ft_pattern, ''pattern'', ''ft_pattern''),
        (ft_Tenor, ''Tenor'', ''ft_Tenor''), (ft_Reserved100Plus, ''f8String'', ''ft_Reserved100Plus''),
        (ft_Reserved1000Plus, ''f8String'', ''ft_Reserved1000Plus''),
        (ft_Reserved4000Plus, ''f8String'', ''ft_Reserved4000Plus''), (ft_Language, ''Language'', ''ft_Language'')] ft"

definition cpp_class :: "string \<Rightarrow> fclass option" where
  "cpp_class cpp =
     map_of
       [(''int'', C_int), (''Length'', C_int), (''TagNum'', C_int), (''SeqNum'', C_int), (''NumInGroup'', C_int),
        (''DayOfMonth'', C_int), (''fp_type'', C_float), (''Qty'', C_float), (''price'', C_float),
        (''PriceOffset'', C_float), (''Amt'', C_float), (''Percentage'', C_float), (''char'', C_char),
        (''Boolean'', C_bool), (''f8String'', C_string), (''MultipleCharValue'', C_string),
        (''MultipleStringValue'', C_string), (''country'', C_string), (''currency'', C_string),
        (''Exchange'', C_string), (''MonthYear'', C_monthyear), (''UTCTimestamp'', C_timestamp),
        (''UTCTimeOnly'', C_timeonly), (''UTCDateOnly'', C_dateonly), (''LocalMktDate'', C_localmkt),
        (''TZTimeOnly'', C_tztime), (''TZTimestamp'', C_tzstamp), (''XMLData'', C_string), (''data'', C_string),
        (''Language'', C_string)] cpp"

definition class_of_type :: "ftype \<Rightarrow> fclass option" where
  "class_of_type ft = (case typeToCPP ft of None \<Rightarrow> None | Some (cpp, _) \<Rightarrow> cpp_class cpp)"

section \<open>The field table\<close>

text \<open>
  The arrays of the realms, in the order of the maps; the element type is that of the field. The
  values are printed as literals: numbers with a fraction to six significant digits, characters and
  strings between quotes without escapes, so that a quote or a backslash in them spoils the file.
\<close>

fun dec_exponent :: "nat \<Rightarrow> rat \<Rightarrow> int" where
  "dec_exponent 0 x = 0"
| "dec_exponent (Suc n) x =
     (if 10 \<le> x then 1 + dec_exponent n (x / 10) else if x < 1 then dec_exponent n (x * 10) - 1 else 0)"

definition ten_to :: "int \<Rightarrow> rat" where
  "ten_to k = (if 0 \<le> k then 10 ^ nat k else 1 / 10 ^ nat (- k))"

definition printed_float :: "rat \<Rightarrow> rat" where
  "printed_float x =
     (if x = 0 then 0
      else let u = ten_to (dec_exponent 700 \<bar>x\<bar> - 5) in rnd (of_int (round_half_even (x / u)) * u))"

fun plain_literal :: "realm_value \<Rightarrow> bool" where
  "plain_literal (TString s) = (CHR 0x22 \<notin> set s \<and> CHR 0x5C \<notin> set s \<and> CHR 0x0A \<notin> set s)"
| "plain_literal (TChar c) = (c \<noteq> CHR 0x27 \<and> c \<noteq> CHR 0x5C \<and> c \<noteq> CHR 0x0A)"
| "plain_literal _ = True"

fun int_value :: "realm_value \<Rightarrow> int" where "int_value (TInt n) = n" | "int_value _ = 0"
fun char_value :: "realm_value \<Rightarrow> char" where "char_value (TChar c) = c" | "char_value _ = NUL"
fun float_value :: "realm_value \<Rightarrow> rat" where "float_value (TFloat x) = x" | "float_value _ = 0"
fun string_value :: "realm_value \<Rightarrow> string" where "string_value (TString s) = s" | "string_value _ = []"

definition realm_array :: "ftype \<Rightarrow> RealmMap \<Rightarrow> rvals" where
  "realm_array ft m =
     (let vs = map (\<lambda>p. ro_val (fst p)) m
      in if is_int ft then R_int (map int_value vs)
         else if is_char ft then R_char (map char_value vs)
         else if is_float ft then R_float (map (\<lambda>v. printed_float (float_value v)) vs)
         else R_string (map string_value vs))"

definition realm_base :: "FieldSpec \<Rightarrow> realm option" where
  "realm_base fs =
     map_option (\<lambda>m. \<lparr>r_range = realm_array (fs_ftype fs) m, r_dt_set = fs_dt_set fs, r_ftype = fs_ftype fs\<rparr>) (fs_dvals fs)"

definition generated :: "bool \<Rightarrow> FieldSpec \<Rightarrow> bool" where
  "generated gen_fields fs \<longleftrightarrow> gen_fields \<or> fs_used fs"

definition field_entry :: "u32 \<Rightarrow> FieldSpec \<Rightarrow> base_entry option" where
  "field_entry k fs =
     (if case fs_dvals fs of Some m \<Rightarrow> list_all (\<lambda>p. plain_literal (ro_val (fst p))) m | None \<Rightarrow> True
      then map_option (\<lambda>c. \<lparr>be_class = c, be_name = fs_name fs, be_fnum = ucast k, be_rlm = realm_base fs\<rparr>)
             (class_of_type (fs_ftype fs))
      else None)"

fun those :: "'a option list \<Rightarrow> 'a list option" where
  "those [] = Some []"
| "those (None # xs) = None"
| "those (Some x # xs) = map_option (Cons x) (those xs)"

text \<open>
  The comma between two entries is written before every entry but that of the first field of the
  schema: when this field is not generated the table starts with a comma.
\<close>

definition fldpairs :: "bool \<Rightarrow> FieldSpecMap \<Rightarrow> (u32, base_entry) gtable option" where
  "fldpairs gen_fields fspec =
     (let fs = filter (\<lambda>(k, fs). generated gen_fields fs) fspec
      in if fs \<noteq> [] \<and> \<not> generated gen_fields (snd (hd fspec)) then None
         else those (map (\<lambda>(k, fs). map_option (Pair k) (field_entry k fs)) fs))"

section \<open>The classes of messages and groups\<close>

text \<open>
  The class of a group: its static data and its nested groups are those of the common variant. Its
  message type is the name of the count field, with the number of the variant when several groups
  share it.
\<close>

definition group_msgtype :: "FieldSpec \<Rightarrow> nat \<Rightarrow> MessageSpec \<Rightarrow> string" where
  "group_msgtype fs vers tgroup =
     (if 1 < ms_group_refcnt tgroup then fs_name fs @ ''V'' @ dec_numeral vers else fs_name fs)"

fun gen_group :: "nat \<Rightarrow> FieldSpecMap \<Rightarrow> CommonGroupMap \<Rightarrow> u32 \<times> MessageSpec \<Rightarrow> (u16 \<times> gschema) option" where
  "gen_group 0 fspec glob kg = None"
| "gen_group (Suc n) fspec glob (k, g) =
     (case (find_group_variant glob k (ms_hash g), map_of fspec k) of
        (Some (vers, tgroup), Some fs) \<Rightarrow>
          (case (mk_hash (p_arr (ms_fields tgroup)), those (map (gen_group n fspec glob) (ms_groups tgroup))) of
             (Some ftha, Some gs) \<Rightarrow>
               Some (ucast k, GSchema (ucast k) (group_msgtype fs vers tgroup) (p_arr (ms_fields tgroup)) ftha gs)
           | _ \<Rightarrow> None)
      | _ \<Rightarrow> None)"

definition gen_message :: "nat \<Rightarrow> FieldSpecMap \<Rightarrow> CommonGroupMap \<Rightarrow> string \<times> MessageSpec \<Rightarrow> (string \<times> msg_entry) option" where
  "gen_message n fspec glob = (\<lambda>(k, m).
     (case (mk_hash (p_arr (ms_fields m)), those (map (gen_group n fspec glob) (ms_groups m))) of
        (Some ftha, Some gs) \<Rightarrow>
          Some (k, \<lparr>me_name = ms_name m, me_msgtype = k, me_traits = p_arr (ms_fields m), me_ftha = ftha,
                    me_groups = gs, me_admin = ms_is_admin m\<rparr>)
      | _ \<Rightarrow> None))"

definition msgpairs :: "nat \<Rightarrow> FieldSpecMap \<Rightarrow> CommonGroupMap \<Rightarrow> MessageSpecMap \<Rightarrow> (string, msg_entry) gtable option" where
  "msgpairs n fspec glob mspec = those (map (gen_message n fspec glob) mspec)"

text \<open>The names of the components, of which the first is empty.\<close>

definition component_names :: "Components \<Rightarrow> string list" where
  "component_names compon = [] # map fst compon"

text \<open>\<^verbatim>\<open>ctx\<close>: the metadata of the generated library.\<close>

definition generated_ctx :: "nat \<Rightarrow> bool \<Rightarrow> version_info \<Rightarrow> compiled \<Rightarrow> error + metactx option" where
  "generated_ctx n gen_fields v cp =
     (case (msgpairs n (cs_fspec (cp_state cp)) (cs_globmap (cp_state cp)) (cp_mspec cp),
            fldpairs gen_fields (cs_fspec (cp_state cp))) of
        (Some bme, Some be) \<Rightarrow> bind (mk_metactx (vi_version v) bme be (vi_beginstr v)) (\<lambda>ctx. return (Some ctx))
      | _ \<Rightarrow> return None)"

section \<open>Correctness of the tables\<close>

lemma those_Some: "those xs = Some ys \<longleftrightarrow> xs = map Some ys"
  by (induction xs arbitrary: ys rule: those.induct) (auto simp: map_eq_Cons_conv)

lemma those_nth:
  assumes "those (map f xs) = Some ys"
  shows "length ys = length xs" and "i < length xs \<Longrightarrow> f (xs ! i) = Some (ys ! i)"
proof -
  from assms have e: "map f xs = map Some ys" by (simp add: those_Some)
  from arg_cong [OF this, of length] show l: "length ys = length xs" by simp
  show "f (xs ! i) = Some (ys ! i)" if "i < length xs"
    using that l arg_cong [OF e, of "\<lambda>zs. zs ! i"] by simp
qed

lemma those_keys:
  assumes "those (map f xs) = Some ys" and "\<And>x y. x \<in> set xs \<Longrightarrow> f x = Some y \<Longrightarrow> fst y = fst x"
  shows "map fst ys = map fst xs"
  by (rule nth_equalityI) (use those_nth [OF assms(1)] assms(2) nth_mem in auto)

lemma those_member:
  assumes "those (map f xs) = Some ys" and "x \<in> set xs"
  obtains y where "y \<in> set ys" "f x = Some y"
  using assms(2) those_nth [OF assms(1)] that by (metis in_set_conv_nth)

lemma those_source:
  assumes "those (map f xs) = Some ys" and "y \<in> set ys"
  obtains x where "x \<in> set xs" "f x = Some y"
  using assms(2) those_nth [OF assms(1)] that by (metis in_set_conv_nth)

lemma om_ok_key_sorted: "om_ok m \<longleftrightarrow> key_sorted fst m"
  by (simp add: om_ok_def key_sorted_def sorted_wrt_map)

lemma key_sorted_filter: "key_sorted kf xs \<Longrightarrow> key_sorted kf (filter P xs)"
  by (simp add: key_sorted_def sorted_wrt_filter)

lemma fldpairs_those:
  assumes "fldpairs gf fspec = Some be"
  shows "those (map (\<lambda>(k, fs). map_option (Pair k) (field_entry k fs)) (filter (\<lambda>(k, fs). generated gf fs) fspec)) = Some be"
  using assms by (simp add: fldpairs_def Let_def split: if_splits)

lemma fldpairs_keys:
  assumes "fldpairs gf fspec = Some be"
  shows "map fst be = map fst (filter (\<lambda>(k, fs). generated gf fs) fspec)"
  by (rule those_keys [OF fldpairs_those [OF assms]]) auto

lemma fldpairs_sorted:
  assumes "fldpairs gf fspec = Some be" and "om_ok fspec"
  shows "om_ok be"
  using key_sorted_filter [of fst fspec "\<lambda>(k, fs). generated gf fs"] assms(2)
  by (simp add: om_ok_def fldpairs_keys [OF assms(1)] key_sorted_def sorted_wrt_map)

lemma msgpairs_sorted:
  assumes "msgpairs n fspec glob mspec = Some bme" and "om_ok mspec"
  shows "om_ok bme" and "map fst bme = map fst mspec"
proof -
  have "fst y = fst x" if "gen_message n fspec glob x = Some y" for x y
    using that by (auto simp: gen_message_def split: prod.splits option.splits)
  then show e: "map fst bme = map fst mspec" by (intro those_keys [OF assms(1) [unfolded msgpairs_def]])
  show "om_ok bme" using assms(2) by (simp add: om_ok_def e)
qed

text \<open>A table of a schema whose first field is not used does not compile.\<close>

lemma fldpairs_first_unused:
  assumes "(k, fs) \<in> set fspec" and "generated gf fs" and "\<not> generated gf (snd (hd fspec))"
  shows "fldpairs gf fspec = None"
proof -
  from assms(1,2) have "(k, fs) \<in> set (filter (\<lambda>(k, fs). generated gf fs) fspec)" by simp
  then have "filter (\<lambda>(k, fs). generated gf fs) fspec \<noteq> []" by (metis empty_iff empty_set)
  with assms(3) show ?thesis by (simp add: fldpairs_def Let_def)
qed

text \<open>A field that is generated has an entry in the look-up array of the context.\<close>

lemma fldpairs_entry:
  assumes "fldpairs gf fspec = Some be" and "(k, fs) \<in> set fspec" and "generated gf fs"
  obtains e where "(k, e) \<in> set be" "field_entry k fs = Some e"
proof -
  from assms(2,3) have "(k, fs) \<in> set (filter (\<lambda>(k, fs). generated gf fs) fspec)" by simp
  from those_member [OF fldpairs_those [OF assms(1)] this] that show thesis by auto
qed

lemma metactx_fields:
  assumes "mk_metactx v bme be bg = Inr ctx"
  shows "c_flu ctx = fill_flu be (replicate (length (c_flu ctx)) None)"
    and "\<forall>k \<in> fst ` set be. unat k < length (c_flu ctx)" and "c_bme ctx = bme" and "c_be ctx = be"
    and "gt_find_ref bme ''header'' = Inr (c_hdr ctx)" and "gt_find_ref bme ''trailer'' = Inr (c_trl ctx)"
  using assms by (auto simp: mk_metactx_def Let_def not_le split: option.splits sum.splits if_splits)

lemma ctx_entry:
  assumes "mk_metactx v bme be bg = Inr ctx" and "om_ok be" and "(k, e) \<in> set be" and "k < 65536"
  shows "find_be ctx (ucast k) = Some e"
proof -
  note m = metactx_fields [OF assms(1)]
  have "unat k = unat (ucast k :: u16)"
    using assms(4) by (simp add: unsigned_ucast_eq word_less_nat_alt take_bit_nat_eq_self)
  moreover have "unat k < length (replicate (length (c_flu ctx)) (None :: base_entry option))"
    using m(2) assms(3) by force
  moreover have "map_of be k = Some e" using om_ok_distinct [OF assms(2)] assms(3) by simp
  ultimately show ?thesis by (intro find_be_filled [OF m(1) om_ok_distinct [OF assms(2)]])
qed

end
