(* ===== verification/MetaRules.thy ===== *)
theory MetaRules
  imports Metadata DecodeLoops
begin

text \<open>
  What the generated metadata guarantee to the run-time library: every table is sorted, every trait
  table has its hash array, every field of a message or group has an entry in the field table and
  every group trait its group class, to any depth.
\<close>

section \<open>Generated metadata\<close>

definition node_tables :: "metactx \<Rightarrow> field_trait list \<Rightarrow> hash_array \<Rightarrow> (u16 \<times> gschema) list \<Rightarrow> bool" where
  "node_tables ctx ts h gs \<longleftrightarrow> key_sorted t_fnum ts \<and> mk_hash ts = Some h \<and> (\<forall>t \<in> set ts. \<not> t_has t present) \<and>
     (\<forall>t \<in> set ts. \<exists>e. find_be ctx (t_fnum t) = Some e \<and> be_fnum e = t_fnum t) \<and>
     distinct (map fst gs) \<and> (\<forall>p \<in> set gs. gs_fnum (snd p) = fst p) \<and>
     (\<forall>t \<in> set ts. t_has t group \<longrightarrow> t_fnum t \<in> fst ` set gs)"

primrec schema_ok :: "metactx \<Rightarrow> gschema \<Rightarrow> bool" where
  "schema_ok ctx (GSchema fnum ty ts h gs) \<longleftrightarrow>
     node_tables ctx ts h gs \<and> list_all snd (map (map_prod (\<lambda>k. k) (schema_ok ctx)) gs)"

definition ctx_ok :: "metactx \<Rightarrow> bool" where
  "ctx_ok ctx \<longleftrightarrow> om_ok (c_bme ctx) \<and> om_ok (c_be ctx) \<and>
     (\<forall>(k, e) \<in> set (c_bme ctx). me_msgtype e = k \<and> node_tables ctx (me_traits e) (me_ftha e) (me_groups e) \<and>
        (\<forall>p \<in> set (me_groups e). schema_ok ctx (snd p)))"

lemma schema_ok_iff:
  "schema_ok ctx g \<longleftrightarrow> node_tables ctx (gs_traits g) (gs_ftha g) (gs_groups g) \<and>
     (\<forall>p \<in> set (gs_groups g). schema_ok ctx (snd p))"
  by (cases g) (auto simp: list_all_iff)

text \<open>A generated class of a group.\<close>

lemma gen_groupE:
  assumes "gen_group n fspec glob (k, g) = Some p"
  obtains m vers tg fs h gs where "n = Suc m" "find_group_variant glob k (ms_hash g) = Some (vers, tg)"
    "map_of fspec k = Some fs" "mk_hash (p_arr (ms_fields tg)) = Some h"
    "those (map (gen_group m fspec glob) (ms_groups tg)) = Some gs"
    "p = (ucast k, GSchema (ucast k) (group_msgtype fs vers tg) (p_arr (ms_fields tg)) h gs)"
  using assms that by (cases n) (auto split: option.splits)

lemma gen_group_key: "gen_group n fspec glob x = Some p \<Longrightarrow> fst p = ucast (fst x) \<and> gs_fnum (snd p) = ucast (fst x)"
  by (cases x) (auto elim: gen_groupE)

definition fields_known :: "metactx \<Rightarrow> cstate \<Rightarrow> bool" where
  "fields_known ctx s \<longleftrightarrow> (\<forall>f \<in> used_fnums s. \<exists>e. find_be ctx f = Some e \<and> be_fnum e = f)"

text \<open>The tables of one specification and its generated groups.\<close>

lemma node_tables_gen:
  assumes m: "spec_ok s m" and known: "fields_known ctx s"
    and h: "mk_hash (p_arr (ms_fields m)) = Some h" and gs: "those (map (gen_group n fspec glob) (ms_groups m)) = Some gs"
  shows "node_tables ctx (p_arr (ms_fields m)) h gs"
proof -
  have nd: "node_ok s m" using m unfolding all_specs_iff [of _ m] by simp
  have key: "fst (gs ! i) = ucast (fst (ms_groups m ! i))"
    "gs_fnum (snd (gs ! i)) = ucast (fst (ms_groups m ! i))" if "i < length (ms_groups m)" for i
    using gen_group_key [OF those_nth(2) [OF gs that]] by simp_all
  have len: "length gs = length (ms_groups m)" using those_nth(1) [OF gs] .
  have e: "map fst gs = map (\<lambda>p. ucast (fst p)) (ms_groups m)"
    by (rule nth_equalityI) (simp_all add: len key)
  have "inj_on (\<lambda>k. ucast k :: u16) (set (map fst (ms_groups m)))" and "distinct (map fst (ms_groups m))"
    using nd om_ok_distinct by (auto simp: node_ok_def)
  then have "distinct (map (\<lambda>k. ucast k :: u16) (map fst (ms_groups m)))" by (simp only: distinct_map)
  then have d: "distinct (map fst gs)" by (simp add: e comp_def)
  have s: "fst ` set gs = ucast ` fst ` set (ms_groups m)"
    using arg_cong [OF e, of set] by (simp add: image_image)
  have own: "\<forall>p \<in> set gs. gs_fnum (snd p) = fst p" using len key by (metis in_set_conv_nth)
  have "\<exists>e. find_be ctx (t_fnum t) = Some e \<and> be_fnum e = t_fnum t" if "t \<in> set (p_arr (ms_fields m))" for t
    using nd known that by (auto simp: node_ok_def all_used_def fnums_def fields_known_def)
  with nd d own h show ?thesis by (auto simp: node_tables_def node_ok_def fts_ok_sorted s)
qed

lemma gen_group_ok:
  assumes "gen_group n fspec (cs_globmap s) x = Some p" and gl: "glob_ok s" and known: "fields_known ctx s"
  shows "schema_ok ctx (snd p)"
  using assms(1)
proof (induction n arbitrary: x p)
  case (Suc n)
  obtain k g where x: "x = (k, g)" by (cases x)
  from Suc.prems [unfolded x] show ?case
  proof (rule gen_groupE)
    fix m vers tg fs h gs
    assume n: "Suc n = Suc m" and f: "find_group_variant (cs_globmap s) k (ms_hash g) = Some (vers, tg)"
      and h: "mk_hash (p_arr (ms_fields tg)) = Some h"
      and gs: "those (map (gen_group m fspec (cs_globmap s)) (ms_groups tg)) = Some gs"
      and p: "p = (ucast k, GSchema (ucast k) (group_msgtype fs vers tg) (p_arr (ms_fields tg)) h gs)"
    obtain cg where "(k, cg) \<in> set (cs_globmap s)" "(ms_hash g, tg) \<in> set cg" using find_variant_Some [OF f] .
    then have "entry_ok s (ms_hash g, tg)" using gl by (auto simp: glob_ok_def)
    then have tg: "spec_ok s tg" by (simp add: entry_ok_def)
    have "schema_ok ctx (snd q)" if "q \<in> set gs" for q
      using those_source [OF gs that] Suc.IH n by (metis Suc_inject)
    then show ?thesis
      using node_tables_gen [OF tg known h gs] by (auto simp: p list_all_iff)
  qed
qed simp

lemma generated_ctxE:
  assumes "generated_ctx n gf v cp = Inr (Some ctx)"
  obtains bme be where "msgpairs n (cs_fspec (cp_state cp)) (cs_globmap (cp_state cp)) (cp_mspec cp) = Some bme"
    "fldpairs gf (cs_fspec (cp_state cp)) = Some be" "mk_metactx (vi_version v) bme be (vi_beginstr v) = Inr ctx"
  using assms that by (auto simp: generated_ctx_def bind_Inr split: option.splits)

definition small_numbers :: "cstate \<Rightarrow> bool" where
  "small_numbers s \<longleftrightarrow> (\<forall>k \<in> fst ` set (cs_fspec s). k < 65536)"

lemma fields_known_ctx:
  assumes "fldpairs gf (cs_fspec s) = Some be" and "mk_metactx v bme be bg = Inr ctx" and "fields_ok s" and "small_numbers s"
  shows "fields_known ctx s" and "om_ok be"
proof -
  have "om_ok (cs_fspec s)" using assms(3) by (simp add: fields_ok_def)
  with fldpairs_sorted [OF assms(1)] show om: "om_ok be" by simp
  have "\<exists>e. find_be ctx f = Some e \<and> be_fnum e = f" if "f \<in> used_fnums s" for f
  proof -
    from that obtain k fs where k: "f = ucast k" "(k, fs) \<in> set (cs_fspec s)" "fs_used fs" by (auto simp: used_fnums_def)
    then have "generated gf fs" by (simp add: generated_def)
    from fldpairs_entry [OF assms(1) k(2) this] obtain e where e: "(k, e) \<in> set be" "field_entry k fs = Some e" .
    have "k < 65536" using k(2) assms(4) by (force simp: small_numbers_def)
    from ctx_entry [OF assms(2) om e(1) this] e(2) show ?thesis by (auto simp: k(1) field_entry_def split: if_splits)
  qed
  then show "fields_known ctx s" by (simp add: fields_known_def)
qed

lemma generated_ctx_correct:
  assumes cp: "compiled_ok cp" and gen: "generated_ctx n gf v cp = Inr (Some ctx)" and small: "small_numbers (cp_state cp)"
  shows "ctx_ok ctx"
proof -
  obtain bme be where b: "msgpairs n (cs_fspec (cp_state cp)) (cs_globmap (cp_state cp)) (cp_mspec cp) = Some bme"
    "fldpairs gf (cs_fspec (cp_state cp)) = Some be" "mk_metactx (vi_version v) bme be (vi_beginstr v) = Inr ctx"
    using generated_ctxE [OF gen] .
  let ?s = "cp_state cp"
  have ok: "glob_ok ?s" "mspec_ok ?s (cp_mspec cp)" "fields_ok ?s" using cp by (simp_all add: compiled_ok_def)
  note f = fields_known_ctx [OF b(2,3) ok(3) small]
  have "om_ok (cp_mspec cp)" using ok(2) by (simp add: mspec_ok_def)
  note sorted = msgpairs_sorted(1) [OF b(1) this]
  have "me_msgtype e = k \<and> node_tables ctx (me_traits e) (me_ftha e) (me_groups e) \<and>
      (\<forall>p \<in> set (me_groups e). schema_ok ctx (snd p))" if ke: "(k, e) \<in> set bme" for k e
  proof -
    from those_source [OF b(1) [unfolded msgpairs_def] ke] obtain x where
      x: "x \<in> set (cp_mspec cp)" "gen_message n (cs_fspec ?s) (cs_globmap ?s) x = Some (k, e)" .
    obtain k0 m where km: "x = (k0, m)" by (cases x)
    from x(2) obtain h gs where h: "mk_hash (p_arr (ms_fields m)) = Some h"
      "those (map (gen_group n (cs_fspec ?s) (cs_globmap ?s)) (ms_groups m)) = Some gs"
      "k = k0" "e = \<lparr>me_name = ms_name m, me_msgtype = k, me_traits = p_arr (ms_fields m), me_ftha = h,
        me_groups = gs, me_admin = ms_is_admin m\<rparr>"
      by (auto simp: gen_message_def km split: option.splits)
    have m: "spec_ok ?s m" using x(1) ok(2) by (auto simp: mspec_ok_def km)
    have "schema_ok ctx (snd p)" if "p \<in> set gs" for p
      using those_source [OF h(2) that] gen_group_ok [OF _ ok(1) f(1)] by metis
    with node_tables_gen [OF m f(1) h(1,2)] show ?thesis by (simp add: h(4))
  qed
  with sorted f(2) show ?thesis
    using metactx_fields(3,4) [OF b(3)] by (auto simp: ctx_ok_def)
qed

section \<open>What the library can rely on\<close>

text \<open>A message made from checked metadata is consistent, and so is each element of its groups; the
  class of a group is found for every group trait.\<close>

lemma node_tables_core: "node_tables ctx ts h gs \<Longrightarrow> core_ok (new_core ty ts h gs')"
  by (rule core_ok_new) (simp_all add: node_tables_def)

lemma node_tables_group:
  assumes "node_tables ctx ts h gs" and "t \<in> set ts" and "t_has t group"
  obtains g where "map_of gs (t_fnum t) = Some g" "gs_fnum g = t_fnum t" "(t_fnum t, g) \<in> set gs"
proof -
  from assms obtain g where "(t_fnum t, g) \<in> set gs" by (auto simp: node_tables_def)
  then show thesis using assms(1) by (intro that) (auto simp: node_tables_def)
qed

lemma add_group_found:
  assumes "node_tables ctx ts h gs" and "t \<in> set ts" and "t_has t group"
    and "gs = (case gb of Some s \<Rightarrow> gs_groups s | None \<Rightarrow> m_nested (mb m))" and "\<forall>p \<in> set gs. schema_ok ctx (snd p)"
    and "map_of (mb_groups m) (t_fnum t) = None"
  shows "\<exists>m' g. find_add_group (t_fnum t) gb m = Inr (m', Some g) \<and> g_fnum g = t_fnum t \<and> schema_ok ctx (g_schema g)"
proof -
  obtain s where s: "map_of gs (t_fnum t) = Some s" "gs_fnum s = t_fnum t" "(t_fnum t, s) \<in> set gs"
    using node_tables_group [OF assms(1-3)] .
  from s(1) assms(6) have "find_add_group (t_fnum t) gb m = Inr (add_group (new_group s) m, Some (new_group s))"
    by (simp add: find_add_group_def assms(4) create_nested_group_def)
  with s assms(5) show ?thesis by (auto simp: new_group_def)
qed

text \<open>A schema in which every common group has a mandatory field.\<close>

definition groups_required :: "cstate \<Rightarrow> bool" where
  "groups_required s \<longleftrightarrow> (\<forall>(k, cg) \<in> set (cs_globmap s). \<forall>(h, g) \<in> set cg. wants_field (p_arr (ms_fields g)))"

lemma gen_group_guarded:
  assumes "gen_group n fspec (cs_globmap s) x = Some p" and "groups_required s"
  shows "guarded (snd p)"
  using assms(1)
proof (induction n arbitrary: x p)
  case (Suc n)
  obtain k g where x: "x = (k, g)" by (cases x)
  from Suc.prems [unfolded x] show ?case
  proof (rule gen_groupE)
    fix m vers tg fs h gs
    assume n: "Suc n = Suc m" and f: "find_group_variant (cs_globmap s) k (ms_hash g) = Some (vers, tg)"
      and gs: "those (map (gen_group m fspec (cs_globmap s)) (ms_groups tg)) = Some gs"
      and p: "p = (ucast k, GSchema (ucast k) (group_msgtype fs vers tg) (p_arr (ms_fields tg)) h gs)"
    obtain cg where "(k, cg) \<in> set (cs_globmap s)" "(ms_hash g, tg) \<in> set cg" using find_variant_Some [OF f] .
    then have "wants_field (p_arr (ms_fields tg))" using assms(2) by (auto simp: groups_required_def)
    moreover have "guarded (snd q)" if "q \<in> set gs" for q
      using those_source [OF gs that] Suc.IH n by (metis Suc_inject)
    ultimately show ?thesis by (auto simp: p list_all_iff)
  qed
qed simp

lemma msgpairs_guarded:
  assumes "msgpairs n fspec (cs_globmap s) mspec = Some bme" and "groups_required s" and "(k, e) \<in> set bme"
  shows "guarded_nested (me_groups e)"
proof -
  from those_source [OF assms(1) [unfolded msgpairs_def] assms(3)] obtain x where
    "gen_message n fspec (cs_globmap s) x = Some (k, e)" .
  then obtain m where "those (map (gen_group n fspec (cs_globmap s)) (ms_groups m)) = Some (me_groups e)"
    by (cases x) (auto simp: gen_message_def split: option.splits)
  from those_source [OF this] gen_group_guarded [OF _ assms(2)] show ?thesis
    unfolding guarded_nested_def by (metis imageE)
qed

lemma gt_find_ref_member: "key_sorted fst t \<Longrightarrow> gt_find_ref t k = Inr v \<Longrightarrow> (k, v) \<in> set t"
  using gt_find_ptr_map_of [of t k] by (auto simp: gt_find_ref_def gt_find_ptr_def map_of_SomeD split: option.splits)

lemma generated_guarded:
  assumes cp: "compiled_ok cp" and gen: "generated_ctx n gf v cp = Inr (Some ctx)" and req: "groups_required (cp_state cp)"
  shows "guarded_ctx ctx" and "key_sorted fst (c_bme ctx)"
proof -
  obtain bme be where b: "msgpairs n (cs_fspec (cp_state cp)) (cs_globmap (cp_state cp)) (cp_mspec cp) = Some bme"
    "mk_metactx (vi_version v) bme be (vi_beginstr v) = Inr ctx"
    using generated_ctxE [OF gen] by metis
  note m = metactx_fields [OF b(2)]
  have "om_ok (cp_mspec cp)" using cp by (simp add: compiled_ok_def mspec_ok_def)
  note sorted = msgpairs_sorted(1) [OF b(1) this]
  then show k: "key_sorted fst (c_bme ctx)" by (simp add: m(3) om_ok_key_sorted)
  note g = msgpairs_guarded [OF b(1) req]
  have "(''header'', c_hdr ctx) \<in> set bme" "(''trailer'', c_trl ctx) \<in> set bme"
    using gt_find_ref_member m(5,6) k by (auto simp: m(3))
  then show "guarded_ctx ctx" using g by (auto simp: guarded_ctx_def m(3))
qed

section \<open>Places\<close>

text \<open>The traits of a loaded message: what the first declarations say, with places in their order.\<close>

definition same_but_pos :: "field_trait \<Rightarrow> field_trait \<Rightarrow> bool" where
  "same_but_pos t t' \<longleftrightarrow> t\<lparr>t_pos := 0\<rparr> = t'\<lparr>t_pos := 0\<rparr>"

lemma loaded_traits:
  assumes "fts_ok (ms_fields m0)" and "loaded_from ce s k m0 pp elname" and "m = upd_fields order_fields m0"
  shows "pr_lookup (ms_fields m) f = map_option (places (ms_fields m0)) (first_declared (declarations ce s elname pp) f)"
  using assms by (simp add: order_fields_lookup loaded_from_def)

lemma declared_in_arr:
  assumes "fts_ok (ms_fields m0)" and "loaded_from ce s k m0 pp elname" and "first_declared (declarations ce s elname pp) f = Some t"
  shows "t \<in> set (p_arr (ms_fields m0)) \<and> t_fnum t = f"
  using assms fts_lookup [OF assms(1), of f t] by (simp add: loaded_from_def)

lemma same_but_pos_places: "same_but_pos t (places p t)"
  by (simp add: same_but_pos_def)

lemma placed_in_order:
  assumes "fts_ok (ms_fields m0)" and "loaded_from ce s k m0 pp elname" and "m = upd_fields order_fields m0"
    and "length (p_arr (ms_fields m)) < 65536"
    and "first_declared (declarations ce s elname pp) f = Some t" "first_declared (declarations ce s elname pp) g = Some u"
    and "t_pos t < t_pos u"
  shows "\<exists>t' u'. pr_lookup (ms_fields m) f = Some t' \<and> pr_lookup (ms_fields m) g = Some u' \<and> t_pos t' < t_pos u'"
proof -
  have "length (p_arr (ms_fields m0)) < 65536" using assms(3,4) by (simp add: order_fields_arr [OF assms(1)])
  then have "t_pos (places (ms_fields m0) t) < t_pos (places (ms_fields m0) u)"
    using order_fields_less [OF assms(1)] declared_in_arr [OF assms(1,2)] assms(5-7) by blast
  then show ?thesis using loaded_traits [OF assms(1-3)] assms(5,6) by simp
qed

section \<open>Realms of the generated fields\<close>

lemma value_of_class:
  assumes "v \<in> (\<Union>pp \<in> S. set_option (value_of ft pp))"
  shows "is_int ft \<Longrightarrow> \<exists>n. v = TInt n"
    and "is_string ft \<Longrightarrow> \<not> is_int ft \<Longrightarrow> \<not> is_char ft \<Longrightarrow> \<not> is_float ft \<Longrightarrow> \<exists>x. v = TString x"
proof -
  from assms obtain pp where "value_of ft pp = Some v" by auto
  then show "is_int ft \<Longrightarrow> \<exists>n. v = TInt n"
    and "is_string ft \<Longrightarrow> \<not> is_int ft \<Longrightarrow> \<not> is_char ft \<Longrightarrow> \<not> is_float ft \<Longrightarrow> \<exists>x. v = TString x"
    by (auto simp: value_of_def RealmObject_create_def cbind_Inr Let_def split: option.splits sum.splits if_splits)
qed

lemma load_field_new:
  assumes run: "load_field env xf pp (l, s) = Inr (Suc l, s')" and ok: "fields_ok s"
    and no: "GetAttr pp ''number'' = Some no" "get_unsigned (trim no default_ws) = Inr fno" "map_of (cs_fspec s) fno = None"
  obtains fs where "map_of (cs_fspec s') fno = Some fs" "field_ok fs"
    "realm_values fs = (\<Union>v \<in> set (xml_find_set env xf pp ''field/value''). set_option (value_of (fs_ftype fs) v))"
    "\<And>k. k \<noteq> fno \<Longrightarrow> map_of (cs_fspec s') k = map_of (cs_fspec s) k"
proof -
  from run no(1) obtain nm ty where at: "GetAttr pp ''name'' = Some nm" "GetAttr pp ''type'' = Some ty"
    by (auto simp: load_field_def split: option.splits)
  with run no obtain ft where ft: "map_of baseTypeMap (InPlaceStrToUpper (trim ty default_ws)) = Some ft"
    by (auto simp: load_field_def Let_def split: option.splits)
  define f0 where "f0 = new_FieldSpec (trim nm default_ws) ft"
  define fspec where "fspec = om_insert fno f0 (cs_fspec s)"
  define fs1 where "fs1 = f0\<lparr>fs_description := attr_or pp ''description'' (fs_description f0),
    fs_comment := attr_or pp ''comment'' (fs_comment f0)\<rparr>"
  have om: "om_ok (cs_fspec s)" using ok by (simp add: fields_ok_def)
  have e: "the (map_of fspec fno) = f0" using om no(3) by (simp add: om_lookup fspec_def)
  from run no at ft obtain fs2 s2 where
    lv: "load_values ft (xml_find_set env xf pp ''field/value'') (fs1, s) = Inr (fs2, s2)" and
    s': "s' = s2\<lparr>cs_fspec := om_set fno fs2 fspec\<rparr>"
    by (auto simp: load_field_def Let_def cbind_Inr f0_def [symmetric] fspec_def [symmetric] e fs1_def [symmetric])
  have "field_ok fs1" "realm_values fs1 = {}" "fs_ftype fs1 = ft"
    by (simp_all add: fs1_def f0_def new_FieldSpec_def field_ok_def realm_values_def)
  with load_values_ok [OF lv] have r: "field_ok fs2" "fs_ftype fs2 = ft"
    "realm_values fs2 = (\<Union>v \<in> set (xml_find_set env xf pp ''field/value''). set_option (value_of ft v))" by simp_all
  have "om_ok fspec" using om by (simp add: fspec_def om_ok_insert)
  then have "map_of (cs_fspec s') k = (if k = fno then Some fs2 else map_of (cs_fspec s) k)" for k
    using om by (auto simp: s' fspec_def om_lookup)
  with r show thesis by (intro that [of fs2]) simp_all
qed

lemma realm_array_strings:
  assumes "realm_ok m" and "\<forall>p \<in> set m. \<exists>x. ro_val (fst p) = TString x"
    and xs: "xs = map (\<lambda>p. string_value (ro_val (fst p))) m"
  shows "sorted_wrt (<) xs" and "x \<in> set xs \<longleftrightarrow> TString x \<in> (\<lambda>p. ro_val (fst p)) ` set m"
proof -
  have "realm_comp (ro_val (fst p)) (ro_val (fst q)) \<longleftrightarrow> string_value (ro_val (fst p)) < string_value (ro_val (fst q))"
    if "p \<in> set m" "q \<in> set m" for p q
    using bspec [OF assms(2) that(1)] bspec [OF assms(2) that(2)] by auto
  then show "sorted_wrt (<) xs"
    using assms(1) unfolding xs realm_ok_def sorted_wrt_map by (metis (no_types, lifting) sorted_wrt_mono_rel)
  show "x \<in> set xs \<longleftrightarrow> TString x \<in> (\<lambda>p. ro_val (fst p)) ` set m"
    using assms(2) by (force simp: xs image_iff)
qed

lemma realm_array_ints:
  assumes "realm_ok m" and "\<forall>p \<in> set m. \<exists>n. ro_val (fst p) = TInt n"
    and xs: "xs = map (\<lambda>p. int_value (ro_val (fst p))) m"
  shows "sorted_wrt (<) xs" and "n \<in> set xs \<longleftrightarrow> TInt n \<in> (\<lambda>p. ro_val (fst p)) ` set m"
proof -
  have "realm_comp (ro_val (fst p)) (ro_val (fst q)) \<longleftrightarrow> int_value (ro_val (fst p)) < int_value (ro_val (fst q))"
    if "p \<in> set m" "q \<in> set m" for p q
    using bspec [OF assms(2) that(1)] bspec [OF assms(2) that(2)] by auto
  then show "sorted_wrt (<) xs"
    using assms(1) unfolding xs realm_ok_def sorted_wrt_map by (metis (no_types, lifting) sorted_wrt_mono_rel)
  show "n \<in> set xs \<longleftrightarrow> TInt n \<in> (\<lambda>p. ro_val (fst p)) ` set m"
    using assms(2) by (force simp: xs image_iff)
qed

end
