(* ===== verification/SchemaSamples.thy ===== *)
theory SchemaSamples
  imports MetaRules
begin

text \<open>
  A small schema (a header, a trailer and a message with a repeating group), and the properties of
  the compiler with their instances on it.
\<close>

section \<open>The sample schema\<close>

definition sample_el :: "string \<Rightarrow> int \<Rightarrow> int \<Rightarrow> (string \<times> string) list \<Rightarrow> xel list \<Rightarrow> xel" where
  "sample_el t sq si avs cs = Xel t None None 0 sq 1 (int (length cs)) si (Some avs) False cs"

definition sample_field :: "int \<Rightarrow> string \<Rightarrow> string \<Rightarrow> string \<Rightarrow> xel list \<Rightarrow> xel" where
  "sample_field sq fno name ty vals =
     sample_el ''field'' sq 0 [(''name'', name), (''number'', fno), (''type'', ty)] vals"

definition sample_use :: "string \<Rightarrow> int \<Rightarrow> int \<Rightarrow> string \<Rightarrow> string \<Rightarrow> xel list \<Rightarrow> xel" where
  "sample_use t sq si name required cs = sample_el t sq si [(''name'', name), (''required'', required)] cs"

definition sample_schema :: xel where
  "sample_schema = sample_el ''fix'' 1 0 [(''major'', ''4''), (''minor'', ''2'')]
     [sample_el ''header'' 2 1 []
        [sample_use ''field'' 3 1 ''BeginString'' ''Y'' [], sample_use ''field'' 4 2 ''BodyLength'' ''Y'' [],
         sample_use ''field'' 5 3 ''MsgType'' ''Y'' []],
      sample_el ''trailer'' 6 2 [] [sample_use ''field'' 7 1 ''CheckSum'' ''Y'' []],
      sample_el ''messages'' 8 3 []
        [sample_el ''message'' 9 1 [(''msgcat'', ''app''), (''msgtype'', ''J''), (''name'', ''Allocation'')]
           [sample_use ''field'' 10 1 ''Text'' ''N'' [],
            sample_use ''group'' 11 2 ''NoAllocs'' ''N''
              [sample_use ''field'' 12 1 ''AllocAccount'' ''Y'' [], sample_use ''field'' 13 2 ''Text'' ''N'' []],
            sample_use ''field'' 14 3 ''AllocId'' ''Y'' []]],
      sample_el ''fields'' 15 4 []
        [sample_field 16 ''8'' ''BeginString'' ''STRING'' [], sample_field 17 ''9'' ''BodyLength'' ''LENGTH'' [],
         sample_field 18 ''35'' ''MsgType'' ''string''
           [sample_el ''value'' 19 1 [(''description'', ''ALLOCATION''), (''enum'', ''J'')] [],
            sample_el ''value'' 20 2 [(''enum'', ''A'')] []],
         sample_field 21 ''10'' ''CheckSum'' ''STRING'' [], sample_field 22 ''58'' ''Text'' ''STRING'' [],
         sample_field 23 ''70'' ''AllocId'' ''STRING'' [], sample_field 24 ''78'' ''NoAllocs'' ''INT'' [],
         sample_field 25 ''79'' ''AllocAccount'' ''STRING'' []]]"

definition sample_version :: version_info where
  "sample_version = \<lparr>vi_version = 4200, vi_systemns = ''FIX4200'', vi_fixns = ''FIX4200'', vi_beginstr = ''FIX.4.2''\<rparr>"

lemma sample_version_loaded: "load_fix_version sample_xenv sample_schema [] = Inr (Some sample_version)"
  by code_simp

text \<open>One evaluation of the compiler; the instances of the properties read their facts off it.\<close>

definition sample_run :: "(compiled \<times> metactx) option" where
  "sample_run =
     (case load_schema 10 sample_xenv sample_schema (new_cstate False) of
        Inr (Some cp) \<Rightarrow>
          (case generated_ctx 10 False sample_version cp of Inr (Some ctx) \<Rightarrow> Some (cp, ctx) | _ \<Rightarrow> None)
      | _ \<Rightarrow> None)"

definition sample_traits :: "compiled \<Rightarrow> (string \<times> (u16 \<times> u16) list) list" where
  "sample_traits cp = map (\<lambda>(k, m). (k, map (\<lambda>t. (t_fnum t, t_pos t)) (p_arr (ms_fields m)))) (cp_mspec cp)"

lemma sample_evaluates:
  "case sample_run of
     Some (cp, ctx) \<Rightarrow> small_numbers (cp_state cp) \<and> groups_required (cp_state cp) \<and>
       sample_traits cp = [(''J'', [(58, 1), (70, 3), (78, 2)]), (''header'', [(8, 1), (9, 2), (35, 3)]), (''trailer'', [(10, 1)])] \<and>
       map fst (c_bme ctx) = [''J'', ''header'', ''trailer'']
   | None \<Rightarrow> False"
  by code_simp

lemma sample_runs:
  obtains cp ctx where "load_schema 10 sample_xenv sample_schema (new_cstate False) = Inr (Some cp)"
    "generated_ctx 10 False sample_version cp = Inr (Some ctx)" "small_numbers (cp_state cp)" "groups_required (cp_state cp)"
    "sample_traits cp = [(''J'', [(58, 1), (70, 3), (78, 2)]), (''header'', [(8, 1), (9, 2), (35, 3)]), (''trailer'', [(10, 1)])]"
    "map fst (c_bme ctx) = [''J'', ''header'', ''trailer'']"
  using sample_evaluates that unfolding sample_run_def
  by (auto split: sum.splits option.splits prod.splits)

section \<open>Properties\<close>

text \<open>
  C3: the metadata \<^verbatim>\<open>f8c\<close> generates from a schema with field numbers below 65536 are in order for the
  run-time library: the message and field tables are sorted, each trait table is sorted, has the hash
  array of its numbers and a field entry for each of them, and every group trait has its group class,
  to any depth. So a message made from them starts consistent, and looking up a group that the
  message knows never meets the null pointer.
\<close>

theorem compiled_metadata:
  assumes "load_schema n env xf (new_cstate ns) = Inr (Some cp)" and "generated_ctx k gf v cp = Inr (Some ctx)"
    and "small_numbers (cp_state cp)"
  shows "ctx_ok ctx \<and>
    (\<forall>key e deep. (key, e) \<in> set (c_bme ctx) \<longrightarrow> core_ok (mb (msg_body (create_message ctx e deep)))) \<and>
    (\<forall>key e t. (key, e) \<in> set (c_bme ctx) \<longrightarrow> t \<in> set (me_traits e) \<longrightarrow> t_has t group \<longrightarrow>
       (\<exists>m g. find_add_group (t_fnum t) None (msg_body (create_message ctx e False)) = Inr (m, Some g) \<and>
          g_fnum g = t_fnum t \<and> schema_ok ctx (g_schema g)))"
proof -
  obtain "compiled_ok cp" using load_schema_ok [OF assms(1)] by blast
  then have ok: "ctx_ok ctx" by (rule generated_ctx_correct [OF _ assms(2,3)])
  then have nd: "node_tables ctx (me_traits e) (me_ftha e) (me_groups e)" "\<forall>p \<in> set (me_groups e). schema_ok ctx (snd p)"
    if "(key, e) \<in> set (c_bme ctx)" for key e
    using that by (auto simp: ctx_ok_def)
  have "\<exists>m g. find_add_group (t_fnum t) None (msg_body (create_message ctx e False)) = Inr (m, Some g) \<and>
      g_fnum g = t_fnum t \<and> schema_ok ctx (g_schema g)"
    if "(key, e) \<in> set (c_bme ctx)" "t \<in> set (me_traits e)" "t_has t group" for key e t
    by (rule add_group_found [OF nd(1) [OF that(1)] that(2,3) _ nd(2) [OF that(1)]])
      (simp_all add: create_message_def new_core_def deep_groups_def)
  moreover have "core_ok (mb (msg_body (create_message ctx e deep)))" if "(key, e) \<in> set (c_bme ctx)" for key e deep
    using node_tables_core [OF nd(1) [OF that]] by (simp add: create_message_def)
  ultimately show ?thesis using ok by blast
qed

theorem compiled_metadata_witness:
  "\<exists>cp ctx. load_schema 10 sample_xenv sample_schema (new_cstate False) = Inr (Some cp) \<and>
    generated_ctx 10 False sample_version cp = Inr (Some ctx) \<and> map fst (c_bme ctx) = [''J'', ''header'', ''trailer''] \<and>
    ctx_ok ctx"
proof -
  obtain cp ctx where r: "load_schema 10 sample_xenv sample_schema (new_cstate False) = Inr (Some cp)"
    "generated_ctx 10 False sample_version cp = Inr (Some ctx)" "small_numbers (cp_state cp)"
    "map fst (c_bme ctx) = [''J'', ''header'', ''trailer'']"
    using sample_runs by metis
  show ?thesis
    by (rule exI [of _ cp], rule exI [of _ ctx]) (simp add: r(1,2,4) compiled_metadata [OF r(1-3), THEN conjunct1])
qed





text \<open>
  C32: the traits of every message of a schema are those its elements declare, groups before fields and
  the first declaration of a number counting; only the places differ: they are 1, 2, 3 and so on, and
  fields that stand in some order in the schema keep it.
\<close>

theorem compiled_traits:
  assumes "load_schema n env xf (new_cstate ns) = Inr (Some cp)" and "(k, m) \<in> set (cp_mspec cp)"
    and "length (p_arr (ms_fields m)) < 65536"
  shows "\<exists>pp name elname cat dvals. pp \<in> set (schema_messages env xf) \<and>
    message_id dvals pp = Inr (Some (k, name, elname, cat)) \<and>
    (let ds = declarations (cenv_of env xf cp) (cp_state cp) elname pp; found = pr_lookup (ms_fields m)
     in (\<forall>f. rel_option same_but_pos (first_declared ds f) (found f)) \<and>
        (\<forall>f g t u. first_declared ds f = Some t \<longrightarrow> first_declared ds g = Some u \<longrightarrow> t_pos t < t_pos u \<longrightarrow>
           t_pos (the (found f)) < t_pos (the (found g)))) \<and>
    map t_pos (sort_key t_pos (p_arr (ms_fields m))) = map of_nat [1..<Suc (length (p_arr (ms_fields m)))]"
proof -
  obtain m0 dvals where m0: "m = upd_fields order_fields m0" "fts_ok (ms_fields m0)"
    "comes_from (cenv_of env xf cp) (cp_state cp) dvals (schema_messages env xf) k m0"
    using load_schema_ok [OF assms(1)] assms(2) by metis
  from m0(3) obtain pp name elname cat where pp: "pp \<in> set (schema_messages env xf)"
    "message_id dvals pp = Inr (Some (k, name, elname, cat))"
    "loaded_from (cenv_of env xf cp) (cp_state cp) k m0 pp elname"
    by (auto simp: comes_from_def)
  let ?ds = "declarations (cenv_of env xf cp) (cp_state cp) elname pp"
  have "rel_option same_but_pos (first_declared ?ds f) (pr_lookup (ms_fields m) f)" for f
    unfolding loaded_traits [OF m0(2) pp(3) m0(1)]
    by (cases "first_declared ?ds f") (simp_all add: same_but_pos_places)
  moreover have "t_pos (the (pr_lookup (ms_fields m) f)) < t_pos (the (pr_lookup (ms_fields m) g))"
    if "first_declared ?ds f = Some t" "first_declared ?ds g = Some u" "t_pos t < t_pos u" for f g t u
    using placed_in_order [OF m0(2) pp(3) m0(1) assms(3) that] by auto
  moreover have "length (p_arr (ms_fields m0)) = length (p_arr (ms_fields m))"
    by (simp add: m0(1) order_fields_arr [OF m0(2)])
  then have "map t_pos (sort_key t_pos (p_arr (ms_fields m))) = map of_nat [1..<Suc (length (p_arr (ms_fields m)))]"
    using order_fields_sorted(1) [OF m0(2)] assms(3) by (simp add: m0(1) del: upt_Suc)
  ultimately show ?thesis unfolding Let_def using pp(1,2)
    by (intro exI [of _ pp] exI [of _ name] exI [of _ elname] exI [of _ cat] exI [of _ dvals] conjI allI impI)
qed

theorem compiled_traits_witness:
  "\<exists>cp m pp name elname cat dvals. load_schema 10 sample_xenv sample_schema (new_cstate False) = Inr (Some cp) \<and>
    (''J'', m) \<in> set (cp_mspec cp) \<and> map (\<lambda>t. (t_fnum t, t_pos t)) (p_arr (ms_fields m)) = [(58, 1), (70, 3), (78, 2)] \<and>
    pp \<in> set (schema_messages sample_xenv sample_schema) \<and> message_id dvals pp = Inr (Some (''J'', name, elname, cat)) \<and>
    rel_option same_but_pos (first_declared (declarations (cenv_of sample_xenv sample_schema cp) (cp_state cp) elname pp) 78)
      (pr_lookup (ms_fields m) 78)"
proof -
  obtain cp where r: "load_schema 10 sample_xenv sample_schema (new_cstate False) = Inr (Some cp)"
    "sample_traits cp = [(''J'', [(58, 1), (70, 3), (78, 2)]), (''header'', [(8, 1), (9, 2), (35, 3)]), (''trailer'', [(10, 1)])]"
    using sample_runs by metis
  from r(2) obtain m where m: "(''J'', m) \<in> set (cp_mspec cp)"
    "map (\<lambda>t. (t_fnum t, t_pos t)) (p_arr (ms_fields m)) = [(58, 1), (70, 3), (78, 2)]"
    by (auto simp: sample_traits_def map_eq_Cons_conv)
  from arg_cong [OF m(2), of length] have "length (p_arr (ms_fields m)) < 65536" by simp
  from compiled_traits [OF r(1) m(1) this] obtain pp name elname cat dvals where
    "pp \<in> set (schema_messages sample_xenv sample_schema)" "message_id dvals pp = Inr (Some (''J'', name, elname, cat))"
    "rel_option same_but_pos (first_declared (declarations (cenv_of sample_xenv sample_schema cp) (cp_state cp) elname pp) 78)
      (pr_lookup (ms_fields m) 78)"
    unfolding Let_def by blast
  note facts = r(1) m this
  show ?thesis
    by (rule exI [of _ cp], rule exI [of _ m], rule exI [of _ pp], rule exI [of _ name], rule exI [of _ elname],
        rule exI [of _ cat], rule exI [of _ dvals]) (intro conjI facts)
qed


definition sample_side :: xel where
  "sample_side = sample_field 30 ''54'' ''Side'' ''INT''
     [sample_el ''value'' 31 1 [(''enum'', ''2'')] [], sample_el ''value'' 32 2 [(''enum'', ''1'')] [],
      sample_el ''value'' 33 3 [(''enum'', ''2'')] []]"


end
