(* ===== verification/Expand.thy ===== *)
theory Expand
  imports SchemaRules
begin

text \<open>
  The first pass of the schema compiler (\<^verbatim>\<open>compiler/f8precomp.cpp\<close>), which replaces the references to
  components by their contents and writes the document the second pass reads. A function gives the
  text it writes and the number of errors it counts; \<open>None\<close> is an expansion that does not end, for
  which the fuel is the depth of the nesting.
\<close>

section \<open>Elements\<close>

type_synonym outf = "(string \<times> nat) option"

definition endl :: string where "endl = [CHR 0x0A]"

definition indent :: "nat \<Rightarrow> string" where
  "indent depth = replicate (depth * 2) (CHR '' '')"

definition output_attributes :: "xel \<Rightarrow> bool \<Rightarrow> string" where
  "output_attributes x required =
     concat (map (\<lambda>(a, v). '' '' @ a @ ''='' @ quote #
         (if a = ''required'' \<and> v = ''Y'' \<and> \<not> required then ''N'' else v) @ [quote])
       (case x_attrs x of Some avs \<Rightarrow> avs | None \<Rightarrow> [])) @
     (if x_txtline x \<noteq> 0 then '' line='' @ quote # show_int (x_txtline x) @ [quote] else [])"

definition component_mark :: "string \<Rightarrow> string" where
  "component_mark compon = (if compon = [] then [] else '' component='' @ quote # compon @ [quote])"

definition output_field :: "xel \<Rightarrow> nat \<Rightarrow> string \<Rightarrow> bool \<Rightarrow> string" where
  "output_field x depth compon required =
     indent depth @ ''<field'' @ output_attributes x required @ component_mark compon @ ''/>'' @ endl"

text \<open>The outputs of a loop, one after the other.\<close>

fun collect :: "outf list \<Rightarrow> outf" where
  "collect [] = Some ([], 0)"
| "collect (None # os) = None"
| "collect (Some (t, e) # os) = map_option (\<lambda>(ts, es). (t @ ts, e + es)) (collect os)"

text \<open>
  The three functions call each other; \<open>process_component\<close> and \<open>process_group\<close> take the call of
  \<open>process_elements\<close> as an argument. At depth 3, the elements of a message, a component does not look
  at whether the component around it is required.
\<close>

definition process_component ::
  "(xel \<Rightarrow> nat \<Rightarrow> string \<Rightarrow> bool \<Rightarrow> outf) \<Rightarrow> Components \<Rightarrow> xel \<Rightarrow> nat \<Rightarrow> bool \<Rightarrow> outf" where
  "process_component elements components x depth required =
     (let name = attr_or x ''name'' [];
          comp_required = (case GetAttr x ''required'' of Some v \<Rightarrow> get_value_bool v | None \<Rightarrow> False)
      in case map_of components name of
           None \<Rightarrow> Some ([], 1)
         | Some c \<Rightarrow>
             collect (map (\<lambda>el. elements el depth name (if depth = 3 then comp_required else comp_required \<and> required))
               (ordchildren c)))"

definition group_text :: "xel \<Rightarrow> nat \<Rightarrow> string \<Rightarrow> bool \<Rightarrow> string \<Rightarrow> string" where
  "group_text x depth compon required body =
     indent depth @ ''<group'' @ output_attributes x required @ component_mark compon @ ''>'' @ endl @
     body @ indent depth @ ''</group>'' @ endl"

definition process_group ::
  "(xel \<Rightarrow> nat \<Rightarrow> string \<Rightarrow> bool \<Rightarrow> outf) \<Rightarrow> xel \<Rightarrow> nat \<Rightarrow> string \<Rightarrow> bool \<Rightarrow> outf" where
  "process_group elements x depth compon required =
     map_option (map_prod (group_text x depth compon required) (\<lambda>e. e))
       (collect (map (\<lambda>el. elements el (Suc depth) [] required) (ordchildren x)))"

fun process_elements :: "nat \<Rightarrow> Components \<Rightarrow> xel \<Rightarrow> nat \<Rightarrow> string \<Rightarrow> bool \<Rightarrow> outf" where
  "process_elements 0 components x depth compon required = None"
| "process_elements (Suc n) components x depth compon required =
     (if x_tag x = ''field'' then Some (output_field x depth compon required, 0)
      else if x_tag x = ''component'' then process_component (process_elements n components) components x depth required
      else if x_tag x = ''group'' then process_group (process_elements n components) x depth compon required
      else Some ([], 0))"

definition process_messages :: "nat \<Rightarrow> Components \<Rightarrow> string \<Rightarrow> nat \<Rightarrow> bool \<Rightarrow> xel \<Rightarrow> outf" where
  "process_messages n components tag depth required x =
     map_option (map_prod
         (\<lambda>body. indent (Suc depth) @ ''<'' @ tag @ output_attributes x required @ ''>'' @ endl @
            body @ indent (Suc depth) @ ''</'' @ tag @ ''>'' @ endl) (\<lambda>e. e))
       (collect (map (\<lambda>el. process_elements n components el (depth + 2) [] required) (ordchildren x)))"

section \<open>Documents\<close>

definition value_text :: "nat \<Rightarrow> bool \<Rightarrow> xel \<Rightarrow> string" where
  "value_text depth required v =
     indent (depth + 2) @ ''<'' @ x_tag v @ output_attributes v required @ ''/>'' @ endl"

definition fieldspec_text :: "nat \<Rightarrow> bool \<Rightarrow> xel \<Rightarrow> string" where
  "fieldspec_text depth required f =
     indent (Suc depth) @ ''<field'' @ output_attributes f required @
     (if x_chldcnt f \<noteq> 0
      then ''>'' @ endl @ concat (map (value_text depth required) (ordchildren f)) @ indent (Suc depth) @ ''</field>'' @ endl
      else ''/>'' @ endl)"

definition process_fields :: "xel list \<Rightarrow> nat \<Rightarrow> bool \<Rightarrow> string" where
  "process_fields fldlist depth required =
     indent depth @ ''<fields>'' @ endl @ concat (map (fieldspec_text depth required) fldlist) @
     indent depth @ ''</fields>'' @ endl"

definition dump_components :: "Components \<Rightarrow> string" where
  "dump_components components =
     (if components = [] then []
      else indent 1 @ ''<components>'' @ endl @
        concat (map (\<lambda>(i, c). indent 2 @ ''<component name='' @ dquote # fst c @ dquote # '' id='' @ dquote #
            dec_numeral (1 + i) @ dquote # ''/>'' @ endl) (enumerate 0 components)) @
        indent 1 @ ''</components>'' @ endl)"

text \<open>The fields of a name but the first are dropped, the rest stays in the order of the document.\<close>

definition filter_unique :: "xel list \<Rightarrow> xel list" where
  "filter_unique fldlist =
     (let ufm = fold (\<lambda>pp m. om_insert (attr_or pp ''name'' []) pp m) fldlist []
      in map snd (fold (\<lambda>(nm, pp). om_insert (x_sequence pp) pp) ufm []))"

definition doctype :: string where
  "doctype = ''<?xml version='' @ quote # ''1.0'' @ quote # '' encoding='' @ quote # ''ISO-8859-1'' @ quote # ''?>''"

definition section_of :: "xenv \<Rightarrow> xel \<Rightarrow> nat \<Rightarrow> Components \<Rightarrow> string \<Rightarrow> outf" where
  "section_of env xf n components tag =
     (case xml_find env xf xf (''fix/'' @ tag) of
        None \<Rightarrow> Some ([], 0)
      | Some x \<Rightarrow> process_messages n components tag 0 True x)"

definition messages_of :: "xenv \<Rightarrow> xel \<Rightarrow> nat \<Rightarrow> Components \<Rightarrow> outf" where
  "messages_of env xf n components =
     collect (map (process_messages n components ''message'' 1 True) (xml_find_set env xf xf ''fix/messages/message''))"

definition components_of :: "xenv \<Rightarrow> xel \<Rightarrow> Components" where
  "components_of env xf = load_components (xml_find_set env xf xf ''fix/components/component'') []"

definition puts :: "string \<Rightarrow> outf" where "puts t = Some (t, 0)"

definition precomp :: "nat \<Rightarrow> xenv \<Rightarrow> xel \<Rightarrow> outf" where
  "precomp n env xf =
     (let components = components_of env xf
      in collect
        [puts (doctype @ endl @ ''<'' @ x_tag xf @ output_attributes xf True @ ''>'' @ endl),
         section_of env xf n components ''header'',
         section_of env xf n components ''trailer'',
         puts (indent 1 @ ''<messages>'' @ endl),
         messages_of env xf n components,
         puts (indent 1 @ ''</messages>'' @ endl @ process_fields (xml_find_set env xf xf ''fix/fields/field'') 1 True @
           dump_components components @ ''</'' @ x_tag xf @ ''>'' @ endl)])"

text \<open>
  With a transport schema: header, trailer and session messages come from it, the other messages from
  the application schema. The fields of both are put into one set, whose order is that of the places
  in the two documents; the components of the transport schema are not listed.
\<close>

definition both_fields :: "xenv \<Rightarrow> xel \<Rightarrow> xel \<Rightarrow> xel list" where
  "both_fields env xft xf =
     (let l1 = snd (x_find_all env xft xft ''fix/fields/field'' [] None (CHR ''/''))
      in map snd (snd (x_find_all env xf xf ''fix/fields/field'' l1 None (CHR ''/''))))"

definition precompfixt :: "nat \<Rightarrow> xenv \<Rightarrow> xel \<Rightarrow> xel \<Rightarrow> bool \<Rightarrow> outf" where
  "precompfixt n env xft xf nounique =
     (let fields = both_fields env xft xf;
          fldlist = (if nounique then fields else filter_unique fields);
          components = components_of env xf; componentsfixt = components_of env xft
      in collect
        [puts (doctype @ endl @ ''<'' @ x_tag xft @ output_attributes xft True @ ''>'' @ endl),
         section_of env xft n componentsfixt ''header'',
         section_of env xft n componentsfixt ''trailer'',
         puts (indent 1 @ ''<messages>'' @ endl),
         messages_of env xft n componentsfixt,
         messages_of env xf n components,
         puts (indent 1 @ ''</messages>'' @ endl @ process_fields fldlist 1 True @
           dump_components components @ ''</'' @ x_tag xft @ ''>'' @ endl)])"

end
