(* ===== verification/ExpandRules.thy ===== *)
theory ExpandRules
  imports Expand
begin

text \<open>
  The expansion of components as a relation between an element and the fields and groups it stands
  for, and that the first pass writes exactly these: it ends when no component contains itself, and
  never ends when one does.
\<close>

section \<open>What an element stands for\<close>

datatype item = Field_item xel string bool | Group_item xel string bool "item list"

primrec render :: "nat \<Rightarrow> item \<Rightarrow> string" and render_all :: "nat \<Rightarrow> item list \<Rightarrow> string" where
  "render depth (Field_item x compon required) = output_field x depth compon required"
| "render depth (Group_item x compon required is) = group_text x depth compon required (render_all (Suc depth) is)"
| "render_all depth [] = []"
| "render_all depth (i # is) = render depth i @ render_all depth is"

lemma render_all_append [simp]: "render_all d (is @ js) = render_all d is @ render_all d js"
  by (induction "is") simp_all

definition name_of_ref :: "xel \<Rightarrow> string" where
  "name_of_ref x = attr_or x ''name'' []"

definition ref_required :: "xel \<Rightarrow> bool" where
  "ref_required x = (case GetAttr x ''required'' of Some v \<Rightarrow> get_value_bool v | None \<Rightarrow> False)"

definition inside_required :: "nat \<Rightarrow> xel \<Rightarrow> bool \<Rightarrow> bool" where
  "inside_required d x req \<longleftrightarrow> (if d = 3 then ref_required x else ref_required x \<and> req)"

lemma process_component_eq:
  "process_component f cs x d req =
     (case map_of cs (name_of_ref x) of
        None \<Rightarrow> Some ([], 1)
      | Some c \<Rightarrow> collect (map (\<lambda>el. f el d (name_of_ref x) (inside_required d x req)) (ordchildren c)))"
  unfolding process_component_def name_of_ref_def inside_required_def ref_required_def Let_def by (rule refl)

inductive expands :: "Components \<Rightarrow> nat \<Rightarrow> string \<Rightarrow> bool \<Rightarrow> xel \<Rightarrow> item list \<Rightarrow> nat \<Rightarrow> bool"
  and expands_all :: "Components \<Rightarrow> nat \<Rightarrow> string \<Rightarrow> bool \<Rightarrow> xel list \<Rightarrow> item list \<Rightarrow> nat \<Rightarrow> bool"
  for cs :: Components where
  field: "x_tag x = ''field'' \<Longrightarrow> expands cs d compon req x [Field_item x compon req] 0"
| missing: "x_tag x = ''component'' \<Longrightarrow> map_of cs (name_of_ref x) = None \<Longrightarrow> expands cs d compon req x [] 1"
| component: "x_tag x = ''component'' \<Longrightarrow> map_of cs (name_of_ref x) = Some c \<Longrightarrow>
    expands_all cs d (name_of_ref x) (inside_required d x req) (ordchildren c) is e \<Longrightarrow>
    expands cs d compon req x is e"
| group: "x_tag x = ''group'' \<Longrightarrow> expands_all cs (Suc d) [] req (ordchildren x) is e \<Longrightarrow>
    expands cs d compon req x [Group_item x compon req is] e"
| other: "x_tag x \<notin> {''field'', ''component'', ''group''} \<Longrightarrow> expands cs d compon req x [] 0"
| none: "expands_all cs d compon req [] [] 0"
| more: "expands cs d compon req x is e \<Longrightarrow> expands_all cs d compon req xs js e' \<Longrightarrow>
    expands_all cs d compon req (x # xs) (is @ js) (e + e')"

section \<open>The text that is written\<close>

lemma collect_Some:
  assumes "collect (map f xs) = Some (t, e)"
    and "\<And>x t e. x \<in> set xs \<Longrightarrow> f x = Some (t, e) \<Longrightarrow> \<exists>is. expands cs d compon req x is e \<and> t = render_all d is"
  shows "\<exists>is. expands_all cs d compon req xs is e \<and> t = render_all d is"
  using assms
proof (induction xs arbitrary: t e)
  case Nil
  then have "t = []" "e = 0" by simp_all
  then show ?case by (intro exI [of _ "[]"]) (simp add: none)
next
  case (Cons x xs)
  from Cons.prems(1) obtain t1 e1 t2 e2 where fx: "f x = Some (t1, e1)" and rest: "collect (map f xs) = Some (t2, e2)"
    and e: "t = t1 @ t2" "e = e1 + e2"
    by (cases "f x") auto
  obtain "is" where i: "expands cs d compon req x is e1" "t1 = render_all d is" using Cons.prems(2) [OF _ fx] by auto
  obtain js where j: "expands_all cs d compon req xs js e2" "t2 = render_all d js"
    using Cons.IH [OF rest Cons.prems(2)] by auto
  show ?case using more [OF i(1) j(1)] i(2) j(2) e by (intro exI [of _ "is @ js"]) simp
qed

lemma process_elements_sound:
  "process_elements n cs x d compon req = Some (t, e) \<Longrightarrow> \<exists>is. expands cs d compon req x is e \<and> t = render_all d is"
proof (induction n arbitrary: x d compon req t e)
  case (Suc n)
  consider (f) "x_tag x = ''field''" | (c) "x_tag x = ''component''" | (g) "x_tag x = ''group''"
    | (o) "x_tag x \<notin> {''field'', ''component'', ''group''}" by blast
  then show ?case
  proof cases
    case f
    with Suc.prems have "t = output_field x d compon req" "e = 0" by simp_all
    then show ?thesis using expands_expands_all.field [OF f] by (intro exI [of _ "[Field_item x compon req]"]) simp
  next
    case c
    show ?thesis
    proof (cases "map_of cs (name_of_ref x)")
      case None
      with Suc.prems c have "t = []" "e = 1" by (simp_all add: process_component_eq)
      then show ?thesis using missing [OF c None] by (intro exI [of _ "[]"]) simp
    next
      case (Some k)
      from Suc.prems c Some have
        "collect (map (\<lambda>el. process_elements n cs el d (name_of_ref x) (inside_required d x req)) (ordchildren k)) = Some (t, e)"
        by (simp add: process_component_eq)
      from collect_Some [OF this Suc.IH] component [OF c Some] show ?thesis by blast
    qed
  next
    case g
    from Suc.prems g obtain body where
      b: "collect (map (\<lambda>el. process_elements n cs el (Suc d) [] req) (ordchildren x)) = Some (body, e)"
      and t: "t = group_text x d compon req body"
      by (auto simp: process_group_def)
    from collect_Some [OF b Suc.IH] obtain "is" where "expands_all cs (Suc d) [] req (ordchildren x) is e"
      "body = render_all (Suc d) is" by blast
    then show ?thesis
      using expands_expands_all.group [OF g] t by (intro exI [of _ "[Group_item x compon req is]"]) simp
  next
    case o
    with Suc.prems have "t = []" "e = 0" by simp_all
    then show ?thesis using other [OF o] by (intro exI [of _ "[]"]) simp
  qed
qed simp

section \<open>The end of the expansion\<close>

text \<open>
  A numbering of the components in which each refers to smaller ones only. A bound on the fuel is the
  height of an element and, for each number below, the greatest height of a component and one.
\<close>

definition refs_below :: "(string \<Rightarrow> nat) \<Rightarrow> Components \<Rightarrow> nat \<Rightarrow> xel \<Rightarrow> bool" where
  "refs_below rank cs k x \<longleftrightarrow>
     (\<forall>y \<in> set (nodes x). x_tag y = ''component'' \<longrightarrow> map_of cs (name_of_ref y) \<noteq> None \<longrightarrow> rank (name_of_ref y) < k)"

definition ranked :: "(string \<Rightarrow> nat) \<Rightarrow> Components \<Rightarrow> bool" where
  "ranked rank cs \<longleftrightarrow> (\<forall>(nm, c) \<in> set cs. \<forall>y \<in> set (x_children c). refs_below rank cs (rank nm) y)"

definition heights_within :: "nat \<Rightarrow> Components \<Rightarrow> bool" where
  "heights_within h cs \<longleftrightarrow> (\<forall>(nm, c) \<in> set cs. xheight c \<le> h)"

lemma ordchildren_children: "set (ordchildren x) \<subseteq> set (x_children x)"
proof -
  have "snd ` set (fold (\<lambda>c. om_insert (x_sequence c) c) cs m) \<subseteq> set cs \<union> snd ` set m" for cs m
  proof (induction cs arbitrary: m)
    case (Cons c cs)
    have "snd ` set (om_insert (x_sequence c) c m) \<subseteq> insert c (snd ` set m)"
      using set_om_insert_subset [of "x_sequence c" c m] by auto
    with Cons.IH [of "om_insert (x_sequence c) c m"] show ?case by auto
  qed simp
  from this [of "x_children x" "[]"] show ?thesis by (simp add: ordchildren_def)
qed

lemma refs_below_child: "refs_below rank cs k x \<Longrightarrow> y \<in> set (x_children x) \<Longrightarrow> refs_below rank cs k y"
  by (auto simp: refs_below_def nodes_unfold [of x])

lemma refs_below_self:
  "refs_below rank cs k x \<Longrightarrow> x_tag x = ''component'' \<Longrightarrow> map_of cs (name_of_ref x) = Some c \<Longrightarrow> rank (name_of_ref x) < k"
  using nodes_self [of x] by (auto simp: refs_below_def)

lemma collect_total: "(\<And>x. x \<in> set xs \<Longrightarrow> f x \<noteq> None) \<Longrightarrow> collect (map f xs) \<noteq> None"
proof (induction xs)
  case (Cons x xs)
  then obtain t e where "f x = Some (t, e)" by fastforce
  with Cons show ?case by simp
qed simp

lemma process_elements_ends:
  assumes "ranked rank cs" and "heights_within h cs"
  shows "refs_below rank cs k x \<Longrightarrow> xheight x + k * Suc h \<le> n \<Longrightarrow> process_elements n cs x d compon req \<noteq> None"
proof (induction n arbitrary: x k d compon req)
  case 0
  have "0 < xheight x" by (cases x) simp
  with 0 show ?case by simp
next
  case (Suc n)
  have child: "process_elements n cs y d' compon' req' \<noteq> None" if "y \<in> set (ordchildren x)" for y d' compon' req'
  proof -
    have y: "y \<in> set (x_children x)" using that ordchildren_children by blast
    show ?thesis
      using xheight_child [OF y] Suc.prems(2) by (intro Suc.IH [OF refs_below_child [OF Suc.prems(1) y]]) simp
  qed
  have comp: "process_elements n cs y d' compon' req' \<noteq> None"
    if c: "x_tag x = ''component''" "map_of cs (name_of_ref x) = Some c" and y: "y \<in> set (ordchildren c)" for c y d' compon' req'
  proof (rule Suc.IH [of "rank (name_of_ref x)"])
    have y: "y \<in> set (x_children c)" using y ordchildren_children by blast
    have m: "(name_of_ref x, c) \<in> set cs" using c(2) by (rule map_of_SomeD)
    then show "refs_below rank cs (rank (name_of_ref x)) y" using assms(1) y by (auto simp: ranked_def)
    have "xheight y < h" using xheight_child [OF y] assms(2) m by (fastforce simp: heights_within_def)
    moreover have "Suc (rank (name_of_ref x)) * Suc h \<le> k * Suc h"
      using refs_below_self [OF Suc.prems(1) c] by (intro mult_le_mono1) simp
    ultimately show "xheight y + rank (name_of_ref x) * Suc h \<le> n" using Suc.prems(2) by simp
  qed
  have "collect (map (\<lambda>el. process_elements n cs el (Suc d) [] req) (ordchildren x)) \<noteq> None"
    by (rule collect_total) (rule child)
  moreover have "collect (map (\<lambda>el. process_elements n cs el d (name_of_ref x) r) (ordchildren c)) \<noteq> None"
    if "x_tag x = ''component''" "map_of cs (name_of_ref x) = Some c" for c r
    by (rule collect_total) (rule comp [OF that])
  ultimately show ?case
    by (auto simp: process_group_def process_component_eq split: option.split)
qed

text \<open>A component that refers to itself.\<close>

lemma collect_None: "x \<in> set xs \<Longrightarrow> f x = None \<Longrightarrow> collect (map f xs) = None"
proof (induction xs)
  case (Cons y ys)
  then show ?case by (cases "f y") (auto split: prod.split)
qed simp

lemma process_elements_diverges:
  assumes "map_of cs nm = Some c" and "y \<in> set (ordchildren c)" and "x_tag y = ''component''" and "name_of_ref y = nm"
  shows "x_tag x = ''component'' \<Longrightarrow> name_of_ref x = nm \<Longrightarrow> process_elements n cs x d compon req = None"
proof (induction n arbitrary: x d compon req)
  case (Suc n)
  have "collect (map (\<lambda>el. process_elements n cs el d nm r) (ordchildren c)) = None" for r
    using Suc.IH [OF assms(3,4)] by (rule collect_None [OF assms(2)])
  with Suc.prems assms(1) show ?case by (simp add: process_component_eq)
qed simp

section \<open>Mandatory fields\<close>

fun item_required :: "item \<Rightarrow> bool" where
  "item_required (Field_item x compon required) = required"
| "item_required (Group_item x compon required is) = required"

text \<open>Outside of the elements of a message, what is in an optional component stays optional.\<close>

lemma optional_stays_optional:
  "expands cs d compon req x is e \<Longrightarrow> d \<noteq> 3 \<Longrightarrow> \<not> req \<Longrightarrow> list_all (\<lambda>i. \<not> item_required i) is"
  "expands_all cs d compon req xs is e \<Longrightarrow> d \<noteq> 3 \<Longrightarrow> \<not> req \<Longrightarrow> list_all (\<lambda>i. \<not> item_required i) is"
  by (induction rule: expands_expands_all.inducts) (simp_all add: inside_required_def)

section \<open>Samples\<close>

definition plain_el :: "string \<Rightarrow> int \<Rightarrow> (string \<times> string) list \<Rightarrow> xel list \<Rightarrow> xel" where
  "plain_el t sq avs cs = Xel t None None 0 sq 0 (int (length cs)) 1 (Some avs) False cs"

definition sample_ref :: "int \<Rightarrow> string \<Rightarrow> string \<Rightarrow> xel" where
  "sample_ref sq nm required = plain_el ''component'' sq [(''name'', nm), (''required'', required)] []"

definition sample_components :: Components where
  "sample_components =
     [(''Inner'', plain_el ''component'' 4 [(''name'', ''Inner'')]
         [plain_el ''field'' 5 [(''name'', ''Account''), (''required'', ''Y'')] []]),
      (''Outer'', plain_el ''component'' 1 [(''name'', ''Outer'')]
         [sample_ref 2 ''Inner'' ''Y'', plain_el ''field'' 3 [(''name'', ''Text''), (''required'', ''Y'')] []])]"

text \<open>In a message, at depth 3, a mandatory component makes its fields mandatory although the component
  around it is optional; in the header, at depth 2, it does not.\<close>

definition sample_expansion :: "nat \<Rightarrow> string" where
  "sample_expansion d =
     indent d @ ''<field name='' @ quote # ''Account'' @ quote # '' required='' @ quote # (if d = 3 then ''Y'' else ''N'') @
       quote # '' component='' @ quote # ''Inner'' @ quote # ''/>'' @ endl @
     indent d @ ''<field name='' @ quote # ''Text'' @ quote # '' required='' @ quote # ''N'' @
       quote # '' component='' @ quote # ''Outer'' @ quote # ''/>'' @ endl"

lemma nested_component_mandatory:
  "process_elements 3 sample_components (sample_ref 9 ''Outer'' ''N'') 3 [] True = Some (sample_expansion 3, 0)"
  "process_elements 3 sample_components (sample_ref 9 ''Outer'' ''N'') 2 [] True = Some (sample_expansion 2, 0)"
  by code_simp+

definition sample_rank :: "string \<Rightarrow> nat" where
  "sample_rank nm = (if nm = ''Outer'' then 1 else 0)"

section \<open>Properties\<close>

text \<open>
  C33: when the components can be numbered so that each refers to smaller ones only, the first pass
  ends on every element, and what it writes is the layout of exactly the fields and groups the
  element stands for, references to components being replaced by their contents to any depth; it
  counts an error for every reference to an unknown component.
\<close>

theorem expansion_correct:
  assumes "ranked rank cs" and "heights_within h cs" and "refs_below rank cs k x" and "xheight x + k * Suc h \<le> n"
  shows "\<exists>is e. expands cs d compon req x is e \<and> process_elements n cs x d compon req = Some (render_all d is, e)"
proof -
  obtain t e where "process_elements n cs x d compon req = Some (t, e)"
    using process_elements_ends [OF assms(1-4), of d compon req] by fastforce
  with process_elements_sound [OF this] show ?thesis by blast
qed

theorem expansion_correct_witness:
  "\<exists>is e. expands sample_components 3 [] True (sample_ref 9 ''Outer'' ''N'') is e \<and>
    process_elements 7 sample_components (sample_ref 9 ''Outer'' ''N'') 3 [] True = Some (render_all 3 is, e)"
proof (rule expansion_correct)
  show "ranked sample_rank sample_components" "heights_within 2 sample_components"
    "refs_below sample_rank sample_components 2 (sample_ref 9 ''Outer'' ''N'')"
    "xheight (sample_ref 9 ''Outer'' ''N'') + 2 * Suc 2 \<le> 7"
    by code_simp+
qed

end
